(* ===== verification/Prelude.thy ===== *)
theory Prelude
  imports Main "HOL-Library.Word" "HOL-Library.AList" "HOL-Library.Sublist" "HOL-Library.Multiset"
begin

text \<open>
  Shared vocabulary of the development: the machine types, Rust's \<open>Result\<close> as a sum,
  the integer primitives the sources use (wrapping, saturating and truncating arithmetic),
  the scanning and splitting loops the validators share, little-endian bytes, and UTF-8
  character boundaries.  The lemmas are declared into the simpset or into one of the
  collections below, so that the component theories rest on them by name or by automation.

  A Rust \<open>str\<close> is its UTF-8 byte sequence, written as a \<^typ>\<open>string\<close> (a \<^typ>\<open>char\<close> is one byte);
  binary payloads are lists of 8-bit words; \<open>usize\<close> and \<open>u64\<close> values are natural numbers with
  the wrap-around or the saturation written out where the source has it.
\<close>

unbundle bit_operations_syntax

named_theorems scan_simps \<open>facts about the first-offender scan of the validators\<close>
named_theorems byte_simps \<open>facts about little-endian bytes\<close>

type_synonym u8 = "8 word"
type_synonym u32 = "32 word"
type_synonym bytes = "u8 list"
type_synonym ('e, 'a) result = "'e + 'a"

abbreviation Err :: "'e \<Rightarrow> ('e, 'a) result" where
  "Err \<equiv> Inl"

abbreviation Ok :: "'a \<Rightarrow> ('e, 'a) result" where
  "Ok \<equiv> Inr"

section \<open>Results\<close>

text \<open>The question-mark operator: continue with the value or return the error.\<close>

definition and_then :: "('e, 'a) result \<Rightarrow> ('a \<Rightarrow> ('e, 'b) result) \<Rightarrow> ('e, 'b) result" where
  "and_then r f = (case r of Inl e \<Rightarrow> Inl e | Inr x \<Rightarrow> f x)"

lemma and_then_simps [simp]:
  "and_then (Inl e) f = Inl e"
  "and_then (Inr x) f = f x"
  by (simp_all add: and_then_def)

lemma and_then_eq_Inr [simp]: "and_then r f = Inr y \<longleftrightarrow> (\<exists>x. r = Inr x \<and> f x = Inr y)"
  by (cases r) auto

lemma and_then_eq_Inl: "and_then r f = Inl e \<longleftrightarrow> r = Inl e \<or> (\<exists>x. r = Inr x \<and> f x = Inl e)"
  by (cases r) auto

text \<open>
  Code whose asserts or \<open>expect\<close> calls can abort the thread: \<open>Panic\<close>, or \<open>Done\<close> with what it
  returns.
\<close>

datatype 'a run = Panic | Done 'a

definition run_bind :: "'a run \<Rightarrow> ('a \<Rightarrow> 'b run) \<Rightarrow> 'b run" where
  "run_bind m f = (case m of Panic \<Rightarrow> Panic | Done x \<Rightarrow> f x)"

lemma run_bind_simps [simp]: "run_bind Panic f = Panic" "run_bind (Done x) f = f x"
  by (simp_all add: run_bind_def)

lemma run_bind_Done: "run_bind m f = Done y \<longleftrightarrow> (\<exists>x. m = Done x \<and> f x = Done y)"
  by (cases m) auto

section \<open>Slices\<close>

text \<open>\<open>slice::chunks\<close>: pieces of \<open>n\<close> elements, the last one shorter; and \<open>Iterator::position\<close>.\<close>

fun chunks :: "nat \<Rightarrow> 'a list \<Rightarrow> 'a list list" where
  "chunks n [] = []"
| "chunks n (b # bs) = (b # take (n - 1) bs) # chunks n (drop (n - 1) bs)"

lemma concat_chunks: "0 < n \<Longrightarrow> concat (chunks n bs) = bs"
proof (induction n bs rule: chunks.induct)
  case (2 n b bs)
  then have "concat (chunks n (drop (n - 1) bs)) = drop (n - 1) bs" by blast
  then show ?case by simp
qed simp

lemma length_chunks: "0 < n \<Longrightarrow> c \<in> set (chunks n xs) \<Longrightarrow> length c \<le> n"
  by (induction n xs rule: chunks.induct) auto

fun position :: "('a \<Rightarrow> bool) \<Rightarrow> 'a list \<Rightarrow> nat option" where
  "position P [] = None"
| "position P (x # xs) = (if P x then Some 0 else map_option Suc (position P xs))"

lemma position_Some: "position P xs = Some i \<Longrightarrow> i < length xs \<and> P (xs ! i) \<and> (\<forall>j < i. \<not> P (xs ! j))"
proof (induction xs arbitrary: i)
  case (Cons x xs)
  then show ?case by (auto split: if_splits simp: less_Suc_eq_0_disj)
qed simp

lemma position_None: "position P xs = None \<longleftrightarrow> (\<forall>x \<in> set xs. \<not> P x)"
  by (induction xs) auto

section \<open>Integer primitives\<close>

abbreviation u64_max :: nat where
  "u64_max \<equiv> 2 ^ 64 - 1"

definition wrapping_add64 :: "nat \<Rightarrow> nat \<Rightarrow> nat" where
  "wrapping_add64 a b = (a + b) mod 2 ^ 64"

definition saturating_add64 :: "nat \<Rightarrow> nat \<Rightarrow> nat" where
  "saturating_add64 a b = min (a + b) u64_max"

text \<open>Subtraction on \<^typ>\<open>nat\<close> stops at zero, which is what \<open>saturating_sub\<close> does.\<close>

definition saturating_sub :: "nat \<Rightarrow> nat \<Rightarrow> nat" where
  "saturating_sub a b = a - b"

text \<open>Signed division rounds towards zero.\<close>

definition rust_div :: "int \<Rightarrow> int \<Rightarrow> int" where
  "rust_div n d = (let q = \<bar>n\<bar> div \<bar>d\<bar> in if (0 \<le> n) = (0 \<le> d) then q else - q)"

lemma saturating_sub_simps [simp]:
  "saturating_sub a 0 = a"
  "saturating_sub 0 b = 0"
  "saturating_sub a a = 0"
  by (simp_all add: saturating_sub_def)

lemma saturating_sub_le [simp]: "saturating_sub a b \<le> a"
  by (simp add: saturating_sub_def)

lemma wrapping_add64_exact: "a + b < 2 ^ 64 \<Longrightarrow> wrapping_add64 a b = a + b"
  by (simp add: wrapping_add64_def)

lemma saturating_add64_exact: "a + b < 2 ^ 64 \<Longrightarrow> saturating_add64 a b = a + b"
  by (simp add: saturating_add64_def)

lemma saturating_add64_le: "a \<le> u64_max \<Longrightarrow> a \<le> saturating_add64 a b"
  by (simp add: saturating_add64_def)

lemma saturating_add64_bound [simp]: "saturating_add64 a b \<le> u64_max"
  by (simp add: saturating_add64_def)

lemma rust_div_nonneg: "0 \<le> a \<Longrightarrow> 0 < b \<Longrightarrow> rust_div a b = a div b"
  by (simp add: rust_div_def)

lemma rust_div_neg: "a < 0 \<Longrightarrow> 0 < b \<Longrightarrow> rust_div a b = - ((- a) div b)"
  by (simp add: rust_div_def)

lemma rust_div_mono:
  assumes "a \<le> a'" and "0 < b"
  shows "rust_div a b \<le> rust_div a' b"
proof (cases "0 \<le> a")
  case True
  with assms show ?thesis by (simp add: rust_div_nonneg zdiv_mono1)
next
  case a: False
  show ?thesis
  proof (cases "0 \<le> a'")
    case True
    from a assms have "0 \<le> (- a) div b" by (simp add: pos_imp_zdiv_nonneg_iff)
    moreover from True assms have "0 \<le> a' div b" by (simp add: pos_imp_zdiv_nonneg_iff)
    ultimately show ?thesis using a True assms by (simp add: rust_div_nonneg rust_div_neg)
  next
    case False
    with a assms show ?thesis by (simp add: rust_div_neg zdiv_mono1)
  qed
qed

text \<open>The ring index \<open>x & (2^k - 1)\<close> is the remainder modulo the capacity.\<close>

lemma and_pow2_mask: "(x::nat) AND (2 ^ k - 1) = x mod 2 ^ k"
  by (simp only: mask_eq_exp_minus_1 [symmetric] take_bit_eq_mask [symmetric] take_bit_eq_mod)

section \<open>The first-offender scan\<close>

text \<open>
  The validators walk a byte string with its indices and return on the first byte the
  predicate rejects; the index starts at \<open>i\<close>.
\<close>

fun first_bad :: "(nat \<Rightarrow> 'a \<Rightarrow> bool) \<Rightarrow> nat \<Rightarrow> 'a list \<Rightarrow> (nat \<times> 'a) option" where
  "first_bad ok i [] = None"
| "first_bad ok i (x # xs) = (if ok i x then first_bad ok (Suc i) xs else Some (i, x))"

lemma first_bad_None [scan_simps]:
  "first_bad ok i xs = None \<longleftrightarrow> (\<forall>j < length xs. ok (i + j) (xs ! j))"
proof (induction xs arbitrary: i)
  case Nil
  show ?case by simp
next
  case (Cons x xs)
  then show ?case by (auto simp: nth_Cons less_Suc_eq_0_disj split: nat.splits)
qed

lemma first_bad_Some [scan_simps]:
  "first_bad ok i xs = Some (j, x) \<longleftrightarrow>
     (\<exists>k < length xs. j = i + k \<and> x = xs ! k \<and> \<not> ok j x \<and> (\<forall>l < k. ok (i + l) (xs ! l)))"
proof (induction xs arbitrary: i)
  case Nil
  show ?case by simp
next
  case (Cons y ys)
  show ?case
  proof (cases "ok i y")
    case True
    then show ?thesis
      by (auto simp: Cons.IH less_Suc_eq_0_disj) (metis nth_Cons_Suc add_Suc_right)+
  next
    case False
    then show ?thesis by (auto simp: less_Suc_eq_0_disj)
  qed
qed

text \<open>The scan with a predicate on the byte alone.\<close>

lemma first_bad_all [scan_simps]:
  "first_bad (\<lambda>_. ok) i xs = None \<longleftrightarrow> list_all ok xs"
  by (induction xs arbitrary: i) auto

text \<open>A validator that reports the first offender succeeds exactly when there is none.\<close>

lemma first_bad_guard [scan_simps]:
  "(case first_bad ok i xs of None \<Rightarrow> r | Some (j, b) \<Rightarrow> Inl (f j b)) = Inr x \<longleftrightarrow>
     (\<forall>j < length xs. ok (i + j) (xs ! j)) \<and> r = Inr x"
  using first_bad_None [of ok i xs] by (cases "first_bad ok i xs") auto

lemma first_bad_guard_all [scan_simps]:
  "(case first_bad (\<lambda>_. ok) i xs of None \<Rightarrow> r | Some (j, b) \<Rightarrow> Inl (f j b)) = Inr x \<longleftrightarrow>
     list_all ok xs \<and> r = Inr x"
  using first_bad_all [of ok i xs] by (cases "first_bad (\<lambda>_. ok) i xs") auto

section \<open>Splitting at a separator\<close>

text \<open>
  Rust's \<open>str::split\<close> with one character: one component per separated slot, empty components
  included, and the empty string gives one empty component.
\<close>

fun split_on :: "'a \<Rightarrow> 'a list \<Rightarrow> 'a list list" where
  "split_on c [] = [[]]"
| "split_on c (x # xs) =
     (if x = c then [] # split_on c xs
      else (case split_on c xs of [] \<Rightarrow> [[x]] | y # ys \<Rightarrow> (x # y) # ys))"

fun join_with :: "'a \<Rightarrow> 'a list list \<Rightarrow> 'a list" where
  "join_with c [] = []"
| "join_with c [y] = y"
| "join_with c (y # z # zs) = y @ c # join_with c (z # zs)"

lemma split_on_not_Nil [simp]: "split_on c xs \<noteq> []"
  by (cases xs) (auto split: list.splits)

lemma split_on_no_sep: "y \<in> set (split_on c xs) \<Longrightarrow> c \<notin> set y"
proof (induction xs arbitrary: y)
  case Nil
  then show ?case by simp
next
  case (Cons x xs)
  then show ?case by (auto split: if_splits list.splits)
qed

lemma join_split_on [simp]: "join_with c (split_on c xs) = xs"
proof (induction xs)
  case Nil
  show ?case by simp
next
  case (Cons x xs)
  obtain y ys where s: "split_on c xs = y # ys"
    by (metis split_on_not_Nil neq_Nil_conv)
  with Cons show ?case by (cases ys) auto
qed

lemma length_split_on: "length (split_on c xs) = Suc (count_list xs c)"
proof (induction xs)
  case Nil
  show ?case by simp
next
  case (Cons x xs)
  then show ?case by (cases "split_on c xs") auto
qed

lemma split_on_nosep: "c \<notin> set xs \<Longrightarrow> split_on c xs = [xs]"
  by (induction xs) auto

lemma split_on_append: "c \<notin> set xs \<Longrightarrow> split_on c (xs @ c # ys) = xs # split_on c ys"
  by (induction xs) auto

lemma set_split_on: "set xs \<subseteq> insert c (\<Union> (set ` set (split_on c xs)))"
proof (induction xs)
  case Nil
  show ?case by simp
next
  case (Cons x xs)
  then show ?case by (cases "split_on c xs") auto
qed

section \<open>Little-endian bytes\<close>

definition u32_to_le_bytes :: "u32 \<Rightarrow> bytes" where
  "u32_to_le_bytes w = [ucast w, ucast (drop_bit 8 w), ucast (drop_bit 16 w), ucast (drop_bit 24 w)]"

definition u32_from_le_bytes :: "bytes \<Rightarrow> u32" where
  "u32_from_le_bytes bs =
     (case bs of
        [a, b, c, d] \<Rightarrow> ucast a OR push_bit 8 (ucast b) OR push_bit 16 (ucast c) OR push_bit 24 (ucast d)
      | _ \<Rightarrow> 0)"

lemma length_u32_to_le_bytes [simp, byte_simps]: "length (u32_to_le_bytes w) = 4"
  by (simp add: u32_to_le_bytes_def)

lemma u32_le_bytes_roundtrip [simp, byte_simps]: "u32_from_le_bytes (u32_to_le_bytes w) = w"
proof (rule bit_word_eqI)
  fix n
  assume n: "n < LENGTH(32)"
  consider "n < 8" | "8 \<le> n" "n < 16" | "16 \<le> n" "n < 24" | "24 \<le> n" by linarith
  then show "bit (u32_from_le_bytes (u32_to_le_bytes w)) n = bit w n"
    using n
    by cases (auto simp: u32_from_le_bytes_def u32_to_le_bytes_def bit_or_iff bit_push_bit_iff
        bit_drop_bit_eq bit_ucast_iff)
qed

lemma u32_to_le_bytes_inj [simp]: "u32_to_le_bytes v = u32_to_le_bytes w \<longleftrightarrow> v = w"
  by (metis u32_le_bytes_roundtrip)

section \<open>UTF-8 character boundaries\<close>

text \<open>
  A continuation byte is \<open>10xxxxxx\<close>.  \<open>str::is_char_boundary\<close> holds at the two ends and at
  every byte that does not continue a character, and fails past the end.
\<close>

definition is_cont :: "char \<Rightarrow> bool" where
  "is_cont c \<longleftrightarrow> 128 \<le> (of_char c :: nat) \<and> (of_char c :: nat) < 192"

definition is_char_boundary :: "string \<Rightarrow> nat \<Rightarrow> bool" where
  "is_char_boundary s i \<longleftrightarrow>
     i = 0 \<or> i = length s \<or> (i < length s \<and> \<not> is_cont (s ! i))"

text \<open>
  One encoded scalar value, after the table of well-formed UTF-8 byte sequences of the Unicode
  standard (no overlong forms, no surrogates, nothing above U+10FFFF).
\<close>

fun utf8_scalar :: "nat list \<Rightarrow> bool" where
  "utf8_scalar [a] = (a < 128)"
| "utf8_scalar [a, b] = (194 \<le> a \<and> a \<le> 223 \<and> 128 \<le> b \<and> b < 192)"
| "utf8_scalar [a, b, c] =
     (128 \<le> c \<and> c < 192 \<and>
      (if a = 224 then 160 \<le> b \<and> b < 192
       else if a = 237 then 128 \<le> b \<and> b < 160
       else 225 \<le> a \<and> a \<le> 239 \<and> 128 \<le> b \<and> b < 192))"
| "utf8_scalar [a, b, c, d] =
     (128 \<le> c \<and> c < 192 \<and> 128 \<le> d \<and> d < 192 \<and>
      (if a = 240 then 144 \<le> b \<and> b < 192
       else if a = 244 then 128 \<le> b \<and> b < 144
       else 241 \<le> a \<and> a \<le> 243 \<and> 128 \<le> b \<and> b < 192))"
| "utf8_scalar _ = False"

definition utf8_char :: "string \<Rightarrow> bool" where
  "utf8_char cs = utf8_scalar (map of_char cs)"

text \<open>A valid \<open>str\<close>: a sequence of encoded characters.\<close>

inductive utf8 :: "string \<Rightarrow> bool" where
  utf8_Nil: "utf8 []"
| utf8_app: "utf8_char cs \<Longrightarrow> utf8 s \<Longrightarrow> utf8 (cs @ s)"

lemma utf8_char_cases:
  assumes "utf8_char cs"
  obtains c rest where "cs = c # rest" and "length rest \<le> 3" and "\<not> is_cont c"
    and "\<forall>x \<in> set rest. is_cont x"
proof -
  from assms have "\<exists>c rest. cs = c # rest \<and> length rest \<le> 3 \<and> \<not> is_cont c \<and> (\<forall>x \<in> set rest. is_cont x)"
    unfolding utf8_char_def
    by (cases "map (of_char :: char \<Rightarrow> nat) cs" rule: utf8_scalar.cases)
      (auto simp: is_cont_def split: if_splits)
  then show thesis using that by blast
qed

text \<open>A prefix cut at a boundary of a valid string is a valid string.\<close>

lemma utf8_append: "utf8 s \<Longrightarrow> utf8 t \<Longrightarrow> utf8 (s @ t)"
  by (induction rule: utf8.induct) (auto intro: utf8.intros)

lemma utf8_take_boundary: "utf8 s \<Longrightarrow> i \<le> length s \<Longrightarrow> is_char_boundary s i \<Longrightarrow> utf8 (take i s)"
proof (induction arbitrary: i rule: utf8.induct)
  case utf8_Nil
  then show ?case by (simp add: utf8.utf8_Nil)
next
  case (utf8_app cs s)
  from utf8_app.hyps(1) obtain c rest where cs: "cs = c # rest" and rest: "\<forall>x \<in> set rest. is_cont x"
    by (rule utf8_char_cases)
  consider "i = 0" | "0 < i" "i < length cs" | "length cs \<le> i" by linarith
  then show ?case
  proof cases
    case 1
    then show ?thesis by (simp add: utf8.utf8_Nil)
  next
    case 2
    then have "(cs @ s) ! i = cs ! i" by (simp add: nth_append)
    also have "\<dots> = rest ! (i - 1)" using 2 cs by (simp add: nth_Cons')
    finally have "(cs @ s) ! i = rest ! (i - 1)" .
    moreover have "is_cont (rest ! (i - 1))" using 2 cs rest by simp
    ultimately show ?thesis using utf8_app.prems 2 by (simp add: is_char_boundary_def)
  next
    case 3
    then have "is_char_boundary s (i - length cs)"
      using utf8_app.prems by (auto simp: is_char_boundary_def nth_append)
    then have "utf8 (take (i - length cs) s)" using utf8_app.IH utf8_app.prems 3 by simp
    then show ?thesis using 3 utf8_app.hyps(1) by (simp add: utf8.utf8_app)
  qed
qed

text \<open>Among any four adjacent positions inside a valid string one is a boundary.\<close>

lemma utf8_boundary_near: "utf8 s \<Longrightarrow> i \<le> length s \<Longrightarrow> \<exists>j \<le> i. i \<le> j + 3 \<and> is_char_boundary s j"
proof (induction arbitrary: i rule: utf8.induct)
  case utf8_Nil
  then show ?case by (auto simp: is_char_boundary_def)
next
  case (utf8_app cs s)
  from utf8_app.hyps(1) obtain c rest where cs: "cs = c # rest" "length rest \<le> 3"
    by (rule utf8_char_cases)
  show ?case
  proof (cases "i < length cs")
    case True
    then have "i \<le> 0 + 3" using cs by simp
    then show ?thesis by (intro exI [of _ 0]) (simp add: is_char_boundary_def)
  next
    case False
    then obtain j where j: "j \<le> i - length cs" "i - length cs \<le> j + 3" "is_char_boundary s j"
      using utf8_app.IH [of "i - length cs"] utf8_app.prems by fastforce
    have "is_char_boundary (cs @ s) (length cs + j)"
    proof (cases "j = 0")
      case j0: True
      show ?thesis
      proof (cases s)
        case Nil
        then show ?thesis using j0 by (simp add: is_char_boundary_def)
      next
        case (Cons d ds)
        from utf8_app.hyps(2) Cons have "\<not> is_cont d"
          by (cases rule: utf8.cases) (auto elim!: utf8_char_cases simp: append_eq_Cons_conv)
        then show ?thesis using j0 Cons by (simp add: is_char_boundary_def nth_append)
      qed
    next
      case False
      then show ?thesis using j(3) by (auto simp: is_char_boundary_def nth_append)
    qed
    then show ?thesis using j False by (intro exI [of _ "length cs + j"]) auto
  qed
qed

text \<open>The loop \<open>while idx > 0 && !m.is_char_boundary(idx) { idx -= 1 }\<close>.\<close>

fun snap_down :: "string \<Rightarrow> nat \<Rightarrow> nat" where
  "snap_down m 0 = 0"
| "snap_down m (Suc i) = (if is_char_boundary m (Suc i) then Suc i else snap_down m i)"

lemma snap_down_le [simp]: "snap_down m i \<le> i"
  by (induction i) (auto simp: le_SucI)

lemma snap_down_boundary [simp]: "is_char_boundary m (snap_down m i)"
  by (induction i) (auto simp: is_char_boundary_def)

lemma snap_down_ge: "j \<le> i \<Longrightarrow> is_char_boundary m j \<Longrightarrow> j \<le> snap_down m i"
  by (induction i) (auto simp: le_Suc_eq)

lemma snap_down_near: "utf8 m \<Longrightarrow> i \<le> length m \<Longrightarrow> i \<le> snap_down m i + 3"
  using utf8_boundary_near [of m i] snap_down_ge by fastforce

lemma utf8_take_snap_down: "utf8 m \<Longrightarrow> i \<le> length m \<Longrightarrow> utf8 (take (snap_down m i) m)"
  by (rule utf8_take_boundary) (auto intro: le_trans [OF snap_down_le])

lemma utf8_ascii: "list_all (\<lambda>c. (of_char c :: nat) < 128) s \<Longrightarrow> utf8 s"
proof (induction s)
  case Nil
  show ?case by (rule utf8.utf8_Nil)
next
  case (Cons c s)
  then have "utf8_char [c]" and "utf8 s" by (simp_all add: utf8_char_def)
  then have "utf8 ([c] @ s)" by (rule utf8.utf8_app)
  then show ?case by simp
qed

section \<open>Prefixes, suffixes and the order of texts\<close>

definition starts_with :: "string \<Rightarrow> string \<Rightarrow> bool" where
  "starts_with pre name \<longleftrightarrow> prefix pre name"

definition ends_with :: "string \<Rightarrow> string \<Rightarrow> bool" where
  "ends_with suf name \<longleftrightarrow> suffix suf name"

definition strip_prefix :: "string \<Rightarrow> string \<Rightarrow> string option" where
  "strip_prefix pre s = (if prefix pre s then Some (drop (length pre) s) else None)"

text \<open>Texts compare by bytes.\<close>

fun str_less :: "string \<Rightarrow> string \<Rightarrow> bool" where
  "str_less s [] = False"
| "str_less [] (c # cs) = True"
| "str_less (c # cs) (d # ds) =
     ((of_char c :: nat) < of_char d \<or> c = d \<and> str_less cs ds)"

text \<open>A stable sort by a strict order.\<close>

fun insert_by :: "('a \<Rightarrow> 'a \<Rightarrow> bool) \<Rightarrow> 'a \<Rightarrow> 'a list \<Rightarrow> 'a list" where
  "insert_by before x [] = [x]"
| "insert_by before x (y # ys) = (if before y x then y # insert_by before x ys else x # y # ys)"

definition sort_by :: "('a \<Rightarrow> 'a \<Rightarrow> bool) \<Rightarrow> 'a list \<Rightarrow> 'a list" where
  "sort_by before xs = foldr (insert_by before) xs []"

lemma mset_insert_by [simp]: "mset (insert_by before x ys) = add_mset x (mset ys)"
  by (induction ys) auto

lemma mset_sort_by [simp]: "mset (sort_by before xs) = mset xs"
  by (induction xs) (auto simp: sort_by_def)

lemma set_sort_by [simp]: "set (sort_by before xs) = set xs"
  by (metis mset_sort_by set_mset_mset)

lemma str_less_irrefl [simp]: "\<not> str_less s s"
  by (induction s) auto

lemma str_less_trans: "str_less s t \<Longrightarrow> str_less t u \<Longrightarrow> str_less s u"
proof (induction s t arbitrary: u rule: str_less.induct)
  case (3 c cs d ds)
  then show ?case by (cases u) auto
next
  case (2 c cs)
  then show ?case by (cases u) auto
qed simp

lemma str_less_total: "s \<noteq> t \<Longrightarrow> str_less s t \<or> str_less t s"
proof (induction s t rule: str_less.induct)
  case (1 s)
  then show ?case by (cases s) auto
next
  case (3 c cs d ds)
  have "(of_char c :: nat) < of_char d \<or> c = d \<or> (of_char d :: nat) < of_char c"
    by (metis linorder_neqE_nat of_char_eq_iff)
  with 3 show ?case by auto
qed simp

text \<open>For a strict order that is total on the list, the sort puts no element before one it should follow.\<close>

definition total_order_on_list :: "('a \<Rightarrow> 'a \<Rightarrow> bool) \<Rightarrow> 'a list \<Rightarrow> bool" where
  "total_order_on_list before xs \<longleftrightarrow>
     transp before \<and> irreflp before \<and> (\<forall>x \<in> set xs. \<forall>y \<in> set xs. before x y \<or> x = y \<or> before y x)"

lemma sorted_insert_by:
  assumes "total_order_on_list before (x # ys)" and "sorted_wrt (\<lambda>x y. \<not> before y x) ys"
  shows "sorted_wrt (\<lambda>x y. \<not> before y x) (insert_by before x ys)"
  using assms
proof (induction ys)
  case (Cons y ys)
  have tr: "before a c" if "before a b" "before b c" for a b c
    using Cons.prems(1) that unfolding total_order_on_list_def by (meson transpD)
  have ir: "\<not> before a a" for a using Cons.prems(1) unfolding total_order_on_list_def by (meson irreflpD)
  have set: "set (insert_by before x ys) = insert x (set ys)"
    by (metis mset_insert_by set_mset_add_mset_insert set_mset_mset)
  have ih: "sorted_wrt (\<lambda>x y. \<not> before y x) (insert_by before x ys)"
    using Cons.IH Cons.prems by (simp add: total_order_on_list_def)
  show ?case
  proof (cases "before y x")
    case True
    then have "\<not> before x y" using tr ir by blast
    then show ?thesis using True ih set Cons.prems(2) by auto
  next
    case False
    have "\<not> before z x" if "z \<in> set ys" for z
    proof
      assume "before z x"
      moreover have "before x y \<or> x = y" using False Cons.prems(1) by (auto simp: total_order_on_list_def)
      ultimately have "before z y" using tr by blast
      then show False using that Cons.prems(2) by simp
    qed
    then show ?thesis using False Cons.prems(2) by auto
  qed
qed simp

lemma sorted_sort_by:
  assumes "total_order_on_list before xs"
  shows "sorted_wrt (\<lambda>x y. \<not> before y x) (sort_by before xs)"
  using assms
proof (induction xs)
  case (Cons x xs)
  have "total_order_on_list before (x # sort_by before xs)" "total_order_on_list before xs"
    using Cons.prems by (simp_all add: total_order_on_list_def)
  then show ?case using Cons.IH sorted_insert_by by (auto simp: sort_by_def)
qed (simp add: sort_by_def)

end
