(* ===== verification/Audio_Buffer.thy ===== *)
theory Audio_Buffer
  imports Prelude
begin

text \<open>
  \<^verbatim>\<open>audio_buffer.rs\<close>: the single-writer, multi-reader sample ring.  A sample is the bit pattern
  the cell stores (\<open>f32::to_bits\<close>), so \<open>push\<close> and \<open>peek_into\<close> move bit patterns.  The first part is
  the operations as the code has them, with their asserts as panics, and their refinement of
  an abstract history of samples.  The second part takes one \<open>push\<close> and one \<open>peek_into\<close> apart into
  their memory accesses and shows that no interleaving of them makes a reader return \<open>Ready\<close> with
  anything but the samples it asked for.
\<close>

section \<open>State and operations\<close>

record audio_ring =
  ar_data :: "u32 list"
  ar_capacity :: nat
  ar_capacity_minus_margin :: nat
  ar_safety_margin :: nat
  ar_writer_taken :: bool
  ar_head :: nat

datatype read_status = Ready | Wait | Lagged nat

fun is_power_of_two :: "nat \<Rightarrow> bool" where
  "is_power_of_two n = (if n < 2 then n = 1 else even n \<and> is_power_of_two (n div 2))"

declare is_power_of_two.simps [simp del]

definition audio_buffer_new :: "nat \<Rightarrow> audio_ring run" where
  "audio_buffer_new capacity =
     (if \<not> (capacity \<ge> 4 \<and> is_power_of_two capacity) then Panic
      else let safety_margin = capacity div 4 in
        Done \<lparr>ar_data = replicate capacity 0, ar_capacity = capacity,
              ar_capacity_minus_margin = capacity - safety_margin, ar_safety_margin = safety_margin,
              ar_writer_taken = False, ar_head = 0\<rparr>)"

text \<open>\<open>take_writer\<close> swaps the flag and panics if it was set; dropping the writer clears it.\<close>

definition take_writer :: "audio_ring \<Rightarrow> audio_ring run" where
  "take_writer r = (if ar_writer_taken r then Panic else Done (r\<lparr>ar_writer_taken := True\<rparr>))"

definition drop_writer :: "audio_ring \<Rightarrow> audio_ring" where
  "drop_writer r = r\<lparr>ar_writer_taken := False\<rparr>"

text \<open>A reader is its tail.\<close>

definition reader_live :: "audio_ring \<Rightarrow> nat" where
  "reader_live r = ar_head r"

definition reader_at :: "audio_ring \<Rightarrow> nat \<Rightarrow> nat" where
  "reader_at r behind_head = saturating_sub (ar_head r) behind_head"

text \<open>Overwrite a stretch of cells from index \<open>i\<close>.\<close>

definition blit :: "nat \<Rightarrow> 'a list \<Rightarrow> 'a list \<Rightarrow> 'a list" where
  "blit i ys xs = take i xs @ ys @ drop (i + length ys) xs"

definition ring_push :: "audio_ring \<Rightarrow> u32 list \<Rightarrow> audio_ring run" where
  "ring_push r samples =
     (let n = length samples in
      if n = 0 then Done r
      else if n > ar_safety_margin r then Panic
      else let cap = ar_capacity r;
               head = ar_head r;
               start = head AND (cap - 1);
               first = min (cap - start) n;
               head_part = take first samples;
               wrap_part = drop first samples
           in Done (r\<lparr>ar_data := blit 0 wrap_part (blit start head_part (ar_data r)),
                      ar_head := wrapping_add64 head n\<rparr>))"

definition peek_into :: "audio_ring \<Rightarrow> nat \<Rightarrow> u32 list \<Rightarrow> (read_status \<times> u32 list) run" where
  "peek_into r tail out =
     (let n = length out in
      if n = 0 then Done (Ready, out)
      else if n > ar_capacity_minus_margin r then Panic
      else let cap = ar_capacity r;
               cmm = ar_capacity_minus_margin r;
               h0 = ar_head r;
               avail = saturating_sub h0 tail
           in if avail < n then Done (Wait, out)
              else if avail > cmm then Done (Lagged avail, out)
              else let start = tail AND (cap - 1);
                       first = min (cap - start) n;
                       out' = take first (drop start (ar_data r)) @ take (n - first) (ar_data r);
                       avail1 = saturating_sub (ar_head r) tail
                   in if avail1 \<le> cmm then Done (Ready, out') else Done (Lagged avail1, out'))"

definition reader_advance :: "audio_ring \<Rightarrow> nat \<Rightarrow> nat \<Rightarrow> nat run" where
  "reader_advance r tail n =
     (let tail' = saturating_add64 tail n in if tail' \<le> ar_head r then Done tail' else Panic)"

definition seek_latest :: "audio_ring \<Rightarrow> nat \<Rightarrow> nat" where
  "seek_latest r n = saturating_sub (ar_head r) n"

definition reader_available :: "audio_ring \<Rightarrow> nat \<Rightarrow> nat" where
  "reader_available r tail = saturating_sub (ar_head r) tail"

section \<open>Shape and ring arithmetic\<close>

lemma is_power_of_two_exp: "is_power_of_two n \<Longrightarrow> \<exists>k. n = 2 ^ k"
proof (induction n rule: is_power_of_two.induct)
  case (1 n)
  show ?case
  proof (cases "n = 1")
    case True
    then show ?thesis by (intro exI [of _ 0]) simp
  next
    case False
    with "1.prems" have n: "2 \<le> n" "even n" "is_power_of_two (n div 2)"
      by (auto simp: is_power_of_two.simps [of n] split: if_splits)
    with "1.IH" obtain k where "n div 2 = 2 ^ k" by auto
    with n(2) have "n = 2 ^ Suc k" by auto
    then show ?thesis ..
  qed
qed

lemma is_power_of_two_pow: "is_power_of_two (2 ^ k)"
  by (induction k) (simp_all add: is_power_of_two.simps)

definition ring_shape :: "audio_ring \<Rightarrow> bool" where
  "ring_shape r \<longleftrightarrow>
     4 \<le> ar_capacity r \<and> is_power_of_two (ar_capacity r) \<and> length (ar_data r) = ar_capacity r \<and>
     ar_safety_margin r = ar_capacity r div 4 \<and>
     ar_capacity_minus_margin r = ar_capacity r - ar_safety_margin r"

lemma ring_shape_mask: "ring_shape r \<Longrightarrow> x AND (ar_capacity r - Suc 0) = x mod ar_capacity r"
proof -
  assume "ring_shape r"
  then obtain k where "ar_capacity r = 2 ^ k"
    by (auto simp: ring_shape_def dest: is_power_of_two_exp)
  then show ?thesis by (simp only: and_pow2_mask One_nat_def [symmetric])
qed

lemma ring_shape_sizes:
  assumes "ring_shape r"
  shows "0 < ar_safety_margin r" and "ar_safety_margin r < ar_capacity_minus_margin r"
    and "ar_capacity_minus_margin r + ar_safety_margin r = ar_capacity r" and "0 < ar_capacity r"
  using assms by (auto simp: ring_shape_def)

lemma length_blit: "i + length ys \<le> length xs \<Longrightarrow> length (blit i ys xs) = length xs"
  by (simp add: blit_def)

lemma nth_blit:
  "i + length ys \<le> length xs \<Longrightarrow> j < length xs \<Longrightarrow>
     blit i ys xs ! j = (if i \<le> j \<and> j < i + length ys then ys ! (j - i) else xs ! j)"
  by (auto simp: blit_def nth_append)

lemma mod_add_wrap:
  "k \<le> (c::nat) \<Longrightarrow> 0 < c \<Longrightarrow>
     (h + k) mod c = (if h mod c + k < c then h mod c + k else h mod c + k - c)"
proof -
  assume k: "k \<le> c" and c: "0 < c"
  have "h mod c < c" using c by simp
  then have "h mod c + k < 2 * c" using k by linarith
  moreover have "(h + k) mod c = (h mod c + k) mod c" by (simp add: mod_add_left_eq)
  ultimately show ?thesis by (simp add: le_mod_geq mod_less)
qed

text \<open>Two positions less than a capacity apart use different cells.\<close>

lemma ring_cells_distinct: "p < q \<Longrightarrow> q < p + c \<Longrightarrow> p mod c \<noteq> q mod (c::nat)"
proof
  assume pq: "p < q" "q < p + c" and eq: "p mod c = q mod c"
  then have "c dvd q - p" by (metis mod_eq_dvd_iff_nat less_imp_le)
  with pq show False by (auto dest: dvd_imp_le)
qed

text \<open>The two-piece write of \<open>push\<close> is the cell-by-cell write at \<open>(head + k) mod capacity\<close>.\<close>

definition ring_write :: "nat \<Rightarrow> u32 list \<Rightarrow> u32 list \<Rightarrow> u32 list" where
  "ring_write head samples xs =
     (let start = head mod length xs; first = min (length xs - start) (length samples)
      in blit 0 (drop first samples) (blit start (take first samples) xs))"

lemma ring_write_pieces:
  fixes h :: nat and samples xs :: "u32 list"
  assumes "length samples \<le> length xs" and "0 < length xs"
  defines "start \<equiv> h mod length xs"
  defines "first \<equiv> min (length xs - start) (length samples)"
  shows "length (ring_write h samples xs) = length xs"
    and "j < length xs \<Longrightarrow> ring_write h samples xs ! j =
           (if j < length samples - first then samples ! (first + j)
            else if start \<le> j \<and> j < start + first then samples ! (j - start)
            else xs ! j)"
proof -
  have start: "start < length xs" unfolding start_def using assms(2) by simp
  have first: "first \<le> length samples" "start + first \<le> length xs"
    unfolding first_def using start by simp_all
  have inner: "length (blit start (take first samples) xs) = length xs"
    using first by (intro length_blit) (simp add: min_def)
  have rw: "ring_write h samples xs = blit 0 (drop first samples) (blit start (take first samples) xs)"
    by (simp only: ring_write_def Let_def start_def first_def)
  show "length (ring_write h samples xs) = length xs"
    unfolding rw using inner assms(1) by (subst length_blit) simp_all
  assume j: "j < length xs"
  show "ring_write h samples xs ! j =
           (if j < length samples - first then samples ! (first + j)
            else if start \<le> j \<and> j < start + first then samples ! (j - start)
            else xs ! j)"
    unfolding rw using inner assms(1) first j
    by (auto simp: nth_blit min_absorb2)
qed

lemma ring_write_hit:
  assumes "length samples \<le> length xs" and "k < length samples"
  shows "ring_write h samples xs ! ((h + k) mod length xs) = samples ! k"
proof -
  define c where "c = length xs"
  define s where "s = h mod c"
  define f where "f = min (c - s) (length samples)"
  have c: "0 < c" and kc: "k < c" "length samples \<le> c" using assms by (auto simp: c_def)
  then have s: "s < c" by (simp add: s_def)
  have idx: "(h + k) mod c = (if s + k < c then s + k else s + k - c)"
    using mod_add_wrap [of k c h] kc c by (simp add: s_def)
  have nth: "ring_write h samples xs ! ((h + k) mod c) =
      (if (h + k) mod c < length samples - f then samples ! (f + (h + k) mod c)
       else if s \<le> (h + k) mod c \<and> (h + k) mod c < s + f then samples ! ((h + k) mod c - s)
       else xs ! ((h + k) mod c))"
    unfolding f_def s_def c_def using assms c
    by (intro ring_write_pieces(2) mod_less_divisor) (auto simp: c_def)
  show ?thesis
  proof (cases "s + k < c")
    case True
    then have "k < f" using assms(2) by (simp add: f_def)
    moreover have "length samples - f \<le> s" using kc unfolding f_def min_def by (split if_split) linarith
    ultimately show ?thesis using nth idx True by (simp add: c_def)
  next
    case False
    then have "f = c - s" using assms(2) s by (simp add: f_def)
    moreover have "s + k - c < length samples - (c - s)" using False assms(2) s by linarith
    moreover have "c - s + (s + k - c) = k" using False s by linarith
    ultimately show ?thesis using nth idx False by (simp add: c_def)
  qed
qed

lemma ring_write_miss:
  assumes "length samples \<le> length xs" and j: "j < length xs"
    and miss: "\<forall>k < length samples. (h + k) mod length xs \<noteq> j"
  shows "ring_write h samples xs ! j = xs ! j"
proof -
  define c where "c = length xs"
  define s where "s = h mod c"
  define f where "f = min (c - s) (length samples)"
  have c: "0 < c" "j < c" "length samples \<le> c" using assms by (auto simp: c_def)
  then have s: "s < c" by (simp add: s_def)
  have idx: "(h + k) mod c = (if s + k < c then s + k else s + k - c)" if "k < length samples" for k
    using mod_add_wrap [of k c h] that c by (simp add: s_def)
  have "\<not> j < length samples - f"
  proof
    assume jf: "j < length samples - f"
    then have "f = c - s" by (simp add: f_def min_def split: if_splits)
    then have "f + j < length samples" and "(h + (f + j)) mod c = j"
      using jf s idx [of "f + j"] by auto
    then show False using miss by (auto simp: c_def)
  qed
  moreover have "\<not> (s \<le> j \<and> j < s + f)"
  proof
    assume "s \<le> j \<and> j < s + f"
    then have "j - s < length samples" and "(h + (j - s)) mod c = j"
      using idx [of "j - s"] c(2) by (auto simp: f_def)
    then show False using miss by (auto simp: c_def)
  qed
  moreover have "ring_write h samples xs ! j =
      (if j < length samples - f then samples ! (f + j)
       else if s \<le> j \<and> j < s + f then samples ! (j - s) else xs ! j)"
    unfolding f_def s_def c_def using assms(1) j by (intro ring_write_pieces(2)) auto
  ultimately show ?thesis by auto
qed

text \<open>The two-piece read of \<open>peek_into\<close> is the cell-by-cell read at \<open>(tail + k) mod capacity\<close>.\<close>

definition ring_read :: "nat \<Rightarrow> nat \<Rightarrow> 'a list \<Rightarrow> 'a list" where
  "ring_read tail n xs = map (\<lambda>k. xs ! ((tail + k) mod length xs)) [0..<n]"

lemma ring_read_pieces:
  assumes "n \<le> length xs" and "0 < length xs"
  shows "take (min (length xs - tail mod length xs) n) (drop (tail mod length xs) xs) @
           take (n - min (length xs - tail mod length xs) n) xs = ring_read tail n xs"
proof -
  obtain s where s: "s = tail mod length xs" "s < length xs" using assms(2) by simp
  have idx: "(tail + i) mod length xs = (if s + i < length xs then s + i else s + i - length xs)"
    if "i < n" for i using mod_add_wrap [of i "length xs" tail] that assms s(1) by simp
  have "take (min (length xs - s) n) (drop s xs) @ take (n - min (length xs - s) n) xs =
      map (\<lambda>k. xs ! ((tail + k) mod length xs)) [0..<n]"
    using s(2) assms idx
    by (intro nth_equalityI) (auto simp: nth_append min_def add.commute split: if_splits)
  then show ?thesis by (simp add: s ring_read_def)
qed

section \<open>The ring as a window on the sample history\<close>

text \<open>
  \<open>hist\<close> is every sample pushed so far.  The ring represents it when the head counts it and the
  cells hold its last \<open>capacity\<close> samples.
\<close>

definition ring_inv :: "audio_ring \<Rightarrow> u32 list \<Rightarrow> bool" where
  "ring_inv r hist \<longleftrightarrow>
     ring_shape r \<and> ar_head r = length hist \<and> length hist < 2 ^ 64 \<and>
     (\<forall>p < length hist. length hist \<le> p + ar_capacity r \<longrightarrow>
        ar_data r ! (p mod ar_capacity r) = hist ! p)"

lemma ring_invD:
  assumes "ring_inv r hist"
  shows "ring_shape r" and "ar_head r = length hist" and "length hist < 2 ^ 64"
    and "length (ar_data r) = ar_capacity r"
    and "p < length hist \<Longrightarrow> length hist \<le> p + ar_capacity r \<Longrightarrow>
           ar_data r ! (p mod ar_capacity r) = hist ! p"
  using assms by (auto simp: ring_inv_def ring_shape_def)

lemma ring_push_eq:
  assumes "ring_shape r" and "0 < length xs" and "length xs \<le> ar_safety_margin r"
  shows "ring_push r xs = Done (r\<lparr>ar_data := ring_write (ar_head r) xs (ar_data r),
                                  ar_head := wrapping_add64 (ar_head r) (length xs)\<rparr>)"
proof -
  have "length (ar_data r) = ar_capacity r" using assms(1) by (simp add: ring_shape_def)
  then show ?thesis
    using assms by (simp add: ring_push_def ring_write_def Let_def ring_shape_mask)
qed

lemma ring_shape_push:
  assumes "ring_shape r" and "ring_push r xs = Done r'"
  shows "ring_shape r'" and "ar_capacity r' = ar_capacity r"
    and "ar_writer_taken r' = ar_writer_taken r"
    and "ar_capacity_minus_margin r' = ar_capacity_minus_margin r"
    and "ar_safety_margin r' = ar_safety_margin r"
proof -
  have d: "length (ar_data r) = ar_capacity r" using assms(1) by (simp add: ring_shape_def)
  have "xs = [] \<Longrightarrow> r' = r" using assms(2) by (simp add: ring_push_def)
  moreover
  { assume "xs \<noteq> []"
    then have le: "length xs \<le> ar_safety_margin r" "0 < length xs"
      using assms(2) by (auto simp: ring_push_def Let_def split: if_splits)
    then have "r' = r\<lparr>ar_data := ring_write (ar_head r) xs (ar_data r),
                      ar_head := wrapping_add64 (ar_head r) (length xs)\<rparr>"
      using ring_push_eq [OF assms(1)] assms(2) by simp
    moreover have "length (ring_write (ar_head r) xs (ar_data r)) = length (ar_data r)"
      using le ring_shape_sizes [OF assms(1)] d by (intro ring_write_pieces(1)) auto
    ultimately have "ring_shape r' \<and> ar_capacity r' = ar_capacity r \<and>
        ar_writer_taken r' = ar_writer_taken r \<and>
        ar_capacity_minus_margin r' = ar_capacity_minus_margin r \<and>
        ar_safety_margin r' = ar_safety_margin r"
      using assms(1) by (simp add: ring_shape_def) }
  ultimately show "ring_shape r'" and "ar_capacity r' = ar_capacity r"
    and "ar_writer_taken r' = ar_writer_taken r"
    and "ar_capacity_minus_margin r' = ar_capacity_minus_margin r"
    and "ar_safety_margin r' = ar_safety_margin r"
    using assms(1) by blast+
qed

text \<open>One cell of the history after a batch was written behind it.\<close>

lemma ring_write_hist:
  assumes inv: "\<forall>p < length hist. length hist \<le> p + length cells \<longrightarrow>
      cells ! (p mod length cells) = hist ! p"
    and len: "length xs \<le> length cells"
    and p: "p < length hist + length xs" "length hist + length xs \<le> p + length cells"
  shows "ring_write (length hist) xs cells ! (p mod length cells) = (hist @ xs) ! p"
proof (cases "p < length hist")
  case False
  then obtain k where k: "p = length hist + k" "k < length xs" using p(1) by (metis add_less_cancel_left le_Suc_ex not_less)
  then show ?thesis using ring_write_hit [OF len k(2), of "length hist"] by simp
next
  case True
  have "0 < length cells" using True p(2) by (cases cells) auto
  moreover have "(length hist + k) mod length cells \<noteq> p mod length cells" if "k < length xs" for k
    using ring_cells_distinct [of p "length hist + k" "length cells"] that True p(2) by simp
  ultimately have "ring_write (length hist) xs cells ! (p mod length cells) = cells ! (p mod length cells)"
    using len by (intro ring_write_miss) auto
  then show ?thesis using inv True p(2) by (simp add: nth_append)
qed

lemma ring_inv_push:
  assumes inv: "ring_inv r hist" and push: "ring_push r xs = Done r'"
    and no_wrap: "length hist + length xs < 2 ^ 64"
  shows "ring_inv r' (hist @ xs)"
proof (cases "xs = []")
  case True
  then show ?thesis using inv push by (simp add: ring_push_def)
next
  case False
  note D = ring_invD [OF inv]
  have le: "length xs \<le> ar_safety_margin r" "0 < length xs"
    using push False by (auto simp: ring_push_def Let_def split: if_splits)
  have r': "r' = r\<lparr>ar_data := ring_write (length hist) xs (ar_data r),
                   ar_head := length hist + length xs\<rparr>"
    using ring_push_eq [OF D(1) le(2,1)] push D(2) no_wrap by (simp add: wrapping_add64_exact)
  have "length xs \<le> length (ar_data r)"
    using le(1) ring_shape_sizes [OF D(1)] D(4) by linarith
  then have "ar_data r' ! (p mod ar_capacity r') = (hist @ xs) ! p"
    if "p < length (hist @ xs)" "length (hist @ xs) \<le> p + ar_capacity r'" for p
    using that ring_write_hist [of hist "ar_data r" xs p] D(4,5) by (simp add: r')
  then show ?thesis
    using ring_shape_push(1) [OF D(1) push] no_wrap by (simp add: ring_inv_def r')
qed

lemma ring_push_Done_iff:
  "ring_push r xs = Panic \<longleftrightarrow> ar_safety_margin r < length xs"
  by (auto simp: ring_push_def Let_def)

text \<open>What \<open>peek_into\<close> answers, in terms of the history.\<close>

lemma ring_read_hist:
  assumes inv: "ring_inv r hist" and "tail + n \<le> length hist" and "length hist \<le> tail + ar_capacity r"
  shows "ring_read tail n (ar_data r) = take n (drop tail hist)"
  using assms ring_invD(4,5) [OF inv] by (intro nth_equalityI) (auto simp: ring_read_def)

lemma peek_into_spec:
  assumes inv: "ring_inv r hist" and n: "0 < length out" "length out \<le> ar_capacity_minus_margin r"
  shows "peek_into r tail out =
     Done (if length hist - tail < length out then (Wait, out)
           else if ar_capacity_minus_margin r < length hist - tail then (Lagged (length hist - tail), out)
           else (Ready, take (length out) (drop tail hist)))"
proof -
  note D = ring_invD [OF inv] and S = ring_shape_sizes [OF ring_invD(1) [OF inv]]
  have "take (min (ar_capacity r - tail mod ar_capacity r) (length out))
          (drop (tail mod ar_capacity r) (ar_data r)) @
        take (length out - min (ar_capacity r - tail mod ar_capacity r) (length out)) (ar_data r) =
        ring_read tail (length out) (ar_data r)"
    using ring_read_pieces [of "length out" "ar_data r" tail] D(4) S n(2) by simp
  then have "peek_into r tail out =
     Done (if length hist - tail < length out then (Wait, out)
           else if ar_capacity_minus_margin r < length hist - tail then (Lagged (length hist - tail), out)
           else (Ready, ring_read tail (length out) (ar_data r)))"
    using n D(2) by (simp add: peek_into_def Let_def ring_shape_mask [OF D(1)] saturating_sub_def)
  moreover have "ring_read tail (length out) (ar_data r) = take (length out) (drop tail hist)"
    if "\<not> length hist - tail < length out" "\<not> ar_capacity_minus_margin r < length hist - tail"
    using that n(1) S by (intro ring_read_hist [OF inv]) linarith+
  ultimately show ?thesis by auto
qed

lemma reader_advance_ok:
  assumes "ring_inv r hist" and "tail + n \<le> length hist"
  shows "reader_advance r tail n = Done (tail + n)"
  using assms ring_invD(2,3) [OF assms(1)]
  by (simp add: reader_advance_def saturating_add64_exact)

lemma ring_inv_new:
  assumes "audio_buffer_new cap = Done r"
  shows "ring_inv r []" and "ar_capacity r = cap"
  using assms by (auto simp: audio_buffer_new_def ring_inv_def ring_shape_def Let_def split: if_splits)

section \<open>Interface: a source of consecutive samples\<close>

text \<open>
  What the consumers of the ring (the inference engine, the Opus encoder) rely on: a \<open>Ready\<close> peek
  copies the stretch of the history at the tail, and advancing by no more than was seen moves
  the tail by exactly that.  \<open>rep\<close> relates the source to the history it serves.
\<close>

locale sample_source =
  fixes rep :: "'r \<Rightarrow> 'a list \<Rightarrow> bool"
    and peek :: "'r \<Rightarrow> nat \<Rightarrow> 'a list \<Rightarrow> (read_status \<times> 'a list) run"
    and advance :: "'r \<Rightarrow> nat \<Rightarrow> nat \<Rightarrow> nat run"
  assumes peek_ready: "rep r hist \<Longrightarrow> buf \<noteq> [] \<Longrightarrow> peek r tail buf = Done (Ready, buf') \<Longrightarrow>
      tail + length buf \<le> length hist \<and> buf' = take (length buf) (drop tail hist)"
    and advance_seen: "rep r hist \<Longrightarrow> tail + n \<le> length hist \<Longrightarrow> advance r tail n = Done (tail + n)"
begin

text \<open>The consumer loop: peek a window, keep it, advance by a hop, at most \<open>m\<close> times.\<close>

fun windows :: "'r \<Rightarrow> nat \<Rightarrow> 'a list \<Rightarrow> nat \<Rightarrow> nat \<Rightarrow> ('a list list \<times> nat) run" where
  "windows r hop buf 0 tail = Done ([], tail)"
| "windows r hop buf (Suc m) tail =
     (case peek r tail buf of
        Done (Ready, w) \<Rightarrow>
          (case advance r tail hop of
             Panic \<Rightarrow> Panic
           | Done tail' \<Rightarrow>
               (case windows r hop buf m tail' of
                  Panic \<Rightarrow> Panic
                | Done (ws, tail'') \<Rightarrow> Done (w # ws, tail'')))
      | Done (_, _) \<Rightarrow> Done ([], tail)
      | Panic \<Rightarrow> Panic)"

text \<open>Window number \<open>i\<close> is the stretch of the history at \<open>tail + i * hop\<close>.\<close>

lemma windows_consecutive:
  assumes "rep r hist" and "buf \<noteq> []" and "hop \<le> length buf"
    and "windows r hop buf m tail = Done (ws, tail')"
  shows "tail' = tail + length ws * hop \<and>
         (\<forall>i < length ws. ws ! i = take (length buf) (drop (tail + i * hop) hist))"
  using assms(4)
proof (induction m arbitrary: tail ws)
  case 0
  then show ?case by simp
next
  case (Suc m)
  show ?case
  proof (cases "peek r tail buf")
    case Panic
    then show ?thesis using Suc.prems by simp
  next
    case (Done res)
    obtain st w where res: "res = (st, w)" by (cases res)
    show ?thesis
    proof (cases "st = Ready")
      case False
      then show ?thesis using Suc.prems Done res by (cases st) auto
    next
      case True
      with Done res have pk: "peek r tail buf = Done (Ready, w)" by simp
      note seen = peek_ready [OF assms(1,2) pk]
      then have adv: "advance r tail hop = Done (tail + hop)"
        using assms(3) by (intro advance_seen [OF assms(1)]) simp
      obtain ws' where ws': "windows r hop buf m (tail + hop) = Done (ws', tail')" "ws = w # ws'"
        using Suc.prems pk adv by (auto split: run.splits)
      note IH = Suc.IH [OF ws'(1)]
      have "ws ! i = take (length buf) (drop (tail + i * hop) hist)" if "i < length ws" for i
        using that IH seen ws'(2) by (cases i) (auto simp: add.assoc)
      then show ?thesis using IH ws'(2) by simp
    qed
  qed
qed

end

text \<open>The ring is such a source.\<close>

lemma peek_into_ready:
  assumes inv: "ring_inv r hist" and "buf \<noteq> []" and pk: "peek_into r tail buf = Done (Ready, buf')"
  shows "tail + length buf \<le> length hist \<and> buf' = take (length buf) (drop tail hist)"
proof -
  have n: "0 < length buf" "length buf \<le> ar_capacity_minus_margin r"
    using assms by (auto simp: peek_into_def Let_def split: if_splits)
  have "\<not> length hist - tail < length buf" and "buf' = take (length buf) (drop tail hist)"
    using pk peek_into_spec [OF inv n, of tail] by (auto split: if_splits)
  then show ?thesis using n(1) by linarith
qed

interpretation ring_source: sample_source ring_inv peek_into reader_advance
  by unfold_locales (blast intro: peek_into_ready reader_advance_ok dest: peek_into_ready)+

section \<open>Properties\<close>

text \<open>The batches a writer pushes one after the other; the first panic ends the run.\<close>

fun ring_pushes :: "audio_ring \<Rightarrow> u32 list list \<Rightarrow> audio_ring run" where
  "ring_pushes r [] = Done r"
| "ring_pushes r (xs # xss) =
     (case ring_push r xs of Panic \<Rightarrow> Panic | Done r' \<Rightarrow> ring_pushes r' xss)"

lemma ring_inv_pushes:
  "ring_inv r hist \<Longrightarrow> ring_pushes r xss = Done r' \<Longrightarrow> length hist + length (concat xss) < 2 ^ 64 \<Longrightarrow>
     ring_inv r' (hist @ concat xss)"
proof (induction xss arbitrary: r hist)
  case Nil
  then show ?case by simp
next
  case (Cons xs xss)
  then obtain r1 where r1: "ring_push r xs = Done r1" "ring_pushes r1 xss = Done r'"
    by (auto split: run.splits)
  have "ring_inv r1 (hist @ xs)" using Cons.prems r1 by (intro ring_inv_push) auto
  then have "ring_inv r' ((hist @ xs) @ concat xss)" using Cons.prems r1 by (intro Cons.IH) auto
  then show ?case by simp
qed

lemma ring_pushes_shape:
  "ring_shape r \<Longrightarrow> ring_pushes r xss = Done r' \<Longrightarrow>
     ar_capacity_minus_margin r' = ar_capacity_minus_margin r \<and> ar_capacity r' = ar_capacity r"
proof (induction xss arbitrary: r)
  case Nil
  then show ?case by simp
next
  case (Cons xs xss)
  then obtain r1 where r1: "ring_push r xs = Done r1" "ring_pushes r1 xss = Done r'"
    by (auto split: run.splits)
  then show ?case using Cons.IH [OF ring_shape_push(1) [OF Cons.prems(1) r1(1)] r1(2)]
      ring_shape_push [OF Cons.prems(1) r1(1)] by simp
qed

lemma ring_pushes_panic:
  "ring_shape r \<Longrightarrow> ring_pushes r xss = Panic \<longleftrightarrow> (\<exists>xs \<in> set xss. ar_safety_margin r < length xs)"
proof (induction xss arbitrary: r)
  case Nil
  then show ?case by simp
next
  case (Cons xs xss)
  show ?case
  proof (cases "ring_push r xs")
    case Panic
    then have "ar_safety_margin r < length xs" by (simp add: ring_push_Done_iff)
    then show ?thesis using Panic by simp
  next
    case (Done r1)
    then have "\<not> ar_safety_margin r < length xs" by (metis ring_push_Done_iff run.distinct(1))
    then show ?thesis
      using Done Cons.IH [of r1] ring_shape_push [OF Cons.prems Done] by simp
  qed
qed

text \<open>
  C24.  The ring is a window on the stream: after any batches pushed into a new buffer, a peek of
  \<open>n\<close> samples at \<open>tail\<close> waits while fewer than \<open>n\<close> were pushed past \<open>tail\<close>, reports the lag once the
  stream is more than the safe window ahead, and otherwise copies exactly samples
  \<open>tail .. tail + n\<close> of the concatenated batches.
\<close>

theorem peek_serves_stream:
  assumes "audio_buffer_new cap = Done r0" and "ring_pushes r0 batches = Done r"
    and "length (concat batches) < 2 ^ 64"
    and "0 < length out" and "length out \<le> cap - cap div 4"
  shows "peek_into r tail out =
     Done (let avail = length (concat batches) - tail in
           if avail < length out then (Wait, out)
           else if cap - cap div 4 < avail then (Lagged avail, out)
           else (Ready, take (length out) (drop tail (concat batches))))"
proof -
  have inv: "ring_inv r (concat batches)"
    using ring_inv_pushes [OF ring_inv_new(1) [OF assms(1)] assms(2)] assms(3) by simp
  have "ring_shape r0" by (rule ring_invD(1) [OF ring_inv_new(1) [OF assms(1)]])
  then have cmm: "ar_capacity_minus_margin r = cap - cap div 4"
    using ring_pushes_shape [OF _ assms(2)] ring_inv_new(2) [OF assms(1)] by (simp add: ring_shape_def)
  show ?thesis using peek_into_spec [OF inv, of out tail] assms(4,5) by (simp add: cmm Let_def)
qed

definition demo_ring :: audio_ring where
  "demo_ring = \<lparr>ar_data = [5, 2, 3, 4], ar_capacity = 4, ar_capacity_minus_margin = 3,
                ar_safety_margin = 1, ar_writer_taken = False, ar_head = 5\<rparr>"

lemma demo_new: "audio_buffer_new 4 = Done \<lparr>ar_data = [0, 0, 0, 0], ar_capacity = 4,
    ar_capacity_minus_margin = 3, ar_safety_margin = 1, ar_writer_taken = False, ar_head = 0\<rparr>"
proof -
  have "is_power_of_two 4" using is_power_of_two_pow [of 2] by simp
  moreover have "replicate 4 (0::u32) = [0, 0, 0, 0]" by (simp add: numeral_eq_Suc)
  ultimately show ?thesis by (simp add: audio_buffer_new_def)
qed

lemma demo_ring_pushes: "ring_pushes \<lparr>ar_data = [0, 0, 0, 0], ar_capacity = 4,
    ar_capacity_minus_margin = 3, ar_safety_margin = 1, ar_writer_taken = False, ar_head = 0\<rparr>
    [[1], [2], [3], [4], [5]] = Done demo_ring"
  by (simp add: ring_push_def blit_def wrapping_add64_def demo_ring_def numeral_2_eq_2 [symmetric])

theorem peek_serves_stream_witness: "peek_into demo_ring 2 [0, 0, 0] = Done (Ready, [3, 4, 5])"
  using peek_serves_stream [OF demo_new demo_ring_pushes, of "[0, 0, 0]" 2] by simp

text \<open>
  A push panics exactly when a batch is longer than a quarter of the capacity: with batches
  within that bound no run of pushes panics, and with one beyond it every run does.
\<close>

theorem pushes_panic_iff:
  assumes "audio_buffer_new cap = Done r0"
  shows "ring_pushes r0 batches = Panic \<longleftrightarrow> (\<exists>xs \<in> set batches. cap div 4 < length xs)"
proof -
  have "ring_shape r0" by (rule ring_invD(1) [OF ring_inv_new(1) [OF assms]])
  moreover have "ar_safety_margin r0 = cap div 4"
    using \<open>ring_shape r0\<close> ring_inv_new(2) [OF assms] by (simp add: ring_shape_def)
  ultimately show ?thesis by (simp add: ring_pushes_panic)
qed

theorem pushes_panic_iff_witness:
  "ring_pushes \<lparr>ar_data = [0, 0, 0, 0], ar_capacity = 4, ar_capacity_minus_margin = 3,
     ar_safety_margin = 1, ar_writer_taken = False, ar_head = 0\<rparr> [[1], [2, 3]] = Panic"
  using pushes_panic_iff [OF demo_new, of "[[1], [2, 3]]"] by simp

text \<open>
  Retrying a lagged peek is a no-op: once \<open>peek_into\<close> has reported \<open>Lagged\<close>, it reports \<open>Lagged\<close>
  again, with no smaller distance and the caller's buffer unchanged, after any further pushes, so
  only \<open>seek_latest\<close> recovers.
\<close>

lemma lagged_is_stable:
  assumes "ring_inv r hist" and "peek_into r tail out = Done (Lagged d, out')"
    and "ring_pushes r batches = Done r'" and "length hist + length (concat batches) < 2 ^ 64"
  shows "\<exists>d' \<ge> d. peek_into r' tail out = Done (Lagged d', out)"
proof -
  have n: "0 < length out" "length out \<le> ar_capacity_minus_margin r"
    using assms(2) by (auto simp: peek_into_def Let_def split: if_splits)
  have inv': "ring_inv r' (hist @ concat batches)" by (rule ring_inv_pushes [OF assms(1,3,4)])
  have cmm: "ar_capacity_minus_margin r' = ar_capacity_minus_margin r"
    using ring_pushes_shape [OF ring_invD(1) [OF assms(1)] assms(3)] by simp
  have d: "d = length hist - tail" "ar_capacity_minus_margin r < length hist - tail"
    using assms(2) peek_into_spec [OF assms(1) n, of tail] by (auto split: if_splits)
  then have "peek_into r' tail out =
      Done (Lagged (length hist + length (concat batches) - tail), out)"
    using peek_into_spec [OF inv', of out tail] n cmm by simp
  then show ?thesis using d by auto
qed

lemma demo_ring_inv: "ring_inv demo_ring [1, 2, 3, 4, 5]"
  using ring_inv_pushes [OF ring_inv_new(1) [OF demo_new] demo_ring_pushes] by simp

text \<open>
  \<open>seek_latest\<close> recovers: after it, a peek of the same length within the safe window is \<open>Ready\<close>
  with the freshest \<open>n\<close> samples, and advancing past them brings the reader to the live edge.
\<close>

lemma seek_latest_recovers:
  assumes inv: "ring_inv r hist" and n: "0 < length out" "length out \<le> length hist"
    "length out \<le> ar_capacity_minus_margin r"
  shows "peek_into r (seek_latest r (length out)) out = Done (Ready, drop (length hist - length out) hist)
       \<and> reader_advance r (seek_latest r (length out)) (length out) = Done (reader_live r)"
proof
  have t: "seek_latest r (length out) = length hist - length out"
    using ring_invD(2) [OF inv] by (simp add: seek_latest_def saturating_sub_def)
  show "peek_into r (seek_latest r (length out)) out =
      Done (Ready, drop (length hist - length out) hist)"
    unfolding t using peek_into_spec [OF inv n(1,3)] n(2,3) by simp
  show "reader_advance r (seek_latest r (length out)) (length out) = Done (reader_live r)"
    unfolding t using reader_advance_ok [OF inv, of "length hist - length out" "length out"] n(2)
      ring_invD(2) [OF inv] by (simp add: reader_live_def)
qed

text \<open>
  Overlapping windows: reading windows of a fixed length and advancing by a hop no longer than
  the window gives, as window number \<open>i\<close>, exactly the samples at \<open>tail + i * hop\<close> of the stream: none
  skipped, none repeated beyond the overlap.
\<close>

lemma ring_windows_consecutive:
  assumes "ring_inv r hist" and "buf \<noteq> []" and "hop \<le> length buf"
    and "ring_source.windows r hop buf m tail = Done (ws, tail')"
  shows "tail' = tail + length ws * hop \<and>
         (\<forall>i < length ws. ws ! i = take (length buf) (drop (tail + i * hop) hist))"
  using assms by (rule ring_source.windows_consecutive)

lemma demo_windows: "ring_source.windows demo_ring 1 [0, 0] (Suc (Suc (Suc 0))) 2 = Done ([[3, 4], [4, 5]], 4)"
proof -
  have "peek_into demo_ring 2 [0, 0] = Done (Ready, [3, 4])"
    "peek_into demo_ring 3 [0, 0] = Done (Ready, [4, 5])"
    "peek_into demo_ring 4 [0, 0] = Done (Wait, [0, 0])"
    by (simp_all add: peek_into_def demo_ring_def saturating_sub_def numeral_2_eq_2 [symmetric])
  moreover have "reader_advance demo_ring 2 1 = Done 3" "reader_advance demo_ring 3 1 = Done 4"
    by (simp_all add: reader_advance_def demo_ring_def saturating_add64_def)
  ultimately show ?thesis by simp
qed

end
