(* ===== verification/Seqlock.thy ===== *)
theory Seqlock
  imports Audio_Buffer
begin

text \<open>
  \<^verbatim>\<open>audio_buffer.rs\<close>, \<open>Writer::push\<close> and \<open>Reader::peek_into\<close> taken apart into their memory accesses:
  one store per cell and the store of \<open>head\<close> on the writer's side, the load of \<open>head\<close>, one load per
  cell and the second load of \<open>head\<close> on the reader's side.  A step relation interleaves them in
  every order in which each side keeps its program order (the release store, the acquire loads
  and the acquire fence of the source are what keeps it).  Readers do not write to shared memory,
  so one reader stands for each of them.
\<close>

section \<open>The interleaved accesses\<close>

text \<open>
  \<open>WStoring head samples k\<close>: the push has loaded \<open>head\<close> and stored \<open>k\<close> samples.
  \<open>RCopy tail n acc\<close>: the peek has passed its first check and loaded the cells in \<open>acc\<close>.
\<close>

datatype writer_pc = WIdle | WStoring nat "u32 list" nat
datatype reader_pc = RIdle | RCopy nat nat "u32 list" | RDone nat nat read_status "u32 list"

text \<open>\<open>sq_hist\<close> is a ghost: every sample stored so far, published or not.\<close>

record seq_state =
  sq_cells :: "u32 list"
  sq_head :: nat
  sq_writer :: writer_pc
  sq_reader :: reader_pc
  sq_hist :: "u32 list"

text \<open>The cell of the access number \<open>k\<close> of \<open>n\<close> at ring position \<open>pos\<close>, split at the wrap.\<close>

definition cell_index :: "nat \<Rightarrow> nat \<Rightarrow> nat \<Rightarrow> nat \<Rightarrow> nat" where
  "cell_index cap pos n k =
     (let start = pos AND (cap - 1); first = min (cap - start) n
      in if k < first then start + k else k - first)"

definition seq_cmm :: "nat \<Rightarrow> nat" where
  "seq_cmm cap = cap - cap div 4"

definition first_check :: "nat \<Rightarrow> nat \<Rightarrow> nat \<Rightarrow> nat \<Rightarrow> reader_pc" where
  "first_check cap head tail n =
     (let avail = saturating_sub head tail in
      if avail < n then RDone tail n Wait []
      else if avail > seq_cmm cap then RDone tail n (Lagged avail) []
      else RCopy tail n [])"

definition second_check :: "nat \<Rightarrow> nat \<Rightarrow> nat \<Rightarrow> nat \<Rightarrow> u32 list \<Rightarrow> reader_pc" where
  "second_check cap head tail n acc =
     (let avail1 = saturating_sub head tail in
      if avail1 \<le> seq_cmm cap then RDone tail n Ready acc else RDone tail n (Lagged avail1) acc)"

inductive seq_step :: "nat \<Rightarrow> seq_state \<Rightarrow> seq_state \<Rightarrow> bool" for cap :: nat where
  w_begin: "sq_writer s = WIdle \<Longrightarrow> xs \<noteq> [] \<Longrightarrow> length xs \<le> cap div 4 \<Longrightarrow>
     sq_head s + length xs < 2 ^ 64 \<Longrightarrow>
     seq_step cap s (s\<lparr>sq_writer := WStoring (sq_head s) xs 0\<rparr>)"
| w_store: "sq_writer s = WStoring h xs k \<Longrightarrow> k < length xs \<Longrightarrow>
     seq_step cap s (s\<lparr>sq_cells := (sq_cells s)[cell_index cap h (length xs) k := xs ! k],
                      sq_writer := WStoring h xs (Suc k), sq_hist := sq_hist s @ [xs ! k]\<rparr>)"
| w_publish: "sq_writer s = WStoring h xs (length xs) \<Longrightarrow>
     seq_step cap s (s\<lparr>sq_head := wrapping_add64 h (length xs), sq_writer := WIdle\<rparr>)"
| r_start: "(\<forall>tail n acc. sq_reader s \<noteq> RCopy tail n acc) \<Longrightarrow> 0 < n \<Longrightarrow> n \<le> seq_cmm cap \<Longrightarrow>
     seq_step cap s (s\<lparr>sq_reader := first_check cap (sq_head s) tail n\<rparr>)"
| r_load: "sq_reader s = RCopy tail n acc \<Longrightarrow> length acc < n \<Longrightarrow>
     seq_step cap s
       (s\<lparr>sq_reader := RCopy tail n (acc @ [sq_cells s ! cell_index cap tail n (length acc)])\<rparr>)"
| r_recheck: "sq_reader s = RCopy tail n acc \<Longrightarrow> length acc = n \<Longrightarrow>
     seq_step cap s (s\<lparr>sq_reader := second_check cap (sq_head s) tail n acc\<rparr>)"

inductive_cases seq_stepE: "seq_step cap s s'"

definition seq_init :: "nat \<Rightarrow> seq_state" where
  "seq_init cap = \<lparr>sq_cells = replicate cap 0, sq_head = 0, sq_writer = WIdle, sq_reader = RIdle,
                   sq_hist = []\<rparr>"

definition seq_reachable :: "nat \<Rightarrow> seq_state \<Rightarrow> bool" where
  "seq_reachable cap s \<longleftrightarrow> (seq_step cap)\<^sup>*\<^sup>* (seq_init cap) s"

section \<open>Invariant\<close>

definition valid_capacity :: "nat \<Rightarrow> bool" where
  "valid_capacity cap \<longleftrightarrow> 4 \<le> cap \<and> is_power_of_two cap"

fun writer_ok :: "nat \<Rightarrow> nat \<Rightarrow> u32 list \<Rightarrow> writer_pc \<Rightarrow> bool" where
  "writer_ok cap head hist WIdle = (head = length hist)"
| "writer_ok cap head hist (WStoring h xs k) =
     (h = head \<and> k \<le> length xs \<and> length xs \<le> cap div 4 \<and> h + length xs < 2 ^ 64 \<and>
      length hist = h + k)"

definition cells_ok :: "nat \<Rightarrow> u32 list \<Rightarrow> u32 list \<Rightarrow> bool" where
  "cells_ok cap cells hist \<longleftrightarrow> length cells = cap \<and>
     (\<forall>p < length hist. length hist \<le> p + cap \<longrightarrow> cells ! (p mod cap) = hist ! p)"

text \<open>
  A loaded sample is the wanted one, or the writer has already stored more than a capacity
  past it.
\<close>

fun reader_ok :: "nat \<Rightarrow> nat \<Rightarrow> u32 list \<Rightarrow> reader_pc \<Rightarrow> bool" where
  "reader_ok cap head hist RIdle = True"
| "reader_ok cap head hist (RCopy tail n acc) =
     (0 < n \<and> n \<le> seq_cmm cap \<and> tail + n \<le> head \<and> length acc \<le> n \<and>
      (\<forall>k < length acc. acc ! k = hist ! (tail + k) \<or> tail + k + cap < length hist))"
| "reader_ok cap head hist (RDone tail n st out) =
     (st = Ready \<longrightarrow> tail + n \<le> head \<and> out = take n (drop tail hist))"

definition seq_inv :: "nat \<Rightarrow> seq_state \<Rightarrow> bool" where
  "seq_inv cap s \<longleftrightarrow>
     cells_ok cap (sq_cells s) (sq_hist s) \<and>
     writer_ok cap (sq_head s) (sq_hist s) (sq_writer s) \<and>
     reader_ok cap (sq_head s) (sq_hist s) (sq_reader s)"

lemma valid_capacity_pos: "valid_capacity cap \<Longrightarrow> 0 < cap"
  by (simp add: valid_capacity_def)

lemma cell_index_mod:
  assumes "valid_capacity cap" and "k < n" and "n \<le> cap"
  shows "cell_index cap pos n k = (pos + k) mod cap"
proof -
  obtain e where "cap = 2 ^ e"
    using assms(1) by (auto simp: valid_capacity_def dest: is_power_of_two_exp)
  then have mask: "pos AND (cap - 1) = pos mod cap" by (simp only: and_pow2_mask)
  have "pos mod cap < cap" using valid_capacity_pos [OF assms(1)] by simp
  then show ?thesis
    using assms mod_add_wrap [of k cap pos] valid_capacity_pos [OF assms(1)]
    unfolding cell_index_def Let_def mask min_def by (auto split: if_splits)
qed

lemma writer_ok_hist:
  "writer_ok cap head hist w \<Longrightarrow> head \<le> length hist \<and> length hist \<le> head + cap div 4"
  by (cases w) auto

lemma cells_ok_store:
  assumes cap: "0 < cap" and ok: "cells_ok cap cells hist"
  shows "cells_ok cap (cells[length hist mod cap := x]) (hist @ [x])"
proof -
  have len: "length cells = cap" and hit: "length hist mod cap < cap"
    using cap ok by (simp_all add: cells_ok_def)
  have "cells[length hist mod cap := x] ! (p mod cap) = (hist @ [x]) ! p"
    if p: "p < Suc (length hist)" "Suc (length hist) \<le> p + cap" for p
  proof (cases "p = length hist")
    case True
    then show ?thesis using len hit by simp
  next
    case False
    then have "p mod cap \<noteq> length hist mod cap"
      using p by (intro ring_cells_distinct) auto
    moreover have "cells ! (p mod cap) = hist ! p"
      using ok p False by (auto simp: cells_ok_def)
    ultimately show ?thesis using p False by (simp add: nth_append)
  qed
  then show ?thesis using len by (simp add: cells_ok_def)
qed

lemma reader_ok_mono:
  assumes "reader_ok cap head hist pc" and "head \<le> length hist" and "head \<le> head'"
  shows "reader_ok cap head' (hist @ ys) pc"
proof (cases pc)
  case (RCopy tail n acc)
  then have "(hist @ ys) ! (tail + k) = hist ! (tail + k)" if "k < length acc" for k
    using assms that by (auto simp: nth_append)
  then show ?thesis using RCopy assms by fastforce
qed (use assms in auto)

lemma reader_ok_load:
  assumes "valid_capacity cap" and ok: "cells_ok cap cells hist"
    and r: "reader_ok cap head hist (RCopy tail n acc)" and "length acc < n" and "head \<le> length hist"
  shows "reader_ok cap head hist
           (RCopy tail n (acc @ [cells ! cell_index cap tail n (length acc)]))"
proof -
  have "n \<le> cap" using r by (auto simp: seq_cmm_def)
  then have idx: "cell_index cap tail n (length acc) = (tail + length acc) mod cap"
    using assms by (intro cell_index_mod) auto
  have "cells ! ((tail + length acc) mod cap) = hist ! (tail + length acc) \<or>
        tail + length acc + cap < length hist"
    using ok r assms(4,5) by (auto simp: cells_ok_def)
  then show ?thesis using r assms(4) by (auto simp: idx nth_append less_Suc_eq)
qed

text \<open>
  The step that matters: when the second check passes, the writer is still within a capacity
  of the reader's first cell, so every loaded sample is the wanted one.
\<close>

lemma reader_ok_recheck:
  assumes "valid_capacity cap" and r: "reader_ok cap head hist (RCopy tail n acc)"
    and n: "length acc = n" and w: "head \<le> length hist" "length hist \<le> head + cap div 4"
  shows "reader_ok cap head hist (second_check cap head tail n acc)"
proof (cases "head - tail \<le> seq_cmm cap")
  case True
  have "length hist \<le> tail + cap" using True w r by (simp add: seq_cmm_def)
  then have "acc ! k = hist ! (tail + k)" if "k < n" for k using r n that by auto
  then have "acc = take n (drop tail hist)"
    using n r w by (intro nth_equalityI) auto
  then show ?thesis using True r by (simp add: second_check_def saturating_sub_def)
qed (simp add: second_check_def saturating_sub_def)

lemma reader_ok_start:
  "0 < n \<Longrightarrow> n \<le> seq_cmm cap \<Longrightarrow> reader_ok cap head hist (first_check cap head tail n)"
  by (auto simp: first_check_def saturating_sub_def Let_def)

lemma seq_inv_init: "seq_inv cap (seq_init cap)"
  by (simp add: seq_inv_def seq_init_def cells_ok_def)

lemma seq_inv_step:
  assumes "seq_step cap s s'" and cap: "valid_capacity cap" and inv: "seq_inv cap s"
  shows "seq_inv cap s'"
proof -
  note W = writer_ok_hist [of cap "sq_head s" "sq_hist s" "sq_writer s"]
  from assms(1) show ?thesis
  proof cases
    case (w_begin xs)
    then show ?thesis using inv by (auto simp: seq_inv_def)
  next
    case (w_store h xs k)
    then have w: "h = sq_head s" "length (sq_hist s) = h + k" "length xs \<le> cap"
      using inv by (auto simp: seq_inv_def)
    then have "cell_index cap h (length xs) k = length (sq_hist s) mod cap"
      using w_store cap by (simp add: cell_index_mod)
    moreover have "cells_ok cap ((sq_cells s)[length (sq_hist s) mod cap := xs ! k])
        (sq_hist s @ [xs ! k])"
      using inv valid_capacity_pos [OF cap] by (intro cells_ok_store) (auto simp: seq_inv_def)
    moreover have "reader_ok cap (sq_head s) (sq_hist s @ [xs ! k]) (sq_reader s)"
      using inv w by (intro reader_ok_mono) (auto simp: seq_inv_def)
    ultimately show ?thesis using w_store w inv by (simp add: seq_inv_def)
  next
    case (w_publish h xs)
    then show ?thesis
      using inv reader_ok_mono [of cap h "sq_hist s" "sq_reader s" "h + length xs" "[]"]
      by (simp add: seq_inv_def wrapping_add64_exact)
  next
    case (r_start n tail)
    then show ?thesis using inv by (simp add: seq_inv_def reader_ok_start)
  next
    case (r_load tail n acc)
    then show ?thesis using inv W cap reader_ok_load by (simp add: seq_inv_def del: reader_ok.simps)
  next
    case (r_recheck tail n acc)
    then show ?thesis using inv W cap reader_ok_recheck by (simp add: seq_inv_def del: reader_ok.simps)
  qed
qed

lemma seq_inv_reachable:
  assumes "valid_capacity cap" and "seq_reachable cap s"
  shows "seq_inv cap s"
  using assms(2) unfolding seq_reachable_def
  by (induction rule: rtranclp_induct) (auto intro: seq_inv_init seq_inv_step assms(1))

section \<open>The uninterrupted accesses are the operations\<close>

lemma ring_write_snoc:
  assumes "length (ys @ [y]) \<le> length cells"
  shows "ring_write h (ys @ [y]) cells =
           (ring_write h ys cells)[(h + length ys) mod length cells := y]"
proof (rule nth_equalityI)
  have pos: "0 < length cells" using assms by (cases cells) auto
  show "length (ring_write h (ys @ [y]) cells) =
      length ((ring_write h ys cells)[(h + length ys) mod length cells := y])"
    using assms pos by (simp add: ring_write_pieces(1))
  fix j
  assume "j < length (ring_write h (ys @ [y]) cells)"
  then have j: "j < length cells" using assms pos by (simp add: ring_write_pieces(1))
  consider (last) "j = (h + length ys) mod length cells"
    | (hit) k where "k < length ys" "j = (h + k) mod length cells" "j \<noteq> (h + length ys) mod length cells"
    | (miss) "\<forall>k < Suc (length ys). (h + k) mod length cells \<noteq> j"
    by (auto simp: less_Suc_eq)
  then show "ring_write h (ys @ [y]) cells ! j =
      (ring_write h ys cells)[(h + length ys) mod length cells := y] ! j"
  proof cases
    case last
    then show ?thesis
      using assms j pos ring_write_hit [of "ys @ [y]" cells "length ys" h]
      by (simp add: ring_write_pieces(1))
  next
    case hit
    then show ?thesis
      using assms ring_write_hit [of "ys @ [y]" cells k h] ring_write_hit [of ys cells k h]
      by (simp add: nth_append)
  next
    case miss
    then have "(h + length ys) mod length cells \<noteq> j" and "\<forall>k < length ys. (h + k) mod length cells \<noteq> j"
      by auto
    then show ?thesis
      using assms j ring_write_miss [of "ys @ [y]" cells j h] ring_write_miss [of ys cells j h] miss
      by simp
  qed
qed

lemma writer_stores:
  assumes cap: "valid_capacity cap" and "length (sq_cells s) = cap" and "length xs \<le> cap"
    and "sq_writer s = WStoring h xs 0" and "k \<le> length xs"
  shows "(seq_step cap)\<^sup>*\<^sup>* s
           (s\<lparr>sq_cells := ring_write h (take k xs) (sq_cells s), sq_writer := WStoring h xs k,
              sq_hist := sq_hist s @ take k xs\<rparr>)"
  using assms(5)
proof (induction k)
  case 0
  have "ring_write h [] (sq_cells s) = sq_cells s" by (simp add: ring_write_def blit_def)
  moreover have "s\<lparr>sq_cells := sq_cells s, sq_writer := WStoring h xs 0, sq_hist := sq_hist s\<rparr> = s"
    using assms(4) by simp
  ultimately show ?case by simp
next
  case (Suc k)
  let ?s = "s\<lparr>sq_cells := ring_write h (take k xs) (sq_cells s), sq_writer := WStoring h xs k,
              sq_hist := sq_hist s @ take k xs\<rparr>"
  have tk: "take (Suc k) xs = take k xs @ [xs ! k]" using Suc.prems by (simp add: take_Suc_conv_app_nth)
  have idx: "cell_index cap h (length xs) k = (h + k) mod cap"
    using cap assms(3) Suc.prems by (intro cell_index_mod) auto
  have "ring_write h (take (Suc k) xs) (sq_cells s) =
      (ring_write h (take k xs) (sq_cells s))[(h + k) mod cap := xs ! k]"
    unfolding tk using assms(2,3) Suc.prems by (subst ring_write_snoc) auto
  then have "seq_step cap ?s
      (s\<lparr>sq_cells := ring_write h (take (Suc k) xs) (sq_cells s), sq_writer := WStoring h xs (Suc k),
         sq_hist := sq_hist s @ take (Suc k) xs\<rparr>)"
    using w_store [of ?s h xs k cap] Suc.prems by (simp add: idx tk)
  then show ?case using Suc by (meson Suc_leD rtranclp.rtrancl_into_rtrancl)
qed

text \<open>The state of the interleaved model that a ring represents.\<close>

definition seq_of :: "audio_ring \<Rightarrow> u32 list \<Rightarrow> reader_pc \<Rightarrow> seq_state" where
  "seq_of r hist rd = \<lparr>sq_cells = ar_data r, sq_head = ar_head r, sq_writer = WIdle, sq_reader = rd,
                       sq_hist = hist\<rparr>"

lemma ring_shape_valid: "ring_shape r \<Longrightarrow> valid_capacity (ar_capacity r)"
  by (simp add: ring_shape_def valid_capacity_def)

lemma push_is_steps:
  assumes inv: "ring_inv r hist" and push: "ring_push r xs = Done r'"
    and no_wrap: "length hist + length xs < 2 ^ 64"
  shows "(seq_step (ar_capacity r))\<^sup>*\<^sup>* (seq_of r hist rd) (seq_of r' (hist @ xs) rd)"
proof (cases "xs = []")
  case True
  then show ?thesis using push by (simp add: ring_push_def)
next
  case False
  note D = ring_invD [OF inv] and S = ring_shape_sizes [OF ring_invD(1) [OF inv]]
  let ?cap = "ar_capacity r" and ?h = "length hist"
  let ?s1 = "(seq_of r hist rd)\<lparr>sq_writer := WStoring ?h xs 0\<rparr>"
  let ?s2 = "?s1\<lparr>sq_cells := ring_write ?h xs (ar_data r), sq_writer := WStoring ?h xs (length xs),
                 sq_hist := hist @ xs\<rparr>"
  have le: "length xs \<le> ar_safety_margin r" "0 < length xs" "length xs \<le> ?cap div 4"
    using push False D(1) by (auto simp: ring_push_def ring_shape_def Let_def split: if_splits)
  have "seq_step ?cap (seq_of r hist rd) ?s1"
    using w_begin [of "seq_of r hist rd" xs ?cap] False le no_wrap D(2) by (simp add: seq_of_def)
  also have "(seq_step ?cap)\<^sup>*\<^sup>* ?s1 ?s2"
    using writer_stores [of ?cap ?s1 xs ?h "length xs"] ring_shape_valid [OF D(1)] D(4) le S
    by (simp add: seq_of_def)
  also have "seq_step ?cap ?s2 (?s2\<lparr>sq_head := wrapping_add64 ?h (length xs), sq_writer := WIdle\<rparr>)"
    by (rule w_publish) simp
  also have "?s2\<lparr>sq_head := wrapping_add64 ?h (length xs), sq_writer := WIdle\<rparr> = seq_of r' (hist @ xs) rd"
    using ring_push_eq [OF D(1) le(2,1)] push D(2) by (simp add: seq_of_def)
  finally show ?thesis .
qed

lemma reader_loads:
  assumes cap: "valid_capacity cap" and "length (sq_cells s) = cap" and "n \<le> cap"
    and "sq_reader s = RCopy tail n []" and "k \<le> n"
  shows "(seq_step cap)\<^sup>*\<^sup>* s (s\<lparr>sq_reader := RCopy tail n (ring_read tail k (sq_cells s))\<rparr>)"
  using assms(5)
proof (induction k)
  case 0
  have "s\<lparr>sq_reader := RCopy tail n []\<rparr> = s" using assms(4) by simp
  then show ?case by (simp add: ring_read_def)
next
  case (Suc k)
  let ?s = "s\<lparr>sq_reader := RCopy tail n (ring_read tail k (sq_cells s))\<rparr>"
  have "cell_index cap tail n k = (tail + k) mod cap"
    using cap assms(3) Suc.prems by (intro cell_index_mod) auto
  then have "seq_step cap ?s (s\<lparr>sq_reader := RCopy tail n (ring_read tail (Suc k) (sq_cells s))\<rparr>)"
    using r_load [of ?s tail n "ring_read tail k (sq_cells s)" cap] Suc.prems assms(2)
    by (simp add: ring_read_def)
  then show ?case using Suc by (meson Suc_leD rtranclp.rtrancl_into_rtrancl)
qed

lemma peek_is_steps:
  assumes inv: "ring_inv r hist" and n: "0 < length out" "length out \<le> ar_capacity_minus_margin r"
  shows "\<exists>st out'. (seq_step (ar_capacity r))\<^sup>*\<^sup>* (seq_of r hist RIdle)
            (seq_of r hist (RDone tail (length out) st out')) \<and>
          peek_into r tail out = Done (st, if st = Ready then out' else out)"
proof -
  note D = ring_invD [OF inv] and S = ring_shape_sizes [OF ring_invD(1) [OF inv]]
  let ?cap = "ar_capacity r" and ?n = "length out"
  have cmm: "seq_cmm ?cap = ar_capacity_minus_margin r"
    using D(1) by (simp add: seq_cmm_def ring_shape_def)
  have start: "seq_step ?cap (seq_of r hist RIdle) (seq_of r hist (first_check ?cap (length hist) tail ?n))"
    using r_start [of "seq_of r hist RIdle" ?n ?cap tail] n D(2) by (simp add: seq_of_def cmm)
  show ?thesis
  proof (cases "?n \<le> length hist - tail \<and> length hist - tail \<le> seq_cmm ?cap")
    case False
    then obtain st where st: "first_check ?cap (length hist) tail ?n = RDone tail ?n st []"
        "peek_into r tail out = Done (st, out)" "st \<noteq> Ready"
      using peek_into_spec [OF inv n, of tail]
      by (auto simp: first_check_def saturating_sub_def cmm Let_def split: if_splits)
    then show ?thesis
      using start by (intro exI [of _ st] exI [of _ "[]"]) (auto intro: r_into_rtranclp [of "seq_step ?cap"])
  next
    case True
    have "first_check ?cap (length hist) tail ?n = RCopy tail ?n []"
      using True by (simp add: first_check_def saturating_sub_def)
    with start have "seq_step ?cap (seq_of r hist RIdle) (seq_of r hist (RCopy tail ?n []))" by simp
    also have "(seq_step ?cap)\<^sup>*\<^sup>* (seq_of r hist (RCopy tail ?n []))
        (seq_of r hist (RCopy tail ?n (ring_read tail ?n (ar_data r))))"
      using reader_loads [of ?cap "seq_of r hist (RCopy tail ?n [])" ?n tail ?n]
        ring_shape_valid [OF D(1)] D(4) S n by (simp add: seq_of_def)
    also have "seq_step ?cap (seq_of r hist (RCopy tail ?n (ring_read tail ?n (ar_data r))))
        (seq_of r hist (RDone tail ?n Ready (ring_read tail ?n (ar_data r))))"
      using r_recheck [of "seq_of r hist (RCopy tail ?n (ring_read tail ?n (ar_data r)))" tail ?n _ ?cap]
        True D(2) by (simp add: seq_of_def second_check_def saturating_sub_def ring_read_def)
    finally have "(seq_step ?cap)\<^sup>*\<^sup>* (seq_of r hist RIdle)
        (seq_of r hist (RDone tail ?n Ready (ring_read tail ?n (ar_data r))))" .
    moreover have "ring_read tail ?n (ar_data r) = take ?n (drop tail hist)"
      using True n(1) S cmm by (intro ring_read_hist [OF inv]) linarith+
    moreover have "peek_into r tail out = Done (Ready, take ?n (drop tail hist))"
      using peek_into_spec [OF inv n, of tail] True by (simp add: cmm)
    ultimately show ?thesis by auto
  qed
qed

section \<open>Properties\<close>

text \<open>
  C3.  The seqlock is sound: in every state the interleaved accesses of one writer and a reader
  can reach, a peek that returned \<open>Ready\<close> holds exactly the \<open>n\<close> samples at its tail, all of them
  published, however the writer's stores fell between the reader's loads.
\<close>

theorem seqlock_ready_exact:
  assumes "valid_capacity cap" and "seq_reachable cap s" and "sq_reader s = RDone tail n Ready out"
  shows "tail + n \<le> sq_head s \<and> length out = n \<and> out = take n (drop tail (sq_hist s))"
proof -
  have "seq_inv cap s" by (rule seq_inv_reachable [OF assms(1,2)])
  then have "tail + n \<le> sq_head s" "out = take n (drop tail (sq_hist s))"
    "sq_head s \<le> length (sq_hist s)"
    using assms(3) writer_ok_hist [of cap "sq_head s" "sq_hist s" "sq_writer s"]
    by (auto simp: seq_inv_def)
  then show ?thesis by simp
qed

definition demo_state :: seq_state where
  "demo_state = \<lparr>sq_cells = [7, 8, 0, 0], sq_head = 1, sq_writer = WStoring 1 [8] 1,
                 sq_reader = RDone 0 1 Ready [7], sq_hist = [7, 8]\<rparr>"

lemma valid_capacity_4: "valid_capacity 4"
  using is_power_of_two_pow [of 2] by (simp add: valid_capacity_def)

text \<open>A run in which the second push stores its cell between the reader's two loads of \<open>head\<close>.\<close>

lemma demo_state_reachable: "seq_reachable 4 demo_state"
proof -
  let ?S = "\<lambda>cs h w r hs. \<lparr>sq_cells = cs, sq_head = h, sq_writer = w, sq_reader = r, sq_hist = hs\<rparr>"
  have ix: "cell_index 4 0 (Suc 0) 0 = 0" "cell_index 4 (Suc 0) (Suc 0) 0 = 1"
    by (simp_all add: cell_index_def)
  have "(seq_step 4)\<^sup>*\<^sup>* (?S [0,0,0,0] 0 WIdle RIdle []) (?S [0,0,0,0] 0 WIdle RIdle [])" by simp
  also have "seq_step 4 \<dots> (?S [0,0,0,0] 0 (WStoring 0 [7] 0) RIdle [])"
    using w_begin [of "?S [0,0,0,0] 0 WIdle RIdle []" "[7]" 4] by simp
  also have "seq_step 4 \<dots> (?S [7,0,0,0] 0 (WStoring 0 [7] 1) RIdle [7])"
    using w_store [of "?S [0,0,0,0] 0 (WStoring 0 [7] 0) RIdle []" 0 "[7]" 0 4] by (simp add: ix)
  also have "seq_step 4 \<dots> (?S [7,0,0,0] 1 WIdle RIdle [7])"
    using w_publish [of "?S [7,0,0,0] 0 (WStoring 0 [7] 1) RIdle [7]" 0 "[7]" 4]
    by (simp add: wrapping_add64_def)
  also have "seq_step 4 \<dots> (?S [7,0,0,0] 1 WIdle (RCopy 0 1 []) [7])"
    using r_start [of "?S [7,0,0,0] 1 WIdle RIdle [7]" 1 4 0]
    by (simp add: first_check_def seq_cmm_def)
  also have "seq_step 4 \<dots> (?S [7,0,0,0] 1 (WStoring 1 [8] 0) (RCopy 0 1 []) [7])"
    using w_begin [of "?S [7,0,0,0] 1 WIdle (RCopy 0 1 []) [7]" "[8]" 4] by simp
  also have "seq_step 4 \<dots> (?S [7,0,0,0] 1 (WStoring 1 [8] 0) (RCopy 0 1 [7]) [7])"
    using r_load [of "?S [7,0,0,0] 1 (WStoring 1 [8] 0) (RCopy 0 1 []) [7]" 0 1 "[]" 4]
    by (simp add: ix)
  also have "seq_step 4 \<dots> (?S [7,8,0,0] 1 (WStoring 1 [8] 1) (RCopy 0 1 [7]) [7,8])"
    using w_store [of "?S [7,0,0,0] 1 (WStoring 1 [8] 0) (RCopy 0 1 [7]) [7]" 1 "[8]" 0 4]
    by (simp add: ix)
  also have "seq_step 4 \<dots> demo_state"
    using r_recheck [of "?S [7,8,0,0] 1 (WStoring 1 [8] 1) (RCopy 0 1 [7]) [7,8]" 0 1 "[7]" 4]
    by (simp add: second_check_def seq_cmm_def demo_state_def)
  finally show ?thesis by (simp add: seq_reachable_def seq_init_def numeral_eq_Suc)
qed

theorem seqlock_ready_exact_witness: "[7] = take 1 (drop 0 (sq_hist demo_state))"
  using seqlock_ready_exact [OF valid_capacity_4 demo_state_reachable, of 0 1 "[7]"]
  by (simp add: demo_state_def)

end
