(* ===== verification/Errors.thy ===== *)
theory Errors
  imports Prelude
begin

text \<open>
  The coarse error taxonomy of \<^verbatim>\<open>common/error.rs\<close>: six kinds, their HTTP status and wire
  code, and the derived order (variant order, increasing severity), given as an instance of
  \<^verbatim>\<open>linorder\<close> so that the library's \<open>max\<close> picks the most severe of two errors.
\<close>

datatype error_kind = UserInput | NotFound | Conflict | NotImplemented | Unavailable | Internal

fun http_status_code :: "error_kind \<Rightarrow> nat" where
  "http_status_code UserInput = 400"
| "http_status_code NotFound = 404"
| "http_status_code Conflict = 409"
| "http_status_code NotImplemented = 501"
| "http_status_code Unavailable = 503"
| "http_status_code Internal = 500"

fun code_str :: "error_kind \<Rightarrow> string" where
  "code_str UserInput = ''bad_request''"
| "code_str NotFound = ''not_found''"
| "code_str Conflict = ''conflict''"
| "code_str NotImplemented = ''not_implemented''"
| "code_str Unavailable = ''unavailable''"
| "code_str Internal = ''internal''"

text \<open>The position of a variant in the declaration, which \<open>#[derive(Ord)]\<close> compares.\<close>

fun severity :: "error_kind \<Rightarrow> nat" where
  "severity UserInput = 0"
| "severity NotFound = 1"
| "severity Conflict = 2"
| "severity NotImplemented = 3"
| "severity Unavailable = 4"
| "severity Internal = 5"

lemma severity_inj [simp]: "severity a = severity b \<longleftrightarrow> a = b"
  by (cases a; cases b) auto

instantiation error_kind :: linorder
begin

definition less_eq_error_kind :: "error_kind \<Rightarrow> error_kind \<Rightarrow> bool" where
  "less_eq_error_kind a b \<longleftrightarrow> severity a \<le> severity b"

definition less_error_kind :: "error_kind \<Rightarrow> error_kind \<Rightarrow> bool" where
  "less_error_kind a b \<longleftrightarrow> severity a < severity b"

instance
  by standard (auto simp: less_eq_error_kind_def less_error_kind_def)

end

lemma error_kind_codes:
  "http_status_code a = http_status_code b \<longleftrightarrow> a = b"
  "code_str a = code_str b \<longleftrightarrow> a = b"
  by (cases a; cases b; simp)+

end
