(* ===== verification/Ids.thy ===== *)
theory Ids
  imports Errors
begin

text \<open>
  The validated identifier newtypes of \<^verbatim>\<open>common/ids.rs\<close> and the hexadecimal encoder of
  \<^verbatim>\<open>common/hex.rs\<close>.  The three UUID types share one validator; the \<open>uuid\<close> crate's parser is a
  parameter.  The string-backed types (\<open>AssetId\<close>, \<open>MicId\<close>) carry the validated text.  The locale
  \<open>validated_text\<close> is what every client of such a type relies on: parsing keeps the text.
\<close>

section \<open>Hexadecimal digits\<close>

definition is_ascii_digit :: "char \<Rightarrow> bool" where
  "is_ascii_digit c \<longleftrightarrow> 48 \<le> (of_char c :: nat) \<and> (of_char c :: nat) \<le> 57"

definition is_ascii_alphanumeric :: "char \<Rightarrow> bool" where
  "is_ascii_alphanumeric c \<longleftrightarrow>
     is_ascii_digit c \<or>
     (65 \<le> (of_char c :: nat) \<and> (of_char c :: nat) \<le> 90) \<or>
     (97 \<le> (of_char c :: nat) \<and> (of_char c :: nat) \<le> 122)"

definition is_lower_hex :: "char \<Rightarrow> bool" where
  "is_lower_hex c \<longleftrightarrow> is_ascii_digit c \<or> (97 \<le> (of_char c :: nat) \<and> (of_char c :: nat) \<le> 102)"

definition hex_table :: string where
  "hex_table = ''0123456789abcdef''"

text \<open>The loop of \<open>hex_lowercase\<close> writes two table entries per byte, high nibble first.\<close>

definition hex_byte :: "u8 \<Rightarrow> string" where
  "hex_byte b = [hex_table ! unat (drop_bit 4 b), hex_table ! unat (b AND 15)]"

definition hex_lowercase :: "bytes \<Rightarrow> string" where
  "hex_lowercase bs = concat (map hex_byte bs)"

text \<open>The inverse reading, used only to state that the encoding loses nothing.\<close>

definition hex_digit_of :: "char \<Rightarrow> nat" where
  "hex_digit_of c = (if is_ascii_digit c then of_char c - 48 else of_char c - 87)"

fun hex_decode :: "string \<Rightarrow> bytes" where
  "hex_decode (a # b # rest) = word_of_nat (16 * hex_digit_of a + hex_digit_of b) # hex_decode rest"
| "hex_decode _ = []"

lemma hex_table_digit: "n < 16 \<Longrightarrow> is_lower_hex (hex_table ! n) \<and> hex_digit_of (hex_table ! n) = n"
proof -
  assume n: "n < 16"
  have "list_all (\<lambda>n. is_lower_hex (hex_table ! n) \<and> hex_digit_of (hex_table ! n) = n) [0..<16]"
    by code_simp
  with n show ?thesis by (simp add: list_all_iff)
qed

lemma nibbles:
  "unat (drop_bit 4 (b::u8)) = unat b div 16"
  "unat (b AND 15) = unat b mod 16"
proof -
  show "unat (drop_bit 4 b) = unat b div 16"
    by (simp add: drop_bit_eq_div unat_div)
  have "b AND 15 = take_bit 4 b" by (simp add: take_bit_eq_mask mask_eq_exp_minus_1)
  then show "unat (b AND 15) = unat b mod 16"
    by (simp add: take_bit_eq_mod unat_mod)
qed

lemma nibble_bounds: "unat (drop_bit 4 (b::u8)) < 16" "unat (b AND 15) < 16"
proof -
  have "unat b < 256" using unsigned_less [of b] by simp
  then show "unat (drop_bit 4 b) < 16" by (simp add: nibbles del: unat_drop_bit_eq)
  show "unat (b AND 15) < 16" by (simp add: nibbles)
qed

lemma nibbles_join: "word_of_nat (16 * unat (drop_bit 4 b) + unat (b AND 15)) = (b::u8)"
  by (simp only: nibbles mult_div_mod_eq) simp

lemma hex_decode_byte: "hex_decode (hex_byte b @ rest) = b # hex_decode rest"
  by (simp only: hex_byte_def append.simps hex_decode.simps hex_table_digit nibble_bounds nibbles_join)

lemma hex_decode_lowercase: "hex_decode (hex_lowercase bs) = bs"
  by (induction bs) (simp_all add: hex_lowercase_def hex_decode_byte)

lemma hex_lowercase_chars: "list_all is_lower_hex (hex_lowercase bs)"
  by (induction bs) (simp_all add: hex_lowercase_def hex_byte_def hex_table_digit nibble_bounds)

lemma length_hex_lowercase: "length (hex_lowercase bs) = 2 * length bs"
  by (induction bs) (simp_all add: hex_lowercase_def hex_byte_def)

section \<open>Errors\<close>

datatype id_error =
    IdEmpty
  | BadUuidLength nat
  | BadUuidByte nat char
  | BadUuidVersion char
  | BadUuidVariant char
  | TooLong string nat nat
  | BadChar string nat char

definition id_error_kind :: "id_error \<Rightarrow> error_kind" where
  "id_error_kind e = UserInput"

section \<open>UUID-v4 identifiers\<close>

definition uuid_byte_ok :: "nat \<Rightarrow> char \<Rightarrow> bool" where
  "uuid_byte_ok i b = (if i \<in> {8, 13, 18, 23} then b = CHR ''-'' else is_lower_hex b)"

definition validate_uuid_v4_str :: "string \<Rightarrow> (id_error, unit) result" where
  "validate_uuid_v4_str s =
     (if s = [] then Err IdEmpty
      else if length s \<noteq> 36 then Err (BadUuidLength (length s))
      else case first_bad uuid_byte_ok 0 s of
          Some (i, b) \<Rightarrow> Err (BadUuidByte i b)
        | None \<Rightarrow>
            if s ! 14 \<noteq> CHR ''4'' then Err (BadUuidVersion (s ! 14))
            else if s ! 19 \<notin> {CHR ''8'', CHR ''9'', CHR ''a'', CHR ''b''} then Err (BadUuidVariant (s ! 19))
            else Ok ())"

text \<open>
  \<open>$name::parse\<close>: the shape check, then the crate's parser, whose failure would be a panic
  (\<open>expect\<close>).
\<close>

definition uuid_id_parse :: "(string \<Rightarrow> 'u option) \<Rightarrow> string \<Rightarrow> (id_error, 'u) result run" where
  "uuid_id_parse parse_str s =
     (case validate_uuid_v4_str s of
        Inl e \<Rightarrow> Done (Err e)
      | Inr _ \<Rightarrow> (case parse_str s of None \<Rightarrow> Panic | Some u \<Rightarrow> Done (Ok u)))"

definition default_runtime_head_id_str :: string where
  "default_runtime_head_id_str = ''00000000-0000-4000-8000-000000000000''"

definition default_runtime_head_id :: "(string \<Rightarrow> 'u option) \<Rightarrow> 'u run" where
  "default_runtime_head_id parse_str =
     (case uuid_id_parse parse_str default_runtime_head_id_str of
        Done (Inr u) \<Rightarrow> Done u
      | _ \<Rightarrow> Panic)"

text \<open>What the code relies on from the crate: it reads every canonical UUID and prints it back.\<close>

definition uuid_crate_ok :: "(string \<Rightarrow> 'u option) \<Rightarrow> ('u \<Rightarrow> string) \<Rightarrow> bool" where
  "uuid_crate_ok parse_str to_string \<longleftrightarrow>
     (\<forall>s. length s = 36 \<and> (\<forall>i < 36. uuid_byte_ok i (s ! i)) \<longrightarrow>
        (\<exists>u. parse_str s = Some u \<and> to_string u = s))"

lemma validate_uuid_iff:
  "validate_uuid_v4_str s = Inr () \<longleftrightarrow>
     length s = 36 \<and> (\<forall>i < 36. uuid_byte_ok i (s ! i)) \<and>
     s ! 14 = CHR ''4'' \<and> s ! 19 \<in> {CHR ''8'', CHR ''9'', CHR ''a'', CHR ''b''}"
  by (auto simp: validate_uuid_v4_str_def first_bad_guard split: if_splits)

lemma uuid_byte_ok_safe: "uuid_byte_ok i b \<Longrightarrow> b = CHR ''-'' \<or> is_lower_hex b"
  by (auto simp: uuid_byte_ok_def split: if_splits)

lemma validate_uuid_chars:
  "validate_uuid_v4_str s = Inr () \<Longrightarrow> c \<in> set s \<Longrightarrow> c = CHR ''-'' \<or> is_lower_hex c"
  by (auto simp: validate_uuid_iff in_set_conv_nth dest: uuid_byte_ok_safe)

section \<open>AssetId and MicId\<close>

datatype asset_id = AssetId string
datatype mic_id = MicId string

definition asset_id_max :: nat where
  "asset_id_max = 255"

definition mic_id_max :: nat where
  "mic_id_max = 128"

definition asset_byte_ok :: "char \<Rightarrow> bool" where
  "asset_byte_ok b \<longleftrightarrow> is_ascii_alphanumeric b \<or> b = CHR ''.'' \<or> b = CHR ''-'' \<or> b = CHR ''_''"

definition mic_byte_ok :: "char \<Rightarrow> bool" where
  "mic_byte_ok b \<longleftrightarrow> 33 \<le> (of_char b :: nat) \<and> (of_char b :: nat) \<le> 126"

definition asset_id_parse :: "string \<Rightarrow> (id_error, asset_id) result" where
  "asset_id_parse s =
     (if s = [] then Err IdEmpty
      else if length s > asset_id_max then Err (TooLong ''asset id'' (length s) asset_id_max)
      else if s ! 0 = CHR ''.'' then Err (BadChar ''asset id'' 0 (CHR ''.''))
      else case first_bad (\<lambda>_. asset_byte_ok) 0 s of
          Some (i, b) \<Rightarrow> Err (BadChar ''asset id'' i b)
        | None \<Rightarrow> Ok (AssetId s))"

fun asset_id_as_str :: "asset_id \<Rightarrow> string" where
  "asset_id_as_str (AssetId s) = s"

definition mic_id_parse :: "string \<Rightarrow> (id_error, mic_id) result" where
  "mic_id_parse s =
     (if s = [] then Err IdEmpty
      else if length s > mic_id_max then Err (TooLong ''mic id'' (length s) mic_id_max)
      else case first_bad (\<lambda>_. mic_byte_ok) 0 s of
          Some (i, b) \<Rightarrow> Err (BadChar ''mic id'' i b)
        | None \<Rightarrow> Ok (MicId s))"

fun mic_id_as_str :: "mic_id \<Rightarrow> string" where
  "mic_id_as_str (MicId s) = s"

text \<open>\<open>MicId::from_static\<close> panics on a literal the parser rejects.\<close>

definition mic_id_from_static :: "string \<Rightarrow> mic_id run" where
  "mic_id_from_static s = (case mic_id_parse s of Inl e \<Rightarrow> Panic | Inr x \<Rightarrow> Done x)"

lemma asset_id_parse_iff:
  "asset_id_parse s = Inr x \<longleftrightarrow>
     x = AssetId s \<and> s \<noteq> [] \<and> length s \<le> asset_id_max \<and> hd s \<noteq> CHR ''.'' \<and> list_all asset_byte_ok s"
  by (auto simp: asset_id_parse_def hd_conv_nth first_bad_guard_all split: if_splits)

lemma mic_id_parse_iff:
  "mic_id_parse s = Inr x \<longleftrightarrow>
     x = MicId s \<and> s \<noteq> [] \<and> length s \<le> mic_id_max \<and> list_all mic_byte_ok s"
  by (auto simp: mic_id_parse_def first_bad_guard_all split: if_splits)

section \<open>The contract of a validated text type\<close>

text \<open>
  The wire form of these types is the bare string: serialisation is \<open>as_str\<close> and
  deserialisation is \<open>parse\<close> (\<open>try_from = "String", into = "String"\<close>).  The provider promises that
  parsing neither normalises nor invents text; the client gets that the wire round trip is the
  identity and that two texts with the same parsed value are equal.
\<close>

locale validated_text =
  fixes parse :: "string \<Rightarrow> ('e, 'i) result"
    and as_str :: "'i \<Rightarrow> string"
  assumes parse_keeps_text: "parse s = Inr x \<Longrightarrow> as_str x = s"
begin

lemma reparse: "parse s = Inr x \<Longrightarrow> parse (as_str x) = Inr x"
  by (simp add: parse_keeps_text)

lemma parse_injective: "parse s = Inr x \<Longrightarrow> parse t = Inr x \<Longrightarrow> s = t"
  using parse_keeps_text by blast

lemma reject_is_stable: "parse s = Inl e \<Longrightarrow> \<not> (\<exists>x. parse s = Inr x)"
  by simp

end

interpretation asset_id_text: validated_text asset_id_parse asset_id_as_str
  by unfold_locales (auto simp: asset_id_parse_iff)

interpretation mic_id_text: validated_text mic_id_parse mic_id_as_str
  by unfold_locales (auto simp: mic_id_parse_iff)

section \<open>Properties\<close>

text \<open>
  A UUID-backed identifier parses exactly when the text has 36 bytes, hyphens at 8, 13, 18 and
  23, lower-case hex digits elsewhere, version digit 4 and a variant digit in 8, 9, a, b; with the
  crate reading every text of that shape, the call never panics and the value prints back as the
  text.
\<close>

lemma uuid_parse_total:
  assumes "uuid_crate_ok parse_str to_str"
  shows "((\<exists>e. uuid_id_parse parse_str s = Done (Err e)) \<or>
          (\<exists>u. uuid_id_parse parse_str s = Done (Ok u) \<and> to_str u = s)) \<and>
         ((\<exists>u. uuid_id_parse parse_str s = Done (Ok u)) \<longleftrightarrow>
          length s = 36 \<and> (\<forall>i < 36. uuid_byte_ok i (s ! i)) \<and>
          s ! 14 = CHR ''4'' \<and> s ! 19 \<in> {CHR ''8'', CHR ''9'', CHR ''a'', CHR ''b''})"
proof -
  have crate: "\<exists>u. parse_str s = Some u \<and> to_str u = s" if "validate_uuid_v4_str s = Inr ()"
    using assms that validate_uuid_iff [of s] by (simp add: uuid_crate_ok_def)
  show ?thesis
    unfolding validate_uuid_iff [of s, symmetric] uuid_id_parse_def
    using crate by (cases "validate_uuid_v4_str s") auto
qed

text \<open>
  An identifier the validators admit is safe as a file name: it is not empty, holds no path
  separator and no NUL byte, and is not one of the directory names \<open>.\<close> and \<open>..\<close>.
\<close>

definition file_name_safe :: "string \<Rightarrow> bool" where
  "file_name_safe s \<longleftrightarrow> s \<noteq> [] \<and> CHR ''/'' \<notin> set s \<and> CHR 0x00 \<notin> set s \<and> s \<noteq> ''.'' \<and> s \<noteq> ''..''"

lemma uuid_text_safe: "validate_uuid_v4_str s = Inr () \<Longrightarrow> file_name_safe s"
proof -
  assume v: "validate_uuid_v4_str s = Inr ()"
  have "length s = 36" using v by (simp add: validate_uuid_iff)
  moreover have "\<not> is_lower_hex (CHR ''/'')" "\<not> is_lower_hex (CHR 0x00)"
    by (simp_all add: is_lower_hex_def is_ascii_digit_def)
  ultimately show ?thesis using validate_uuid_chars [OF v] by (auto simp: file_name_safe_def)
qed

lemma asset_text_safe: "asset_id_parse s = Inr x \<Longrightarrow> file_name_safe s"
proof -
  assume p: "asset_id_parse s = Inr x"
  have "\<not> asset_byte_ok (CHR ''/'')" "\<not> asset_byte_ok (CHR 0x00)"
    by (simp_all add: asset_byte_ok_def is_ascii_alphanumeric_def is_ascii_digit_def)
  then show ?thesis
    using p by (auto simp: asset_id_parse_iff file_name_safe_def list_all_iff)
qed

lemma identifiers_are_file_names:
  "(validate_uuid_v4_str s = Ok () \<longrightarrow> file_name_safe s) \<and>
   (asset_id_parse s = Ok x \<longrightarrow> file_name_safe (asset_id_as_str x))"
  using uuid_text_safe asset_text_safe by (auto simp: asset_id_parse_iff)

text \<open>
  The hexadecimal encoding loses nothing: it is twice as long as its input, uses lower-case
  digits only, and reading the digits back gives the input.
\<close>

theorem hex_lowercase_roundtrip:
  "hex_decode (hex_lowercase bs) = bs \<and> length (hex_lowercase bs) = 2 * length bs \<and>
   list_all is_lower_hex (hex_lowercase bs)"
  by (simp add: hex_decode_lowercase length_hex_lowercase hex_lowercase_chars)

end
