(* ===== verification/Asset_Path.thy ===== *)
theory Asset_Path
  imports Ids
begin

text \<open>
  \<^verbatim>\<open>common/asset_path.rs\<close>: the validator every operator-supplied path under a workspace's
  asset trees goes through, with its error for each rule, its accessors, and the statement of
  what it protects: resolving an accepted path below a root never leaves that root.
\<close>

definition is_allowed_component_byte :: "char \<Rightarrow> bool" where
  "is_allowed_component_byte b \<longleftrightarrow>
     is_ascii_alphanumeric b \<or> b = CHR ''.'' \<or> b = CHR ''-'' \<or> b = CHR ''_''"

definition max_total_bytes :: nat where
  "max_total_bytes = 256"

definition max_component_bytes :: nat where
  "max_component_bytes = 255"

definition max_depth :: nat where
  "max_depth = 8"

datatype asset_path_error =
    PathEmpty
  | EmptyComponent nat
  | TotalTooLong nat nat
  | ComponentTooLong nat nat nat
  | TooDeep nat nat
  | LeadingDot nat
  | BadByte nat nat char

definition asset_path_error_kind :: "asset_path_error \<Rightarrow> error_kind" where
  "asset_path_error_kind e = UserInput"

datatype asset_path = AssetPath string

text \<open>The loop over the components; \<open>depth\<close> counts the components seen before this one.\<close>

fun check_components :: "nat \<Rightarrow> nat \<Rightarrow> string list \<Rightarrow> (asset_path_error, unit) result" where
  "check_components depth index [] = Ok ()"
| "check_components depth index (c # cs) =
     (if depth + 1 > max_depth then Err (TooDeep (depth + 1) max_depth)
      else if c = [] then Err (EmptyComponent index)
      else if length c > max_component_bytes then Err (ComponentTooLong index (length c) max_component_bytes)
      else if hd c = CHR ''.'' then Err (LeadingDot index)
      else case first_bad (\<lambda>_. is_allowed_component_byte) 0 c of
          Some (j, b) \<Rightarrow> Err (BadByte index j b)
        | None \<Rightarrow> check_components (depth + 1) (index + 1) cs)"

definition asset_path_parse :: "string \<Rightarrow> (asset_path_error, asset_path) result" where
  "asset_path_parse s =
     (if s = [] then Err PathEmpty
      else if length s > max_total_bytes then Err (TotalTooLong (length s) max_total_bytes)
      else case check_components 0 0 (split_on (CHR ''/'') s) of
          Inl e \<Rightarrow> Err e
        | Inr _ \<Rightarrow> Ok (AssetPath s))"

fun asset_path_as_str :: "asset_path \<Rightarrow> string" where
  "asset_path_as_str (AssetPath s) = s"

definition asset_path_components :: "asset_path \<Rightarrow> string list" where
  "asset_path_components p = split_on (CHR ''/'') (asset_path_as_str p)"

definition asset_path_depth :: "asset_path \<Rightarrow> nat" where
  "asset_path_depth p = length (split_on (CHR ''/'') (asset_path_as_str p))"

section \<open>What the validator accepts\<close>

definition component_ok :: "string \<Rightarrow> bool" where
  "component_ok c \<longleftrightarrow>
     c \<noteq> [] \<and> length c \<le> max_component_bytes \<and> hd c \<noteq> CHR ''.'' \<and> list_all is_allowed_component_byte c"

lemma component_ok_asset_id: "component_ok c \<longleftrightarrow> asset_id_parse c = Inr (AssetId c)"
proof -
  have "is_allowed_component_byte = asset_byte_ok"
    by (simp add: fun_eq_iff is_allowed_component_byte_def asset_byte_ok_def)
  then show ?thesis
    by (simp add: component_ok_def asset_id_parse_iff max_component_bytes_def asset_id_max_def)
qed

lemma check_components_iff:
  "check_components depth index cs = Inr () \<longleftrightarrow>
     (cs = [] \<or> depth + length cs \<le> max_depth) \<and> list_all component_ok cs"
proof (induction depth index cs rule: check_components.induct)
  case (1 depth index)
  show ?case by simp
next
  case (2 depth index c cs)
  have scan: "first_bad (\<lambda>_. is_allowed_component_byte) 0 c = None \<longleftrightarrow> list_all is_allowed_component_byte c"
    by (rule first_bad_all)
  show ?case
    by (cases "first_bad (\<lambda>_. is_allowed_component_byte) 0 c")
      (use 2 scan in \<open>auto simp: component_ok_def\<close>)
qed

lemma asset_path_parse_iff:
  "asset_path_parse s = Inr p \<longleftrightarrow>
     p = AssetPath s \<and> length s \<le> max_total_bytes \<and>
     length (split_on (CHR ''/'') s) \<le> max_depth \<and> list_all component_ok (split_on (CHR ''/'') s)"
proof (cases "s = []")
  case True
  then show ?thesis by (simp add: asset_path_parse_def component_ok_def)
next
  case False
  have "asset_path_parse s = Inr p \<longleftrightarrow>
      length s \<le> max_total_bytes \<and> check_components 0 0 (split_on (CHR ''/'') s) = Inr () \<and> p = AssetPath s"
    using False by (auto simp: asset_path_parse_def split: sum.splits)
  then show ?thesis by (auto simp: check_components_iff)
qed

interpretation asset_path_text: validated_text asset_path_parse asset_path_as_str
  by unfold_locales (simp add: asset_path_parse_iff)

section \<open>Lexical path resolution\<close>

text \<open>
  How a file system resolves a relative path against a directory, component by component:
  empty components and \<open>.\<close> stay, \<open>..\<close> goes up (and stays at the top of the tree).
\<close>

fun resolve :: "string list \<Rightarrow> string list \<Rightarrow> string list" where
  "resolve dir [] = dir"
| "resolve dir (c # cs) =
     (if c = [] \<or> c = ''.'' then resolve dir cs
      else if c = ''..'' then resolve (butlast dir) cs
      else resolve (dir @ [c]) cs)"

lemma component_ok_plain: "component_ok c \<Longrightarrow> c \<noteq> [] \<and> c \<noteq> ''.'' \<and> c \<noteq> ''..''"
  by (auto simp: component_ok_def)

lemma resolve_plain: "list_all component_ok cs \<Longrightarrow> resolve dir cs = dir @ cs"
proof (induction cs arbitrary: dir)
  case Nil
  show ?case by simp
next
  case (Cons c cs)
  then have "component_ok c" by simp
  then have "c \<noteq> [] \<and> c \<noteq> ''.'' \<and> c \<noteq> ''..''" by (rule component_ok_plain)
  with Cons show ?case by simp
qed

section \<open>Properties\<close>

text \<open>
  The validator accepts exactly the paths of at most 256 bytes and 8 components in which every
  component is, on its own, a valid asset id; the parsed value is the text itself.
\<close>

lemma asset_path_accepts_iff:
  "asset_path_parse s = Ok p \<longleftrightarrow>
     p = AssetPath s \<and> length s \<le> max_total_bytes \<and> asset_path_depth (AssetPath s) \<le> max_depth \<and>
     list_all (\<lambda>c. asset_id_parse c = Ok (AssetId c)) (asset_path_components (AssetPath s))"
  by (simp add: asset_path_parse_iff asset_path_depth_def asset_path_components_def
      component_ok_asset_id [symmetric])

text \<open>
  C36.  Containment: resolving an accepted path below any directory never leaves it.  The result is
  the directory followed by the path's own components, and joining those with slashes gives back
  the text.
\<close>

theorem accepted_path_stays_below:
  assumes "asset_path_parse s = Ok p"
  shows "resolve dir (asset_path_components p) = dir @ asset_path_components p \<and>
         join_with (CHR ''/'') (asset_path_components p) = s \<and>
         1 \<le> asset_path_depth p \<and> asset_path_depth p \<le> 8"
proof -
  note A = iffD1 [OF asset_path_parse_iff assms]
  have "0 < length (split_on (CHR ''/'') s)" by simp
  then have "1 \<le> length (split_on (CHR ''/'') s)" by linarith
  then show ?thesis
    using A by (simp add: asset_path_components_def asset_path_depth_def resolve_plain max_depth_def)
qed

theorem accepted_path_stays_below_witness:
  "resolve [''ws''] (asset_path_components (AssetPath ''a/b.wav'')) = [''ws'', ''a'', ''b.wav'']"
proof -
  have "asset_path_parse ''a/b.wav'' = Ok (AssetPath ''a/b.wav'')" by code_simp
  from accepted_path_stays_below [OF this, of "[''ws'']"] show ?thesis
    by (simp add: asset_path_components_def)
qed

end
