(* ===== verification/Workspace_Types.thy ===== *)
theory Workspace_Types
  imports Ids Asset_Path
begin

text \<open>
  \<^verbatim>\<open>common/workspace.rs\<close>: the data shared by the file manager, the job registry and the active-head
  writer, with the structural validators of the two manifests.  Identifiers are their canonical
  text; timestamps are RFC 3339 strings the code only stores and copies.
\<close>

type_synonym workspace_id = string
type_synonym head_id = string
type_synonym job_id = string

record workspace_revision =
  rev_id :: nat
  rev_at :: string

record workspace_core =
  wc_id :: workspace_id
  wc_name :: string
  wc_tags :: "string list"
  wc_created_at :: string
  wc_workspace_revision :: workspace_revision
  wc_head_count :: nat

record head_record =
  hr_head_id :: head_id
  hr_workspace_revision :: workspace_revision
  hr_sha256 :: string
  hr_n_classes :: nat
  hr_size_bytes :: nat
  hr_created_at :: string

record head_index =
  hi_heads :: "head_record list"

definition max_heads_per_workspace :: nat where
  "max_heads_per_workspace = 2"

record head_manifest =
  hm_head_id :: head_id
  hm_workspace_id :: workspace_id
  hm_workspace_revision :: workspace_revision
  hm_sha256 :: string
  hm_n_classes :: nat
  hm_size_bytes :: nat
  hm_created_at :: string
  hm_labels :: "string list"

datatype head_status = Current | Stale

definition head_status_from_revisions :: "workspace_revision \<Rightarrow> workspace_revision \<Rightarrow> head_status" where
  "head_status_from_revisions head workspace = (if rev_id head = rev_id workspace then Current else Stale)"

datatype head_validation_error = ZeroClasses | ClassCountMismatch nat nat

definition head_validation_error_kind :: "head_validation_error \<Rightarrow> error_kind" where
  "head_validation_error_kind e = Internal"

definition head_manifest_validate :: "head_manifest \<Rightarrow> (head_validation_error, unit) result" where
  "head_manifest_validate m =
     (if hm_n_classes m = 0 then Err ZeroClasses
      else let labels_len = length (hm_labels m) in
        if hm_n_classes m \<noteq> labels_len then Err (ClassCountMismatch (hm_n_classes m) labels_len)
        else Ok ())"

datatype active_origin = OriginDefault | OriginHead workspace_id head_id workspace_revision

record active_head_manifest =
  am_origin :: active_origin
  am_runtime_head_id :: head_id
  am_sha256 :: string
  am_labels_sha256 :: string
  am_n_classes :: nat
  am_labels :: "string list"
  am_activated_at :: string

datatype active_head_validation_error =
    DefaultRuntimeIdMismatch head_id head_id
  | HeadRuntimeIdMismatch head_id head_id

definition active_head_manifest_validate ::
  "active_head_manifest \<Rightarrow> (active_head_validation_error, unit) result"
where
  "active_head_manifest_validate m =
     (case am_origin m of
        OriginDefault \<Rightarrow>
          let expected = default_runtime_head_id_str in
          if am_runtime_head_id m \<noteq> expected
          then Err (DefaultRuntimeIdMismatch (am_runtime_head_id m) expected) else Ok ()
      | OriginHead _ source_head_id _ \<Rightarrow>
          if am_runtime_head_id m \<noteq> source_head_id
          then Err (HeadRuntimeIdMismatch (am_runtime_head_id m) source_head_id) else Ok ())"

datatype converter_type = Tfjs

datatype job_type =
    Train
  | Convert
  | DatasetDelete
  | ConverterDelete
  | TrainingLogsDelete
  | ConverterLogsDelete
  | WorkspaceDelete

definition is_delete_subtype :: "job_type \<Rightarrow> bool" where
  "is_delete_subtype t \<longleftrightarrow>
     t \<in> {DatasetDelete, ConverterDelete, TrainingLogsDelete, ConverterLogsDelete, WorkspaceDelete}"

datatype job_reference = RefWorkspace workspace_id

fun ref_workspace_id :: "job_reference \<Rightarrow> workspace_id" where
  "ref_workspace_id (RefWorkspace w) = w"

lemma head_manifest_validate_iff:
  "head_manifest_validate m = Inr () \<longleftrightarrow> 0 < hm_n_classes m \<and> length (hm_labels m) = hm_n_classes m"
  by (auto simp: head_manifest_validate_def Let_def)

lemma active_validate_iff:
  "active_head_manifest_validate m = Inr () \<longleftrightarrow>
     (case am_origin m of OriginDefault \<Rightarrow> am_runtime_head_id m = default_runtime_head_id_str
      | OriginHead _ h _ \<Rightarrow> am_runtime_head_id m = h)"
  by (auto simp: active_head_manifest_validate_def Let_def split: active_origin.splits)

end
