(* ===== verification/Job_Registry.thy ===== *)
theory Job_Registry
  imports Workspace_Types
begin

text \<open>
  \<^verbatim>\<open>file_mgr/job_registry.rs\<close>: the in-process registry of jobs and bare leases.  Every operation holds
  the registry's one mutex from its first read to its last write, so each is one transition of the
  registry's state.  Fresh job ids (\<open>JobId::new\<close>), the wall clock and the monotonic instant are
  arguments.  The event an operation hands to the broadcast channel is part of its result; the
  channel itself is tokio's.  A hash map is an association list, whose list order stands for the
  map's iteration order; nothing proved depends on that order.
\<close>

section \<open>Data\<close>

text \<open>\<open>cf_throttle_ns\<close> is the throttle interval computed from \<open>progress_throttle_hz\<close>, in nanoseconds.\<close>

record job_registry_cfg =
  cf_max_train_jobs :: nat
  cf_max_convert_jobs :: nat
  cf_max_delete_jobs :: nat
  cf_max_recent_jobs :: nat
  cf_max_job_event_ring :: nat
  cf_max_log_line_bytes :: nat
  cf_throttle_ns :: nat

definition job_registry_cfg_default :: job_registry_cfg where
  "job_registry_cfg_default =
     \<lparr>cf_max_train_jobs = 1, cf_max_convert_jobs = 1, cf_max_delete_jobs = 1, cf_max_recent_jobs = 4,
      cf_max_job_event_ring = 1024, cf_max_log_line_bytes = 8 * 1024, cf_throttle_ns = 250000000\<rparr>"

datatype job_result =
    ResultWorkspaceDelete bool
  | ResultConvert head_id string nat
  | ResultTrain head_id string nat

datatype job_state = Queued | Running | Succeeded | Failed | Cancelled

definition is_active :: "job_state \<Rightarrow> bool" where
  "is_active s \<longleftrightarrow> s \<in> {Queued, Running}"

record job_progress =
  pr_done :: nat
  pr_total :: "nat option"

record job_event =
  ev_seq :: nat
  ev_at :: string
  ev_state :: "job_state option"
  ev_progress :: "job_progress option"
  ev_message :: "string option"

record job_snapshot =
  sn_job_id :: job_id
  sn_job_type :: job_type
  sn_workspace_id :: "workspace_id option"
  sn_target_path :: "asset_path option"
  sn_state :: job_state
  sn_progress :: "job_progress option"
  sn_result :: "job_result option"
  sn_last_seq :: nat
  sn_updated_at :: string

datatype event_gap = EventGap nat nat

datatype registry_conflict = AnotherTrainRunning | JobConflict job_id job_type

record job_entry =
  je_job_id :: job_id
  je_job_type :: job_type
  je_references :: "job_reference list"
  je_target_path :: "asset_path option"
  je_state :: job_state
  je_progress :: "job_progress option"
  je_result :: "job_result option"
  je_last_seq :: nat
  je_updated_at :: string
  je_ring :: "job_event list"
  je_last_progress_at :: "nat option"

record jobs_state =
  js_order :: "job_id list"
  js_entries :: "(job_id \<times> job_entry) list"
  js_leases :: "(nat \<times> job_reference list) list"
  js_next_lease_id :: nat

record job_counters =
  ct_admission_conflicts :: nat
  ct_events_dropped :: nat
  ct_progress_throttled :: nat
  ct_log_lines_truncated :: nat

record 'b job_registry =
  rg_jobs :: jobs_state
  rg_counters :: job_counters
  rg_boot_recovery :: "'b option"
  rg_cfg :: job_registry_cfg

definition jobs_state_new :: jobs_state where
  "jobs_state_new = \<lparr>js_order = [], js_entries = [], js_leases = [], js_next_lease_id = 1\<rparr>"

definition registry_new :: "job_registry_cfg \<Rightarrow> 'b job_registry" where
  "registry_new cfg =
     \<lparr>rg_jobs = jobs_state_new,
      rg_counters = \<lparr>ct_admission_conflicts = 0, ct_events_dropped = 0, ct_progress_throttled = 0,
                     ct_log_lines_truncated = 0\<rparr>,
      rg_boot_recovery = None, rg_cfg = cfg\<rparr>"

definition entry_snapshot :: "job_entry \<Rightarrow> job_snapshot" where
  "entry_snapshot e =
     \<lparr>sn_job_id = je_job_id e, sn_job_type = je_job_type e,
      sn_workspace_id = (case je_references e of [] \<Rightarrow> None | r # _ \<Rightarrow> Some (ref_workspace_id r)),
      sn_target_path = je_target_path e, sn_state = je_state e, sn_progress = je_progress e,
      sn_result = je_result e, sn_last_seq = je_last_seq e, sn_updated_at = je_updated_at e\<rparr>"

text \<open>The entry with the event in its ring, and how many events fell out of the ring.\<close>

definition push_event :: "job_event \<Rightarrow> nat \<Rightarrow> job_entry \<Rightarrow> job_entry \<times> nat" where
  "push_event event max_ring e =
     (if length (je_ring e) \<ge> max_ring
      then (e\<lparr>je_ring := drop 1 (je_ring e) @ [event]\<rparr>, 1)
      else (e\<lparr>je_ring := je_ring e @ [event]\<rparr>, 0))"

text \<open>The atomic counters are \<open>u64\<close> and \<open>fetch_add\<close> wraps.\<close>

definition count_conflict :: "'b job_registry \<Rightarrow> 'b job_registry" where
  "count_conflict r = r\<lparr>rg_counters := (rg_counters r)\<lparr>ct_admission_conflicts :=
     wrapping_add64 (ct_admission_conflicts (rg_counters r)) 1\<rparr>\<rparr>"

definition count_dropped :: "nat \<Rightarrow> 'b job_registry \<Rightarrow> 'b job_registry" where
  "count_dropped n r = r\<lparr>rg_counters := (rg_counters r)\<lparr>ct_events_dropped :=
     wrapping_add64 (ct_events_dropped (rg_counters r)) n\<rparr>\<rparr>"

definition count_throttled :: "'b job_registry \<Rightarrow> 'b job_registry" where
  "count_throttled r = r\<lparr>rg_counters := (rg_counters r)\<lparr>ct_progress_throttled :=
     wrapping_add64 (ct_progress_throttled (rg_counters r)) 1\<rparr>\<rparr>"

definition count_truncated :: "'b job_registry \<Rightarrow> 'b job_registry" where
  "count_truncated r = r\<lparr>rg_counters := (rg_counters r)\<lparr>ct_log_lines_truncated :=
     wrapping_add64 (ct_log_lines_truncated (rg_counters r)) 1\<rparr>\<rparr>"

section \<open>Conflict predicates and pruning\<close>

definition refs_touch :: "workspace_id \<Rightarrow> job_reference list \<Rightarrow> bool" where
  "refs_touch ws refs = list_ex (\<lambda>r. ref_workspace_id r = ws) refs"

definition job_conflicts_with_existing_job ::
  "bool \<Rightarrow> workspace_id \<Rightarrow> job_type \<Rightarrow> job_reference list \<Rightarrow> bool" where
  "job_conflicts_with_existing_job new_is_workspace_delete new_ws existing_type existing_refs =
     (if \<not> refs_touch new_ws existing_refs then False
      else new_is_workspace_delete \<or> existing_type = WorkspaceDelete)"

definition job_conflicts_with_existing_lease ::
  "bool \<Rightarrow> workspace_id \<Rightarrow> job_reference list \<Rightarrow> bool" where
  "job_conflicts_with_existing_lease new_is_workspace_delete new_ws lease_refs =
     (if \<not> new_is_workspace_delete then False else refs_touch new_ws lease_refs)"

definition lease_conflicts_with_existing_job ::
  "workspace_id \<Rightarrow> job_type \<Rightarrow> job_reference list \<Rightarrow> bool" where
  "lease_conflicts_with_existing_job new_ws existing_type existing_refs =
     (if existing_type \<noteq> WorkspaceDelete then False else refs_touch new_ws existing_refs)"

definition entry_values :: "jobs_state \<Rightarrow> job_entry list" where
  "entry_values s = map snd (js_entries s)"

definition entry_active :: "job_entry \<Rightarrow> bool" where
  "entry_active e = is_active (je_state e)"

text \<open>The pruning loop, from index \<open>i\<close> of the order down to 0.\<close>

fun prune_from :: "nat \<Rightarrow> nat \<Rightarrow> jobs_state \<Rightarrow> jobs_state" where
  "prune_from max_recent 0 s = s"
| "prune_from max_recent (Suc i) s =
     (if length (js_entries s) > max_recent
      then let key = js_order s ! i in
        case map_of (js_entries s) key of
          Some e \<Rightarrow>
            if \<not> entry_active e
            then prune_from max_recent i
                   (s\<lparr>js_order := take i (js_order s) @ drop (Suc i) (js_order s),
                      js_entries := AList.delete key (js_entries s)\<rparr>)
            else prune_from max_recent i s
        | None \<Rightarrow> prune_from max_recent i s
      else s)"

definition prune_recent :: "jobs_state \<Rightarrow> nat \<Rightarrow> jobs_state" where
  "prune_recent s max_recent =
     (if length (js_entries s) \<le> max_recent then s
      else prune_from max_recent (length (js_order s)) s)"

section \<open>Admission\<close>

definition admission_slot :: "job_registry_cfg \<Rightarrow> job_type \<Rightarrow> nat \<times> (job_type \<Rightarrow> bool)" where
  "admission_slot cfg t =
     (case t of
        Train \<Rightarrow> (cf_max_train_jobs cfg, \<lambda>u. u = Train)
      | Convert \<Rightarrow> (cf_max_convert_jobs cfg, \<lambda>u. u = Convert)
      | _ \<Rightarrow> (cf_max_delete_jobs cfg, is_delete_subtype))"

definition in_slot :: "(job_type \<Rightarrow> bool) \<Rightarrow> job_entry \<Rightarrow> bool" where
  "in_slot pred e \<longleftrightarrow> entry_active e \<and> pred (je_job_type e)"

text \<open>The conflict loop over the new references: jobs first, then, for a workspace delete, leases.\<close>

fun scan_references :: "job_id \<Rightarrow> bool \<Rightarrow> jobs_state \<Rightarrow> job_reference list \<Rightarrow> registry_conflict option" where
  "scan_references fresh is_wd s [] = None"
| "scan_references fresh is_wd s (ref # refs) =
     (case find (\<lambda>e. entry_active e \<and>
          job_conflicts_with_existing_job is_wd (ref_workspace_id ref) (je_job_type e) (je_references e))
          (entry_values s) of
        Some e \<Rightarrow> Some (JobConflict (je_job_id e) (je_job_type e))
      | None \<Rightarrow>
          if is_wd \<and> list_ex (\<lambda>lease. job_conflicts_with_existing_lease is_wd (ref_workspace_id ref) (snd lease))
               (js_leases s)
          then Some (JobConflict fresh WorkspaceDelete)
          else scan_references fresh is_wd s refs)"

definition new_entry :: "job_id \<Rightarrow> string \<Rightarrow> job_type \<Rightarrow> job_reference list \<Rightarrow> asset_path option \<Rightarrow> job_entry" where
  "new_entry fresh now t refs target =
     \<lparr>je_job_id = fresh, je_job_type = t, je_references = refs, je_target_path = target,
      je_state = Running, je_progress = None, je_result = None, je_last_seq = 0, je_updated_at = now,
      je_ring = [], je_last_progress_at = None\<rparr>"

definition try_acquire ::
  "job_id \<Rightarrow> string \<Rightarrow> job_type \<Rightarrow> job_reference list \<Rightarrow> asset_path option \<Rightarrow> 'b job_registry \<Rightarrow>
     (registry_conflict, job_id) result \<times> 'b job_registry"
where
  "try_acquire fresh now t refs target r =
     (let s = rg_jobs r; (cap, pred) = admission_slot (rg_cfg r) t;
          active_same_type = length (filter (in_slot pred) (entry_values s)) in
      if active_same_type \<ge> cap then
        (Err (case (t, find (in_slot pred) (entry_values s)) of
                (Train, _) \<Rightarrow> AnotherTrainRunning
              | (_, Some e) \<Rightarrow> JobConflict (je_job_id e) (je_job_type e)
              | (_, None) \<Rightarrow> JobConflict fresh t),
         count_conflict r)
      else case scan_references fresh (t = WorkspaceDelete) s refs of
          Some c \<Rightarrow> (Err c, count_conflict r)
        | None \<Rightarrow>
            (Ok fresh,
             r\<lparr>rg_jobs := prune_recent
                  (s\<lparr>js_order := fresh # js_order s,
                     js_entries := AList.update fresh (new_entry fresh now t refs target) (js_entries s)\<rparr>)
                  (cf_max_recent_jobs (rg_cfg r))\<rparr>))"

section \<open>Progress, log lines and termination\<close>

definition set_entry :: "job_id \<Rightarrow> job_entry \<Rightarrow> 'b job_registry \<Rightarrow> 'b job_registry" where
  "set_entry j e r = r\<lparr>rg_jobs := (rg_jobs r)\<lparr>js_entries := AList.update j e (js_entries (rg_jobs r))\<rparr>\<rparr>"

definition get_entry :: "job_id \<Rightarrow> 'b job_registry \<Rightarrow> job_entry option" where
  "get_entry j r = map_of (js_entries (rg_jobs r)) j"

text \<open>
  The common tail of the three emitters: bump the sequence number and the timestamp, build the
  event, push it into the ring.
\<close>

definition emit ::
  "string \<Rightarrow> job_state option \<Rightarrow> job_progress option \<Rightarrow> string option \<Rightarrow> nat \<Rightarrow> job_entry \<Rightarrow>
     job_entry \<times> job_event \<times> nat"
where
  "emit now st prog msg max_ring e =
     (let seq = saturating_add64 (je_last_seq e) 1;
          e1 = e\<lparr>je_last_seq := seq, je_updated_at := now\<rparr>;
          event = \<lparr>ev_seq = seq, ev_at = now, ev_state = st, ev_progress = prog, ev_message = msg\<rparr>;
          (e2, dropped) = push_event event max_ring e1
      in (e2, event, dropped))"

definition update_progress ::
  "nat \<Rightarrow> string \<Rightarrow> job_id \<Rightarrow> job_progress \<Rightarrow> 'b job_registry \<Rightarrow> 'b job_registry \<times> job_event option"
where
  "update_progress instant now j prog r =
     (case get_entry j r of
        None \<Rightarrow> (r, None)
      | Some e0 \<Rightarrow>
          let e = e0\<lparr>je_progress := Some prog\<rparr> in
          if (case je_last_progress_at e of
                None \<Rightarrow> False
              | Some prev \<Rightarrow> saturating_sub instant prev < cf_throttle_ns (rg_cfg r))
          then (count_throttled (set_entry j e r), None)
          else let (e2, event, dropped) =
                     emit now None (Some prog) None (cf_max_job_event_ring (rg_cfg r))
                       (e\<lparr>je_last_progress_at := Some instant\<rparr>)
               in (count_dropped dropped (set_entry j e2 r), Some event))"

definition log_suffix :: string where
  "log_suffix = '' ... [truncated]''"

definition cap_log_line :: "nat \<Rightarrow> string \<Rightarrow> string" where
  "cap_log_line mx msg =
     (if length msg > mx
      then let target = max (saturating_sub mx (length log_suffix)) 1 in
        take (snap_down msg target) msg @ log_suffix
      else msg)"

definition append_log ::
  "string \<Rightarrow> job_id \<Rightarrow> string \<Rightarrow> 'b job_registry \<Rightarrow> 'b job_registry \<times> job_event option"
where
  "append_log now j message r0 =
     (let mx = cf_max_log_line_bytes (rg_cfg r0);
          r = (if length message > mx then count_truncated r0 else r0);
          msg = cap_log_line mx message in
      case get_entry j r of
        None \<Rightarrow> (r, None)
      | Some e \<Rightarrow>
          let (e2, event, dropped) = emit now None None (Some msg) (cf_max_job_event_ring (rg_cfg r)) e
          in (count_dropped dropped (set_entry j e2 r), Some event))"

definition terminate_job ::
  "string \<Rightarrow> job_id \<Rightarrow> job_state \<Rightarrow> job_result option \<Rightarrow> 'b job_registry \<Rightarrow> 'b job_registry \<times> job_event option"
where
  "terminate_job now j st res r =
     (case get_entry j r of
        None \<Rightarrow> (r, None)
      | Some e0 \<Rightarrow>
          if \<not> entry_active e0 then (r, None)
          else let e1 = e0\<lparr>je_state := st, je_result := (if res \<noteq> None then res else je_result e0),
                           je_references := []\<rparr>;
                   (e2, event, dropped) =
                     emit now (Some st) (je_progress e1) None (cf_max_job_event_ring (rg_cfg r)) e1;
                   r2 = count_dropped dropped (set_entry j e2 r)
               in (r2\<lparr>rg_jobs := prune_recent (rg_jobs r2) (cf_max_recent_jobs (rg_cfg r))\<rparr>, Some event))"

section \<open>Queries, leases and subscriptions\<close>

definition job_snapshot_of :: "job_id \<Rightarrow> 'b job_registry \<Rightarrow> job_snapshot option" where
  "job_snapshot_of j r = map_option entry_snapshot (get_entry j r)"

definition recent_jobs :: "nat \<Rightarrow> 'b job_registry \<Rightarrow> job_snapshot list" where
  "recent_jobs limit r =
     List.map_filter (\<lambda>j. map_option entry_snapshot (get_entry j r))
       (take (min limit (cf_max_recent_jobs (rg_cfg r))) (js_order (rg_jobs r)))"

definition has_active_for :: "workspace_id \<Rightarrow> job_type \<Rightarrow> 'b job_registry \<Rightarrow> bool" where
  "has_active_for ws t r =
     list_ex (\<lambda>e. entry_active e \<and> je_job_type e = t \<and> refs_touch ws (je_references e))
       (entry_values (rg_jobs r))"

definition has_active_train_for :: "workspace_id \<Rightarrow> 'b job_registry \<Rightarrow> bool" where
  "has_active_train_for ws = has_active_for ws Train"

definition has_active_convert_for :: "workspace_id \<Rightarrow> 'b job_registry \<Rightarrow> bool" where
  "has_active_convert_for ws = has_active_for ws Convert"

fun scan_lease :: "jobs_state \<Rightarrow> job_reference list \<Rightarrow> registry_conflict option" where
  "scan_lease s [] = None"
| "scan_lease s (ref # refs) =
     (case find (\<lambda>e. entry_active e \<and>
          lease_conflicts_with_existing_job (ref_workspace_id ref) (je_job_type e) (je_references e))
          (entry_values s) of
        Some e \<Rightarrow> Some (JobConflict (je_job_id e) (je_job_type e))
      | None \<Rightarrow> scan_lease s refs)"

definition try_acquire_lease ::
  "job_reference list \<Rightarrow> 'b job_registry \<Rightarrow> (registry_conflict, nat) result \<times> 'b job_registry"
where
  "try_acquire_lease refs r =
     (let s = rg_jobs r in
      case scan_lease s refs of
        Some c \<Rightarrow> (Err c, count_conflict r)
      | None \<Rightarrow>
          let lease_id = js_next_lease_id s in
          (Ok lease_id,
           r\<lparr>rg_jobs := s\<lparr>js_next_lease_id := wrapping_add64 lease_id 1,
                         js_leases := AList.update lease_id refs (js_leases s)\<rparr>\<rparr>))"

definition release_lease :: "nat \<Rightarrow> 'b job_registry \<Rightarrow> 'b job_registry" where
  "release_lease lease_id r =
     r\<lparr>rg_jobs := (rg_jobs r)\<lparr>js_leases := AList.delete lease_id (js_leases (rg_jobs r))\<rparr>\<rparr>"

record event_stream =
  es_replay :: "job_event list"
  es_job_id :: job_id
  es_terminal_seen :: bool

definition subscribe_events :: "job_id \<Rightarrow> nat \<Rightarrow> 'b job_registry \<Rightarrow> (event_gap, event_stream) result" where
  "subscribe_events j after_seq r =
     (case get_entry j r of
        None \<Rightarrow> Ok \<lparr>es_replay = [], es_job_id = j, es_terminal_seen = False\<rparr>
      | Some e \<Rightarrow>
          let oldest = (case je_ring e of [] \<Rightarrow> 0 | ev # _ \<Rightarrow> ev_seq ev);
              latest = je_last_seq e in
          if after_seq > 0 \<and> (after_seq < saturating_sub oldest 1 \<or> after_seq > latest)
          then Err (EventGap oldest latest)
          else Ok \<lparr>es_replay = filter (\<lambda>ev. ev_seq ev > after_seq) (je_ring e), es_job_id = j,
                   es_terminal_seen = (\<not> entry_active e)\<rparr>)"

definition next_replay :: "event_stream \<Rightarrow> job_event option \<times> event_stream" where
  "next_replay es =
     (case es_replay es of [] \<Rightarrow> (None, es) | ev # evs \<Rightarrow> (Some ev, es\<lparr>es_replay := evs\<rparr>))"

text \<open>
  \<open>recv\<close> over what the broadcast receiver delivers next; \<open>None\<close> is a receive that is still waiting.
\<close>

datatype live_item = LiveEvent job_id job_event | LiveLagged | LiveClosed
datatype event_stream_error = StreamLagged | StreamClosed

fun stream_recv ::
  "event_stream \<Rightarrow> live_item list \<Rightarrow> ((event_stream_error, job_event) result option) \<times> event_stream \<times> live_item list"
where
  "stream_recv es [] = (None, es, [])"
| "stream_recv es (LiveEvent j ev # rest) =
     (if j \<noteq> es_job_id es then stream_recv es rest
      else (Some (Ok ev),
            (case ev_state ev of
               Some s \<Rightarrow> if \<not> is_active s then es\<lparr>es_terminal_seen := True\<rparr> else es
             | None \<Rightarrow> es), rest))"
| "stream_recv es (LiveLagged # rest) = (Some (Err StreamLagged), es, rest)"
| "stream_recv es (LiveClosed # rest) = (Some (Err StreamClosed), es, rest)"

record registry_counters =
  rc_counters :: job_counters
  rc_jobs_running :: nat
  rc_jobs_retained :: nat

definition registry_counters_of :: "'b job_registry \<Rightarrow> registry_counters" where
  "registry_counters_of r =
     \<lparr>rc_counters = rg_counters r,
      rc_jobs_running = length (filter entry_active (entry_values (rg_jobs r))),
      rc_jobs_retained = length (js_entries (rg_jobs r))\<rparr>"

definition record_boot_recovery :: "'b \<Rightarrow> 'b job_registry \<Rightarrow> 'b job_registry" where
  "record_boot_recovery report r =
     (if rg_boot_recovery r = None then r\<lparr>rg_boot_recovery := Some report\<rparr> else r)"

section \<open>Handles\<close>

record job_handle =
  jh_job_id :: job_id
  jh_terminated :: bool

definition handle_drop :: "string \<Rightarrow> job_handle \<Rightarrow> 'b job_registry \<Rightarrow> 'b job_registry" where
  "handle_drop now h r =
     (if \<not> jh_terminated h then fst (terminate_job now (jh_job_id h) Failed None r) else r)"

text \<open>The three terminators consume the handle, whose drop then runs with the flag set.\<close>

definition handle_succeed :: "string \<Rightarrow> job_handle \<Rightarrow> job_result option \<Rightarrow> 'b job_registry \<Rightarrow> 'b job_registry" where
  "handle_succeed now h res r =
     handle_drop now (h\<lparr>jh_terminated := True\<rparr>) (fst (terminate_job now (jh_job_id h) Succeeded res r))"

definition handle_fail :: "string \<Rightarrow> job_handle \<Rightarrow> string \<Rightarrow> 'b job_registry \<Rightarrow> 'b job_registry" where
  "handle_fail now h reason r =
     handle_drop now (h\<lparr>jh_terminated := True\<rparr>)
       (fst (terminate_job now (jh_job_id h) Failed None (fst (append_log now (jh_job_id h) reason r))))"

definition handle_cancel :: "string \<Rightarrow> job_handle \<Rightarrow> 'b job_registry \<Rightarrow> 'b job_registry" where
  "handle_cancel now h r =
     handle_drop now (h\<lparr>jh_terminated := True\<rparr>) (fst (terminate_job now (jh_job_id h) Cancelled None r))"

record lease_guard =
  lg_lease_id :: nat
  lg_released :: bool

definition lease_guard_drop :: "lease_guard \<Rightarrow> 'b job_registry \<Rightarrow> lease_guard \<times> 'b job_registry" where
  "lease_guard_drop g r =
     (if \<not> lg_released g then (g\<lparr>lg_released := True\<rparr>, release_lease (lg_lease_id g) r) else (g, r))"

end
