(* ===== verification/Registry_Invariants.thy ===== *)
theory Registry_Invariants
  imports Job_Registry
begin

text \<open>
  The registry's invariant and its preservation: the order list and the entry map agree, no
  admission slot is overfull, a running workspace delete shares its workspace with no other
  running job and no lease, terminal entries hold no references, and every event ring is the tail
  of the job's event sequence.  A step relation collects the registry's operations; the
  invariant holds in every state they can reach.
\<close>

section \<open>The invariant\<close>

definition ref_spaces :: "job_reference list \<Rightarrow> workspace_id set" where
  "ref_spaces refs = ref_workspace_id ` set refs"

definition keys_ok :: "jobs_state \<Rightarrow> bool" where
  "keys_ok s \<longleftrightarrow> distinct (map fst (js_entries s)) \<and> distinct (js_order s) \<and>
     set (js_order s) = fst ` set (js_entries s) \<and> (\<forall>k e. (k, e) \<in> set (js_entries s) \<longrightarrow> je_job_id e = k)"

definition slot_count :: "(job_type \<Rightarrow> bool) \<Rightarrow> jobs_state \<Rightarrow> nat" where
  "slot_count pred s = length (filter (in_slot pred) (entry_values s))"

definition caps_ok :: "job_registry_cfg \<Rightarrow> jobs_state \<Rightarrow> bool" where
  "caps_ok cfg s \<longleftrightarrow> (\<forall>t. slot_count (snd (admission_slot cfg t)) s \<le> fst (admission_slot cfg t))"

definition deleting :: "job_entry \<Rightarrow> bool" where
  "deleting e \<longleftrightarrow> entry_active e \<and> je_job_type e = WorkspaceDelete"

definition apart :: "job_entry \<Rightarrow> job_entry \<Rightarrow> bool" where
  "apart e f \<longleftrightarrow> (entry_active e \<and> entry_active f \<and>
     (je_job_type e = WorkspaceDelete \<or> je_job_type f = WorkspaceDelete) \<longrightarrow>
     ref_spaces (je_references e) \<inter> ref_spaces (je_references f) = {})"

definition exclusive :: "jobs_state \<Rightarrow> bool" where
  "exclusive s \<longleftrightarrow>
     (\<forall>k e l f. (k, e) \<in> set (js_entries s) \<longrightarrow> (l, f) \<in> set (js_entries s) \<longrightarrow> k \<noteq> l \<longrightarrow> apart e f) \<and>
     (\<forall>k e l refs. (k, e) \<in> set (js_entries s) \<longrightarrow> deleting e \<longrightarrow> (l, refs) \<in> set (js_leases s) \<longrightarrow>
        ref_spaces (je_references e) \<inter> ref_spaces refs = {})"

definition entry_ok :: "job_registry_cfg \<Rightarrow> job_entry \<Rightarrow> bool" where
  "entry_ok cfg e \<longleftrightarrow>
     (\<not> entry_active e \<longrightarrow> je_references e = []) \<and>
     length (je_ring e) \<le> max 1 (cf_max_job_event_ring cfg) \<and> je_last_seq e \<le> u64_max \<and>
     (je_ring e = [] \<longrightarrow> je_last_seq e = 0) \<and>
     (je_last_seq e < u64_max \<longrightarrow> length (je_ring e) \<le> je_last_seq e \<and>
        map ev_seq (je_ring e) = [Suc (je_last_seq e) - length (je_ring e) ..< Suc (je_last_seq e)])"

definition jobs_inv :: "job_registry_cfg \<Rightarrow> jobs_state \<Rightarrow> bool" where
  "jobs_inv cfg s \<longleftrightarrow>
     keys_ok s \<and> caps_ok cfg s \<and> exclusive s \<and> (\<forall>k e. (k, e) \<in> set (js_entries s) \<longrightarrow> entry_ok cfg e)"

definition registry_inv :: "'b job_registry \<Rightarrow> bool" where
  "registry_inv r \<longleftrightarrow> jobs_inv (rg_cfg r) (rg_jobs r)"

lemmas jobs_inv_defs = jobs_inv_def keys_ok_def caps_ok_def exclusive_def

section \<open>Association lists\<close>

lemma alist_update_fresh: "k \<notin> fst ` set xs \<Longrightarrow> AList.update k v xs = xs @ [(k, v)]"
  by (induction xs) auto

lemma alist_update_split:
  "map_of xs k = Some v0 \<Longrightarrow>
     \<exists>as bs. xs = as @ (k, v0) # bs \<and> AList.update k v xs = as @ (k, v) # bs"
proof (induction xs)
  case Nil
  then show ?case by simp
next
  case (Cons p xs)
  show ?case
  proof (cases "fst p = k")
    case True
    then have "p # xs = [] @ (k, v0) # xs \<and> AList.update k v (p # xs) = [] @ (k, v) # xs"
      using Cons.prems by (cases p) simp
    then show ?thesis by blast
  next
    case False
    then have "map_of xs k = Some v0" using Cons.prems by (cases p) simp
    then obtain as bs where "xs = as @ (k, v0) # bs" "AList.update k v xs = as @ (k, v) # bs"
      using Cons.IH by blast
    then have "p # xs = (p # as) @ (k, v0) # bs \<and> AList.update k v (p # xs) = (p # as) @ (k, v) # bs"
      using False by (cases p) simp
    then show ?thesis by blast
  qed
qed

lemma alist_update_set: "set (AList.update k v xs) \<subseteq> insert (k, v) (set xs)"
  by (induction xs) auto

lemma map_of_filter_key: "map_of (filter (\<lambda>p. P (fst p)) xs) k = (if P k then map_of xs k else None)"
  by (induction xs) auto

section \<open>Removing entries\<close>

text \<open>What pruning does: some terminal entries go, from the map and from the order.\<close>

definition drop_keys :: "job_id set \<Rightarrow> jobs_state \<Rightarrow> jobs_state" where
  "drop_keys K s = s\<lparr>js_order := filter (\<lambda>k. k \<notin> K) (js_order s),
                    js_entries := filter (\<lambda>p. fst p \<notin> K) (js_entries s)\<rparr>"

lemma drop_keys_drop_keys: "drop_keys K (drop_keys L s) = drop_keys (K \<union> L) s"
  by (simp add: drop_keys_def conj_commute)

lemma slot_count_drop_keys: "slot_count pred (drop_keys K s) \<le> slot_count pred s"
proof -
  have "length (filter P (map snd (filter Q xs))) \<le> length (filter P (map snd xs))"
    for P :: "job_entry \<Rightarrow> bool" and Q and xs :: "(job_id \<times> job_entry) list"
    by (induction xs) auto
  then show ?thesis by (simp add: slot_count_def drop_keys_def entry_values_def)
qed

lemma jobs_inv_drop_keys: "jobs_inv cfg s \<Longrightarrow> jobs_inv cfg (drop_keys K s)"
proof -
  assume inv: "jobs_inv cfg s"
  have "caps_ok cfg (drop_keys K s)"
    using inv slot_count_drop_keys order_trans unfolding jobs_inv_def caps_ok_def by blast
  moreover have "keys_ok (drop_keys K s)"
    using inv by (auto simp: jobs_inv_def keys_ok_def drop_keys_def distinct_map_filter)
  moreover have "exclusive (drop_keys K s)"
    using inv by (simp add: jobs_inv_def exclusive_def drop_keys_def) blast
  ultimately show ?thesis using inv by (auto simp: jobs_inv_def drop_keys_def)
qed

lemma remove_nth_filter:
  assumes "distinct xs" and "i < length xs"
  shows "take i xs @ drop (Suc i) xs = filter (\<lambda>x. x \<noteq> xs ! i) xs"
proof -
  have split: "xs = take i xs @ xs ! i # drop (Suc i) xs" using assms(2) by (rule id_take_nth_drop)
  then have "distinct (take i xs @ xs ! i # drop (Suc i) xs)" using assms(1) by simp
  then have "xs ! i \<notin> set (take i xs)" "xs ! i \<notin> set (drop (Suc i) xs)" by auto
  then have "filter (\<lambda>x. x \<noteq> xs ! i) (take i xs) = take i xs"
    "filter (\<lambda>x. x \<noteq> xs ! i) (drop (Suc i) xs) = drop (Suc i) xs"
    by (auto simp: filter_id_conv)
  then have "filter (\<lambda>x. x \<noteq> xs ! i) (take i xs @ xs ! i # drop (Suc i) xs) = take i xs @ drop (Suc i) xs"
    by simp
  then show ?thesis using split by metis
qed

lemma prune_step_drop_keys:
  assumes "keys_ok s" and "i < length (js_order s)"
  shows "s\<lparr>js_order := take i (js_order s) @ drop (Suc i) (js_order s),
           js_entries := AList.delete (js_order s ! i) (js_entries s)\<rparr> = drop_keys {js_order s ! i} s"
  using assms remove_nth_filter [of "js_order s" i]
  by (simp add: drop_keys_def keys_ok_def AList.delete_eq case_prod_unfold eq_commute)

lemma keys_ok_drop_keys: "keys_ok s \<Longrightarrow> keys_ok (drop_keys K s)"
  by (auto simp: keys_ok_def drop_keys_def distinct_map_filter)

text \<open>The loop removes terminal entries only, and when it ends above the limit none is left.\<close>

lemma prune_from_spec:
  assumes "keys_ok s" and "i \<le> length (js_order s)"
    and "\<forall>j. i \<le> j \<and> j < length (js_order s) \<longrightarrow>
           (\<forall>e. map_of (js_entries s) (js_order s ! j) = Some e \<longrightarrow> entry_active e)"
  shows "\<exists>K. prune_from mx i s = drop_keys K s \<and>
           (\<forall>k \<in> K. \<forall>e. map_of (js_entries s) k = Some e \<longrightarrow> \<not> entry_active e) \<and>
           (length (js_entries (drop_keys K s)) \<le> mx \<or>
              (\<forall>k e. map_of (js_entries (drop_keys K s)) k = Some e \<longrightarrow> entry_active e))"
  using assms
proof (induction i arbitrary: s)
  case 0
  have "drop_keys {} s = s" by (simp add: drop_keys_def)
  moreover have "entry_active e" if "map_of (js_entries s) k = Some e" for k e
  proof -
    have "k \<in> fst ` set (js_entries s)" using map_of_SomeD [OF that] by (rule image_eqI [rotated]) simp
    then have "k \<in> set (js_order s)" using 0(1) by (simp add: keys_ok_def)
    then obtain j where "j < length (js_order s)" "js_order s ! j = k" by (auto simp: in_set_conv_nth)
    then show ?thesis using 0(3) that by blast
  qed
  ultimately show ?case by (intro exI [of _ "{}"]) simp
next
  case (Suc i)
  let ?key = "js_order s ! i"
  have i: "i < length (js_order s)" using Suc.prems(2) by simp
  have same: "drop_keys {} s = s" by (simp add: drop_keys_def)
  show ?case
  proof (cases "length (js_entries s) > mx")
    case False
    then show ?thesis using same by (intro exI [of _ "{}"]) simp
  next
    case True
    show ?thesis
    proof (cases "\<exists>e. map_of (js_entries s) ?key = Some e \<and> \<not> entry_active e")
      case False
      then have step: "prune_from mx (Suc i) s = prune_from mx i s"
        using True by (auto simp: Let_def split: option.splits)
      have "\<forall>j. i \<le> j \<and> j < length (js_order s) \<longrightarrow>
          (\<forall>e. map_of (js_entries s) (js_order s ! j) = Some e \<longrightarrow> entry_active e)"
        using False Suc.prems(3) by (metis Suc_leI le_neq_implies_less)
      then show ?thesis using Suc.IH [of s] Suc.prems step by simp
    next
      case gone: True
      let ?s = "drop_keys {?key} s"
      have step: "prune_from mx (Suc i) s = prune_from mx i ?s"
        using True gone prune_step_drop_keys [OF Suc.prems(1) i] by (auto simp: Let_def)
      have ord: "js_order ?s = take i (js_order s) @ drop (Suc i) (js_order s)"
        using remove_nth_filter [of "js_order s" i] Suc.prems(1) i by (simp add: drop_keys_def keys_ok_def)
      have ents: "map_of (js_entries ?s) k = (if k = ?key then None else map_of (js_entries s) k)" for k
        using map_of_filter_key [of "\<lambda>x. x \<noteq> ?key" "js_entries s" k] by (simp add: drop_keys_def)
      have hyp: "\<forall>j. i \<le> j \<and> j < length (js_order ?s) \<longrightarrow>
          (\<forall>e. map_of (js_entries ?s) (js_order ?s ! j) = Some e \<longrightarrow> entry_active e)"
      proof (intro allI impI)
        fix j e
        assume j: "i \<le> j \<and> j < length (js_order ?s)" and e: "map_of (js_entries ?s) (js_order ?s ! j) = Some e"
        then have nth: "js_order ?s ! j = js_order s ! Suc j"
          using i by (simp add: ord nth_append)
        have "Suc j < length (js_order s)" using j i by (simp add: ord) linarith
        then show "entry_active e"
          using Suc.prems(3) e ents j unfolding nth by (metis Suc_leD Suc_le_mono option.distinct(1))
      qed
      have "i \<le> length (js_order ?s)" using i by (simp add: ord)
      then obtain K where K: "prune_from mx i ?s = drop_keys K ?s"
          "\<forall>k \<in> K. \<forall>e. map_of (js_entries ?s) k = Some e \<longrightarrow> \<not> entry_active e"
          "length (js_entries (drop_keys K ?s)) \<le> mx \<or>
             (\<forall>k e. map_of (js_entries (drop_keys K ?s)) k = Some e \<longrightarrow> entry_active e)"
        using Suc.IH [OF keys_ok_drop_keys [OF Suc.prems(1)] _ hyp] by blast
      have "\<forall>k \<in> K \<union> {?key}. \<forall>e. map_of (js_entries s) k = Some e \<longrightarrow> \<not> entry_active e"
        using K(2) gone ents by (metis UnE option.inject singletonD)
      then show ?thesis using K step by (metis drop_keys_drop_keys)
    qed
  qed
qed

lemma prune_recent_spec:
  assumes "keys_ok s"
  shows "\<exists>K. prune_recent s mx = drop_keys K s \<and>
           (\<forall>k \<in> K. \<forall>e. map_of (js_entries s) k = Some e \<longrightarrow> \<not> entry_active e) \<and>
           (length (js_entries (prune_recent s mx)) \<le> mx \<or>
              (\<forall>k e. map_of (js_entries (prune_recent s mx)) k = Some e \<longrightarrow> entry_active e))"
proof (cases "length (js_entries s) \<le> mx")
  case True
  then show ?thesis by (intro exI [of _ "{}"]) (simp add: prune_recent_def drop_keys_def)
next
  case False
  then have eq: "prune_recent s mx = prune_from mx (length (js_order s)) s" by (simp add: prune_recent_def)
  have past: "\<forall>j. length (js_order s) \<le> j \<and> j < length (js_order s) \<longrightarrow>
      (\<forall>e. map_of (js_entries s) (js_order s ! j) = Some e \<longrightarrow> entry_active e)" by auto
  obtain K where "prune_from mx (length (js_order s)) s = drop_keys K s"
      "\<forall>k \<in> K. \<forall>e. map_of (js_entries s) k = Some e \<longrightarrow> \<not> entry_active e"
      "length (js_entries (drop_keys K s)) \<le> mx \<or>
         (\<forall>k e. map_of (js_entries (drop_keys K s)) k = Some e \<longrightarrow> entry_active e)"
    using prune_from_spec [OF assms le_refl past] by blast
  then show ?thesis unfolding eq by (intro exI [of _ K]) simp
qed

section \<open>Preservation\<close>

lemma admission_slot_shared:
  "snd (admission_slot cfg u) t \<Longrightarrow> admission_slot cfg u = admission_slot cfg t"
  by (cases u; cases t) (auto simp: admission_slot_def is_delete_subtype_def)

lemma admission_slot_self: "snd (admission_slot cfg t) t"
  by (cases t) (auto simp: admission_slot_def is_delete_subtype_def)

lemma refs_touch_iff: "refs_touch ws refs \<longleftrightarrow> ws \<in> ref_spaces refs"
  by (auto simp: refs_touch_def ref_spaces_def list_ex_iff)

lemma scan_references_None:
  "scan_references fresh is_wd s refs = None \<longleftrightarrow>
     (\<forall>e \<in> set (entry_values s). entry_active e \<longrightarrow> is_wd \<or> je_job_type e = WorkspaceDelete \<longrightarrow>
        ref_spaces refs \<inter> ref_spaces (je_references e) = {}) \<and>
     (is_wd \<longrightarrow> (\<forall>l \<in> set (js_leases s). ref_spaces refs \<inter> ref_spaces (snd l) = {}))"
proof (induction refs)
  case Nil
  show ?case by (simp add: ref_spaces_def)
next
  case (Cons ref refs)
  let ?ws = "ref_workspace_id ref"
  have spaces: "ref_spaces (ref # refs) = insert ?ws (ref_spaces refs)" by (simp add: ref_spaces_def)
  have jobs: "find (\<lambda>e. entry_active e \<and>
      job_conflicts_with_existing_job is_wd ?ws (je_job_type e) (je_references e)) (entry_values s) = None \<longleftrightarrow>
      (\<forall>e \<in> set (entry_values s). entry_active e \<longrightarrow> is_wd \<or> je_job_type e = WorkspaceDelete \<longrightarrow>
         ?ws \<notin> ref_spaces (je_references e))"
    by (auto simp: find_None_iff job_conflicts_with_existing_job_def refs_touch_iff)
  have leases: "list_ex (\<lambda>l. job_conflicts_with_existing_lease is_wd ?ws (snd l)) (js_leases s) \<longleftrightarrow>
      is_wd \<and> (\<exists>l \<in> set (js_leases s). ?ws \<in> ref_spaces (snd l))"
    by (auto simp: job_conflicts_with_existing_lease_def refs_touch_iff list_ex_iff)
  have "scan_references fresh is_wd s (ref # refs) = None \<longleftrightarrow>
      (\<forall>e \<in> set (entry_values s). entry_active e \<longrightarrow> is_wd \<or> je_job_type e = WorkspaceDelete \<longrightarrow>
         ?ws \<notin> ref_spaces (je_references e)) \<and>
      (is_wd \<longrightarrow> (\<forall>l \<in> set (js_leases s). ?ws \<notin> ref_spaces (snd l))) \<and>
      scan_references fresh is_wd s refs = None"
    unfolding jobs [symmetric] by (auto simp: leases split: option.splits)
  then show ?case unfolding Cons.IH spaces Int_insert_left by (auto split: if_splits)
qed

lemma scan_lease_None:
  "scan_lease s refs = None \<longleftrightarrow>
     (\<forall>e \<in> set (entry_values s). deleting e \<longrightarrow> ref_spaces refs \<inter> ref_spaces (je_references e) = {})"
proof (induction refs)
  case Nil
  show ?case by (simp add: ref_spaces_def)
next
  case (Cons ref refs)
  have "ref_spaces (ref # refs) = insert (ref_workspace_id ref) (ref_spaces refs)"
    by (simp add: ref_spaces_def)
  moreover have "find (\<lambda>e. entry_active e \<and>
      lease_conflicts_with_existing_job (ref_workspace_id ref) (je_job_type e) (je_references e))
      (entry_values s) = None \<longleftrightarrow>
      (\<forall>e \<in> set (entry_values s). deleting e \<longrightarrow> ref_workspace_id ref \<notin> ref_spaces (je_references e))"
    by (auto simp: find_None_iff lease_conflicts_with_existing_job_def refs_touch_iff deleting_def)
  ultimately show ?case using Cons by (auto split: option.splits)
qed

definition insert_entry :: "job_id \<Rightarrow> job_entry \<Rightarrow> jobs_state \<Rightarrow> jobs_state" where
  "insert_entry j e s = s\<lparr>js_order := j # js_order s, js_entries := AList.update j e (js_entries s)\<rparr>"

definition replace_entry :: "job_id \<Rightarrow> job_entry \<Rightarrow> jobs_state \<Rightarrow> jobs_state" where
  "replace_entry j e s = s\<lparr>js_entries := AList.update j e (js_entries s)\<rparr>"

lemma slot_count_insert:
  "j \<notin> fst ` set (js_entries s) \<Longrightarrow>
     slot_count pred (insert_entry j e s) = slot_count pred s + (if in_slot pred e then 1 else 0)"
  by (simp add: slot_count_def insert_entry_def entry_values_def alist_update_fresh)

lemma new_entry_active: "entry_active (new_entry j now t refs target)"
  by (simp add: entry_active_def new_entry_def is_active_def)

lemma apart_sym: "apart e f \<Longrightarrow> apart f e"
  by (auto simp: apart_def)

lemma jobs_inv_insert:
  assumes inv: "jobs_inv cfg s" and fresh: "j \<notin> fst ` set (js_entries s)"
    and room: "slot_count (snd (admission_slot cfg t)) s < fst (admission_slot cfg t)"
    and free: "scan_references x (t = WorkspaceDelete) s refs = None"
  shows "jobs_inv cfg (insert_entry j (new_entry j now t refs target) s)"
proof -
  let ?e = "new_entry j now t refs target"
  have ents: "js_entries (insert_entry j ?e s) = js_entries s @ [(j, ?e)]"
    using fresh by (simp add: insert_entry_def alist_update_fresh)
  have e: "je_references ?e = refs" "je_job_type ?e = t" "je_job_id ?e = j"
    by (simp_all add: new_entry_def)
  have jobs: "apart ?e f" if "(k, f) \<in> set (js_entries s)" for k f
  proof -
    have "f \<in> set (entry_values s)" using that by (force simp: entry_values_def)
    then show ?thesis using free unfolding scan_references_None apart_def e by blast
  qed
  have leases: "ref_spaces refs \<inter> ref_spaces lrefs = {}"
    if "t = WorkspaceDelete" "(l, lrefs) \<in> set (js_leases s)" for l lrefs
    using free that unfolding scan_references_None by fastforce
  have ex: "exclusive s" using inv by (simp add: jobs_inv_def)
  have "apart f g" if "(k, f) \<in> set (js_entries (insert_entry j ?e s))"
      "(l, g) \<in> set (js_entries (insert_entry j ?e s))" "k \<noteq> l" for k f l g
    using that ex jobs apart_sym unfolding ents exclusive_def set_append by auto
  moreover have "ref_spaces (je_references f) \<inter> ref_spaces lrefs = {}"
    if p: "(k, f) \<in> set (js_entries (insert_entry j ?e s))" "deleting f"
      "(l, lrefs) \<in> set (js_leases (insert_entry j ?e s))" for k f l lrefs
  proof -
    have l: "(l, lrefs) \<in> set (js_leases s)" using p(3) by (simp add: insert_entry_def)
    consider "f = ?e" | "(k, f) \<in> set (js_entries s)" using p(1) unfolding ents by auto
    then show ?thesis
    proof cases
      case 1
      then have "t = WorkspaceDelete" using p(2) by (simp add: deleting_def e)
      from leases [OF this l] 1 show ?thesis by (simp add: e)
    next
      case 2
      then show ?thesis using ex p(2) l unfolding exclusive_def by blast
    qed
  qed
  ultimately have "exclusive (insert_entry j ?e s)" unfolding exclusive_def by blast
  moreover have "caps_ok cfg (insert_entry j ?e s)"
    unfolding caps_ok_def
  proof
    fix u
    show "slot_count (snd (admission_slot cfg u)) (insert_entry j ?e s) \<le> fst (admission_slot cfg u)"
    proof (cases "snd (admission_slot cfg u) t")
      case True
      then show ?thesis using room admission_slot_shared [OF True] slot_count_insert [OF fresh]
        by (simp add: Suc_le_eq)
    next
      case False
      then show ?thesis
        using inv slot_count_insert [OF fresh] by (simp add: in_slot_def e jobs_inv_def caps_ok_def)
    qed
  qed
  moreover have "keys_ok (insert_entry j ?e s)"
    using inv fresh unfolding jobs_inv_def keys_ok_def ents by (auto simp: insert_entry_def e)
  moreover have "entry_ok cfg ?e"
    using new_entry_active by (simp add: entry_ok_def new_entry_active) (simp add: new_entry_def)
  ultimately show ?thesis using inv unfolding jobs_inv_def ents by auto
qed

lemma jobs_inv_replace:
  assumes inv: "jobs_inv cfg s" and e0: "map_of (js_entries s) j = Some e0"
    and e: "je_job_id e = je_job_id e0" "je_job_type e = je_job_type e0" "entry_ok cfg e"
    "entry_active e \<longrightarrow> entry_active e0" "set (je_references e) \<subseteq> set (je_references e0)"
  shows "jobs_inv cfg (replace_entry j e s)"
proof -
  obtain as bs where s: "js_entries s = as @ (j, e0) # bs"
    and s': "js_entries (replace_entry j e s) = as @ (j, e) # bs"
    using alist_update_split [OF e0, of e] by (auto simp: replace_entry_def)
  have sub: "ref_spaces (je_references e) \<subseteq> ref_spaces (je_references e0)"
    using e(5) by (auto simp: ref_spaces_def)
  have old: "\<exists>f0. (k, f0) \<in> set (js_entries s) \<and> (f0 = f \<or> f0 = e0 \<and> f = e)"
    if "(k, f) \<in> set (js_entries (replace_entry j e s))" for k f
    using that unfolding s s' by auto
  have near: "apart e f" if "apart e0 f" for f using that e sub by (auto simp: apart_def)
  then have near': "apart f e" if "apart f e0" for f using that apart_sym by blast
  have self: "apart e e" if "apart e0 e0" using near near' that by blast
  have del: "deleting e \<Longrightarrow> deleting e0" using e by (simp add: deleting_def)
  have ex: "exclusive s" using inv by (simp add: jobs_inv_def)
  have "apart f g" if fg: "(k, f) \<in> set (js_entries (replace_entry j e s))"
      "(l, g) \<in> set (js_entries (replace_entry j e s))" "k \<noteq> l" for k f l g
  proof -
    obtain f0 g0 where "(k, f0) \<in> set (js_entries s)" "(l, g0) \<in> set (js_entries s)"
        "f0 = f \<or> f0 = e0 \<and> f = e" "g0 = g \<or> g0 = e0 \<and> g = e"
      using old fg by meson
    moreover from this have "apart f0 g0" using ex fg(3) unfolding exclusive_def by blast
    ultimately show ?thesis using near near' by blast
  qed
  moreover have "ref_spaces (je_references f) \<inter> ref_spaces lrefs = {}"
    if p: "(k, f) \<in> set (js_entries (replace_entry j e s))" "deleting f"
      "(l, lrefs) \<in> set (js_leases (replace_entry j e s))" for k f l lrefs
  proof -
    obtain f0 where f0: "(k, f0) \<in> set (js_entries s)" "f0 = f \<or> f0 = e0 \<and> f = e" using old [OF p(1)] by blast
    have "(l, lrefs) \<in> set (js_leases s)" using p(3) by (simp add: replace_entry_def)
    moreover have "deleting f0" "ref_spaces (je_references f) \<subseteq> ref_spaces (je_references f0)"
      using f0(2) p(2) del sub by auto
    ultimately show ?thesis using ex f0(1) unfolding exclusive_def by blast
  qed
  ultimately have "exclusive (replace_entry j e s)" unfolding exclusive_def by blast
  moreover have "slot_count pred (replace_entry j e s) \<le> slot_count pred s" for pred
    using e by (auto simp: slot_count_def entry_values_def s s' in_slot_def)
  then have "caps_ok cfg (replace_entry j e s)"
    using inv order_trans unfolding jobs_inv_def caps_ok_def by blast
  moreover have "keys_ok (replace_entry j e s)"
    using inv e unfolding jobs_inv_def keys_ok_def s s' by (auto simp: replace_entry_def)
  ultimately show ?thesis using inv e unfolding jobs_inv_def s s' by auto
qed

lemma jobs_inv_lease:
  assumes inv: "jobs_inv cfg s" and free: "scan_lease s refs = None"
  shows "jobs_inv cfg (s\<lparr>js_next_lease_id := n, js_leases := AList.update l refs (js_leases s)\<rparr>)"
proof -
  have ex: "exclusive s" using inv by (simp add: jobs_inv_def)
  have "ref_spaces (je_references e) \<inter> ref_spaces lrefs = {}"
    if p: "(k, e) \<in> set (js_entries s)" "deleting e" "(m, lrefs) \<in> set (AList.update l refs (js_leases s))"
    for k e m lrefs
  proof -
    consider "lrefs = refs" | "(m, lrefs) \<in> set (js_leases s)"
      using p(3) alist_update_set [of l refs "js_leases s"] by auto
    then show ?thesis
    proof cases
      case 1
      have "e \<in> set (entry_values s)" using p(1) by (force simp: entry_values_def)
      then show ?thesis using 1 free p(2) unfolding scan_lease_None by blast
    next
      case 2
      then show ?thesis using ex p unfolding exclusive_def by blast
    qed
  qed
  then have "exclusive (s\<lparr>js_next_lease_id := n, js_leases := AList.update l refs (js_leases s)\<rparr>)"
    using ex unfolding exclusive_def by simp
  then show ?thesis
    using inv by (simp add: jobs_inv_def keys_ok_def caps_ok_def slot_count_def entry_values_def)
qed

lemma jobs_inv_release: "jobs_inv cfg s \<Longrightarrow> jobs_inv cfg (s\<lparr>js_leases := AList.delete l (js_leases s)\<rparr>)"
proof -
  assume inv: "jobs_inv cfg s"
  then have "exclusive s" by (simp add: jobs_inv_def)
  then have "exclusive (s\<lparr>js_leases := AList.delete l (js_leases s)\<rparr>)"
    unfolding exclusive_def AList.delete_eq by simp blast
  then show ?thesis
    using inv by (simp add: jobs_inv_def keys_ok_def caps_ok_def slot_count_def entry_values_def)
qed

section \<open>The operations\<close>

text \<open>What an emitted event leaves of the entry.\<close>

lemma push_event_ring:
  "fst (push_event ev mx e) = e\<lparr>je_ring := drop (if length (je_ring e) \<ge> mx then 1 else 0) (je_ring e) @ [ev]\<rparr>"
  by (simp add: push_event_def)

lemma emit_eq:
  "emit now st prog msg mx e = (e2, ev, d) \<Longrightarrow>
     e2 = e\<lparr>je_last_seq := ev_seq ev, je_updated_at := now,
            je_ring := drop (if length (je_ring e) \<ge> mx then 1 else 0) (je_ring e) @ [ev]\<rparr> \<and>
     ev_seq ev = saturating_add64 (je_last_seq e) 1 \<and> ev_state ev = st \<and> ev_progress ev = prog \<and>
     ev_message ev = msg"
  by (auto simp: emit_def Let_def push_event_def split: if_splits)

lemma upt_snoc_drop:
  assumes "length xs \<le> n" and seqs: "map f xs = [Suc n - length xs ..< Suc n]" and "f x = Suc n"
    and "k \<le> length xs"
  shows "map f (drop k xs @ [x]) = [Suc (Suc n) - length (drop k xs @ [x]) ..< Suc (Suc n)]"
proof -
  have "map f (drop k xs) = drop k [Suc n - length xs ..< Suc n]"
    by (simp only: seqs [symmetric] drop_map)
  also have "\<dots> = [Suc n - length xs + k ..< Suc n]" by (rule drop_upt)
  finally have m: "map f (drop k xs) = [Suc n - length xs + k ..< Suc n]" .
  have "Suc (Suc n) - length (drop k xs @ [x]) = Suc n - length xs + k" using assms by simp
  then show ?thesis using m assms by (simp add: upt_Suc)
qed

lemma entry_ok_emit:
  assumes ok: "entry_ok cfg e" and em: "emit now st prog msg (cf_max_job_event_ring cfg) e = (e2, ev, d)"
  shows "entry_ok cfg e2"
proof -
  let ?mx = "cf_max_job_event_ring cfg"
  define k where "k = (if length (je_ring e) \<ge> ?mx \<and> je_ring e \<noteq> [] then 1 else 0::nat)"
  have e2: "e2 = e\<lparr>je_last_seq := ev_seq ev, je_updated_at := now, je_ring := drop k (je_ring e) @ [ev]\<rparr>"
    and seq: "ev_seq ev = saturating_add64 (je_last_seq e) 1"
    using emit_eq [OF em] by (auto simp: k_def)
  have k: "k \<le> length (je_ring e)" by (cases "je_ring e") (auto simp: k_def)
  have "length (je_ring e2) \<le> max 1 ?mx" using ok by (auto simp: e2 k_def entry_ok_def)
  moreover have "length (je_ring e2) \<le> je_last_seq e2 \<and>
      map ev_seq (je_ring e2) = [Suc (je_last_seq e2) - length (je_ring e2) ..< Suc (je_last_seq e2)]"
    if "je_last_seq e2 < u64_max"
  proof -
    have n: "ev_seq ev = Suc (je_last_seq e)" "je_last_seq e < u64_max"
      using that seq by (auto simp: e2 saturating_add64_def min_def split: if_splits)
    then have old: "length (je_ring e) \<le> je_last_seq e"
      "map ev_seq (je_ring e) = [Suc (je_last_seq e) - length (je_ring e) ..< Suc (je_last_seq e)]"
      using ok by (auto simp: entry_ok_def)
    show ?thesis using upt_snoc_drop [OF old n(1) k] old(1) n by (simp add: e2)
  qed
  moreover have "je_ring e2 \<noteq> []" by (simp add: e2)
  moreover have "je_last_seq e2 \<le> u64_max" using seq by (simp add: e2 saturating_add64_def)
  moreover have "\<not> entry_active e2 \<longrightarrow> je_references e2 = []"
    using ok by (simp add: e2 entry_ok_def entry_active_def)
  ultimately show ?thesis by (simp add: entry_ok_def)
qed

lemma count_simps [simp]:
  "rg_jobs (count_conflict r) = rg_jobs r" "rg_cfg (count_conflict r) = rg_cfg r"
  "rg_jobs (count_dropped n r) = rg_jobs r" "rg_cfg (count_dropped n r) = rg_cfg r"
  "rg_jobs (count_throttled r) = rg_jobs r" "rg_cfg (count_throttled r) = rg_cfg r"
  "rg_jobs (count_truncated r) = rg_jobs r" "rg_cfg (count_truncated r) = rg_cfg r"
  "rg_jobs (set_entry j e r) = replace_entry j e (rg_jobs r)" "rg_cfg (set_entry j e r) = rg_cfg r"
  by (simp_all add: count_conflict_def count_dropped_def count_throttled_def count_truncated_def
      set_entry_def replace_entry_def)

lemma jobs_inv_prune: "jobs_inv cfg s \<Longrightarrow> jobs_inv cfg (prune_recent s mx)"
  using prune_recent_spec [of s mx] jobs_inv_drop_keys by (metis jobs_inv_def)

lemma try_acquire_cases:
  obtains (full) "slot_count (snd (admission_slot (rg_cfg r) t)) (rg_jobs r) \<ge> fst (admission_slot (rg_cfg r) t)"
      "\<exists>c. try_acquire j now t refs target r = (Err c, count_conflict r) \<and> (t = Train \<longrightarrow> c = AnotherTrainRunning)"
  | (conflict) c where "slot_count (snd (admission_slot (rg_cfg r) t)) (rg_jobs r) < fst (admission_slot (rg_cfg r) t)"
      "scan_references j (t = WorkspaceDelete) (rg_jobs r) refs = Some c"
      "try_acquire j now t refs target r = (Err c, count_conflict r)"
  | (ok) "slot_count (snd (admission_slot (rg_cfg r) t)) (rg_jobs r) < fst (admission_slot (rg_cfg r) t)"
      "scan_references j (t = WorkspaceDelete) (rg_jobs r) refs = None"
      "try_acquire j now t refs target r =
         (Ok j, r\<lparr>rg_jobs := prune_recent (insert_entry j (new_entry j now t refs target) (rg_jobs r))
                      (cf_max_recent_jobs (rg_cfg r))\<rparr>)"
proof (cases "slot_count (snd (admission_slot (rg_cfg r) t)) (rg_jobs r) \<ge> fst (admission_slot (rg_cfg r) t)")
  case True
  then have "\<exists>c. try_acquire j now t refs target r = (Err c, count_conflict r) \<and> (t = Train \<longrightarrow> c = AnotherTrainRunning)"
    by (auto simp: try_acquire_def slot_count_def Let_def case_prod_unfold)
  with True show thesis by (rule full)
next
  case False
  then have eq: "try_acquire j now t refs target r =
      (case scan_references j (t = WorkspaceDelete) (rg_jobs r) refs of
         Some c \<Rightarrow> (Err c, count_conflict r)
       | None \<Rightarrow> (Ok j, r\<lparr>rg_jobs := prune_recent (insert_entry j (new_entry j now t refs target) (rg_jobs r))
                      (cf_max_recent_jobs (rg_cfg r))\<rparr>))"
    by (simp add: try_acquire_def slot_count_def Let_def case_prod_unfold insert_entry_def split: option.split)
  show thesis
  proof (cases "scan_references j (t = WorkspaceDelete) (rg_jobs r) refs")
    case None
    then show thesis using ok False eq by simp
  next
    case (Some c)
    then show thesis using conflict False eq by simp
  qed
qed

lemma inv_try_acquire:
  assumes "registry_inv r" and "j \<notin> fst ` set (js_entries (rg_jobs r))"
  shows "registry_inv (snd (try_acquire j now t refs target r))"
proof (cases rule: try_acquire_cases [where r = r and t = t and j = j and now = now and refs = refs
        and target = target])
  case full
  then show ?thesis using assms(1) by (auto simp: registry_inv_def)
next
  case (conflict c)
  then show ?thesis using assms(1) by (simp add: registry_inv_def)
next
  case ok
  then show ?thesis
    using assms jobs_inv_prune jobs_inv_insert by (simp add: registry_inv_def)
qed

lemma inv_entry:
  assumes "registry_inv r" and "get_entry j r = Some e"
  shows "entry_ok (rg_cfg r) e" and "je_job_id e = j"
proof -
  have "(j, e) \<in> set (js_entries (rg_jobs r))"
    using assms(2) map_of_SomeD unfolding get_entry_def by fast
  then show "entry_ok (rg_cfg r) e" and "je_job_id e = j"
    using assms(1) unfolding registry_inv_def jobs_inv_def keys_ok_def by blast+
qed

lemma inv_replace:
  assumes "registry_inv r" and "get_entry j r = Some e0" and "entry_ok (rg_cfg r) e"
    and "je_job_id e = je_job_id e0" "je_job_type e = je_job_type e0"
    "entry_active e \<longrightarrow> entry_active e0" "set (je_references e) \<subseteq> set (je_references e0)"
  shows "jobs_inv (rg_cfg r) (replace_entry j e (rg_jobs r))"
  using assms by (intro jobs_inv_replace) (auto simp: registry_inv_def get_entry_def)

lemma inv_update_progress:
  assumes inv: "registry_inv r"
  shows "registry_inv (fst (update_progress instant now j prog r))"
proof (cases "get_entry j r")
  case None
  then show ?thesis using inv by (simp add: update_progress_def)
next
  case (Some e0)
  let ?e = "e0\<lparr>je_progress := Some prog\<rparr>"
  have ok: "entry_ok (rg_cfg r) (?e\<lparr>je_last_progress_at := x\<rparr>)" "entry_ok (rg_cfg r) ?e" for x
    using inv_entry(1) [OF inv Some] by (simp_all add: entry_ok_def entry_active_def)
  obtain e2 ev d where em: "emit now None (Some prog) None (cf_max_job_event_ring (rg_cfg r))
      (?e\<lparr>je_last_progress_at := Some instant\<rparr>) = (e2, ev, d)" by (metis prod_cases3)
  have "jobs_inv (rg_cfg r) (replace_entry j ?e (rg_jobs r))"
    using ok by (intro inv_replace [OF inv Some]) (simp_all add: entry_active_def)
  moreover have "jobs_inv (rg_cfg r) (replace_entry j e2 (rg_jobs r))"
    using entry_ok_emit [OF ok(1) em] emit_eq [OF em]
    by (intro inv_replace [OF inv Some]) (simp_all add: entry_active_def)
  ultimately show ?thesis
    using Some em by (auto simp: update_progress_def registry_inv_def Let_def)
qed

lemma inv_append_log:
  assumes inv: "registry_inv r"
  shows "registry_inv (fst (append_log now j msg r))"
proof (cases "get_entry j r")
  case None
  then show ?thesis using inv by (simp add: append_log_def get_entry_def registry_inv_def Let_def)
next
  case (Some e)
  obtain e2 ev d where em: "emit now None None (Some (cap_log_line (cf_max_log_line_bytes (rg_cfg r)) msg))
      (cf_max_job_event_ring (rg_cfg r)) e = (e2, ev, d)" by (metis prod_cases3)
  have "jobs_inv (rg_cfg r) (replace_entry j e2 (rg_jobs r))"
    using entry_ok_emit [OF inv_entry(1) [OF inv Some] em] emit_eq [OF em]
    by (intro inv_replace [OF inv Some]) (simp_all add: entry_active_def)
  then show ?thesis
    using Some em by (simp add: append_log_def get_entry_def registry_inv_def Let_def)
qed

text \<open>A terminate is a no-op, or it makes the running entry terminal and prunes.\<close>

lemma terminate_job_cases:
  assumes inv: "registry_inv r" and st: "\<not> is_active st"
  obtains (noop) "terminate_job now j st res r = (r, None)"
      "\<forall>e. get_entry j r = Some e \<longrightarrow> \<not> entry_active e"
  | (ends) e0 e2 ev d where "get_entry j r = Some e0" "entry_active e0"
      "je_state e2 = st" "je_references e2 = []" "je_job_type e2 = je_job_type e0"
      "je_last_seq e2 = saturating_add64 (je_last_seq e0) 1"
      "jobs_inv (rg_cfg r) (replace_entry j e2 (rg_jobs r))"
      "terminate_job now j st res r =
         ((count_dropped d (set_entry j e2 r))\<lparr>rg_jobs :=
             prune_recent (replace_entry j e2 (rg_jobs r)) (cf_max_recent_jobs (rg_cfg r))\<rparr>, Some ev)"
proof (cases "\<exists>e0. get_entry j r = Some e0 \<and> entry_active e0")
  case False
  then show thesis by (intro noop) (auto simp: terminate_job_def split: option.splits)
next
  case True
  then obtain e0 where e0: "get_entry j r = Some e0" "entry_active e0" by blast
  let ?e1 = "e0\<lparr>je_state := st, je_result := (if res \<noteq> None then res else je_result e0), je_references := []\<rparr>"
  have ok: "entry_ok (rg_cfg r) ?e1" using inv_entry(1) [OF inv e0(1)] by (simp add: entry_ok_def)
  obtain e2 ev d where em: "emit now (Some st) (je_progress ?e1) None (cf_max_job_event_ring (rg_cfg r)) ?e1
      = (e2, ev, d)" by (metis prod_cases3)
  have "jobs_inv (rg_cfg r) (replace_entry j e2 (rg_jobs r))"
    using entry_ok_emit [OF ok em] emit_eq [OF em] st
    by (intro inv_replace [OF inv e0(1)]) (simp_all add: entry_active_def)
  then show thesis
    using e0 em emit_eq [OF em] by (intro ends [of e0 e2 d ev]) (simp_all add: terminate_job_def Let_def)
qed

lemma inv_terminate:
  assumes "registry_inv r" and "\<not> is_active st"
  shows "registry_inv (fst (terminate_job now j st res r))"
  using assms
proof (cases rule: terminate_job_cases [where now = now and j = j and res = res])
  case noop
  then show ?thesis using assms(1) by simp
next
  case (ends e0 e2 ev d)
  then show ?thesis by (simp add: registry_inv_def jobs_inv_prune)
qed

lemma inv_lease: "registry_inv r \<Longrightarrow> registry_inv (snd (try_acquire_lease refs r))"
  using jobs_inv_lease by (auto simp: try_acquire_lease_def registry_inv_def Let_def split: option.splits)

lemma inv_release: "registry_inv r \<Longrightarrow> registry_inv (release_lease l r)"
  by (simp add: release_lease_def registry_inv_def jobs_inv_release)

section \<open>Reachable registries\<close>

inductive registry_step :: "'b job_registry \<Rightarrow> 'b job_registry \<Rightarrow> bool" where
  st_acquire: "j \<notin> fst ` set (js_entries (rg_jobs r)) \<Longrightarrow>
     registry_step r (snd (try_acquire j now t refs target r))"
| st_progress: "registry_step r (fst (update_progress instant now j prog r))"
| st_log: "registry_step r (fst (append_log now j msg r))"
| st_terminate: "\<not> is_active st \<Longrightarrow> registry_step r (fst (terminate_job now j st res r))"
| st_lease: "registry_step r (snd (try_acquire_lease refs r))"
| st_release: "registry_step r (release_lease l r)"
| st_boot: "registry_step r (record_boot_recovery report r)"

inductive_cases registry_stepE: "registry_step r r'"

definition registry_reachable :: "job_registry_cfg \<Rightarrow> 'b job_registry \<Rightarrow> bool" where
  "registry_reachable cfg r \<longleftrightarrow> registry_step\<^sup>*\<^sup>* (registry_new cfg) r"

lemma inv_step: "registry_step r r' \<Longrightarrow> registry_inv r \<Longrightarrow> registry_inv r'"
proof (induction rule: registry_step.induct)
  case (st_boot r report)
  then show ?case by (simp add: record_boot_recovery_def registry_inv_def)
qed (simp_all add: inv_try_acquire inv_update_progress inv_append_log inv_terminate inv_lease inv_release)

lemma inv_new: "registry_inv (registry_new cfg)"
  by (simp add: registry_inv_def registry_new_def jobs_state_new_def jobs_inv_def keys_ok_def caps_ok_def
      exclusive_def slot_count_def entry_values_def)

lemma inv_reachable: "registry_reachable cfg r \<Longrightarrow> registry_inv r"
  unfolding registry_reachable_def
  by (induction rule: rtranclp_induct) (auto intro: inv_new inv_step)

lemma cfg_step: "registry_step r r' \<Longrightarrow> rg_cfg r' = rg_cfg r"
proof (induction rule: registry_step.induct)
  case (st_acquire j r now t refs target)
  then show ?case by (cases rule: try_acquire_cases [where r = r and t = t and j = j and now = now and refs = refs
        and target = target]) auto
qed (auto simp: update_progress_def append_log_def terminate_job_def try_acquire_lease_def
    release_lease_def record_boot_recovery_def Let_def case_prod_unfold split: option.splits)

lemma cfg_reachable: "registry_reachable cfg r \<Longrightarrow> rg_cfg r = cfg"
  unfolding registry_reachable_def
  by (induction rule: rtranclp_induct) (auto simp: registry_new_def dest: cfg_step)

end
