(* ===== verification/Registry_Properties.thy ===== *)
theory Registry_Properties
  imports Registry_Invariants
begin

text \<open>
  What the clients of the job registry rely on, over every state its operations can reach: the
  admission decision, the concurrency caps, the exclusivity of workspace deletes, the life cycle
  of an entry, the bound on the retained history, gap-free resumption of an event stream, and the
  capped log line.  The locale \<open>workspace_gate\<close> is the interface the head delete and the uploads
  use: a bare lease keeps a workspace from being deleted for as long as it is held.
\<close>

section \<open>How a step changes one entry\<close>

lemma prune_get:
  assumes "keys_ok s"
  shows "map_of (js_entries (prune_recent s mx)) k = map_of (js_entries s) k \<or>
         (map_of (js_entries (prune_recent s mx)) k = None \<and>
          (\<forall>e. map_of (js_entries s) k = Some e \<longrightarrow> \<not> entry_active e))"
proof -
  obtain K where K: "prune_recent s mx = drop_keys K s"
      "\<forall>k \<in> K. \<forall>e. map_of (js_entries s) k = Some e \<longrightarrow> \<not> entry_active e"
    using prune_recent_spec [OF assms] by blast
  have "map_of (js_entries (drop_keys K s)) k = (if k \<notin> K then map_of (js_entries s) k else None)"
    using map_of_filter_key [of "\<lambda>x. x \<notin> K" "js_entries s" k] by (simp add: drop_keys_def)
  then show ?thesis using K by auto
qed

lemma keys_ok_inv: "registry_inv r \<Longrightarrow> keys_ok (rg_jobs r)"
  by (simp add: registry_inv_def jobs_inv_def)

lemma get_set_entry: "get_entry k (set_entry j e r) = (if k = j then Some e else get_entry k r)"
  by (simp add: get_entry_def replace_entry_def AList.update_conv)

lemma get_count [simp]:
  "get_entry k (count_conflict r) = get_entry k r" "get_entry k (count_dropped n r) = get_entry k r"
  "get_entry k (count_throttled r) = get_entry k r" "get_entry k (count_truncated r) = get_entry k r"
  by (simp_all add: get_entry_def)

text \<open>
  The life of an entry \<open>e\<close> across one step: it keeps its type; while active it stays and keeps its
  references, or it becomes terminal and gives them up; once terminal it keeps its state or is
  forgotten.
\<close>

definition entry_moves :: "job_entry \<Rightarrow> job_entry option \<Rightarrow> bool" where
  "entry_moves e after =
     (case after of
        None \<Rightarrow> \<not> entry_active e
      | Some e' \<Rightarrow> je_job_type e' = je_job_type e \<and> je_last_seq e \<le> je_last_seq e' \<and>
          (if entry_active e
           then (entry_active e' \<and> je_references e' = je_references e) \<or>
                (\<not> entry_active e' \<and> je_references e' = [])
           else je_state e' = je_state e))"

lemma entry_moves_refl: "entry_moves e (Some e)"
  by (simp add: entry_moves_def)

lemma emit_moves:
  assumes "emit now st prog msg mx e = (e2, ev, d)" and "je_last_seq e < 2 ^ 64"
  shows "je_job_type e2 = je_job_type e \<and> je_state e2 = je_state e \<and> je_references e2 = je_references e \<and>
         je_last_seq e \<le> je_last_seq e2"
  using emit_eq [OF assms(1)] assms(2) by (simp add: saturating_add64_def)

lemma moves_acquire:
  assumes "registry_inv r" and "j \<notin> fst ` set (js_entries (rg_jobs r))" and e: "get_entry k r = Some e"
  shows "entry_moves e (get_entry k (snd (try_acquire j now t refs target r)))"
proof (cases rule: try_acquire_cases [where r = r and t = t and j = j and now = now and refs = refs
      and target = target])
  case full
  then show ?thesis using e entry_moves_refl by fastforce
next
  case (conflict c)
  then show ?thesis using e entry_moves_refl by simp
next
  case ok
  let ?s = "insert_entry j (new_entry j now t refs target) (rg_jobs r)"
  have "k \<noteq> j" using e assms(2) map_of_SomeD by (force simp: get_entry_def)
  then have old: "map_of (js_entries ?s) k = Some e"
    using e by (simp add: get_entry_def insert_entry_def AList.update_conv)
  have "jobs_inv (rg_cfg r) ?s"
    using ok assms by (intro jobs_inv_insert) (auto simp: registry_inv_def)
  then have "keys_ok ?s" by (simp add: jobs_inv_def)
  then have "map_of (js_entries (prune_recent ?s (cf_max_recent_jobs (rg_cfg r)))) k = Some e \<or>
      (map_of (js_entries (prune_recent ?s (cf_max_recent_jobs (rg_cfg r)))) k = None \<and> \<not> entry_active e)"
    using prune_get [of ?s "cf_max_recent_jobs (rg_cfg r)" k] old by auto
  then show ?thesis using ok(3) entry_moves_refl by (auto simp: get_entry_def entry_moves_def)
qed

lemma moves_update:
  assumes e: "get_entry k r = Some e" and seq: "je_last_seq e < 2 ^ 64"
  shows "entry_moves e (get_entry k (fst (update_progress instant now j prog r)))"
    and "entry_moves e (get_entry k (fst (append_log now j msg r)))"
proof -
  show "entry_moves e (get_entry k (fst (update_progress instant now j prog r)))"
  proof (cases "k = j")
    case False
    then show ?thesis
      using e entry_moves_refl
      by (auto simp: update_progress_def Let_def get_set_entry case_prod_unfold split: option.splits)
  next
    case True
    let ?e = "e\<lparr>je_progress := Some prog\<rparr>"
    obtain e2 ev d where em: "emit now None (Some prog) None (cf_max_job_event_ring (rg_cfg r))
        (?e\<lparr>je_last_progress_at := Some instant\<rparr>) = (e2, ev, d)" by (metis prod_cases3)
    have "entry_moves e (Some ?e)" by (simp add: entry_moves_def entry_active_def)
    moreover have "entry_moves e (Some e2)"
      using emit_moves [OF em] seq by (simp add: entry_moves_def entry_active_def)
    ultimately show ?thesis
      using e True em by (auto simp: update_progress_def Let_def get_set_entry)
  qed
  show "entry_moves e (get_entry k (fst (append_log now j msg r)))"
  proof (cases "k = j")
    case False
    then show ?thesis
      using e entry_moves_refl
      by (auto simp: append_log_def Let_def get_set_entry case_prod_unfold split: option.splits)
  next
    case True
    obtain e2 ev d where em: "emit now None None (Some (cap_log_line (cf_max_log_line_bytes (rg_cfg r)) msg))
        (cf_max_job_event_ring (rg_cfg r)) e = (e2, ev, d)" by (metis prod_cases3)
    have "entry_moves e (Some e2)"
      using emit_moves [OF em] seq by (simp add: entry_moves_def entry_active_def)
    then show ?thesis using e True em by (simp add: append_log_def Let_def get_set_entry)
  qed
qed

lemma moves_terminate:
  assumes inv: "registry_inv r" and e: "get_entry k r = Some e" and seq: "je_last_seq e < 2 ^ 64"
    and st: "\<not> is_active st"
  shows "entry_moves e (get_entry k (fst (terminate_job now j st res r))) \<or>
         (k = j \<and> get_entry k (fst (terminate_job now j st res r)) = None)"
  using inv st
proof (cases rule: terminate_job_cases [where now = now and j = j and res = res])
  case noop
  then show ?thesis using e entry_moves_refl by simp
next
  case (ends e0 e2 ev d)
  let ?s = "replace_entry j e2 (rg_jobs r)" and ?mx = "cf_max_recent_jobs (rg_cfg r)"
  have after: "get_entry k (fst (terminate_job now j st res r)) = map_of (js_entries (prune_recent ?s ?mx)) k"
    using ends by (simp add: get_entry_def)
  have cut: "map_of (js_entries (prune_recent ?s ?mx)) k = map_of (js_entries ?s) k \<or>
      (map_of (js_entries (prune_recent ?s ?mx)) k = None \<and>
       (\<forall>f. map_of (js_entries ?s) k = Some f \<longrightarrow> \<not> entry_active f))"
    using ends(7) by (intro prune_get) (simp add: jobs_inv_def)
  show ?thesis
  proof (cases "k = j")
    case kj: True
    then have "e = e0" using e ends by simp
    then have "entry_moves e (Some e2)"
      using ends st seq by (simp add: entry_moves_def entry_active_def saturating_add64_def)
    moreover have "map_of (js_entries ?s) k = Some e2"
      by (simp add: kj replace_entry_def AList.update_conv)
    ultimately show ?thesis using cut after kj by auto
  next
    case False
    then have "map_of (js_entries ?s) k = Some e"
      using e by (simp add: get_entry_def replace_entry_def AList.update_conv)
    then show ?thesis using cut after entry_moves_refl by (auto simp: entry_moves_def)
  qed
qed

section \<open>The retained history\<close>

definition history_bounded :: "'b job_registry \<Rightarrow> bool" where
  "history_bounded r \<longleftrightarrow>
     length (js_entries (rg_jobs r)) \<le> cf_max_recent_jobs (rg_cfg r) \<or>
     (\<forall>k e. get_entry k r = Some e \<longrightarrow> entry_active e)"

lemma history_prune:
  assumes "keys_ok s"
  shows "history_bounded (r\<lparr>rg_jobs := prune_recent s (cf_max_recent_jobs (rg_cfg r))\<rparr>)"
  using prune_recent_spec [OF assms, of "cf_max_recent_jobs (rg_cfg r)"]
  by (auto simp: history_bounded_def get_entry_def)

lemma length_update_existing: "map_of xs k = Some v0 \<Longrightarrow> length (AList.update k v xs) = length xs"
  using alist_update_split [of xs k v0 v] by auto

text \<open>Replacing an entry by one that is active if the old one was keeps the bound.\<close>

lemma history_replace:
  assumes hb: "history_bounded r" and e0: "get_entry j r = Some e0" and e: "entry_active e0 \<longrightarrow> entry_active e"
  shows "history_bounded (set_entry j e r)"
proof -
  have "length (js_entries (rg_jobs (set_entry j e r))) = length (js_entries (rg_jobs r))"
    using e0 by (simp add: replace_entry_def get_entry_def length_update_existing)
  then show ?thesis using hb e0 e by (auto simp: history_bounded_def get_set_entry)
qed

lemma history_count [simp]:
  "history_bounded (count_conflict r) = history_bounded r"
  "history_bounded (count_dropped n r) = history_bounded r"
  "history_bounded (count_throttled r) = history_bounded r"
  "history_bounded (count_truncated r) = history_bounded r"
  by (simp_all add: history_bounded_def)

lemma history_updates:
  assumes hb: "history_bounded r"
  shows "history_bounded (fst (update_progress instant now j prog r))"
    and "history_bounded (fst (append_log now j msg r))"
proof -
  show "history_bounded (fst (update_progress instant now j prog r))"
  proof (cases "get_entry j r")
    case None
    then show ?thesis using hb by (simp add: update_progress_def)
  next
    case (Some e0)
    let ?e = "e0\<lparr>je_progress := Some prog\<rparr>"
    obtain e2 ev d where em: "emit now None (Some prog) None (cf_max_job_event_ring (rg_cfg r))
        (?e\<lparr>je_last_progress_at := Some instant\<rparr>) = (e2, ev, d)" by (metis prod_cases3)
    have "history_bounded (set_entry j ?e r)" "history_bounded (set_entry j e2 r)"
      using emit_eq [OF em] by (auto intro!: history_replace [OF hb Some] simp: entry_active_def)
    then show ?thesis using Some em by (auto simp: update_progress_def Let_def)
  qed
  show "history_bounded (fst (append_log now j msg r))"
  proof (cases "get_entry j r")
    case None
    then show ?thesis using hb by (simp add: append_log_def Let_def)
  next
    case (Some e)
    obtain e2 ev d where em: "emit now None None (Some (cap_log_line (cf_max_log_line_bytes (rg_cfg r)) msg))
        (cf_max_job_event_ring (rg_cfg r)) e = (e2, ev, d)" by (metis prod_cases3)
    have "history_bounded (set_entry j e2 (count_truncated r))" "history_bounded (set_entry j e2 r)"
      using emit_eq [OF em] hb Some by (auto intro!: history_replace simp: entry_active_def)
    then show ?thesis using Some em by (simp add: append_log_def Let_def)
  qed
qed

lemma history_step:
  assumes "registry_step r r'" and inv: "registry_inv r" and hb: "history_bounded r"
  shows "history_bounded r'"
  using assms(1)
proof cases
  case (st_acquire j now t refs target)
  show ?thesis
  proof (cases rule: try_acquire_cases [where r = r and t = t and j = j and now = now and refs = refs
        and target = target])
    case full
    then show ?thesis using st_acquire hb by auto
  next
    case (conflict c)
    then show ?thesis using st_acquire hb by simp
  next
    case ok
    then have "jobs_inv (rg_cfg r) (insert_entry j (new_entry j now t refs target) (rg_jobs r))"
      using inv st_acquire by (intro jobs_inv_insert) (auto simp: registry_inv_def)
    then have "keys_ok (insert_entry j (new_entry j now t refs target) (rg_jobs r))"
      by (simp add: jobs_inv_def)
    from history_prune [OF this, of r] show ?thesis using ok st_acquire by simp
  qed
next
  case (st_terminate st now j res)
  from inv st_terminate(2) show ?thesis
  proof (cases rule: terminate_job_cases [where now = now and j = j and res = res])
    case noop
    then show ?thesis using hb st_terminate by simp
  next
    case (ends e0 e2 ev d)
    have "history_bounded ((count_dropped d (set_entry j e2 r))\<lparr>rg_jobs :=
        prune_recent (replace_entry j e2 (rg_jobs r)) (cf_max_recent_jobs (rg_cfg r))\<rparr>)"
      using history_prune [of "replace_entry j e2 (rg_jobs r)" "count_dropped d (set_entry j e2 r)"] ends(7)
      by (simp add: jobs_inv_def)
    then show ?thesis using ends(8) st_terminate by simp
  qed
next
  case (st_progress instant now j prog)
  then show ?thesis using history_updates(1) [OF hb] by simp
next
  case (st_log now j msg)
  then show ?thesis using history_updates(2) [OF hb] by simp
qed (use hb in \<open>auto simp: history_bounded_def try_acquire_lease_def release_lease_def
    record_boot_recovery_def get_entry_def Let_def split: option.splits\<close>)

lemma history_reachable:
  assumes "registry_reachable cfg r"
  shows "history_bounded r"
proof -
  have base: "history_bounded (registry_new cfg)"
    by (simp add: history_bounded_def registry_new_def jobs_state_new_def)
  have "registry_step\<^sup>*\<^sup>* (registry_new cfg) r \<Longrightarrow> registry_inv r \<and> history_bounded r"
    by (induction rule: rtranclp_induct) (auto intro: inv_new base inv_step history_step)
  then show ?thesis using assms by (simp add: registry_reachable_def)
qed

section \<open>Interface: the workspace gate\<close>

text \<open>
  A short operation on a workspace takes a lease first and releases it at its end.  \<open>others l\<close> are the
  registry's steps that do not release lease \<open>l\<close> (and do not issue it a second time, which the
  64-bit counter does after \<open>2 ^ 64\<close> leases).
\<close>

locale workspace_gate =
  fixes gate_inv :: "'r \<Rightarrow> bool"
    and held :: "'r \<Rightarrow> 'l \<Rightarrow> workspace_id \<Rightarrow> bool"
    and wiping :: "'r \<Rightarrow> workspace_id \<Rightarrow> bool"
    and lease :: "workspace_id \<Rightarrow> 'r \<Rightarrow> ('e, 'l) result \<times> 'r"
    and others :: "'l \<Rightarrow> 'r \<Rightarrow> 'r \<Rightarrow> bool"
  assumes lease_held: "gate_inv r \<Longrightarrow> lease ws r = (Inr l, r') \<Longrightarrow> gate_inv r' \<and> held r' l ws"
    and lease_kept: "gate_inv r \<Longrightarrow> others l r r' \<Longrightarrow> gate_inv r' \<and> (held r l ws \<longrightarrow> held r' l ws)"
    and held_excludes: "gate_inv r \<Longrightarrow> held r l ws \<Longrightarrow> \<not> wiping r ws"
begin

lemma critical_section:
  assumes "gate_inv r" and "lease ws r = (Inr l, r1)" and "(others l)\<^sup>*\<^sup>* r1 r2"
  shows "gate_inv r2 \<and> held r2 l ws \<and> \<not> wiping r2 ws"
  using assms(3)
proof (induction rule: rtranclp_induct)
  case base
  then show ?case using lease_held [OF assms(1,2)] held_excludes by blast
next
  case (step y z)
  then show ?case using lease_kept [of y l z] held_excludes by blast
qed

end

definition lease_holds :: "'b job_registry \<Rightarrow> nat \<Rightarrow> workspace_id \<Rightarrow> bool" where
  "lease_holds r l ws \<longleftrightarrow> (\<exists>refs. (l, refs) \<in> set (js_leases (rg_jobs r)) \<and> refs_touch ws refs)"

definition being_deleted :: "'b job_registry \<Rightarrow> workspace_id \<Rightarrow> bool" where
  "being_deleted r ws = has_active_for ws WorkspaceDelete r"

definition lease_workspace :: "workspace_id \<Rightarrow> 'b job_registry \<Rightarrow> (registry_conflict, nat) result \<times> 'b job_registry" where
  "lease_workspace ws r = try_acquire_lease [RefWorkspace ws] r"

inductive other_step :: "nat \<Rightarrow> 'b job_registry \<Rightarrow> 'b job_registry \<Rightarrow> bool" for l :: nat where
  ot_acquire: "j \<notin> fst ` set (js_entries (rg_jobs r)) \<Longrightarrow>
     other_step l r (snd (try_acquire j now t refs target r))"
| ot_progress: "other_step l r (fst (update_progress instant now j prog r))"
| ot_log: "other_step l r (fst (append_log now j msg r))"
| ot_terminate: "\<not> is_active st \<Longrightarrow> other_step l r (fst (terminate_job now j st res r))"
| ot_lease: "js_next_lease_id (rg_jobs r) \<noteq> l \<Longrightarrow> other_step l r (snd (try_acquire_lease refs r))"
| ot_release: "m \<noteq> l \<Longrightarrow> other_step l r (release_lease m r)"

lemma other_step_is_step: "other_step l r r' \<Longrightarrow> registry_step r r'"
  by (induction rule: other_step.induct) (auto intro: registry_step.intros)

lemma prune_leases: "js_leases (prune_recent s mx) = js_leases s"
proof -
  have "js_leases (prune_from mx i s) = js_leases s" for i
    by (induction mx i s rule: prune_from.induct) (auto simp: Let_def split: option.splits)
  then show ?thesis by (simp add: prune_recent_def)
qed

lemma leases_unchanged [simp]:
  "js_leases (rg_jobs (snd (try_acquire j now t refs target r))) = js_leases (rg_jobs r)"
  "js_leases (rg_jobs (fst (update_progress instant now j prog r))) = js_leases (rg_jobs r)"
  "js_leases (rg_jobs (fst (append_log now j msg r))) = js_leases (rg_jobs r)"
  "js_leases (rg_jobs (fst (terminate_job now j st res r))) = js_leases (rg_jobs r)"
proof -
  show "js_leases (rg_jobs (snd (try_acquire j now t refs target r))) = js_leases (rg_jobs r)"
    by (cases rule: try_acquire_cases [where r = r and t = t and j = j and now = now and refs = refs
          and target = target]) (auto simp: prune_leases insert_entry_def)
qed (auto simp: update_progress_def append_log_def terminate_job_def Let_def case_prod_unfold
    replace_entry_def prune_leases split: option.splits)

lemma alist_update_keeps: "(l, x) \<in> set xs \<Longrightarrow> l \<noteq> k \<Longrightarrow> (l, x) \<in> set (AList.update k v xs)"
  by (induction xs) auto

lemma lease_holds_step: "other_step l r r' \<Longrightarrow> lease_holds r l ws \<Longrightarrow> lease_holds r' l ws"
proof (induction rule: other_step.induct)
  case (ot_lease r refs)
  then obtain lrefs where "(l, lrefs) \<in> set (js_leases (rg_jobs r))" "refs_touch ws lrefs"
    by (auto simp: lease_holds_def)
  moreover from this have "(l, lrefs) \<in> set (AList.update (js_next_lease_id (rg_jobs r)) refs (js_leases (rg_jobs r)))"
    using ot_lease.hyps by (intro alist_update_keeps) auto
  ultimately show ?case
    by (auto simp: try_acquire_lease_def lease_holds_def Let_def split: option.splits)
next
  case (ot_release m r)
  then show ?case by (auto simp: lease_holds_def release_lease_def AList.delete_eq)
qed (simp_all add: lease_holds_def)

lemma being_deleted_iff:
  "being_deleted r ws \<longleftrightarrow>
     (\<exists>k e. (k, e) \<in> set (js_entries (rg_jobs r)) \<and> deleting e \<and> ws \<in> ref_spaces (je_references e))"
  by (force simp: being_deleted_def has_active_for_def list_ex_iff entry_values_def deleting_def refs_touch_iff)

lemma lease_excludes:
  assumes "registry_inv r" and "lease_holds r l ws"
  shows "\<not> being_deleted r ws"
proof
  assume "being_deleted r ws"
  then obtain k e where e: "(k, e) \<in> set (js_entries (rg_jobs r))" "deleting e" "ws \<in> ref_spaces (je_references e)"
    by (auto simp: being_deleted_iff)
  obtain refs where "(l, refs) \<in> set (js_leases (rg_jobs r))" "ws \<in> ref_spaces refs"
    using assms(2) by (auto simp: lease_holds_def refs_touch_iff)
  moreover have "exclusive (rg_jobs r)" using assms(1) by (simp add: registry_inv_def jobs_inv_def)
  ultimately show False using e unfolding exclusive_def by blast
qed

lemma alist_update_self: "(k, v) \<in> set (AList.update k v xs)"
  by (induction xs) auto

lemma lease_workspace_held:
  assumes "lease_workspace ws r = (Inr l, r')"
  shows "lease_holds r' l ws"
  using assms alist_update_self
  by (fastforce simp: lease_workspace_def try_acquire_lease_def lease_holds_def refs_touch_def Let_def
      split: option.splits)

interpretation registry_gate: workspace_gate registry_inv lease_holds being_deleted lease_workspace other_step
proof unfold_locales
  fix r r' :: "'a job_registry" and ws l
  assume "registry_inv r" and "lease_workspace ws r = (Inr l, r')"
  then show "registry_inv r' \<and> lease_holds r' l ws"
    using inv_lease [of r "[RefWorkspace ws]"] lease_workspace_held [of ws r l r']
    by (simp add: lease_workspace_def)
next
  fix r r' :: "'a job_registry" and ws l
  assume "registry_inv r" and "other_step l r r'"
  then show "registry_inv r' \<and> (lease_holds r l ws \<longrightarrow> lease_holds r' l ws)"
    using inv_step other_step_is_step lease_holds_step by blast
qed (rule lease_excludes)

section \<open>Example states\<close>

definition demo_registry :: "unit job_registry" where
  "demo_registry = snd (try_acquire ''j1'' ''t1'' Train [RefWorkspace ''w''] None (registry_new job_registry_cfg_default))"

definition demo_entry :: job_entry where
  "demo_entry = new_entry ''j1'' ''t1'' Train [RefWorkspace ''w''] None"

lemma demo_registry_eq:
  "demo_registry = (registry_new job_registry_cfg_default)\<lparr>rg_jobs :=
     \<lparr>js_order = [''j1''], js_entries = [(''j1'', demo_entry)], js_leases = [], js_next_lease_id = 1\<rparr>\<rparr>"
  by (simp add: demo_registry_def demo_entry_def try_acquire_def registry_new_def jobs_state_new_def
      admission_slot_def entry_values_def job_registry_cfg_default_def prune_recent_def)

lemma demo_registry_reachable: "registry_reachable job_registry_cfg_default demo_registry"
  unfolding registry_reachable_def demo_registry_def
  by (rule r_into_rtranclp, rule st_acquire) (simp add: registry_new_def jobs_state_new_def)

lemma demo_get: "get_entry ''j1'' demo_registry = Some demo_entry"
  by (simp add: demo_registry_eq get_entry_def)

definition demo_delete_entry :: job_entry where
  "demo_delete_entry = new_entry ''d1'' ''t1'' WorkspaceDelete [RefWorkspace ''w''] None"

definition demo_other_entry :: job_entry where
  "demo_other_entry = new_entry ''j2'' ''t2'' Train [RefWorkspace ''v''] None"

definition demo_deleting :: "unit job_registry" where
  "demo_deleting = snd (try_acquire ''d1'' ''t1'' WorkspaceDelete [RefWorkspace ''w''] None
     (registry_new job_registry_cfg_default))"

definition demo_busy :: "unit job_registry" where
  "demo_busy = snd (try_acquire ''j2'' ''t2'' Train [RefWorkspace ''v''] None demo_deleting)"

lemma demo_deleting_eq:
  "demo_deleting = (registry_new job_registry_cfg_default)\<lparr>rg_jobs :=
     \<lparr>js_order = [''d1''], js_entries = [(''d1'', demo_delete_entry)], js_leases = [], js_next_lease_id = 1\<rparr>\<rparr>"
  by (simp add: demo_deleting_def demo_delete_entry_def try_acquire_def registry_new_def jobs_state_new_def
      admission_slot_def entry_values_def job_registry_cfg_default_def prune_recent_def)

lemma demo_busy_eq:
  "demo_busy = (registry_new job_registry_cfg_default)\<lparr>rg_jobs :=
     \<lparr>js_order = [''j2'', ''d1''], js_entries = [(''d1'', demo_delete_entry), (''j2'', demo_other_entry)],
      js_leases = [], js_next_lease_id = 1\<rparr>\<rparr>"
  by (simp add: demo_busy_def demo_deleting_eq demo_other_entry_def demo_delete_entry_def try_acquire_def
      registry_new_def admission_slot_def entry_values_def job_registry_cfg_default_def prune_recent_def
      in_slot_def job_conflicts_with_existing_job_def refs_touch_def, simp add: new_entry_def)

lemma demo_busy_reachable: "registry_reachable job_registry_cfg_default demo_busy"
proof -
  have "registry_step (registry_new job_registry_cfg_default) demo_deleting"
    unfolding demo_deleting_def by (rule st_acquire) (simp add: registry_new_def jobs_state_new_def)
  moreover have "registry_step demo_deleting demo_busy"
    unfolding demo_busy_def by (rule st_acquire) (simp add: demo_deleting_eq)
  ultimately show ?thesis unfolding registry_reachable_def by (meson r_into_rtranclp rtranclp.rtrancl_into_rtrancl)
qed

section \<open>Properties\<close>

text \<open>
  C5.  The concurrency caps hold in every reachable registry: never more running train jobs, convert
  jobs, or delete jobs of all five subtypes together than the configuration allows.
\<close>

theorem caps_never_exceeded:
  assumes "registry_reachable cfg r"
  shows "length (filter (\<lambda>e. entry_active e \<and> je_job_type e = Train) (entry_values (rg_jobs r))) \<le> cf_max_train_jobs cfg \<and>
         length (filter (\<lambda>e. entry_active e \<and> je_job_type e = Convert) (entry_values (rg_jobs r))) \<le> cf_max_convert_jobs cfg \<and>
         length (filter (\<lambda>e. entry_active e \<and> is_delete_subtype (je_job_type e)) (entry_values (rg_jobs r))) \<le> cf_max_delete_jobs cfg"
proof -
  have "caps_ok cfg (rg_jobs r)"
    using inv_reachable [OF assms] cfg_reachable [OF assms] by (simp add: registry_inv_def jobs_inv_def)
  then have "slot_count (snd (admission_slot cfg t)) (rg_jobs r) \<le> fst (admission_slot cfg t)" for t
    by (simp add: caps_ok_def)
  from this [of Train] this [of Convert] this [of WorkspaceDelete] show ?thesis
    by (simp add: admission_slot_def slot_count_def in_slot_def [abs_def])
qed

theorem caps_never_exceeded_witness:
  "length (filter (\<lambda>e. entry_active e \<and> je_job_type e = Train) (entry_values (rg_jobs demo_registry))) \<le> 1"
  using caps_never_exceeded [OF demo_registry_reachable] by (simp add: job_registry_cfg_default_def)

text \<open>
  C4.  A running workspace delete is alone: in every reachable registry its workspaces are touched by
  no other running job, whatever its type, and by no lease.
\<close>

theorem workspace_delete_is_exclusive:
  assumes "registry_reachable cfg r" and "get_entry j r = Some e"
    and "entry_active e" and "je_job_type e = WorkspaceDelete" and "refs_touch ws (je_references e)"
  shows "(\<forall>k f. k \<noteq> j \<longrightarrow> get_entry k r = Some f \<longrightarrow> entry_active f \<longrightarrow> \<not> refs_touch ws (je_references f)) \<and>
         (\<forall>l refs. (l, refs) \<in> set (js_leases (rg_jobs r)) \<longrightarrow> \<not> refs_touch ws refs)"
proof -
  have ex: "exclusive (rg_jobs r)"
    using inv_reachable [OF assms(1)] by (simp add: registry_inv_def jobs_inv_def)
  have e: "(j, e) \<in> set (js_entries (rg_jobs r))" "deleting e"
    using assms(2-4) map_of_SomeD by (auto simp: get_entry_def deleting_def)
  have "\<not> refs_touch ws (je_references f)"
    if f: "k \<noteq> j" "get_entry k r = Some f" "entry_active f" for k f
  proof -
    have "(k, f) \<in> set (js_entries (rg_jobs r))" using f(2) by (auto simp: get_entry_def dest: map_of_SomeD)
    then have "apart e f" using ex e(1) f(1) unfolding exclusive_def by blast
    then show ?thesis using assms(3-5) f(3) by (auto simp: apart_def refs_touch_iff)
  qed
  moreover have "\<not> refs_touch ws refs" if "(l, refs) \<in> set (js_leases (rg_jobs r))" for l refs
    using ex e that assms(5) unfolding exclusive_def refs_touch_iff by blast
  ultimately show ?thesis by blast
qed

theorem workspace_delete_is_exclusive_witness: "\<not> refs_touch ''w'' (je_references demo_other_entry)"
proof -
  have get: "get_entry ''d1'' demo_busy = Some demo_delete_entry" "get_entry ''j2'' demo_busy = Some demo_other_entry"
    by (simp_all add: demo_busy_eq get_entry_def)
  have act: "entry_active demo_delete_entry" "entry_active demo_other_entry"
    by (simp_all add: demo_delete_entry_def demo_other_entry_def new_entry_active)
  have wd: "je_job_type demo_delete_entry = WorkspaceDelete" "refs_touch ''w'' (je_references demo_delete_entry)"
    by (simp_all add: demo_delete_entry_def new_entry_def refs_touch_def)
  have "''j2'' \<noteq> ''d1''" by simp
  from workspace_delete_is_exclusive [OF demo_busy_reachable get(1) act(1) wd, THEN conjunct1, rule_format,
      OF this get(2) act(2)]
  show ?thesis .
qed

text \<open>
  C25.  The admission decision: a job is admitted exactly when its slot has room, no running job
  shares a workspace with it while one of the two is a workspace delete, and, for a workspace
  delete, no lease touches its workspaces; a refusal changes nothing but the conflict counter, and
  a second train job is refused as \<open>AnotherTrainRunning\<close>.
\<close>

theorem admission_decision:
  "((\<exists>i. fst (try_acquire j now t refs target r) = Ok i) \<longleftrightarrow>
      slot_count (snd (admission_slot (rg_cfg r) t)) (rg_jobs r) < fst (admission_slot (rg_cfg r) t) \<and>
      (\<forall>e \<in> set (entry_values (rg_jobs r)). entry_active e \<longrightarrow>
         t = WorkspaceDelete \<or> je_job_type e = WorkspaceDelete \<longrightarrow>
         ref_spaces refs \<inter> ref_spaces (je_references e) = {}) \<and>
      (t = WorkspaceDelete \<longrightarrow>
         (\<forall>l \<in> set (js_leases (rg_jobs r)). ref_spaces refs \<inter> ref_spaces (snd l) = {}))) \<and>
   (\<forall>c. fst (try_acquire j now t refs target r) = Err c \<longrightarrow>
      snd (try_acquire j now t refs target r) = count_conflict r) \<and>
   (t = Train \<and> slot_count (\<lambda>u. u = Train) (rg_jobs r) \<ge> cf_max_train_jobs (rg_cfg r) \<longrightarrow>
      fst (try_acquire j now t refs target r) = Err AnotherTrainRunning)"
  unfolding scan_references_None [of j "t = WorkspaceDelete" "rg_jobs r" refs, symmetric]
  by (cases rule: try_acquire_cases [where r = r and t = t and j = j and now = now and refs = refs
        and target = target]) (auto simp: admission_slot_def)

theorem admission_decision_witness:
  "fst (try_acquire ''j2'' ''t2'' Train [RefWorkspace ''v''] None demo_registry) = Err AnotherTrainRunning"
proof -
  have "slot_count (\<lambda>u. u = Train) (rg_jobs demo_registry) \<ge> cf_max_train_jobs (rg_cfg demo_registry)"
    by (simp add: demo_registry_eq demo_entry_def slot_count_def entry_values_def in_slot_def new_entry_active
      registry_new_def job_registry_cfg_default_def, simp add: new_entry_def)
  then show ?thesis
    using admission_decision [THEN conjunct2, THEN conjunct2, of Train demo_registry] by blast
qed

text \<open>
  C29.  The life of a job: across any operation its type and the order of its sequence numbers are
  kept; a running job is never evicted, and stays running with its references or becomes
  terminal without any; a terminal job keeps its terminal state until it is forgotten.  The one
  exception is the job an operation terminates, which may be forgotten at once.
\<close>

theorem job_lifecycle:
  assumes "registry_reachable cfg r" and "registry_step r r'" and "get_entry k r = Some e"
  shows "entry_moves e (get_entry k r') \<or>
         (get_entry k r' = None \<and> (\<exists>now st res. r' = fst (terminate_job now k st res r)))"
proof -
  note inv = inv_reachable [OF assms(1)]
  have seq: "je_last_seq e < 2 ^ 64"
    using inv_entry(1) [OF inv assms(3)] by (auto simp: entry_ok_def)
  note same = entry_moves_refl [of e]
  from assms(2) show ?thesis
  proof cases
    case (st_acquire j now t refs target)
    then show ?thesis using moves_acquire [OF inv _ assms(3)] by blast
  next
    case (st_terminate st now j res)
    then show ?thesis using moves_terminate [OF inv assms(3) seq st_terminate(2), of now j res] by auto
  next
    case (st_lease refs)
    then have "get_entry k r' = Some e"
      using assms(3) by (auto simp: try_acquire_lease_def get_entry_def Let_def split: option.splits)
    then show ?thesis using same by simp
  next
    case (st_release l)
    then have "get_entry k r' = Some e" using assms(3) by (simp add: release_lease_def get_entry_def)
    then show ?thesis using same by simp
  next
    case (st_boot report)
    then have "get_entry k r' = Some e" using assms(3) by (simp add: record_boot_recovery_def get_entry_def)
    then show ?thesis using same by simp
  next
    case (st_progress instant now j prog)
    then show ?thesis using moves_update(1) [OF assms(3) seq] by simp
  next
    case (st_log now j msg)
    then show ?thesis using moves_update(2) [OF assms(3) seq] by simp
  qed
qed

theorem job_lifecycle_witness:
  "entry_moves demo_entry (get_entry ''j1'' (fst (append_log ''t2'' ''j1'' ''epoch 1'' demo_registry))) \<or>
   get_entry ''j1'' (fst (append_log ''t2'' ''j1'' ''epoch 1'' demo_registry)) = None"
  using job_lifecycle [OF demo_registry_reachable
      st_log [where r = demo_registry and now = "''t2''" and j = "''j1''" and msg = "''epoch 1''"] demo_get]
  by (elim disjE conjE) (rule disjI1 disjI2, assumption)+

text \<open>
  The history is bounded: in every reachable registry the retained jobs number at most
  \<open>max_recent_jobs\<close>, unless every one of them is still running.
\<close>

lemma history_is_bounded:
  assumes "registry_reachable cfg r"
  shows "rc_jobs_retained (registry_counters_of r) \<le>
           max (cf_max_recent_jobs cfg) (rc_jobs_running (registry_counters_of r))"
proof -
  let ?xs = "js_entries (rg_jobs r)"
  have hb: "length ?xs \<le> cf_max_recent_jobs cfg \<or> (\<forall>k e. get_entry k r = Some e \<longrightarrow> entry_active e)"
    using history_reachable [OF assms] cfg_reachable [OF assms] by (simp add: history_bounded_def)
  have "filter (entry_active \<circ> snd) ?xs = ?xs" if all: "\<forall>k e. get_entry k r = Some e \<longrightarrow> entry_active e"
  proof -
    have "distinct (map fst ?xs)" using keys_ok_inv [OF inv_reachable [OF assms]] by (simp add: keys_ok_def)
    then have "entry_active e" if "(k, e) \<in> set ?xs" for k e
      using that all map_of_is_SomeI by (fastforce simp: get_entry_def)
    then show ?thesis by (auto simp: filter_id_conv)
  qed
  with hb show ?thesis by (auto simp: registry_counters_of_def entry_values_def)
qed

text \<open>
  C28.  Resuming an event stream loses nothing: with a cursor \<open>n > 0\<close>, a subscription succeeds exactly
  when every event after \<open>n\<close> is still in the ring and \<open>n\<close> is not from the future, and then the
  replay is the events \<open>n + 1 .. last\<close>, each once and in order; any other cursor gets the gap with the
  ring's bounds.
\<close>

theorem resume_is_gap_free:
  assumes "registry_reachable cfg r" and e: "get_entry j r = Some e" and "je_last_seq e < u64_max" and "0 < n"
  shows "if Suc (je_last_seq e) - length (je_ring e) \<le> Suc n \<and> n \<le> je_last_seq e
         then \<exists>es. subscribe_events j n r = Ok es \<and> map ev_seq (es_replay es) = [Suc n ..< Suc (je_last_seq e)]
         else \<exists>oldest. subscribe_events j n r = Err (EventGap oldest (je_last_seq e))"
proof -
  have ok: "length (je_ring e) \<le> je_last_seq e" "je_ring e = [] \<longrightarrow> je_last_seq e = 0"
    "map ev_seq (je_ring e) = [Suc (je_last_seq e) - length (je_ring e) ..< Suc (je_last_seq e)]"
    using inv_entry(1) [OF inv_reachable [OF assms(1)] e] assms(3) by (auto simp: entry_ok_def)
  let ?lo = "Suc (je_last_seq e) - length (je_ring e)"
  define oldest where "oldest = (case je_ring e of [] \<Rightarrow> 0 | ev # _ \<Rightarrow> ev_seq ev)"
  have old: "oldest = (if je_ring e = [] then 0 else ?lo)"
  proof (cases "je_ring e")
    case (Cons ev evs)
    then have "ev_seq ev = hd [?lo ..< Suc (je_last_seq e)]" using ok(3) by (metis list.sel(1) list.simps(9))
    also have "\<dots> = ?lo" using ok(1) Cons by (intro hd_upt) simp
    finally show ?thesis using Cons by (simp add: oldest_def)
  qed (simp add: oldest_def)
  have replay: "map ev_seq (filter (\<lambda>ev. ev_seq ev > n) (je_ring e)) = filter (\<lambda>x. x > n) [?lo ..< Suc (je_last_seq e)]"
    unfolding ok(3) [symmetric] filter_map comp_def ..
  have cut: "filter (\<lambda>x. x > n) [a ..< b] = [Suc n ..< b]" if "a \<le> Suc n" "Suc n \<le> b" for a b :: nat
  proof -
    have "[a ..< b] = [a ..< Suc n] @ [Suc n ..< b]" using upt_add_eq_append [of a "Suc n" "b - Suc n"] that
      by (simp only: le_add_diff_inverse)
    then show ?thesis by (auto simp: filter_empty_conv filter_id_conv)
  qed
  have sub: "subscribe_events j n r =
      (if n < saturating_sub oldest 1 \<or> n > je_last_seq e then Err (EventGap oldest (je_last_seq e))
       else Ok \<lparr>es_replay = filter (\<lambda>ev. ev_seq ev > n) (je_ring e), es_job_id = j,
                es_terminal_seen = (\<not> entry_active e)\<rparr>)"
    using e assms(4) by (simp add: subscribe_events_def oldest_def)
  show ?thesis
  proof (cases "?lo \<le> Suc n \<and> n \<le> je_last_seq e")
    case True
    then have "map ev_seq (filter (\<lambda>ev. ev_seq ev > n) (je_ring e)) = [Suc n ..< Suc (je_last_seq e)]"
      using replay cut [of ?lo "Suc (je_last_seq e)"] by simp
    moreover have "\<not> (n < saturating_sub oldest 1 \<or> n > je_last_seq e)"
      using True old by (auto simp: saturating_sub_def)
    moreover define es where "es = \<lparr>es_replay = filter (\<lambda>ev. ev_seq ev > n) (je_ring e), es_job_id = j,
        es_terminal_seen = (\<not> entry_active e)\<rparr>"
    ultimately have "subscribe_events j n r = Ok es" "map ev_seq (es_replay es) = [Suc n ..< Suc (je_last_seq e)]"
      using sub by (simp_all del: upt_Suc)
    then show ?thesis unfolding if_P [OF True] by blast
  next
    case False
    then have "n < saturating_sub oldest 1 \<or> n > je_last_seq e"
      using old ok(2) by (auto simp: saturating_sub_def)
    then show ?thesis unfolding if_not_P [OF False] sub by auto
  qed
qed

theorem resume_is_gap_free_witness:
  "\<exists>oldest. subscribe_events ''j1'' 7 demo_registry = Err (EventGap oldest 0)"
  using resume_is_gap_free [OF demo_registry_reachable demo_get, of 7]
  by (simp add: demo_entry_def new_entry_def)

text \<open>
  A subscription with cursor 0 is never refused: it replays whatever the ring still holds, even
  when the ring has already dropped the job's first events.
\<close>

lemma fresh_subscription_never_gaps:
  "\<exists>es. subscribe_events j 0 r = Ok es \<and>
     es_replay es = (case get_entry j r of None \<Rightarrow> [] | Some e \<Rightarrow> filter (\<lambda>ev. 0 < ev_seq ev) (je_ring e))"
  by (auto simp: subscribe_events_def split: option.splits)

text \<open>
  Termination happens once: after a job was terminated with any final state, every further
  terminate (a second call, or the drop of the handle) changes nothing and emits no event.
\<close>

lemma terminate_is_idempotent:
  assumes "registry_inv r" and "\<not> is_active st"
  shows "terminate_job now' j st' res' (fst (terminate_job now j st res r)) = (fst (terminate_job now j st res r), None) \<and>
         handle_drop now' \<lparr>jh_job_id = j, jh_terminated = b\<rparr> (fst (terminate_job now j st res r)) =
           fst (terminate_job now j st res r)"
proof -
  let ?r = "fst (terminate_job now j st res r)"
  have inactive: "\<not> entry_active f" if f: "get_entry j ?r = Some f" for f
    using assms
  proof (cases rule: terminate_job_cases [where now = now and j = j and res = res])
    case noop
    then show ?thesis using f by auto
  next
    case (ends e0 e2 ev d)
    let ?s = "replace_entry j e2 (rg_jobs r)"
    have "map_of (js_entries (prune_recent ?s (cf_max_recent_jobs (rg_cfg r)))) j = map_of (js_entries ?s) j \<or>
        map_of (js_entries (prune_recent ?s (cf_max_recent_jobs (rg_cfg r)))) j = None"
      using prune_get [of ?s "cf_max_recent_jobs (rg_cfg r)" j] ends(7) by (auto simp: jobs_inv_def)
    moreover have "get_entry j ?r = map_of (js_entries (prune_recent ?s (cf_max_recent_jobs (rg_cfg r)))) j"
      using ends by (simp add: get_entry_def)
    moreover have "map_of (js_entries ?s) j = Some e2" by (simp add: replace_entry_def AList.update_conv)
    ultimately show ?thesis using f ends(3) assms(2) by (auto simp: entry_active_def)
  qed
  then have "terminate_job n j s q ?r = (?r, None)" for n s q
    by (auto simp: terminate_job_def split: option.splits)
  then show ?thesis by (simp add: handle_drop_def)
qed

lemma log_suffix_utf8: "utf8 log_suffix"
  by (rule utf8_ascii) (simp add: log_suffix_def)

lemma length_log_suffix: "length log_suffix = 16"
  by (simp add: log_suffix_def)

text \<open>
  A capped log line is valid UTF-8 whenever the message was, keeps a message within the cap
  unchanged, and is never longer than the cap once the cap has room for one byte and the
  truncation marker.
\<close>

theorem log_line_is_capped:
  assumes "utf8 msg" and "17 \<le> mx"
  shows "utf8 (cap_log_line mx msg) \<and> length (cap_log_line mx msg) \<le> mx \<and>
         (length msg \<le> mx \<longrightarrow> cap_log_line mx msg = msg)"
proof (cases "length msg > mx")
  case False
  then show ?thesis using assms(1) by (simp add: cap_log_line_def)
next
  case True
  have t: "max (saturating_sub mx (length log_suffix)) 1 = mx - 16"
    using assms(2) by (simp add: length_log_suffix saturating_sub_def)
  have "utf8 (take (snap_down msg (mx - 16)) msg)" by (rule utf8_take_snap_down [OF assms(1)]) (use True in linarith)
  moreover have "length (take (snap_down msg (mx - 16)) msg) \<le> mx - 16"
    by (simp add: min.coboundedI2)
  moreover have "cap_log_line mx msg = take (snap_down msg (mx - 16)) msg @ log_suffix"
    using True t by (simp add: cap_log_line_def)
  ultimately show ?thesis
    using True assms(2) length_log_suffix by (auto simp: utf8_append log_suffix_utf8 simp del: length_take)
qed

theorem log_line_is_capped_witness: "length (cap_log_line 17 ''a line that is too long'') \<le> 17"
  using log_line_is_capped [OF utf8_ascii, of "''a line that is too long''" 17] by simp

text \<open>
  C32.  A lease protects its workspace: from the moment \<open>try_acquire_lease\<close> granted it until it is
  released, through any sequence of other registry operations, no workspace delete of that
  workspace is running.
\<close>

theorem lease_protects_workspace:
  assumes "registry_reachable cfg r" and "lease_workspace ws r = (Ok l, r1)" and "(other_step l)\<^sup>*\<^sup>* r1 r2"
  shows "\<not> being_deleted r2 ws"
  using registry_gate.critical_section [OF inv_reachable [OF assms(1)] assms(2,3)] by blast

theorem lease_protects_workspace_witness:
  "\<not> being_deleted (snd (lease_workspace ''w'' demo_registry)) ''w''"
  by (rule lease_protects_workspace [OF demo_registry_reachable _ rtranclp.rtrancl_refl, of "''w''" 1])
    (simp add: lease_workspace_def try_acquire_lease_def demo_registry_eq demo_entry_def entry_values_def
      lease_conflicts_with_existing_job_def new_entry_def)

end
