(* ===== verification/Head_Header.thy ===== *)
theory Head_Header
  imports Prelude
begin

text \<open>
  \<^verbatim>\<open>common/head_header.rs\<close>: the 32-byte header of an \<open>.mpk\<close> head artifact, its writer and its
  parser, and the table-driven CRC-32 that guards it.  The CRC is related to the bit-serial
  reference definition of the polynomial, and its injectivity gives that no single corrupted
  byte of a header is ever accepted.
\<close>

section \<open>CRC-32\<close>

definition crc_poly :: u32 where
  "crc_poly = 0xEDB88320"

definition crc_step :: "u32 \<Rightarrow> u32" where
  "crc_step c = (if c AND 1 \<noteq> 0 then crc_poly XOR drop_bit 1 c else drop_bit 1 c)"

fun crc_rounds :: "nat \<Rightarrow> u32 \<Rightarrow> u32" where
  "crc_rounds 0 c = c"
| "crc_rounds (Suc k) c = crc_rounds k (crc_step c)"

definition crc32_table :: "u32 list" where
  "crc32_table = map (\<lambda>i. crc_rounds 8 (word_of_nat i)) [0..<256]"

definition crc32_update :: "u32 \<Rightarrow> u8 \<Rightarrow> u32" where
  "crc32_update crc b = crc32_table ! unat ((crc XOR ucast b) AND 0xFF) XOR drop_bit 8 crc"

definition crc32_ieee :: "bytes \<Rightarrow> u32" where
  "crc32_ieee bs = foldl crc32_update 0xFFFFFFFF bs XOR 0xFFFFFFFF"

text \<open>The reference: shift the register one bit at a time, byte by byte.\<close>

definition crc32_reference :: "bytes \<Rightarrow> u32" where
  "crc32_reference bs = foldl (\<lambda>c b. crc_rounds 8 (c XOR ucast b)) 0xFFFFFFFF bs XOR 0xFFFFFFFF"

lemma and_1_bit: "(c::u32) AND 1 \<noteq> 0 \<longleftrightarrow> bit c 0"
  by (simp add: and_one_eq bit_0 mod_2_eq_odd)

lemma bit_crc_step: "bit (crc_step c) n = ((bit c 0 \<and> bit crc_poly n) \<noteq> bit c (Suc n))"
  by (simp add: crc_step_def and_1_bit bit_xor_iff bit_drop_bit_eq)

lemma crc_step_xor: "crc_step (a XOR b) = crc_step a XOR crc_step b"
  by (rule bit_word_eqI) (auto simp: bit_crc_step bit_xor_iff)

lemma crc_rounds_xor: "crc_rounds k (a XOR b) = crc_rounds k a XOR crc_rounds k b"
  by (induction k arbitrary: a b) (simp_all add: crc_step_xor)

text \<open>A register whose low bits are clear is only shifted.\<close>

lemma crc_rounds_shift: "(\<forall>i < k. \<not> bit c i) \<Longrightarrow> crc_rounds k c = drop_bit k c"
proof (induction k arbitrary: c)
  case 0
  then show ?case by simp
next
  case (Suc k)
  then have "\<not> bit c 0" by simp
  then have step: "crc_step c = drop_bit 1 c" by (simp add: crc_step_def and_1_bit)
  have "\<forall>i < k. \<not> bit (drop_bit 1 c) i" using Suc.prems by (simp add: bit_drop_bit_eq)
  then have "crc_rounds k (drop_bit 1 c) = drop_bit k (drop_bit 1 c)" by (rule Suc.IH)
  then show ?case by (simp only: crc_rounds.simps step drop_bit_drop_bit) simp
qed

lemma crc_split: "(x::u32) = (x AND 0xFF) XOR push_bit 8 (drop_bit 8 x)"
proof (rule bit_word_eqI)
  fix n
  assume "n < LENGTH(32)"
  moreover have "bit (0xFF :: u32) n \<longleftrightarrow> n < 8" if "n < 32" for n
  proof -
    have "(0xFF :: u32) = mask 8" by (simp add: mask_eq_exp_minus_1)
    then show ?thesis using that by (simp only: bit_mask_iff) simp
  qed
  ultimately show "bit x n = bit ((x AND 0xFF) XOR push_bit 8 (drop_bit 8 x)) n"
    by (auto simp: bit_xor_iff bit_and_iff bit_push_bit_iff bit_drop_bit_eq)
qed

lemma crc32_table_nth: "(w::u32) AND 0xFF = w \<Longrightarrow> crc32_table ! unat w = crc_rounds 8 w"
proof -
  assume w: "w AND 0xFF = w"
  have "w AND 0xFF \<le> 0xFF" by (rule word_and_le1)
  then have "unat w < 256" using w by (simp add: word_le_nat_alt)
  then show ?thesis by (simp add: crc32_table_def)
qed

lemma crc32_update_rounds: "crc32_update c b = crc_rounds 8 (c XOR ucast b)"
proof -
  let ?x = "c XOR ucast b"
  have low: "(?x AND 0xFF) AND 0xFF = ?x AND 0xFF" by (simp add: and.assoc)
  have high: "drop_bit 8 ?x = drop_bit 8 c"
    by (rule bit_word_eqI) (auto simp: bit_drop_bit_eq bit_xor_iff bit_ucast_iff dest: bit_imp_le_length)
  have "crc_rounds 8 ?x = crc_rounds 8 (?x AND 0xFF) XOR crc_rounds 8 (push_bit 8 (drop_bit 8 ?x))"
    by (subst crc_split) (rule crc_rounds_xor)
  also have "crc_rounds 8 (push_bit 8 (drop_bit 8 ?x)) = drop_bit 8 (push_bit 8 (drop_bit 8 ?x))"
    by (rule crc_rounds_shift) (simp add: bit_push_bit_iff bit_xor_iff)
  also have "\<dots> = drop_bit 8 (push_bit 8 (drop_bit 8 c))" by (simp only: high)
  also have "\<dots> = drop_bit 8 c"
    by (rule bit_word_eqI) (auto simp: bit_drop_bit_eq bit_push_bit_iff dest: bit_imp_le_length)
  also have "crc_rounds 8 (?x AND 0xFF) = crc32_table ! unat (?x AND 0xFF)"
    by (rule crc32_table_nth [OF low, symmetric])
  finally show ?thesis by (simp add: crc32_update_def)
qed

lemma crc32_table_correct: "crc32_ieee bs = crc32_reference bs"
proof -
  have "crc32_update = (\<lambda>c b. crc_rounds 8 (c XOR ucast b))"
    by (simp add: fun_eq_iff crc32_update_rounds)
  then show ?thesis by (simp add: crc32_ieee_def crc32_reference_def)
qed

text \<open>
  The polynomial's top bit is set and a shifted register's is not, so the step can be undone:
  the CRC separates any two messages that differ in one byte.
\<close>

lemma bit_crc_poly_31: "bit crc_poly 31"
  by (simp add: crc_poly_def bit_iff_odd)

lemma crc_step_inj: "crc_step a = crc_step b \<Longrightarrow> a = b"
proof (rule bit_word_eqI)
  fix n
  assume eq: "crc_step a = crc_step b" and n: "n < LENGTH(32)"
  have "bit (crc_step a) 31 = bit (crc_step b) 31" using eq by simp
  then have low: "bit a 0 = bit b 0"
    by (auto simp: bit_crc_step bit_crc_poly_31 dest: bit_imp_le_length)
  show "bit a n = bit b n"
  proof (cases n)
    case 0
    with low show ?thesis by simp
  next
    case (Suc m)
    have "bit (crc_step a) m = bit (crc_step b) m" using eq by simp
    with low Suc show ?thesis by (auto simp: bit_crc_step)
  qed
qed

lemma crc_rounds_inj: "crc_rounds k a = crc_rounds k b \<Longrightarrow> a = b"
  by (induction k arbitrary: a b) (auto dest: crc_step_inj)

lemma xor_cancel: "(a::u32) XOR c = b XOR c \<longleftrightarrow> a = b"
  by (metis xor.assoc xor.right_neutral xor_self_eq)

lemma crc32_update_inj1: "crc32_update a b = crc32_update a' b \<longleftrightarrow> a = a'"
  by (auto simp: crc32_update_rounds xor_cancel dest: crc_rounds_inj)

lemma ucast_u8_inj: "(ucast (x::u8) :: u32) = ucast y \<longleftrightarrow> x = y"
proof
  assume eq: "(ucast x :: u32) = ucast y"
  show "x = y"
  proof (rule bit_word_eqI)
    fix n
    assume "n < LENGTH(8)"
    moreover have "bit (ucast x :: u32) n = bit (ucast y :: u32) n" using eq by simp
    ultimately show "bit x n = bit y n" by (simp add: bit_ucast_iff)
  qed
qed simp

lemma crc32_update_inj2: "crc32_update a x = crc32_update a y \<longleftrightarrow> x = y"
  by (auto simp: crc32_update_rounds ucast_u8_inj xor.commute [of a] xor_cancel dest!: crc_rounds_inj)

lemma foldl_crc32_inj: "foldl crc32_update a bs = foldl crc32_update b bs \<longleftrightarrow> a = b"
  by (induction bs arbitrary: a b) (simp_all add: crc32_update_inj1)

lemma crc32_one_byte:
  assumes "i < length bs" and "x \<noteq> bs ! i"
  shows "crc32_ieee (bs[i := x]) \<noteq> crc32_ieee bs"
proof -
  have "bs = take i bs @ bs ! i # drop (Suc i) bs" using assms(1) by (rule id_take_nth_drop)
  then have "crc32_ieee bs = crc32_ieee (take i bs @ bs ! i # drop (Suc i) bs)" by simp
  moreover have "crc32_ieee (bs[i := x]) = crc32_ieee (take i bs @ x # drop (Suc i) bs)"
    using assms(1) by (simp add: upd_conv_take_nth_drop)
  ultimately show ?thesis
    using assms(2) by (simp add: crc32_ieee_def xor_cancel foldl_crc32_inj crc32_update_inj2)
qed

section \<open>The header\<close>

definition head_magic :: bytes where
  "head_magic = [0x41, 0x43, 0x53, 0x54, 0x48, 0x45, 0x41, 0x44]"

definition head_header_version :: u32 where
  "head_header_version = 1"

definition head_header_size :: nat where
  "head_header_size = 32"

record head_header =
  header_version :: u32
  feature_dim :: u32
  num_classes :: u32
  payload_len :: u32

datatype head_header_error =
    TooShort nat nat
  | BadMagic bytes
  | SchemaTooNew u32 u32
  | BadCrc u32 u32

text \<open>The first 28 bytes, over which the checksum is taken.\<close>

definition header_body :: "u32 \<Rightarrow> u32 \<Rightarrow> u32 \<Rightarrow> bytes" where
  "header_body fd nc len =
     head_magic @ u32_to_le_bytes head_header_version @ u32_to_le_bytes fd @ u32_to_le_bytes nc
       @ replicate 4 0 @ u32_to_le_bytes len"

definition serialize_header :: "u32 \<Rightarrow> u32 \<Rightarrow> u32 \<Rightarrow> bytes" where
  "serialize_header fd nc len =
     (let buf = header_body fd nc len in buf @ u32_to_le_bytes (crc32_ieee buf))"

definition slice :: "nat \<Rightarrow> nat \<Rightarrow> bytes \<Rightarrow> bytes" where
  "slice i j bs = take (j - i) (drop i bs)"

definition parse_header :: "bytes \<Rightarrow> (head_header_error, head_header) result" where
  "parse_header bs =
     (if length bs < head_header_size then Err (TooShort (length bs) head_header_size)
      else if slice 0 8 bs \<noteq> head_magic then Err (BadMagic (slice 0 8 bs))
      else let v = u32_from_le_bytes (slice 8 12 bs) in
        if v > head_header_version then Err (SchemaTooNew v head_header_version)
        else let stored = u32_from_le_bytes (slice 28 32 bs);
                 computed = crc32_ieee (take 28 bs) in
          if stored \<noteq> computed then Err (BadCrc stored computed)
          else Ok \<lparr>header_version = v,
                   feature_dim = u32_from_le_bytes (slice 12 16 bs),
                   num_classes = u32_from_le_bytes (slice 16 20 bs),
                   payload_len = u32_from_le_bytes (slice 24 28 bs)\<rparr>)"

text \<open>Narrowing the length for the 4-byte slot, and composing the artifact through a writer.\<close>

datatype 'io write_error = PayloadTooLong nat | WriteFailed 'io

definition payload_len_or_err :: "nat \<Rightarrow> ('io write_error, u32) result" where
  "payload_len_or_err len = (if len < 2 ^ 32 then Ok (word_of_nat len) else Err (PayloadTooLong len))"

definition write_with_payload ::
  "('w \<Rightarrow> bytes \<Rightarrow> 'io option \<times> 'w) \<Rightarrow> 'w \<Rightarrow> u32 \<Rightarrow> u32 \<Rightarrow> bytes \<Rightarrow> ('io write_error, unit) result \<times> 'w"
where
  "write_with_payload write_all w fd nc payload =
     (case payload_len_or_err (length payload) of
        Inl e \<Rightarrow> (Err e, w)
      | Inr len \<Rightarrow>
          (case write_all w (serialize_header fd nc len) of
             (Some e, w1) \<Rightarrow> (Err (WriteFailed e), w1)
           | (None, w1) \<Rightarrow>
               (case write_all w1 payload of
                  (Some e, w2) \<Rightarrow> (Err (WriteFailed e), w2)
                | (None, w2) \<Rightarrow> (Ok (), w2))))"

text \<open>The growable in-memory sink (\<open>Vec<u8>\<close>), whose writes cannot fail.\<close>

definition vec_write_all :: "bytes \<Rightarrow> bytes \<Rightarrow> unit option \<times> bytes" where
  "vec_write_all w bs = (None, w @ bs)"

section \<open>Round trip and corruption\<close>

lemma length_head_magic [simp]: "length head_magic = 8"
  by (simp add: head_magic_def)

lemma length_header_body [simp]: "length (header_body fd nc len) = 28"
  by (simp add: header_body_def)

lemma length_serialize_header [simp]: "length (serialize_header fd nc len) = 32"
  by (simp add: serialize_header_def Let_def)

lemma slice_header:
  "slice 0 8 (serialize_header fd nc len @ rest) = head_magic"
  "slice 8 12 (serialize_header fd nc len @ rest) = u32_to_le_bytes head_header_version"
  "slice 12 16 (serialize_header fd nc len @ rest) = u32_to_le_bytes fd"
  "slice 16 20 (serialize_header fd nc len @ rest) = u32_to_le_bytes nc"
  "slice 24 28 (serialize_header fd nc len @ rest) = u32_to_le_bytes len"
  "slice 28 32 (serialize_header fd nc len @ rest) = u32_to_le_bytes (crc32_ieee (header_body fd nc len))"
  "take 28 (serialize_header fd nc len @ rest) = header_body fd nc len"
  by (simp_all add: slice_def serialize_header_def header_body_def Let_def)

lemmas slice_header_whole = slice_header [where rest = "[]", simplified]

lemma length_slice [simp]: "i \<le> j \<Longrightarrow> j \<le> length bs \<Longrightarrow> length (slice i j bs) = j - i"
  by (simp add: slice_def)

lemma slice_update_before: "k < i \<Longrightarrow> slice i j (bs[k := x]) = slice i j bs"
  by (simp add: slice_def)

lemma slice_update_inside: "i \<le> k \<Longrightarrow> slice i j (bs[k := x]) = (slice i j bs)[k - i := x]"
  by (simp add: slice_def drop_update_swap take_update_swap)

lemma nth_slice: "i + n < j \<Longrightarrow> j \<le> length bs \<Longrightarrow> slice i j bs ! n = bs ! (i + n)"
  by (simp add: slice_def)

lemma parse_serialize_header:
  "parse_header (serialize_header fd nc len @ rest) =
     Ok \<lparr>header_version = head_header_version, feature_dim = fd, num_classes = nc, payload_len = len\<rparr>"
  by (simp add: parse_header_def slice_header slice_header_whole Let_def head_header_size_def)

lemma parse_header_accepts:
  assumes "parse_header bs = Inr h"
  shows "32 \<le> length bs \<and> u32_from_le_bytes (slice 28 32 bs) = crc32_ieee (take 28 bs)"
  using assms by (auto simp: parse_header_def Let_def head_header_size_def split: if_splits)

lemma bit_u8_high: "8 \<le> k \<Longrightarrow> \<not> bit (x::u8) k"
  by (auto dest: bit_imp_le_length)

lemma u32_from_le_bytes_inj:
  assumes "length as = 4" and "length bs = 4" and "u32_from_le_bytes as = u32_from_le_bytes bs"
  shows "as = bs"
proof -
  have surj: "\<exists>w. cs = u32_to_le_bytes w" if len: "length cs = 4" for cs :: bytes
  proof -
    obtain a b c d where cs: "cs = [a, b, c, d]"
      using len by (auto simp: length_Suc_conv eval_nat_numeral)
    have "u32_to_le_bytes (u32_from_le_bytes cs) = cs"
      unfolding cs u32_to_le_bytes_def u32_from_le_bytes_def
      by (auto intro!: bit_word_eqI
          simp: bit_or_iff bit_push_bit_iff bit_drop_bit_eq bit_ucast_iff bit_u8_high)
    then show ?thesis by metis
  qed
  from surj assms show ?thesis by (metis u32_le_bytes_roundtrip)
qed

lemma one_byte_rejected:
  assumes i: "i < 32" and x: "x \<noteq> serialize_header fd nc len ! i"
  shows "\<exists>e. parse_header ((serialize_header fd nc len)[i := x]) = Inl e"
proof (rule ccontr)
  let ?h = "serialize_header fd nc len"
  assume "\<not> ?thesis"
  then obtain h where "parse_header (?h[i := x]) = Inr h" by (metis sum.exhaust)
  then have crc: "u32_from_le_bytes (slice 28 32 (?h[i := x])) = crc32_ieee (take 28 (?h[i := x]))"
    using parse_header_accepts by blast
  show False
  proof (cases "i < 28")
    case True
    have "take 28 (?h[i := x]) = (header_body fd nc len)[i := x]"
      by (simp add: take_update_swap slice_header_whole)
    moreover have "header_body fd nc len ! i = ?h ! i"
      using True by (simp add: serialize_header_def Let_def nth_append)
    ultimately show False
      using crc True x crc32_one_byte [of i "header_body fd nc len" x]
      by (simp add: slice_update_before slice_header_whole)
  next
    case False
    let ?s = "slice 28 32 ?h"
    have "take 28 (?h[i := x]) = header_body fd nc len"
      using False by (simp add: take_update_swap list_update_beyond slice_header_whole)
    then have "u32_from_le_bytes (?s[i - 28 := x]) = u32_from_le_bytes ?s"
      using crc False by (simp add: slice_update_inside slice_header_whole)
    then have "?s[i - 28 := x] = ?s" by (rule u32_from_le_bytes_inj [rotated 2]) simp_all
    moreover have "i - 28 < length ?s" using False i by simp
    ultimately have "?s ! (i - 28) = x" by (metis nth_list_update_eq)
    moreover have "?s ! (i - 28) = ?h ! i" using False i by (simp add: nth_slice)
    ultimately show False using x by simp
  qed
qed

section \<open>Properties\<close>

text \<open>
  C33.  The table-driven CRC-32 of the code computes the CRC of its polynomial: on every byte
  string it equals the reference that shifts the register bit by bit.
\<close>

theorem crc32_ieee_is_reference: "crc32_ieee bs = crc32_reference bs"
  by (rule crc32_table_correct)

text \<open>
  C35.  Artifact round trip: writing a head whose payload length fits 32 bits into a growable buffer
  succeeds, and what was appended parses back to the same dimensions, the current version and
  the payload's length, with the payload right behind the 32 header bytes.
\<close>

theorem artifact_roundtrip:
  assumes "length payload < 2 ^ 32"
  shows "\<exists>art. write_with_payload vec_write_all w fd nc payload = (Ok (), w @ art) \<and>
           parse_header art = Ok \<lparr>header_version = head_header_version, feature_dim = fd,
                                   num_classes = nc, payload_len = word_of_nat (length payload)\<rparr> \<and>
           drop head_header_size art = payload"
  using assms
  by (intro exI [of _ "serialize_header fd nc (word_of_nat (length payload)) @ payload"])
    (simp add: write_with_payload_def payload_len_or_err_def vec_write_all_def parse_serialize_header
      head_header_size_def)

theorem artifact_roundtrip_witness:
  "\<exists>art. write_with_payload vec_write_all [] 512 3 [1, 2, 3] = (Ok (), [] @ art) \<and>
     parse_header art = Ok \<lparr>header_version = head_header_version, feature_dim = 512,
                             num_classes = 3, payload_len = word_of_nat (length [1, 2, 3 :: u8])\<rparr> \<and>
     drop head_header_size art = [1, 2, 3]"
  by (rule artifact_roundtrip) simp

text \<open>
  C34.  No single corrupted byte of a header is accepted: whichever of the 32 bytes is changed to
  whatever other value, the parser answers an error.
\<close>

theorem corrupted_byte_rejected:
  assumes "i < head_header_size" and "x \<noteq> serialize_header fd nc len ! i"
  shows "\<exists>e. parse_header ((serialize_header fd nc len)[i := x]) = Err e"
  using assms by (intro one_byte_rejected) (simp_all add: head_header_size_def)

theorem corrupted_byte_rejected_witness: "\<exists>e. parse_header ((serialize_header 512 3 7)[0 := 0x42]) = Err e"
  by (rule corrupted_byte_rejected)
    (simp_all add: head_header_size_def serialize_header_def header_body_def head_magic_def Let_def)

text \<open>
  A header that parses is of a version this build knows and carries the checksum of its own
  first 28 bytes; a version above it is reported as such, whatever the rest of the header holds.
\<close>

theorem parse_header_gate:
  "(\<forall>h. parse_header bs = Ok h \<longrightarrow> header_version h \<le> head_header_version \<and>
      u32_from_le_bytes (slice 28 32 bs) = crc32_ieee (take 28 bs)) \<and>
   (head_header_size \<le> length bs \<and> slice 0 8 bs = head_magic \<and>
      head_header_version < u32_from_le_bytes (slice 8 12 bs) \<longrightarrow>
      parse_header bs = Err (SchemaTooNew (u32_from_le_bytes (slice 8 12 bs)) head_header_version))"
  by (auto simp: parse_header_def Let_def split: if_splits)

theorem parse_header_gate_witness:
  "header_version \<lparr>header_version = head_header_version, feature_dim = 512, num_classes = 3,
     payload_len = 7\<rparr> \<le> head_header_version"
  using parse_header_gate [THEN conjunct1, rule_format, OF parse_serialize_header [of 512 3 7 "[]"]] by simp

end
