(* ===== verification/Versioned_Swap.thy ===== *)
theory Versioned_Swap
  imports Prelude
begin

text \<open>
  \<^verbatim>\<open>common/version.rs\<close>: the hot-swap cell behind the runtime head and the microphone settings.
  Writers are serialised by the cell's mutex, so one \<open>try_mutate\<close> is one atomic transition of the
  cell's state; readers see the published pair of value and version.  The locale \<open>hot_cell\<close> is the
  interface its clients use, with the facts they rely on: nothing is lost, nothing is
  renumbered, and a reader that waits for a receipt's version reads that write or a later one.
\<close>

record 'a versioned =
  vd_version :: nat
  vd_content :: 'a

record 'a versioned_swap =
  vs_inner :: "'a versioned"
  vs_counter :: nat

definition resource_version_next :: "nat \<Rightarrow> nat" where
  "resource_version_next v = saturating_add64 v 1"

definition vs_new :: "'a \<Rightarrow> 'a versioned_swap" where
  "vs_new initial = \<lparr>vs_inner = \<lparr>vd_version = 0, vd_content = initial\<rparr>, vs_counter = 0\<rparr>"

definition vs_snapshot :: "'a versioned_swap \<Rightarrow> 'a" where
  "vs_snapshot s = vd_content (vs_inner s)"

definition vs_version :: "'a versioned_swap \<Rightarrow> nat" where
  "vs_version s = vd_version (vs_inner s)"

definition vs_snapshot_with_version :: "'a versioned_swap \<Rightarrow> 'a \<times> nat" where
  "vs_snapshot_with_version s = (vd_content (vs_inner s), vd_version (vs_inner s))"

text \<open>
  \<open>fetch_add\<close> wraps; the stamped version is the prior count plus one.  On an error of the closure
  neither the counter nor the cell moves.
\<close>

definition vs_try_mutate ::
  "('a \<Rightarrow> ('e, 'a \<times> 'r) result) \<Rightarrow> 'a versioned_swap \<Rightarrow> ('e, nat \<times> 'r) result \<times> 'a versioned_swap"
where
  "vs_try_mutate f s =
     (case f (vd_content (vs_inner s)) of
        Inl e \<Rightarrow> (Err e, s)
      | Inr (new_content, ret) \<Rightarrow>
          let v = wrapping_add64 (vs_counter s) 1 in
          (Ok (v, ret),
           \<lparr>vs_inner = \<lparr>vd_version = v, vd_content = new_content\<rparr>, vs_counter = wrapping_add64 (vs_counter s) 1\<rparr>))"

text \<open>The counter and the published version never drift apart.\<close>

definition vs_wf :: "'a versioned_swap \<Rightarrow> bool" where
  "vs_wf s \<longleftrightarrow> vs_counter s = vd_version (vs_inner s)"

lemma vs_wf_new: "vs_wf (vs_new a)"
  by (simp add: vs_wf_def vs_new_def)

lemma vs_wf_mutate: "vs_wf s \<Longrightarrow> vs_wf (snd (vs_try_mutate f s))"
  by (auto simp: vs_wf_def vs_try_mutate_def Let_def split: sum.splits)

section \<open>The interface of a hot-swappable cell\<close>

text \<open>A sequence of writers, in the order the mutex admits them.\<close>

fun run_writers :: "('f \<Rightarrow> 's \<Rightarrow> 'x \<times> 's) \<Rightarrow> 'f list \<Rightarrow> 's \<Rightarrow> 's" where
  "run_writers mutate [] s = s"
| "run_writers mutate (f # fs) s = run_writers mutate fs (snd (mutate f s))"

text \<open>What the writers mean on the plain value: the failing ones do nothing.\<close>

fun apply_writers :: "('a \<Rightarrow> ('e, 'a \<times> 'r) result) list \<Rightarrow> 'a \<times> nat \<Rightarrow> 'a \<times> nat" where
  "apply_writers [] a = a"
| "apply_writers (f # fs) a =
     (case f (fst a) of Inl _ \<Rightarrow> apply_writers fs a | Inr (b, _) \<Rightarrow> apply_writers fs (b, Suc (snd a)))"

lemma apply_writers_version:
  "snd a \<le> snd (apply_writers fs a) \<and> snd (apply_writers fs a) \<le> snd a + length fs"
proof (induction fs arbitrary: a)
  case Nil
  show ?case by simp
next
  case (Cons f fs)
  show ?case
  proof (cases "f (fst a)")
    case (Inl e)
    with Cons [of a] show ?thesis by simp
  next
    case (Inr br)
    with Cons [of "(fst br, Suc (snd a))"] show ?thesis by (cases br) simp
  qed
qed

locale hot_cell =
  fixes peek :: "'s \<Rightarrow> 'a \<times> nat"
    and mutate :: "('a \<Rightarrow> ('e, 'a \<times> 'r) result) \<Rightarrow> 's \<Rightarrow> ('e, nat \<times> 'r) result \<times> 's"
    and wf :: "'s \<Rightarrow> bool"
  assumes mutate_err: "f (fst (peek s)) = Inl e \<Longrightarrow> mutate f s = (Inl e, s)"
    and mutate_ok: "wf s \<Longrightarrow> snd (peek s) < u64_max \<Longrightarrow> f (fst (peek s)) = Inr (b, r) \<Longrightarrow>
          fst (mutate f s) = Inr (Suc (snd (peek s)), r) \<and>
          peek (snd (mutate f s)) = (b, Suc (snd (peek s))) \<and> wf (snd (mutate f s))"
begin

lemma run_refines:
  "wf s \<Longrightarrow> snd (peek s) + length fs \<le> u64_max \<Longrightarrow>
     peek (run_writers mutate fs s) = apply_writers fs (peek s) \<and> wf (run_writers mutate fs s)"
proof (induction fs arbitrary: s)
  case Nil
  then show ?case by simp
next
  case (Cons f fs)
  show ?case
  proof (cases "f (fst (peek s))")
    case (Inl e)
    then have "mutate f s = (Inl e, s)" by (rule mutate_err)
    with Cons Inl show ?thesis by simp
  next
    case (Inr br)
    obtain b r where br: "br = (b, r)" by (cases br)
    have "peek (snd (mutate f s)) = (b, Suc (snd (peek s)))" and "wf (snd (mutate f s))"
      using mutate_ok [of s f b r] Cons.prems Inr br by auto
    moreover from this have "snd (peek (snd (mutate f s))) + length fs \<le> u64_max"
      using Cons.prems by simp
    ultimately show ?thesis using Cons.IH [of "snd (mutate f s)"] Inr br by simp
  qed
qed

lemma read_your_write:
  assumes "wf s" and "snd (peek s) + Suc (length fs) \<le> u64_max" and "fst (mutate f s) = Inr (v, r)"
  shows "v \<le> snd (peek (run_writers mutate fs (snd (mutate f s))))"
proof (cases "f (fst (peek s))")
  case (Inl e)
  then show ?thesis using mutate_err [of f s e] assms(3) by simp
next
  case (Inr br)
  obtain b q where br: "br = (b, q)" by (cases br)
  have m: "v = Suc (snd (peek s))" "peek (snd (mutate f s)) = (b, Suc (snd (peek s)))" "wf (snd (mutate f s))"
    using mutate_ok [of s f b q] assms Inr br by auto
  then have "peek (run_writers mutate fs (snd (mutate f s))) = apply_writers fs (b, Suc (snd (peek s)))"
    using run_refines [of "snd (mutate f s)" fs] assms(2) by simp
  then show ?thesis using apply_writers_version [of "(b, Suc (snd (peek s)))" fs] m by simp
qed

end

interpretation versioned_cell: hot_cell vs_snapshot_with_version vs_try_mutate vs_wf
proof unfold_locales
  fix f :: "'a \<Rightarrow> ('b, 'a \<times> 'c) result" and s e
  assume "f (fst (vs_snapshot_with_version s)) = Inl e"
  then show "vs_try_mutate f s = (Inl e, s)"
    by (simp add: vs_snapshot_with_version_def vs_try_mutate_def)
next
  fix s :: "'a versioned_swap" and f :: "'a \<Rightarrow> ('b, 'a \<times> 'c) result" and b r
  assume wf: "vs_wf s" and v: "snd (vs_snapshot_with_version s) < u64_max"
    and f: "f (fst (vs_snapshot_with_version s)) = Inr (b, r)"
  have "wrapping_add64 (vs_counter s) 1 = Suc (vs_counter s)"
    using wf v by (simp add: wrapping_add64_exact vs_wf_def vs_snapshot_with_version_def)
  then show "fst (vs_try_mutate f s) = Inr (Suc (snd (vs_snapshot_with_version s)), r) \<and>
      vs_snapshot_with_version (snd (vs_try_mutate f s)) = (b, Suc (snd (vs_snapshot_with_version s))) \<and>
      vs_wf (snd (vs_try_mutate f s))"
    using wf f by (simp add: vs_try_mutate_def vs_snapshot_with_version_def vs_wf_def Let_def)
qed

section \<open>Properties\<close>

text \<open>
  The hot-swap cell refines a plain value with a counter: any sequence of writers, failing ones
  included, from a new cell leaves the value the successful writers compute in order and a
  version equal to their number.
\<close>

lemma versioned_swap_refines:
  assumes "length fs \<le> u64_max"
  shows "vs_snapshot_with_version (run_writers vs_try_mutate fs (vs_new a)) = apply_writers fs (a, 0)"
proof -
  have "vs_snapshot_with_version (vs_new a) = (a, 0)"
    by (simp add: vs_snapshot_with_version_def vs_new_def)
  then show ?thesis using versioned_cell.run_refines [OF vs_wf_new, of a fs] assms by simp
qed

text \<open>
  Read your write: after a successful \<open>try_mutate\<close> returned version \<open>v\<close>, every later reader sees
  version \<open>v\<close> or a later one, whatever writers ran in between, up to the exhaustion of the 64-bit
  counter.
\<close>

theorem versioned_read_your_write:
  fixes f :: "'a \<Rightarrow> ('e, 'a \<times> 'r) result" and fs :: "('a \<Rightarrow> ('e, 'a \<times> 'r) result) list"
  assumes "vs_wf s" and "vs_version s + Suc (length fs) \<le> u64_max"
    and "fst (vs_try_mutate f s) = Ok (v, r)"
  shows "v \<le> vs_version (run_writers vs_try_mutate fs (snd (vs_try_mutate f s)))"
  using versioned_cell.read_your_write [where s = s and fs = fs and f = f and v = v and r = r] assms
  by (simp add: vs_snapshot_with_version_def vs_version_def)

definition demo_bump :: "nat \<Rightarrow> (string, nat \<times> unit) result" where
  "demo_bump n = Ok (Suc n, ())"

definition demo_refuse :: "nat \<Rightarrow> (string, nat \<times> unit) result" where
  "demo_refuse n = Err ''busy''"

theorem versioned_read_your_write_witness:
  "1 \<le> vs_version (run_writers vs_try_mutate [demo_refuse] (snd (vs_try_mutate demo_bump (vs_new 0))))"
  using versioned_read_your_write [of "vs_new 0" "[demo_refuse]" demo_bump 1 "()"]
  by (simp add: vs_wf_new) (simp add: vs_version_def vs_new_def vs_try_mutate_def wrapping_add64_def demo_bump_def)

end
