(* ===== verification/Clock.thy ===== *)
theory Clock
  imports Prelude
begin

text \<open>
  \<^verbatim>\<open>common/time.rs\<close>: the monotonic capture clock, the anchor the audio producer publishes after
  each push, and the projection of a sample position to its capture time.  Positions and
  microseconds are \<open>u64\<close>; the projection is computed in \<open>i128\<close>, whose arithmetic is shown not to
  overflow, and truncates towards zero as Rust's division does.
\<close>

definition capture_since :: "nat \<Rightarrow> nat \<Rightarrow> nat option" where
  "capture_since self other = (if self < other then None else Some (self - other))"

record timing_anchor =
  ta_head_pos :: nat
  ta_captured_at :: nat
  ta_sample_rate_hz :: nat

definition boot_placeholder :: timing_anchor where
  "boot_placeholder = \<lparr>ta_head_pos = 0, ta_captured_at = 0, ta_sample_rate_hz = 44100\<rparr>"

definition anchor_in_range :: "timing_anchor \<Rightarrow> bool" where
  "anchor_in_range a \<longleftrightarrow>
     ta_head_pos a < 2 ^ 64 \<and> ta_captured_at a < 2 ^ 64 \<and> ta_sample_rate_hz a < 2 ^ 32"

text \<open>The signed offset in microseconds and the projected time before the final clamp.\<close>

definition delta_us :: "timing_anchor \<Rightarrow> nat \<Rightarrow> int" where
  "delta_us a read_pos =
     rust_div ((int read_pos - int (ta_head_pos a)) * 1000000) (int (ta_sample_rate_hz a))"

definition projected_us :: "timing_anchor \<Rightarrow> nat \<Rightarrow> int" where
  "projected_us a read_pos = int (ta_captured_at a) + delta_us a read_pos"

text \<open>\<open>projected.max(0) as u64\<close> keeps the low 64 bits.\<close>

definition capture_us_for :: "timing_anchor \<Rightarrow> nat \<Rightarrow> nat" where
  "capture_us_for a read_pos =
     (if ta_sample_rate_hz a = 0 then ta_captured_at a
      else nat (max (projected_us a read_pos) 0) mod 2 ^ 64)"

lemma delta_us_mono:
  assumes "0 < ta_sample_rate_hz a" and "p \<le> q"
  shows "delta_us a p \<le> delta_us a q"
  unfolding delta_us_def by (rule rust_div_mono) (use assms in auto)

lemma delta_us_at_head: "delta_us a (ta_head_pos a) = 0"
  by (simp add: delta_us_def rust_div_def)

lemma abs_rust_div_le: "\<bar>rust_div a b\<bar> \<le> \<bar>a\<bar>"
proof -
  have "\<bar>rust_div a b\<bar> \<le> \<bar>\<bar>a\<bar> div \<bar>b\<bar>\<bar>"
    by (simp add: rust_div_def Let_def)
  also have "\<dots> \<le> \<bar>a\<bar>"
  proof (cases "b = 0")
    case False
    let ?q = "\<bar>a\<bar> div \<bar>b\<bar>"
    have q: "0 \<le> ?q" using False by (simp add: pos_imp_zdiv_nonneg_iff)
    then have "?q * 1 \<le> ?q * \<bar>b\<bar>" using False by (intro mult_left_mono) simp_all
    also have "\<dots> \<le> \<bar>a\<bar>"
      using div_mult_mod_eq [of "\<bar>a\<bar>" "\<bar>b\<bar>"] pos_mod_sign [of "\<bar>b\<bar>" "\<bar>a\<bar>"] False by linarith
    finally show ?thesis using q by simp
  qed simp
  finally show ?thesis .
qed

text \<open>Every intermediate of the projection fits a signed 128-bit integer.\<close>

lemma projection_fits_i128:
  assumes "anchor_in_range a" and "read_pos < 2 ^ 64"
  shows "\<bar>(int read_pos - int (ta_head_pos a)) * 1000000\<bar> < 2 ^ 127 \<and> \<bar>projected_us a read_pos\<bar> < 2 ^ 127"
proof -
  have "int read_pos < 2 ^ 64" using assms(2) by (metis of_nat_less_numeral_power_cancel_iff of_nat_numeral)
  moreover have "int (ta_head_pos a) < 2 ^ 64" and at: "int (ta_captured_at a) < 2 ^ 64"
    using assms(1) by (auto simp: anchor_in_range_def)
  ultimately have prod: "\<bar>(int read_pos - int (ta_head_pos a)) * 1000000\<bar> < 2 ^ 84"
    by (simp add: abs_mult)
  then have "\<bar>delta_us a read_pos\<bar> < 2 ^ 84"
    unfolding delta_us_def using abs_rust_div_le by (rule order.strict_trans1 [rotated])
  then have "\<bar>projected_us a read_pos\<bar> < 2 ^ 127"
    using at by (simp add: projected_us_def)
  with prod show ?thesis by simp
qed

section \<open>Properties\<close>

text \<open>
  The projection of sample positions to capture times is exact at the anchor's head and never
  decreases along the stream, as long as the projected time fits 64 bits; every intermediate value
  stays within \<open>i128\<close>.
\<close>

lemma capture_projection:
  assumes "anchor_in_range a" and "p \<le> q" and "q < 2 ^ 64" and "projected_us a q < 2 ^ 64"
  shows "capture_us_for a (ta_head_pos a) = ta_captured_at a \<and>
         capture_us_for a p \<le> capture_us_for a q \<and>
         \<bar>(int q - int (ta_head_pos a)) * 1000000\<bar> < 2 ^ 127 \<and> \<bar>projected_us a q\<bar> < 2 ^ 127"
proof (intro conjI)
  show "capture_us_for a (ta_head_pos a) = ta_captured_at a"
    using assms(1) by (simp add: capture_us_for_def projected_us_def delta_us_at_head anchor_in_range_def)
  show "capture_us_for a p \<le> capture_us_for a q"
  proof (cases "ta_sample_rate_hz a = 0")
    case False
    have le: "projected_us a p \<le> projected_us a q"
      using delta_us_mono [of a p q] False assms(2) by (simp add: projected_us_def)
    have small: "nat (max (projected_us a x) 0) < 2 ^ 64" if "projected_us a x < 2 ^ 64" for x
      using that by (simp add: nat_less_iff)
    have "nat (max (projected_us a p) 0) \<le> nat (max (projected_us a q) 0)" using le by simp
    then show ?thesis using small [of p] small [of q] le assms(4) False by (simp add: capture_us_for_def)
  qed (simp add: capture_us_for_def)
qed (use projection_fits_i128 [OF assms(1,3)] in auto)

end
