(* ===== verification/Framing.thy ===== *)
theory Framing
  imports Errors
begin

text \<open>
  The length-prefixed wire framing: the checked encoder and the envelope helpers of
  \<^verbatim>\<open>proto/framing.rs\<close> and the reader of \<^verbatim>\<open>stream_io/framing.rs\<close>.  The protobuf codec is
  third-party code and appears as parameters.  The locale \<open>frame_codec\<close> states what a stream of
  frames needs from one encoder and one reader; its lemma gives the behaviour of a receive loop
  on the concatenation of any frames.
\<close>

definition max_uds_frame_bytes :: u32 where
  "max_uds_frame_bytes = 65536"

datatype framing_encode_error = PayloadTooLarge nat u32

definition framing_encode_error_kind :: "framing_encode_error \<Rightarrow> error_kind" where
  "framing_encode_error_kind e = Internal"

definition try_encode_length_prefixed :: "bytes \<Rightarrow> (framing_encode_error, bytes) result" where
  "try_encode_length_prefixed payload =
     (if length payload > unat max_uds_frame_bytes
      then Err (PayloadTooLarge (length payload) max_uds_frame_bytes)
      else Ok (u32_to_le_bytes (word_of_nat (length payload)) @ payload))"

section \<open>The reader\<close>

text \<open>
  A connection seen from the receiving side: the bytes that will still arrive and how the
  stream then ends.  \<open>read_exact\<close> either gets all the bytes it asks for or fails with that end.
\<close>

datatype io_error_kind = UnexpectedEof | OtherIo nat

record reader =
  rd_pending :: bytes
  rd_ends_with :: io_error_kind

definition read_exact :: "nat \<Rightarrow> reader \<Rightarrow> (io_error_kind, bytes) result \<times> reader" where
  "read_exact n r =
     (if n \<le> length (rd_pending r)
      then (Ok (take n (rd_pending r)), r\<lparr>rd_pending := drop n (rd_pending r)\<rparr>)
      else (Err (rd_ends_with r), r\<lparr>rd_pending := []\<rparr>))"

datatype framing_error =
    OversizedPrefix u32 u32
  | Truncated u32
  | FrameIo io_error_kind

definition decode_length_prefixed :: "reader \<Rightarrow> (framing_error, bytes) result \<times> reader" where
  "decode_length_prefixed r =
     (case read_exact 4 r of
        (Inl e, r1) \<Rightarrow> (Err (FrameIo e), r1)
      | (Inr len_buf, r1) \<Rightarrow>
          let len = u32_from_le_bytes len_buf in
          if len > max_uds_frame_bytes then (Err (OversizedPrefix len max_uds_frame_bytes), r1)
          else (case read_exact (unat len) r1 of
              (Inr payload, r2) \<Rightarrow> (Ok payload, r2)
            | (Inl UnexpectedEof, r2) \<Rightarrow> (Err (Truncated len), r2)
            | (Inl e, r2) \<Rightarrow> (Err (FrameIo e), r2)))"

text \<open>The receive loop the protocol prescribes: read frames until the first framing error.\<close>

fun recv_frames :: "('r \<Rightarrow> ('e, 'p) result \<times> 'r) \<Rightarrow> nat \<Rightarrow> 'r \<Rightarrow> 'p list \<times> 'e option" where
  "recv_frames dec 0 r = ([], None)"
| "recv_frames dec (Suc fuel) r =
     (case dec r of
        (Inl e, _) \<Rightarrow> ([], Some e)
      | (Inr p, r') \<Rightarrow> (case recv_frames dec fuel r' of (ps, e) \<Rightarrow> (p # ps, e)))"

section \<open>Envelopes\<close>

datatype ('a, 'i) payload = PAudio 'a | PInference 'i

record ('a, 'i) envelope =
  env_payload :: "('a, 'i) payload option"

definition wrap_audio :: "(('a, 'i) envelope \<Rightarrow> bytes) \<Rightarrow> 'a \<Rightarrow> bytes" where
  "wrap_audio encode frame = encode \<lparr>env_payload = Some (PAudio frame)\<rparr>"

definition wrap_inference :: "(('a, 'i) envelope \<Rightarrow> bytes) \<Rightarrow> 'i \<Rightarrow> bytes" where
  "wrap_inference encode frame = encode \<lparr>env_payload = Some (PInference frame)\<rparr>"

text \<open>
  The allocation-reusing variants: clear the scratch buffer, append the encoding, split the
  buffer's content off.  The result is the bytes and the buffer that is left.
\<close>

definition wrap_audio_into :: "(('a, 'i) envelope \<Rightarrow> bytes) \<Rightarrow> bytes \<Rightarrow> 'a \<Rightarrow> bytes \<times> bytes" where
  "wrap_audio_into encode buf frame =
     (let cleared = take 0 buf;
          filled = cleared @ encode \<lparr>env_payload = Some (PAudio frame)\<rparr>
      in (filled, drop (length filled) filled))"

definition wrap_inference_into :: "(('a, 'i) envelope \<Rightarrow> bytes) \<Rightarrow> bytes \<Rightarrow> 'i \<Rightarrow> bytes \<times> bytes" where
  "wrap_inference_into encode buf frame =
     (let cleared = take 0 buf;
          filled = cleared @ encode \<lparr>env_payload = Some (PInference frame)\<rparr>
      in (filled, drop (length filled) filled))"

datatype 'd proto_decode_error = Decode 'd | MissingPayload

definition proto_decode_error_kind :: "'d proto_decode_error \<Rightarrow> error_kind" where
  "proto_decode_error_kind e = UserInput"

definition decode_envelope ::
  "(bytes \<Rightarrow> ('d, ('a, 'i) envelope) result) \<Rightarrow> bytes \<Rightarrow> ('d proto_decode_error, ('a, 'i) envelope) result"
where
  "decode_envelope decode bs =
     (case decode bs of
        Inl d \<Rightarrow> Err (Decode d)
      | Inr env \<Rightarrow> (if env_payload env = None then Err MissingPayload else Ok env))"

section \<open>A codec for a stream of frames\<close>

locale frame_codec =
  fixes enc :: "'p \<Rightarrow> bytes option"
    and dec :: "'r \<Rightarrow> ('e, 'p) result \<times> 'r"
    and feed :: "bytes \<Rightarrow> 'r \<Rightarrow> 'r"
  assumes feed_append: "feed (xs @ ys) r = feed xs (feed ys r)"
    and feed_Nil: "feed [] r = r"
    and dec_enc: "enc p = Some bs \<Longrightarrow> dec (feed bs r) = (Inr p, r)"
begin

lemma recv_all:
  assumes "list_all2 (\<lambda>p bs. enc p = Some bs) ps bss" and "dec r = (Inl e, r')"
  shows "recv_frames dec (Suc (length ps)) (feed (concat bss) r) = (ps, Some e)"
  using assms(1)
proof (induction ps bss rule: list_all2_induct)
  case Nil
  then show ?case using assms(2) by (simp add: feed_Nil)
next
  case (Cons p ps bs bss)
  have "dec (feed (concat (bs # bss)) r) = (Inr p, feed (concat bss) r)"
    using Cons.hyps(1) by (simp add: feed_append dec_enc)
  then show ?case using Cons.IH by simp
qed

end

definition encode_frame :: "bytes \<Rightarrow> bytes option" where
  "encode_frame p = (case try_encode_length_prefixed p of Inl _ \<Rightarrow> None | Inr bs \<Rightarrow> Some bs)"

definition feed_reader :: "bytes \<Rightarrow> reader \<Rightarrow> reader" where
  "feed_reader bs r = r\<lparr>rd_pending := bs @ rd_pending r\<rparr>"

lemma encode_fits:
  assumes "try_encode_length_prefixed p = Inr bs"
  shows "length p \<le> 65536 \<and> bs = u32_to_le_bytes (word_of_nat (length p)) @ p"
  using assms by (auto simp: try_encode_length_prefixed_def max_uds_frame_bytes_def split: if_splits)

lemma len_word: "n \<le> 65536 \<Longrightarrow> unat (word_of_nat n :: u32) = n"
  by (simp add: unat_of_nat take_bit_eq_mod)

lemma len_word_cap: "n \<le> 65536 \<Longrightarrow> (word_of_nat n :: u32) \<le> max_uds_frame_bytes"
  by (simp add: word_le_nat_alt len_word max_uds_frame_bytes_def)

lemma decode_encode:
  assumes "try_encode_length_prefixed p = Inr bs"
  shows "decode_length_prefixed (feed_reader bs r) = (Inr p, r)"
proof -
  from encode_fits [OF assms] have p: "length p \<le> 65536"
    and bs: "bs = u32_to_le_bytes (word_of_nat (length p)) @ p" by simp_all
  have "\<not> (word_of_nat (length p) :: u32) > max_uds_frame_bytes"
    using len_word_cap [OF p] by simp
  then show ?thesis
    using p by (simp add: decode_length_prefixed_def read_exact_def feed_reader_def bs len_word Let_def)
qed

interpretation uds_codec: frame_codec encode_frame decode_length_prefixed feed_reader
  by unfold_locales (auto simp: encode_frame_def decode_encode split: sum.splits, simp_all add: feed_reader_def)

lemma decode_never_oversized:
  "decode_length_prefixed r = (Inr p, r') \<Longrightarrow> length p \<le> 65536"
proof -
  assume "decode_length_prefixed r = (Inr p, r')"
  then obtain len :: u32 where "length p = unat len" and "len \<le> max_uds_frame_bytes"
    by (auto simp: decode_length_prefixed_def read_exact_def Let_def not_less
        split: if_splits io_error_kind.splits)
  then show ?thesis by (simp add: word_le_nat_alt max_uds_frame_bytes_def)
qed

section \<open>A stream that is cut\<close>

text \<open>A frame of which only the first bytes arrived is not delivered.\<close>

lemma decode_cut_frame:
  assumes "try_encode_length_prefixed p = Inr bs" and "k < length bs"
  shows "\<exists>e r'. decode_length_prefixed \<lparr>rd_pending = take k bs, rd_ends_with = x\<rparr> = (Inl e, r')"
proof -
  from encode_fits [OF assms(1)] have p: "length p \<le> 65536"
    and bs: "bs = u32_to_le_bytes (word_of_nat (length p)) @ p" by simp_all
  show ?thesis
  proof (cases "k < 4")
    case True
    then show ?thesis by (simp add: decode_length_prefixed_def read_exact_def bs)
  next
    case False
    then have "take k bs = u32_to_le_bytes (word_of_nat (length p)) @ take (k - 4) p"
      by (simp add: bs)
    moreover have "k - 4 < length p" using assms(2) False by (simp add: bs)
    ultimately show ?thesis
      using p by (cases x) (simp_all add: decode_length_prefixed_def read_exact_def len_word Let_def)
  qed
qed

lemma cut_stream_messages:
  "list_all2 (\<lambda>p bs. try_encode_length_prefixed p = Inr bs) ps bss \<Longrightarrow>
   recv_frames decode_length_prefixed fuel \<lparr>rd_pending = take k (concat bss), rd_ends_with = x\<rparr> = (qs, e) \<Longrightarrow>
     \<exists>rest. ps = qs @ rest"
proof (induction ps arbitrary: bss fuel k qs)
  case Nil
  then have "bss = []" by simp
  with Nil.prems(2) show ?case
    by (cases fuel) (auto simp: decode_length_prefixed_def read_exact_def)
next
  case (Cons p ps)
  then obtain bs bss' where bss: "bss = bs # bss'" "try_encode_length_prefixed p = Inr bs"
      "list_all2 (\<lambda>p bs. try_encode_length_prefixed p = Inr bs) ps bss'"
    by (auto simp: list_all2_Cons1)
  show ?case
  proof (cases fuel)
    case 0
    then show ?thesis using Cons.prems(2) by simp
  next
    case (Suc n)
    show ?thesis
    proof (cases "k < length bs")
      case True
      then obtain e' r' where "decode_length_prefixed \<lparr>rd_pending = take k bs, rd_ends_with = x\<rparr> = (Inl e', r')"
        using decode_cut_frame [OF bss(2)] by blast
      then show ?thesis using Cons.prems(2) Suc True bss(1) by auto
    next
      case False
      let ?rest = "\<lparr>rd_pending = take (k - length bs) (concat bss'), rd_ends_with = x\<rparr>"
      have "decode_length_prefixed \<lparr>rd_pending = take k (concat bss), rd_ends_with = x\<rparr> = (Inr p, ?rest)"
        using decode_encode [OF bss(2), of ?rest] False by (simp add: bss(1) feed_reader_def)
      then obtain qs' where "recv_frames decode_length_prefixed n ?rest = (qs', e)" "qs = p # qs'"
        using Cons.prems(2) Suc by (auto split: prod.splits)
      then show ?thesis using Cons.IH [OF bss(3)] by auto
    qed
  qed
qed

section \<open>Properties\<close>

text \<open>
  C31.  Stream round trip: whatever payloads the encoder accepted, a receiver reading the
  concatenated frames gets exactly those payloads in order and then the clean end of stream, in
  one decoder call per frame and one for the end.
\<close>

theorem stream_roundtrip:
  assumes "list_all2 (\<lambda>p bs. try_encode_length_prefixed p = Ok bs) ps bss"
  shows "recv_frames decode_length_prefixed (Suc (length ps))
           \<lparr>rd_pending = concat bss, rd_ends_with = UnexpectedEof\<rparr> =
         (ps, Some (FrameIo UnexpectedEof))"
proof -
  let ?r = "\<lparr>rd_pending = [], rd_ends_with = UnexpectedEof\<rparr>"
  have "list_all2 (\<lambda>p bs. encode_frame p = Some bs) ps bss"
    using assms by (rule list_all2_mono) (simp add: encode_frame_def)
  moreover have "decode_length_prefixed ?r = (Inl (FrameIo UnexpectedEof), ?r)"
    by (simp add: decode_length_prefixed_def read_exact_def)
  ultimately show ?thesis using uds_codec.recv_all by (fastforce simp: feed_reader_def)
qed

lemma demo_frames:
  "list_all2 (\<lambda>p bs. try_encode_length_prefixed p = Ok bs) [[9], [7, 8]]
     [[1, 0, 0, 0, 9], [2, 0, 0, 0, 7, 8]]"
  by (simp add: try_encode_length_prefixed_def max_uds_frame_bytes_def u32_to_le_bytes_def)

theorem stream_roundtrip_witness:
  "recv_frames decode_length_prefixed (Suc (length [[9], [7, 8 :: u8]]))
     \<lparr>rd_pending = concat [[1, 0, 0, 0, 9], [2, 0, 0, 0, 7, 8]], rd_ends_with = UnexpectedEof\<rparr> =
   ([[9], [7, 8]], Some (FrameIo UnexpectedEof))"
  by (rule stream_roundtrip [OF demo_frames])

text \<open>
  A stream cut at any byte delivers only whole messages that were sent: the payloads a receiver
  gets from any prefix of the concatenated frames, however the connection ends, are a prefix of
  the payloads sent.
\<close>

lemma cut_stream_is_prefix:
  assumes "list_all2 (\<lambda>p bs. try_encode_length_prefixed p = Ok bs) ps bss"
  shows "\<exists>rest. ps = fst (recv_frames decode_length_prefixed fuel
           \<lparr>rd_pending = take k (concat bss), rd_ends_with = x\<rparr>) @ rest"
  using cut_stream_messages [OF assms] by (metis prod.collapse)

text \<open>
  The reader bounds what a peer can make it hold: a delivered payload never exceeds 64 KiB, and
  a prefix that announces more is refused before any payload byte is consumed.
\<close>

theorem decoder_bounds_memory:
  "(\<forall>p r'. decode_length_prefixed r = (Ok p, r') \<longrightarrow> length p \<le> 65536) \<and>
   (4 \<le> length (rd_pending r) \<and> max_uds_frame_bytes < u32_from_le_bytes (take 4 (rd_pending r)) \<longrightarrow>
      decode_length_prefixed r =
        (Err (OversizedPrefix (u32_from_le_bytes (take 4 (rd_pending r))) max_uds_frame_bytes),
         r\<lparr>rd_pending := drop 4 (rd_pending r)\<rparr>))"
  using decode_never_oversized by (auto simp: decode_length_prefixed_def read_exact_def)

theorem decoder_bounds_memory_witness:
  "decode_length_prefixed \<lparr>rd_pending = [1, 0, 1, 0, 9], rd_ends_with = UnexpectedEof\<rparr> =
     (Err (OversizedPrefix 65537 max_uds_frame_bytes), \<lparr>rd_pending = [9], rd_ends_with = UnexpectedEof\<rparr>)"
  using decoder_bounds_memory [of "\<lparr>rd_pending = [1, 0, 1, 0, 9], rd_ends_with = UnexpectedEof\<rparr>"]
  by (simp add: u32_from_le_bytes_def max_uds_frame_bytes_def push_bit_eq_mult)

text \<open>
  The envelope round trip: with a protobuf codec that decodes what it encoded, an audio or
  inference frame wrapped by either variant decodes to that frame, the buffer-reusing variant
  gives the same bytes and leaves an empty buffer whatever it held before, and an envelope
  without payload is refused.
\<close>

lemma envelope_roundtrip:
  assumes codec: "\<And>env. decode (encode env) = Ok env"
  shows "wrap_audio_into encode buf a = (wrap_audio encode a, []) \<and>
         wrap_inference_into encode buf i = (wrap_inference encode i, []) \<and>
         decode_envelope decode (wrap_audio encode a) = Ok \<lparr>env_payload = Some (PAudio a)\<rparr> \<and>
         decode_envelope decode (wrap_inference encode i) = Ok \<lparr>env_payload = Some (PInference i)\<rparr> \<and>
         decode_envelope decode (encode \<lparr>env_payload = None\<rparr>) = Err MissingPayload"
  using codec
  by (simp add: wrap_audio_into_def wrap_audio_def wrap_inference_into_def wrap_inference_def
      decode_envelope_def)

definition demo_encode :: "(u8, u8) envelope \<Rightarrow> bytes" where
  "demo_encode env = (case env_payload env of None \<Rightarrow> [] | Some (PAudio a) \<Rightarrow> [0, a] | Some (PInference i) \<Rightarrow> [1, i])"

definition demo_decode :: "bytes \<Rightarrow> (unit, (u8, u8) envelope) result" where
  "demo_decode bs = (case bs of [] \<Rightarrow> Ok \<lparr>env_payload = None\<rparr>
     | [t, b] \<Rightarrow> Ok \<lparr>env_payload = Some (if t = 0 then PAudio b else PInference b)\<rparr> | _ \<Rightarrow> Err ())"

lemma demo_codec: "demo_decode (demo_encode env) = Ok env"
  by (cases env) (auto simp: demo_decode_def demo_encode_def split: option.splits payload.splits)

end
