(* ===== verification/Log_Truncate.thy ===== *)
theory Log_Truncate
  imports Prelude
begin

text \<open>
  \<^verbatim>\<open>common/log_truncate.rs\<close>: the per-line cap of the JSONL writers, cut at a character boundary.
\<close>

definition max_log_line_bytes :: nat where
  "max_log_line_bytes = 8192"

definition truncate_marker :: string where
  "truncate_marker = ''...[truncated]''"

definition truncate_log_message :: "string \<Rightarrow> string" where
  "truncate_log_message m =
     (if length m \<le> max_log_line_bytes then m
      else take (snap_down m max_log_line_bytes) m @ truncate_marker)"

lemma utf8_truncate_marker: "utf8 truncate_marker"
  by (rule utf8_ascii) (simp add: truncate_marker_def)

lemma truncate_long:
  "max_log_line_bytes < length m \<Longrightarrow>
     truncate_log_message m = take (snap_down m max_log_line_bytes) m @ truncate_marker"
  by (simp add: truncate_log_message_def)

lemma truncate_utf8:
  assumes "utf8 m"
  shows "utf8 (truncate_log_message m)"
proof (cases "length m \<le> max_log_line_bytes")
  case True
  with assms show ?thesis by (simp add: truncate_log_message_def)
next
  case False
  then have "utf8 (take (snap_down m max_log_line_bytes) m)"
    using assms by (intro utf8_take_snap_down) simp_all
  with False show ?thesis by (simp add: truncate_long utf8_append utf8_truncate_marker)
qed

section \<open>Properties\<close>

text \<open>
  A truncated log line is valid UTF-8 whenever the message was, is never longer than the cap
  plus the marker, keeps the message's own bytes as its prefix, and gives up at most three bytes
  to the character boundary; a message within the cap is unchanged.
\<close>

theorem truncated_line_is_valid:
  assumes "utf8 m"
  shows "utf8 (truncate_log_message m) \<and>
         length (truncate_log_message m) \<le> max_log_line_bytes + length truncate_marker \<and>
         (if length m \<le> max_log_line_bytes then truncate_log_message m = m
          else \<exists>k. truncate_log_message m = take k m @ truncate_marker \<and>
                   k \<le> max_log_line_bytes \<and> max_log_line_bytes \<le> k + 3)"
proof -
  have near: "max_log_line_bytes \<le> snap_down m max_log_line_bytes + 3"
    if "max_log_line_bytes < length m" using snap_down_near [OF assms, of max_log_line_bytes] that by simp
  have cut: "snap_down m max_log_line_bytes \<le> max_log_line_bytes" by simp
  show ?thesis
  proof (cases "length m \<le> max_log_line_bytes")
    case True
    then show ?thesis using assms by (simp add: truncate_log_message_def)
  next
    case False
    then show ?thesis using near cut truncate_utf8 [OF assms] by (auto simp: truncate_long min.coboundedI2)
  qed
qed

theorem truncated_line_is_valid_witness: "utf8 (truncate_log_message ''ok'')"
  by (rule truncated_line_is_valid [THEN conjunct1], rule utf8_ascii) simp

end
