(* ===== verification/Disk.thy ===== *)
theory Disk
  imports Errors "HOL-Library.Sublist"
begin

text \<open>
  The file system the file manager works on, as far as the sources use \<^verbatim>\<open>std::fs\<close>: a tree of files
  and directories, the calls on it, and programs that run them one after the other and return on
  the first error.  Three things make the model a model of failures and crashes rather than of the
  good case only:

    \<^item> every call consults an arbitrary fault oracle (indexed by the number of calls made so far) and
      may fail with any error; a call that works in several steps (writing bytes, removing a tree)
      may fail after any of them;
    \<^item> the trace records every state the tree passes through, so a statement about all of them is a
      statement about a process that is killed at any point, and about any concurrent reader;
    \<^item> names of temporary files come from an arbitrary source of randomness.

  \<open>sync_all\<close> and directory syncs change nothing in the tree and may fail; the reordering of
  unsynced writes by a power loss is not modelled.  Symbolic links and permissions are not
  modelled either.
\<close>

type_synonym path = "string list"

datatype node = FileNode bytes | DirNode

type_synonym fs = "(path \<times> node) list"

datatype io_error =
    IoNotFound
  | IoAlreadyExists
  | IoInvalidInput
  | IoInvalidData
  | IoNotADirectory
  | IoIsADirectory
  | IoDirectoryNotEmpty
  | IoOther nat

definition node_at :: "fs \<Rightarrow> path \<Rightarrow> node option" where
  "node_at t p = map_of t p"

definition is_file_at :: "fs \<Rightarrow> path \<Rightarrow> bool" where
  "is_file_at t p \<longleftrightarrow> (case node_at t p of Some (FileNode _) \<Rightarrow> True | _ \<Rightarrow> False)"

lemma is_file_at_iff: "is_file_at t p \<longleftrightarrow> (\<exists>b. node_at t p = Some (FileNode b))"
  by (auto simp: is_file_at_def split: option.splits node.splits)

definition is_dir_at :: "fs \<Rightarrow> path \<Rightarrow> bool" where
  "is_dir_at t p \<longleftrightarrow> node_at t p = Some DirNode"

definition has_below :: "fs \<Rightarrow> path \<Rightarrow> bool" where
  "has_below t p \<longleftrightarrow> list_ex (\<lambda>(q, _). strict_prefix p q) t"

section \<open>The calls\<close>

text \<open>
  A call either fails, or gives its value and the states the tree passes through, the last one
  being the result.
\<close>

type_synonym 'a fs_op = "fs \<Rightarrow> (io_error, 'a \<times> fs list) result"

definition fs_read :: "path \<Rightarrow> bytes fs_op" where
  "fs_read p t =
     (case node_at t p of
        None \<Rightarrow> Err IoNotFound
      | Some DirNode \<Rightarrow> Err IoIsADirectory
      | Some (FileNode b) \<Rightarrow> Ok (b, []))"

definition fs_exists :: "path \<Rightarrow> bool fs_op" where
  "fs_exists p t = Ok (node_at t p \<noteq> None, [])"

definition fs_is_file :: "path \<Rightarrow> bool fs_op" where
  "fs_is_file p t = Ok (is_file_at t p, [])"

definition fs_is_dir :: "path \<Rightarrow> bool fs_op" where
  "fs_is_dir p t = Ok (node_at t p = Some DirNode, [])"

definition fs_stat :: "path \<Rightarrow> node fs_op" where
  "fs_stat p t = (case node_at t p of None \<Rightarrow> Err IoNotFound | Some n \<Rightarrow> Ok (n, []))"

text \<open>The entries of a directory: name and whether it is a directory, each once.\<close>

definition fs_read_dir :: "path \<Rightarrow> (string \<times> bool) list fs_op" where
  "fs_read_dir p t =
     (case node_at t p of
        None \<Rightarrow> Err IoNotFound
      | Some (FileNode _) \<Rightarrow> Err IoNotADirectory
      | Some DirNode \<Rightarrow>
          Ok (map (\<lambda>q. (last q, is_dir_at t q))
                (filter (\<lambda>q. q \<noteq> [] \<and> butlast q = p) (remdups (map fst t))), []))"

definition fs_create_new :: "path \<Rightarrow> unit fs_op" where
  "fs_create_new p t =
     (if node_at t (butlast p) \<noteq> Some DirNode then Err IoNotFound
      else if node_at t p \<noteq> None then Err IoAlreadyExists
      else Ok ((), [AList.update p (FileNode []) t]))"

definition fs_create :: "path \<Rightarrow> unit fs_op" where
  "fs_create p t =
     (if node_at t (butlast p) \<noteq> Some DirNode then Err IoNotFound
      else if node_at t p = Some DirNode then Err IoIsADirectory
      else Ok ((), [AList.update p (FileNode []) t]))"

text \<open>\<open>write_all\<close> on an open file, byte by byte; a file unlinked in the meantime takes the bytes away.\<close>

definition fs_write_all :: "path \<Rightarrow> bytes \<Rightarrow> unit fs_op" where
  "fs_write_all p bs t =
     (case node_at t p of
        Some (FileNode b) \<Rightarrow>
          Ok ((), map (\<lambda>i. AList.update p (FileNode (b @ take i bs)) t) [1 ..< Suc (length bs)])
      | _ \<Rightarrow> Ok ((), []))"

definition fs_sync :: "unit fs_op" where
  "fs_sync t = Ok ((), [])"

definition fs_open_dir :: "path \<Rightarrow> unit fs_op" where
  "fs_open_dir p t = (if node_at t p = None then Err IoNotFound else Ok ((), []))"

definition fs_remove_file :: "path \<Rightarrow> unit fs_op" where
  "fs_remove_file p t =
     (case node_at t p of
        None \<Rightarrow> Err IoNotFound
      | Some DirNode \<Rightarrow> Err IoIsADirectory
      | Some (FileNode _) \<Rightarrow> Ok ((), [AList.delete p t]))"

definition fs_remove_dir :: "path \<Rightarrow> unit fs_op" where
  "fs_remove_dir p t =
     (case node_at t p of
        None \<Rightarrow> Err IoNotFound
      | Some (FileNode _) \<Rightarrow> Err IoNotADirectory
      | Some DirNode \<Rightarrow>
          if has_below t p then Err IoDirectoryNotEmpty else Ok ((), [AList.delete p t]))"

fun delete_steps :: "path list \<Rightarrow> fs \<Rightarrow> fs list" where
  "delete_steps [] t = []"
| "delete_steps (q # qs) t = AList.delete q t # delete_steps qs (AList.delete q t)"

text \<open>\<open>remove_dir_all\<close> unlinks one entry after the other, deeper ones first.\<close>

definition fs_remove_dir_all :: "path \<Rightarrow> unit fs_op" where
  "fs_remove_dir_all p t =
     (case node_at t p of
        None \<Rightarrow> Err IoNotFound
      | Some (FileNode _) \<Rightarrow> Err IoNotADirectory
      | Some DirNode \<Rightarrow>
          Ok ((), delete_steps (rev (sort_key length (filter (prefix p) (remdups (map fst t))))) t))"

fun mkdir_steps :: "path list \<Rightarrow> fs \<Rightarrow> fs list" where
  "mkdir_steps [] t = []"
| "mkdir_steps (q # qs) t =
     (if node_at t q = None
      then AList.update q DirNode t # mkdir_steps qs (AList.update q DirNode t)
      else mkdir_steps qs t)"

definition fs_create_dir_all :: "path \<Rightarrow> unit fs_op" where
  "fs_create_dir_all p t =
     (if list_ex (\<lambda>q. node_at t q \<noteq> None \<and> node_at t q \<noteq> Some DirNode) (prefixes p) then Err IoNotADirectory
      else Ok ((), mkdir_steps (prefixes p) t))"

definition moved_path :: "path \<Rightarrow> path \<Rightarrow> path \<Rightarrow> path" where
  "moved_path src dst q = (if prefix src q then dst @ drop (length src) q else q)"

definition move_tree :: "path \<Rightarrow> path \<Rightarrow> fs \<Rightarrow> fs" where
  "move_tree src dst t = map (apfst (moved_path src dst)) (AList.delete dst t)"

text \<open>\<open>rename(2)\<close>: a file replaces a file, a directory replaces an empty directory.\<close>

definition fs_rename :: "path \<Rightarrow> path \<Rightarrow> unit fs_op" where
  "fs_rename src dst t =
     (case node_at t src of
        None \<Rightarrow> Err IoNotFound
      | Some n \<Rightarrow>
          if node_at t (butlast dst) \<noteq> Some DirNode then Err IoNotFound
          else case n of
            FileNode b \<Rightarrow>
              if node_at t dst = Some DirNode then Err IoIsADirectory
              else Ok ((), [AList.update dst (FileNode b) (AList.delete src t)])
          | DirNode \<Rightarrow>
              if src = dst then Ok ((), [t])
              else if prefix src dst then Err IoInvalidInput
              else if is_file_at t dst then Err IoNotADirectory
              else if has_below t dst then Err IoDirectoryNotEmpty
              else Ok ((), [move_tree src dst t]))"

section \<open>Programs\<close>

text \<open>State, and a result that ends the program when it is an error.\<close>

type_synonym ('s, 'e, 'a) prog = "'s \<Rightarrow> ('e, 'a) result \<times> 's"

definition ret :: "'a \<Rightarrow> ('s, 'e, 'a) prog" where
  "ret x s = (Ok x, s)"

definition fail :: "'e \<Rightarrow> ('s, 'e, 'a) prog" where
  "fail e s = (Err e, s)"

definition bind_p :: "('s, 'e, 'a) prog \<Rightarrow> ('a \<Rightarrow> ('s, 'e, 'b) prog) \<Rightarrow> ('s, 'e, 'b) prog" where
  "bind_p m f s = (case m s of (Inl e, s') \<Rightarrow> (Inl e, s') | (Inr x, s') \<Rightarrow> f x s')"

text \<open>\<open>map_err\<close>, and running a program for its result, error or not.\<close>

definition map_err :: "('e \<Rightarrow> 'f) \<Rightarrow> ('s, 'e, 'a) prog \<Rightarrow> ('s, 'f, 'a) prog" where
  "map_err g m s = (case m s of (Inl e, s') \<Rightarrow> (Inl (g e), s') | (Inr x, s') \<Rightarrow> (Inr x, s'))"

definition attempt :: "('s, 'e, 'a) prog \<Rightarrow> ('s, 'f, ('e, 'a) result) prog" where
  "attempt m s = (case m s of (r, s') \<Rightarrow> (Inr r, s'))"

definition lift_result :: "('e, 'a) result \<Rightarrow> ('s, 'e, 'a) prog" where
  "lift_result r s = (r, s)"

record disk =
  dk_fs :: fs
  dk_trace :: "fs list"
  dk_clock :: nat
  dk_fault :: "nat \<Rightarrow> (io_error \<times> nat) option"
  dk_rand :: "nat \<Rightarrow> string"

definition visit :: "fs list \<Rightarrow> 'z disk_scheme \<Rightarrow> 'z disk_scheme" where
  "visit ts w = w\<lparr>dk_fs := last (dk_fs w # ts), dk_trace := dk_trace w @ ts\<rparr>"

definition tick :: "'z disk_scheme \<Rightarrow> 'z disk_scheme" where
  "tick w = w\<lparr>dk_clock := Suc (dk_clock w)\<rparr>"

definition fs_call :: "'a fs_op \<Rightarrow> ('z disk_scheme, io_error, 'a) prog" where
  "fs_call op w =
     (case (dk_fault w (dk_clock w), op (dk_fs w)) of
        (None, Inl e) \<Rightarrow> (Err e, tick w)
      | (None, Inr (x, ts)) \<Rightarrow> (Ok x, visit ts (tick w))
      | (Some (e, k), Inl _) \<Rightarrow> (Err e, tick w)
      | (Some (e, k), Inr (x, ts)) \<Rightarrow> (Err e, visit (take (min k (length ts - 1)) ts) (tick w)))"

text \<open>\<open>Path::exists\<close>, \<open>is_file\<close> and \<open>is_dir\<close> report an error as \<open>false\<close>.\<close>

definition fs_test :: "bool fs_op \<Rightarrow> ('z disk_scheme, 'e, bool) prog" where
  "fs_test op = bind_p (attempt (fs_call op)) (\<lambda>r. ret (case r of Inl _ \<Rightarrow> False | Inr b \<Rightarrow> b))"

section \<open>Lookup after a call\<close>

lemma node_at_update [simp]: "node_at (AList.update p n t) q = (if q = p then Some n else node_at t q)"
  by (simp add: node_at_def AList.update_conv)

lemma node_at_delete [simp]: "node_at (AList.delete p t) q = (if q = p then None else node_at t q)"
  by (simp add: node_at_def AList.delete_conv)

lemma node_at_deletes:
  "node_at (last (t # delete_steps ps t)) q = (if q \<in> set ps then None else node_at t q)"
proof (induction ps arbitrary: t)
  case (Cons p ps)
  then show ?case using Cons.IH [of "AList.delete p t"] by simp
qed simp

lemma delete_steps_only:
  "s \<in> set (delete_steps ps t) \<Longrightarrow> node_at s q = node_at t q \<or> q \<in> set ps \<and> node_at s q = None"
proof (induction ps arbitrary: t)
  case (Cons p ps)
  from Cons.prems consider "s = AList.delete p t" | "s \<in> set (delete_steps ps (AList.delete p t))" by auto
  then show ?case
  proof cases
    case 2
    from Cons.IH [OF this] show ?thesis by (cases "q = p") auto
  qed simp
qed simp

lemma mkdir_steps_only:
  "s \<in> set (mkdir_steps ps t) \<Longrightarrow>
     node_at s q = node_at t q \<or> q \<in> set ps \<and> node_at t q = None \<and> node_at s q = Some DirNode"
proof (induction ps arbitrary: t)
  case (Cons p ps)
  show ?case
  proof (cases "node_at t p = None")
    case True
    then have "s = AList.update p DirNode t \<or> s \<in> set (mkdir_steps ps (AList.update p DirNode t))"
      using Cons.prems by simp
    then show ?thesis using True Cons.IH [of "AList.update p DirNode t"] by (auto split: if_splits)
  next
    case False
    then show ?thesis using Cons.IH [of t] Cons.prems by auto
  qed
qed simp

lemma mkdir_steps_final:
  "node_at (last (t # mkdir_steps ps t)) q =
     (if q \<in> set ps \<and> node_at t q = None then Some DirNode else node_at t q)"
proof (induction ps arbitrary: t)
  case (Cons p ps)
  show ?case
  proof (cases "node_at t p = None")
    case True
    then show ?thesis using Cons.IH [of "AList.update p DirNode t"] by simp
  next
    case False
    then have "mkdir_steps (p # ps) t = mkdir_steps ps t"
      and "q \<in> set (p # ps) \<and> node_at t q = None \<longleftrightarrow> q \<in> set ps \<and> node_at t q = None" by auto
    then show ?thesis using Cons.IH [of t] by (simp only:)
  qed
qed simp

lemma has_below_iff: "has_below t p \<longleftrightarrow> (\<exists>q. strict_prefix p q \<and> node_at t q \<noteq> None)"
proof -
  have "(\<exists>x \<in> set t. case x of (q, _) \<Rightarrow> strict_prefix p q) \<longleftrightarrow> (\<exists>q. strict_prefix p q \<and> q \<in> fst ` set t)"
    by force
  then show ?thesis by (simp add: has_below_def list_ex_iff node_at_def map_of_eq_None_iff)
qed

lemma map_of_moved:
  assumes "\<forall>r. prefix dst r \<longrightarrow> map_of xs r = None"
  shows "map_of (map (apfst (moved_path src dst)) xs) q =
           (if prefix dst q then map_of xs (src @ drop (length dst) q)
            else if prefix src q then None else map_of xs q)"
  using assms
proof (induction xs)
  case (Cons x xs)
  obtain r n where x: "x = (r, n)" by (cases x)
  have "\<forall>r. prefix dst r \<longrightarrow> map_of xs r = None" and r: "\<not> prefix dst r"
    using Cons.prems x by (auto split: if_splits)
  then have IH: "map_of (map (apfst (moved_path src dst)) xs) q =
      (if prefix dst q then map_of xs (src @ drop (length dst) q)
       else if prefix src q then None else map_of xs q)"
    using Cons.IH by blast
  show ?case
  proof (cases "prefix src r")
    case True
    then obtain z where z: "r = src @ z" by (auto simp: prefix_def)
    then have mp: "moved_path src dst r = dst @ z" by (simp add: moved_path_def)
    have "q = dst @ z \<longleftrightarrow> prefix dst q \<and> src @ drop (length dst) q = r" using z by (auto simp: prefix_def)
    moreover have "q \<noteq> r \<or> prefix src q" using True by blast
    ultimately show ?thesis by (auto simp: x IH mp)
  next
    case False
    then have mp: "moved_path src dst r = r" and "src @ z \<noteq> r" for z by (auto simp: moved_path_def)
    then show ?thesis using False r by (auto simp: x IH mp)
  qed
qed simp

lemma node_at_move_tree:
  assumes "\<not> has_below t dst" and "\<not> prefix src dst"
  shows "node_at (move_tree src dst t) q =
           (if prefix dst q then node_at t (src @ drop (length dst) q)
            else if prefix src q then None else node_at t q)"
proof -
  let ?t = "AList.delete dst t"
  have "node_at ?t r = None" if "prefix dst r" for r
    using assms(1) that by (cases "r = dst") (auto simp: has_below_iff strict_prefix_def)
  then have "node_at (move_tree src dst t) q =
      (if prefix dst q then node_at ?t (src @ drop (length dst) q)
       else if prefix src q then None else node_at ?t q)"
    unfolding move_tree_def node_at_def by (intro map_of_moved) blast
  moreover have "src @ drop (length dst) q \<noteq> dst" using assms(2) by (metis prefixI)
  ultimately show ?thesis by simp
qed

end
