(* ===== verification/Disk_Logic.thy ===== *)
theory Disk_Logic
  imports Disk
begin

text \<open>
  Reasoning about disk programs.  \<open>run_ok I m w Q\<close> says that every state the tree passes through while
  \<open>m\<close> runs from \<open>w\<close> satisfies \<open>I\<close>, whatever calls fail, and that the result and the final world satisfy
  \<open>Q\<close>: crash safety and functional behaviour in one triple.  The rules below take a program apart
  along its binds; the rules for the single calls are stated over the tree.
\<close>

named_theorems run_rules \<open>rules that take a disk program apart\<close>

section \<open>Runs\<close>

definition passes :: "(fs \<Rightarrow> bool) \<Rightarrow> 'z disk_scheme \<Rightarrow> 'z disk_scheme \<Rightarrow> bool" where
  "passes I w w' \<longleftrightarrow>
     dk_fault w' = dk_fault w \<and> dk_rand w' = dk_rand w \<and>
     (\<exists>ts. dk_trace w' = dk_trace w @ ts \<and> dk_fs w' = last (dk_fs w # ts) \<and> (\<forall>t \<in> set ts. I t))"

lemma passes_refl [simp]: "passes I w w"
  by (simp add: passes_def)

lemma passes_trans: "passes I u v \<Longrightarrow> passes I v w \<Longrightarrow> passes I u w"
proof -
  assume "passes I u v" and "passes I v w"
  then obtain ts us where ts: "dk_trace v = dk_trace u @ ts" "dk_fs v = last (dk_fs u # ts)" "\<forall>t \<in> set ts. I t"
    and us: "dk_trace w = dk_trace v @ us" "dk_fs w = last (dk_fs v # us)" "\<forall>t \<in> set us. I t"
    and "dk_fault w = dk_fault u" "dk_rand w = dk_rand u"
    by (auto simp: passes_def)
  then show ?thesis unfolding passes_def by (intro conjI exI [of _ "ts @ us"]) auto
qed

lemma passes_mono: "passes I w w' \<Longrightarrow> (\<And>t. I t \<Longrightarrow> J t) \<Longrightarrow> passes J w w'"
  by (auto simp: passes_def)

lemma passes_final: "passes I w w' \<Longrightarrow> I (dk_fs w) \<Longrightarrow> I (dk_fs w')"
  by (auto simp: passes_def)

lemma passes_tick [simp]: "passes I w (tick w)"
  by (simp add: passes_def tick_def)

lemma passes_visit: "(\<forall>t \<in> set ts. I t) \<Longrightarrow> passes I w (visit ts w)"
  by (auto simp: passes_def visit_def)

definition run_ok ::
  "(fs \<Rightarrow> bool) \<Rightarrow> ('z disk_scheme, 'e, 'a) prog \<Rightarrow> 'z disk_scheme \<Rightarrow>
     (('e, 'a) result \<Rightarrow> 'z disk_scheme \<Rightarrow> bool) \<Rightarrow> bool"
where
  "run_ok I m w Q \<longleftrightarrow> (case m w of (r, w') \<Rightarrow> passes I w w' \<and> Q r w')"

lemma run_okD:
  assumes "run_ok I m w Q" and "m w = (r, w')"
  shows "passes I w w'" and "Q r w'"
  using assms by (simp_all add: run_ok_def)

lemma run_ok_weaken:
  assumes "run_ok I m w Q" and "\<And>t. I t \<Longrightarrow> J t" and "\<And>r w'. passes I w w' \<Longrightarrow> Q r w' \<Longrightarrow> R r w'"
  shows "run_ok J m w R"
  using assms passes_mono [of I w _ J] unfolding run_ok_def by (cases "m w") auto

lemma run_ok_post:
  assumes "run_ok I m w Q" and "\<And>r w'. passes I w w' \<Longrightarrow> Q r w' \<Longrightarrow> R r w'"
  shows "run_ok I m w R"
  using assms(1) _ assms(2) by (rule run_ok_weaken)

lemma run_ok_ret [run_rules]: "Q (Ok x) w \<Longrightarrow> run_ok I (ret x) w Q"
  by (simp add: run_ok_def ret_def)

lemma run_ok_fail [run_rules]: "Q (Err e) w \<Longrightarrow> run_ok I (fail e) w Q"
  by (simp add: run_ok_def fail_def)

lemma run_ok_lift [run_rules]: "Q r w \<Longrightarrow> run_ok I (lift_result r) w Q"
  by (simp add: run_ok_def lift_result_def)

lemma run_ok_bind [run_rules]:
  assumes "run_ok I m w (\<lambda>r w'. case r of Inl e \<Rightarrow> Q (Inl e) w' | Inr x \<Rightarrow> run_ok I (f x) w' Q)"
  shows "run_ok I (bind_p m f) w Q"
  using assms passes_trans [of I w] by (auto simp: run_ok_def bind_p_def split: prod.splits sum.splits)

lemma run_ok_map_err [run_rules]:
  assumes "run_ok I m w (\<lambda>r w'. case r of Inl e \<Rightarrow> Q (Inl (g e)) w' | Inr x \<Rightarrow> Q (Inr x) w')"
  shows "run_ok I (map_err g m) w Q"
  using assms by (auto simp: run_ok_def map_err_def split: prod.splits sum.splits)

lemma run_ok_attempt [run_rules]:
  assumes "run_ok I m w (\<lambda>r w'. Q (Ok r) w')"
  shows "run_ok I (attempt m) w Q"
  using assms by (auto simp: run_ok_def attempt_def split: prod.splits)

lemma run_ok_if [run_rules]:
  assumes "b \<Longrightarrow> run_ok I m w Q" and "\<not> b \<Longrightarrow> run_ok I n w Q"
  shows "run_ok I (if b then m else n) w Q"
  using assms by simp

lemma map_err_twice: "map_err f (map_err g m) = map_err (\<lambda>e. f (g e)) m"
  by (auto simp: map_err_def fun_eq_iff split: prod.splits sum.splits)

text \<open>A program that has run under two accounts has run under both.\<close>

lemma run_ok_conj:
  assumes "run_ok I m w Q" and "run_ok J m w R"
  shows "run_ok (\<lambda>t. I t \<and> J t) m w (\<lambda>r w'. Q r w' \<and> R r w')"
proof -
  obtain r w' where m: "m w = (r, w')" by (cases "m w")
  have "passes I w w'" "passes J w w'" using assms m by (auto simp: run_ok_def)
  then have "passes (\<lambda>t. I t \<and> J t) w w'" by (fastforce simp: passes_def)
  then show ?thesis using assms m by (simp add: run_ok_def)
qed

section \<open>Single calls\<close>

lemma visit_fields [simp]:
  "dk_fs (visit ts w) = last (dk_fs w # ts)" "dk_fault (visit ts w) = dk_fault w"
  "dk_rand (visit ts w) = dk_rand w" "disk.more (visit ts w) = disk.more w"
  "dk_clock (visit ts w) = dk_clock w"
  by (simp_all add: visit_def)

lemma tick_fields [simp]:
  "dk_fs (tick w) = dk_fs w" "dk_fault (tick w) = dk_fault w" "dk_trace (tick w) = dk_trace w"
  "dk_rand (tick w) = dk_rand w" "disk.more (tick w) = disk.more w"
  "dk_clock (tick w) = Suc (dk_clock w)"
  by (simp_all add: tick_def)

text \<open>
  What a call can do: fail leaving the tree as it was, fail at one of the states on the way, or
  succeed with the last state.
\<close>

lemma run_ok_call:
  assumes "\<And>x ts. op (dk_fs w) = Ok (x, ts) \<Longrightarrow> (\<forall>t \<in> set ts. I t)"
    and "\<And>e w'. dk_fs w' = dk_fs w \<Longrightarrow> disk.more w' = disk.more w \<Longrightarrow> dk_fault w' = dk_fault w \<Longrightarrow>
           (\<exists>k. dk_fault w (dk_clock w) = Some (e, k)) \<or> op (dk_fs w) = Err e \<Longrightarrow> Q (Err e) w'"
    and "\<And>e w' x ts. op (dk_fs w) = Ok (x, ts) \<Longrightarrow> dk_fs w' \<in> set (butlast ts) \<Longrightarrow>
           disk.more w' = disk.more w \<Longrightarrow> dk_fault w' = dk_fault w \<Longrightarrow>
           \<exists>k. dk_fault w (dk_clock w) = Some (e, k) \<Longrightarrow> Q (Err e) w'"
    and "\<And>w' x ts. op (dk_fs w) = Ok (x, ts) \<Longrightarrow> dk_fs w' = last (dk_fs w # ts) \<Longrightarrow>
           disk.more w' = disk.more w \<Longrightarrow> dk_fault w' = dk_fault w \<Longrightarrow> Q (Ok x) w'"
  shows "run_ok I (fs_call op) w Q"
proof (cases "op (dk_fs w)")
  case (Inl e)
  then show ?thesis
    using assms(2) [of "tick w"] by (auto simp: run_ok_def fs_call_def split: option.splits)
next
  case (Inr xts)
  obtain x ts where op: "op (dk_fs w) = Ok (x, ts)" using Inr by (cases xts) auto
  note I = assms(1) [OF op]
  show ?thesis
  proof (cases "dk_fault w (dk_clock w)")
    case None
    then show ?thesis
      using op I assms(4) [OF op, of "visit ts (tick w)"] passes_trans [OF passes_tick passes_visit]
      by (simp add: run_ok_def fs_call_def)
  next
    case (Some ek)
    obtain e k where ek: "ek = (e, k)" by (cases ek)
    define us where "us = take (min k (length ts - 1)) ts"
    have us: "us = take (min k (length ts - 1)) (butlast ts)"
      by (simp add: us_def take_butlast butlast_conv_take min_def)
    have "set us \<subseteq> set ts" by (auto simp: us_def dest: in_set_takeD)
    then have r: "passes I w (visit us (tick w))"
      using I passes_trans [OF passes_tick passes_visit] by (metis subset_iff)
    have "Q (Err e) (visit us (tick w))"
    proof (cases "us = []")
      case True
      then show ?thesis using assms(2) [of "visit us (tick w)" e] Some ek by simp
    next
      case False
      then have "last us \<in> set us" by simp
      then have "last us \<in> set (butlast ts)" using us by (metis in_set_takeD)
      then show ?thesis using assms(3) [OF op, of "visit us (tick w)" e] Some ek False by simp
    qed
    then show ?thesis using op Some ek r by (simp add: run_ok_def fs_call_def us_def)
  qed
qed

text \<open>The same as one post-condition, and the rules for a call at the head of a program.\<close>

definition call_post ::
  "'a fs_op \<Rightarrow> 'z disk_scheme \<Rightarrow> (io_error, 'a) result \<Rightarrow> 'z disk_scheme \<Rightarrow> bool"
where
  "call_post op w r w' \<longleftrightarrow>
     disk.more w' = disk.more w \<and> dk_fault w' = dk_fault w \<and>
     (case r of
        Inr x \<Rightarrow> (\<exists>ts. op (dk_fs w) = Ok (x, ts) \<and> dk_fs w' = last (dk_fs w # ts))
      | Inl e \<Rightarrow>
          (dk_fs w' = dk_fs w \<or> (\<exists>x ts. op (dk_fs w) = Ok (x, ts) \<and> dk_fs w' \<in> set (butlast ts))) \<and>
          ((\<exists>k. dk_fault w (dk_clock w) = Some (e, k)) \<or> op (dk_fs w) = Err e))"

lemma call_spec:
  assumes "\<And>x ts. op (dk_fs w) = Ok (x, ts) \<Longrightarrow> (\<forall>t \<in> set ts. I t)"
  shows "run_ok I (fs_call op) w (call_post op w)"
  by (rule run_ok_call) (use assms in \<open>auto simp: call_post_def\<close>)

lemma call_post_same:
  "call_post op w r w' \<Longrightarrow> disk.more w' = disk.more w" "call_post op w r w' \<Longrightarrow> dk_fault w' = dk_fault w"
  by (simp_all add: call_post_def)

lemma run_ok_seq:
  assumes "run_ok I m w R"
    and "\<And>e w'. passes I w w' \<Longrightarrow> R (Inl e) w' \<Longrightarrow> Q (Inl e) w'"
    and "\<And>x w'. passes I w w' \<Longrightarrow> R (Inr x) w' \<Longrightarrow> run_ok I (f x) w' Q"
  shows "run_ok I (bind_p m f) w Q"
  by (rule run_ok_bind, rule run_ok_post [OF assms(1)]) (auto split: sum.splits intro: assms(2,3))

lemma run_ok_step:
  assumes "run_ok J m w P" and "\<And>t. J t \<Longrightarrow> I t"
    and "\<And>e w'. P (Inl e) w' \<Longrightarrow> Q (Inl e) w'"
    and "\<And>x w'. P (Inr x) w' \<Longrightarrow> run_ok I (f x) w' Q"
  shows "run_ok I (bind_p m f) w Q"
  by (rule run_ok_seq [OF run_ok_weaken [OF assms(1), of I P]]) (use assms in auto)

lemma run_ok_seq_err:
  assumes "run_ok I m w R"
    and "\<And>e w'. passes I w w' \<Longrightarrow> R (Inl e) w' \<Longrightarrow> Q (Inl (g e)) w'"
    and "\<And>x w'. passes I w w' \<Longrightarrow> R (Inr x) w' \<Longrightarrow> run_ok I (f x) w' Q"
  shows "run_ok I (bind_p (map_err g m) f) w Q"
  by (rule run_ok_bind, rule run_ok_map_err, rule run_ok_post [OF assms(1)])
    (auto split: sum.splits intro: assms(2,3))

lemma run_ok_step_err:
  assumes "run_ok J m w P" and "\<And>t. J t \<Longrightarrow> I t"
    and "\<And>e w'. P (Inl e) w' \<Longrightarrow> Q (Inl (g e)) w'"
    and "\<And>x w'. P (Inr x) w' \<Longrightarrow> run_ok I (f x) w' Q"
  shows "run_ok I (bind_p (map_err g m) f) w Q"
  by (rule run_ok_seq_err [OF run_ok_weaken [OF assms(1), of I P]]) (use assms in auto)

lemma run_ok_seq_attempt:
  assumes "run_ok I m w R"
    and "\<And>r w'. passes I w w' \<Longrightarrow> R r w' \<Longrightarrow> run_ok I (f r) w' Q"
  shows "run_ok I (bind_p (attempt m) f) w Q"
  by (rule run_ok_bind, rule run_ok_attempt, rule run_ok_post [OF assms(1)]) (auto intro: assms(2))

lemma run_ok_step_attempt:
  assumes "run_ok J m w P" and "\<And>t. J t \<Longrightarrow> I t"
    and "\<And>r w'. P r w' \<Longrightarrow> run_ok I (f r) w' Q"
  shows "run_ok I (bind_p (attempt m) f) w Q"
  by (rule run_ok_seq_attempt [OF run_ok_weaken [OF assms(1), of I P]]) (use assms in auto)

text \<open>The tests never fail and never change the tree; what they say is true when they say yes.\<close>

lemma test_spec:
  assumes "\<And>t x ts. op t = Ok (x, ts) \<Longrightarrow> ts = []"
  shows "run_ok I (fs_test op) w
           (\<lambda>r w'. disk.more w' = disk.more w \<and> dk_fault w' = dk_fault w \<and> dk_fs w' = dk_fs w \<and>
              (r = Ok False \<or> (\<exists>x. r = Ok x \<and> op (dk_fs w) = Ok (x, []))))"
  unfolding fs_test_def
  by (rule run_ok_seq_attempt [OF call_spec], drule assms, simp, rule run_ok_ret)
    (auto simp: call_post_def dest: assms split: sum.splits)

end
