(* ===== verification/Fs_Atomic.thy ===== *)
theory Fs_Atomic
  imports Disk_Logic Ids
begin

text \<open>
  \<^verbatim>\<open>file_mgr/error.rs\<close>, \<^verbatim>\<open>file_mgr/validate.rs\<close> and \<^verbatim>\<open>file_mgr/fs_atomic.rs\<close>: the error type of the file
  manager with its HTTP category, the validation of asset names and extensions, and the atomic
  file write every metadata file goes through, with its crash guarantee.  A name error keeps the
  structured error whose text the source formats into the message.
\<close>

section \<open>Errors\<close>

datatype asset_kind = AssetDataset | BackboneMpk | BackboneRknn | HeadMpk | HeadLabels | AssetMetadata

datatype activation_id_error =
    ActivationEmpty
  | ActivationTooLong nat
  | ActivationLeadingDot
  | ActivationBadByte nat char

text \<open>A message formatted into the error is its fixed text with the values put into it.\<close>

datatype name_error = NameId id_error | NameActivation activation_id_error | NameText string | NameFormat string "string list"

text \<open>The message of a conflict with a running job, formatted from the job's id and type.\<close>

datatype file_error =
    FileNotFound string
  | AssetNotFound string asset_kind string
  | FileId id_error
  | InvalidName name_error
  | InvalidExtension string "string list"
  | NameConflict name_error
  | FileSchemaTooNew path nat nat
  | FileSchemaTooOld path nat nat
  | FileIo path io_error
  | MetadataParse path string
  | MetadataSerialize string
  | Persist io_error
  | UploadTooLarge nat nat
  | TooManyConcurrentUploads nat nat
  | MetadataTooLarge path nat nat
  | FileJobConflict string
  | FileAnotherTrainRunning

definition io_err :: "path \<Rightarrow> io_error \<Rightarrow> file_error" where
  "io_err p source = FileIo p source"

definition metadata_parse_err :: "path \<Rightarrow> string \<Rightarrow> file_error" where
  "metadata_parse_err p source = MetadataParse p source"

fun file_error_kind :: "file_error \<Rightarrow> error_kind" where
  "file_error_kind (FileNotFound _) = NotFound"
| "file_error_kind (AssetNotFound _ _ _) = NotFound"
| "file_error_kind (FileId e) = id_error_kind e"
| "file_error_kind (InvalidName _) = UserInput"
| "file_error_kind (InvalidExtension _ _) = UserInput"
| "file_error_kind (NameConflict _) = Conflict"
| "file_error_kind (UploadTooLarge _ _) = UserInput"
| "file_error_kind (TooManyConcurrentUploads _ _) = Conflict"
| "file_error_kind (FileSchemaTooNew _ _ _) = Conflict"
| "file_error_kind (FileSchemaTooOld _ _ _) = Conflict"
| "file_error_kind (FileJobConflict _) = Conflict"
| "file_error_kind FileAnotherTrainRunning = Conflict"
| "file_error_kind (FileIo _ _) = Internal"
| "file_error_kind (MetadataParse _ _) = Internal"
| "file_error_kind (MetadataSerialize _) = Internal"
| "file_error_kind (MetadataTooLarge _ _ _) = Internal"
| "file_error_kind (Persist _) = Internal"

section \<open>Names and extensions\<close>

definition validate_asset_name :: "string \<Rightarrow> (file_error, unit) result" where
  "validate_asset_name name =
     (case asset_id_parse name of Inl e \<Rightarrow> Err (InvalidName (NameId e)) | Inr _ \<Rightarrow> Ok ())"

definition to_ascii_lower :: "char \<Rightarrow> char" where
  "to_ascii_lower c =
     (let n = of_char c :: nat in if 65 \<le> n \<and> n \<le> 90 then char_of (n + 32) else c)"

definition eq_ignore_ascii_case :: "string \<Rightarrow> string \<Rightarrow> bool" where
  "eq_ignore_ascii_case s t \<longleftrightarrow> map to_ascii_lower s = map to_ascii_lower t"

definition extension_matches :: "string \<Rightarrow> string \<Rightarrow> bool" where
  "extension_matches name ext =
     (let need = length ext + 1 in
      if length name < need then False
      else let tail = drop (length name - need) name in
        tail ! 0 = CHR ''.'' \<and> eq_ignore_ascii_case (drop 1 tail) ext)"

definition after_first_dot :: "string \<Rightarrow> string" where
  "after_first_dot name =
     (let rest = dropWhile (\<lambda>c. c \<noteq> CHR ''.'') name in if rest = [] then name else tl rest)"

definition validate_extension :: "string \<Rightarrow> string list \<Rightarrow> (file_error, unit) result" where
  "validate_extension name allowed =
     (if list_ex (extension_matches name) allowed then Ok ()
      else Err (InvalidExtension (after_first_dot name) allowed))"

fun asset_subdir :: "asset_kind \<Rightarrow> string" where
  "asset_subdir AssetDataset = ''datasets''"
| "asset_subdir BackboneMpk = ''weights''"
| "asset_subdir BackboneRknn = ''weights''"
| "asset_subdir HeadMpk = ''weights''"
| "asset_subdir HeadLabels = ''labels''"
| "asset_subdir AssetMetadata = ''.''"

fun allowed_ext :: "asset_kind \<Rightarrow> string list" where
  "allowed_ext AssetDataset = [''tar.gz'', ''tgz'', ''zip'', ''json'', ''bin'']"
| "allowed_ext BackboneMpk = [''mpk'']"
| "allowed_ext HeadMpk = [''mpk'']"
| "allowed_ext BackboneRknn = [''rknn'']"
| "allowed_ext HeadLabels = [''txt'']"
| "allowed_ext AssetMetadata = [''json'']"

section \<open>The atomic write\<close>

type_synonym ('z, 'a) file_prog = "('z disk_scheme, file_error, 'a) prog"

definition io_at :: "path \<Rightarrow> ('z disk_scheme, io_error, 'a) prog \<Rightarrow> ('z, 'a) file_prog" where
  "io_at p m = map_err (io_err p) m"

definition fsync_dir :: "path \<Rightarrow> ('z disk_scheme, io_error, unit) prog" where
  "fsync_dir p = bind_p (fs_call (fs_open_dir p)) (\<lambda>_. fs_call fs_sync)"

text \<open>
  \<open>NamedTempFile::new_in\<close> of the tempfile crate creates a file that did not exist before, with the
  prefix \<open>.tmp\<close> and a random rest; dropping an unpersisted handle unlinks it, ignoring errors.
\<close>

definition temp_path :: "path \<Rightarrow> string \<Rightarrow> path" where
  "temp_path parent rnd = parent @ [''.tmp'' @ rnd]"

definition temp_new_in :: "path \<Rightarrow> ('z disk_scheme, io_error, path) prog" where
  "temp_new_in parent w =
     (let p = temp_path parent (dk_rand w (dk_clock w))
      in bind_p (fs_call (fs_create_new p)) (\<lambda>_. ret p) w)"

definition temp_drop :: "path \<Rightarrow> ('z disk_scheme, 'e, unit) prog" where
  "temp_drop p = bind_p (attempt (fs_call (fs_remove_file p))) (\<lambda>_. ret ())"

text \<open>Early returns drop the handle; the error of \<open>persist\<close> carries it and drops it too.\<close>

definition or_drop :: "path \<Rightarrow> ('z disk_scheme, 'e, 'a) prog \<Rightarrow> ('z disk_scheme, 'e, 'a) prog" where
  "or_drop tmp m =
     bind_p (attempt m) (\<lambda>r. case r of Inl e \<Rightarrow> bind_p (temp_drop tmp) (\<lambda>_. fail e) | Inr x \<Rightarrow> ret x)"

definition put_atomic :: "path \<Rightarrow> bytes \<Rightarrow> ('z, unit) file_prog" where
  "put_atomic final_path bs =
     (if final_path = [] then fail (io_err final_path IoInvalidInput)
      else let parent = butlast final_path in
        bind_p (io_at parent (temp_new_in parent)) (\<lambda>tmp.
        bind_p (or_drop tmp
          (bind_p (io_at final_path (fs_call (fs_write_all tmp bs))) (\<lambda>_.
           bind_p (io_at final_path (fs_call fs_sync)) (\<lambda>_.
           bind_p (io_at final_path (fs_call fs_sync)) (\<lambda>_.
           map_err Persist (fs_call (fs_rename tmp final_path))))))) (\<lambda>_.
        io_at parent (fsync_dir parent))))"

section \<open>Atomicity\<close>

text \<open>
  The states \<open>put_atomic\<close> may expose: the target holds what it held or all the new bytes, and
  everything else is as it was except for temporary files that did not exist before.
\<close>

definition is_temp_in :: "path \<Rightarrow> path \<Rightarrow> bool" where
  "is_temp_in dir q \<longleftrightarrow> (\<exists>rnd. q = temp_path dir rnd)"

definition put_states :: "path \<Rightarrow> bytes \<Rightarrow> fs \<Rightarrow> fs \<Rightarrow> bool" where
  "put_states p bs t s \<longleftrightarrow>
     (\<forall>q. node_at s q = node_at t q \<or> (q = p \<and> node_at s q = Some (FileNode bs)) \<or>
          (is_temp_in (butlast p) q \<and> node_at t q = None))"

definition off_path :: "path \<Rightarrow> fs \<Rightarrow> fs \<Rightarrow> bool" where
  "off_path tmp t s \<longleftrightarrow> (\<forall>q. q \<noteq> tmp \<longrightarrow> node_at s q = node_at t q)"

lemma off_path_put_states:
  "off_path tmp t s \<Longrightarrow> is_temp_in (butlast p) tmp \<Longrightarrow> node_at t tmp = None \<Longrightarrow> put_states p bs t s"
  unfolding off_path_def put_states_def by metis

lemma temp_new_in_spec:
  "run_ok (put_states p bs (dk_fs w)) (temp_new_in (butlast p)) w
     (\<lambda>r w'. disk.more w' = disk.more w \<and> dk_fault w' = dk_fault w \<and>
        (case r of Inl e \<Rightarrow> dk_fs w' = dk_fs w
         | Inr tmp \<Rightarrow> is_temp_in (butlast p) tmp \<and> node_at (dk_fs w) tmp = None \<and>
                      off_path tmp (dk_fs w) (dk_fs w') \<and> node_at (dk_fs w') tmp = Some (FileNode [])))"
proof -
  let ?tmp = "temp_path (butlast p) (dk_rand w (dk_clock w))"
  let ?t = "AList.update ?tmp (FileNode []) (dk_fs w)"
  have tmp: "is_temp_in (butlast p) ?tmp" by (auto simp: is_temp_in_def)
  have op: "ts = [?t] \<and> node_at (dk_fs w) ?tmp = None" if "fs_create_new ?tmp (dk_fs w) = Ok (x, ts)" for x ts
    using that by (auto simp: fs_create_new_def split: if_splits)
  have off: "off_path ?tmp (dk_fs w) ?t" by (simp add: off_path_def)
  have I: "\<forall>t \<in> set ts. put_states p bs (dk_fs w) t" if "fs_create_new ?tmp (dk_fs w) = Ok (x, ts)" for x ts
    using op [OF that] off_path_put_states [OF off tmp] by auto
  have "run_ok (put_states p bs (dk_fs w)) (bind_p (fs_call (fs_create_new ?tmp)) (\<lambda>_. ret ?tmp)) w
     (\<lambda>r w'. disk.more w' = disk.more w \<and> dk_fault w' = dk_fault w \<and>
        (case r of Inl e \<Rightarrow> dk_fs w' = dk_fs w
         | Inr tmp \<Rightarrow> is_temp_in (butlast p) tmp \<and> node_at (dk_fs w) tmp = None \<and>
                      off_path tmp (dk_fs w) (dk_fs w') \<and> node_at (dk_fs w') tmp = Some (FileNode [])))"
    by (rule run_ok_seq [OF call_spec [OF I]], assumption)
      (use op off tmp in \<open>auto simp: call_post_def intro!: run_ok_ret\<close>)
  then show ?thesis by (simp add: temp_new_in_def run_ok_def Let_def)
qed

lemma fs_write_all_states:
  assumes "fs_write_all tmp bs t = Ok (x, ts)" and "node_at t tmp = Some (FileNode [])"
  shows "\<forall>s \<in> set ts. off_path tmp t s" and "node_at (last (t # ts)) tmp = Some (FileNode bs)"
    and "off_path tmp t (last (t # ts))"
proof -
  have ts: "ts = map (\<lambda>i. AList.update tmp (FileNode (take i bs)) t) [1 ..< Suc (length bs)]"
    using assms by (simp add: fs_write_all_def)
  show "\<forall>s \<in> set ts. off_path tmp t s" by (auto simp: ts off_path_def)
  then show "off_path tmp t (last (t # ts))"
    by (cases "ts = []") (auto simp: off_path_def)
  show "node_at (last (t # ts)) tmp = Some (FileNode bs)"
    using assms(2) by (cases "bs = []") (auto simp: ts last_map upt_Suc simp del: upt_Suc)
qed

text \<open>Writing, syncing and renaming the temporary file \<open>tmp\<close>, from a tree \<open>t\<close> plus the empty \<open>tmp\<close>.\<close>

definition put_body :: "path \<Rightarrow> path \<Rightarrow> bytes \<Rightarrow> ('z, unit) file_prog" where
  "put_body tmp final_path bs =
     bind_p (io_at final_path (fs_call (fs_write_all tmp bs))) (\<lambda>_.
     bind_p (io_at final_path (fs_call fs_sync)) (\<lambda>_.
     bind_p (io_at final_path (fs_call fs_sync)) (\<lambda>_.
     map_err Persist (fs_call (fs_rename tmp final_path)))))"

definition put_done :: "path \<Rightarrow> path \<Rightarrow> bytes \<Rightarrow> fs \<Rightarrow> fs \<Rightarrow> bool" where
  "put_done tmp p bs t s \<longleftrightarrow>
     (\<forall>q. node_at s q = (if q = p then Some (FileNode bs) else if q = tmp then None else node_at t q))"

lemma put_done_put_states:
  "put_done tmp p bs t s \<Longrightarrow> node_at t tmp = None \<Longrightarrow> put_states p bs t s"
  unfolding put_done_def put_states_def by metis

lemma sync_call: "run_ok I (fs_call fs_sync) w
    (\<lambda>r w'. disk.more w' = disk.more w \<and> dk_fault w' = dk_fault w \<and> dk_fs w' = dk_fs w)"
  by (rule run_ok_post [OF call_spec]) (auto simp: call_post_def fs_sync_def split: sum.splits)

lemma fsync_dir_spec: "run_ok I (fsync_dir p) w
    (\<lambda>r w'. disk.more w' = disk.more w \<and> dk_fault w' = dk_fault w \<and> dk_fs w' = dk_fs w)"
  unfolding fsync_dir_def
  by (rule run_ok_seq [OF call_spec])
    (auto simp: call_post_def fs_open_dir_def split: sum.splits if_splits intro!: run_ok_post [OF sync_call])

lemma sync_then:
  assumes "P w" and "\<And>u v. dk_fs v = dk_fs u \<Longrightarrow> disk.more v = disk.more u \<Longrightarrow> dk_fault v = dk_fault u \<Longrightarrow> P u \<Longrightarrow> P v"
    and "\<And>e v. P v \<Longrightarrow> Q (Inl (FileIo p e)) v" and "\<And>v. P v \<Longrightarrow> run_ok I m v Q"
  shows "run_ok I (bind_p (io_at p (fs_call fs_sync)) (\<lambda>_. m)) w Q"
  unfolding io_at_def
  by (rule run_ok_seq_err [OF sync_call]) (use assms in \<open>auto simp: io_err_def\<close>)

lemma put_body_spec:
  assumes "is_temp_in (butlast p) tmp" and "node_at t tmp = None"
    and "off_path tmp t (dk_fs w)" and "node_at (dk_fs w) tmp = Some (FileNode [])"
  shows "run_ok (put_states p bs t) (put_body tmp p bs) w
     (\<lambda>r w'. disk.more w' = disk.more w \<and> dk_fault w' = dk_fault w \<and>
        (case r of Inl e \<Rightarrow> off_path tmp t (dk_fs w') \<and> (\<forall>d e'. e \<noteq> FileIo d e' \<or> d = p)
         | Inr _ \<Rightarrow> put_done tmp p bs t (dk_fs w')))"
    (is "run_ok ?I _ w ?Q")
proof -
  have off_trans: "off_path tmp t s" if "off_path tmp (dk_fs w) s" for s
    using that assms(3) by (simp add: off_path_def)
  note states = fs_write_all_states [OF _ assms(4)]
  have I1: "\<forall>s \<in> set ts. ?I s" if "fs_write_all tmp bs (dk_fs w) = Ok (x, ts)" for x ts
    using states(1) [OF that] off_trans off_path_put_states [OF _ assms(1,2)] by blast
  have fail1: "?Q (Inl (FileIo p e)) w'" if "call_post (fs_write_all tmp bs) w (Inl e) w'" for e w'
    using that assms(3) states(1) off_trans by (auto simp: call_post_def dest: in_set_butlastD)
  let ?ready = "\<lambda>w'. disk.more w' = disk.more w \<and> dk_fault w' = dk_fault w \<and> off_path tmp t (dk_fs w') \<and>
    node_at (dk_fs w') tmp = Some (FileNode bs)"
  have ready1: "?ready w'" if "call_post (fs_write_all tmp bs) w (Inr x) w'" for x w'
    using that states(2,3) off_trans by (auto simp: call_post_def)
  have rename: "run_ok ?I (map_err Persist (fs_call (fs_rename tmp p))) w' ?Q" if r: "?ready w'" for w'
  proof -
    have op: "\<exists>s. ts = [s] \<and> put_done tmp p bs t s" if "fs_rename tmp p (dk_fs w') = Ok (x, ts)" for x ts
      using that r by (auto simp: fs_rename_def put_done_def off_path_def split: if_splits)
    have I: "\<forall>s \<in> set ts. ?I s" if "fs_rename tmp p (dk_fs w') = Ok (x, ts)" for x ts
      using op [OF that] put_done_put_states assms(2) by auto
    show ?thesis
      by (rule run_ok_map_err, rule run_ok_post [OF call_spec [OF I]], assumption)
        (use r op in \<open>fastforce simp: call_post_def split: sum.splits\<close>)
  qed
  have syncs: "run_ok ?I (bind_p (io_at p (fs_call fs_sync)) (\<lambda>_. m)) w' ?Q"
    if "?ready w'" and m: "\<And>v. ?ready v \<Longrightarrow> run_ok ?I m v ?Q" for m :: "('a, unit) file_prog" and w'
    by (rule sync_then [where P = ?ready]) (use that in auto)
  show ?thesis
    unfolding put_body_def io_at_def [of p "fs_call (fs_write_all tmp bs)"]
  proof (rule run_ok_seq_err [OF call_spec [OF I1]], goal_cases)
    case (3 x w')
    show ?case by (intro syncs ready1 [OF 3(2)] rename)
  qed (use fail1 in \<open>auto simp: io_err_def\<close>)
qed

text \<open>
  The contract of \<open>put_atomic\<close>: whatever fails and whenever the process dies, the target holds its old
  content or all the new bytes; success means the new bytes are there; and an error that names
  the target itself, or the rename, means the target is untouched.
\<close>

lemma temp_drop_spec:
  assumes "is_temp_in (butlast p) tmp" and "node_at t tmp = None" and "off_path tmp t (dk_fs w)"
  shows "run_ok (put_states p bs t) (temp_drop tmp) w
     (\<lambda>r w'. disk.more w' = disk.more w \<and> dk_fault w' = dk_fault w \<and> off_path tmp t (dk_fs w') \<and> r = Ok ())"
proof -
  have op: "\<forall>s \<in> set ts. off_path tmp t s" if "fs_remove_file tmp (dk_fs w) = Ok (x, ts)" for x ts
    using that assms(3) by (auto simp: fs_remove_file_def off_path_def split: option.splits node.splits)
  have I: "\<forall>s \<in> set ts. put_states p bs t s" if "fs_remove_file tmp (dk_fs w) = Ok (x, ts)" for x ts
    using op [OF that] off_path_put_states [OF _ assms(1,2)] by blast
  show ?thesis
    unfolding temp_drop_def
    by (rule run_ok_seq_attempt [OF call_spec [OF I]], assumption)
      (use op assms(3) in \<open>fastforce intro!: run_ok_ret simp: call_post_def split: sum.splits dest: in_set_butlastD\<close>)
qed

definition temps_only :: "path \<Rightarrow> fs \<Rightarrow> fs \<Rightarrow> bool" where
  "temps_only dir t s \<longleftrightarrow> (\<forall>q. node_at s q = node_at t q \<or> is_temp_in dir q \<and> node_at t q = None)"

lemma off_path_temps_only:
  "off_path tmp t s \<Longrightarrow> is_temp_in dir tmp \<Longrightarrow> node_at t tmp = None \<Longrightarrow> temps_only dir t s"
  unfolding off_path_def temps_only_def by metis

lemma put_states_refl [simp]: "put_states p bs t t"
  by (simp add: put_states_def)

lemma temps_only_refl [simp]: "temps_only dir t t"
  by (simp add: temps_only_def)

lemma temps_only_put_states: "temps_only (butlast p) t s \<Longrightarrow> put_states p bs t s"
  unfolding temps_only_def put_states_def by blast

lemma put_atomic_body:
  "put_atomic p bs =
     (if p = [] then fail (FileIo p IoInvalidInput)
      else bind_p (io_at (butlast p) (temp_new_in (butlast p))) (\<lambda>tmp.
           bind_p (or_drop tmp (put_body tmp p bs)) (\<lambda>_. io_at (butlast p) (fsync_dir (butlast p)))))"
  by (simp add: put_atomic_def put_body_def io_err_def Let_def)

lemma or_drop_put_spec:
  assumes "is_temp_in (butlast p) tmp" and "node_at t tmp = None"
    and "off_path tmp t (dk_fs w)" and "node_at (dk_fs w) tmp = Some (FileNode [])"
  shows "run_ok (put_states p bs t) (or_drop tmp (put_body tmp p bs)) w
     (\<lambda>r w'. disk.more w' = disk.more w \<and> dk_fault w' = dk_fault w \<and>
        (case r of Inl e \<Rightarrow> temps_only (butlast p) t (dk_fs w') \<and> (\<forall>d e'. e \<noteq> FileIo d e' \<or> d = p)
         | Inr _ \<Rightarrow> put_done tmp p bs t (dk_fs w')))"
    (is "run_ok ?I _ w ?Q")
  unfolding or_drop_def
proof (rule run_ok_seq_attempt [OF put_body_spec [OF assms]])
  fix r :: "(file_error, unit) result" and v
  assume post: "disk.more v = disk.more w \<and> dk_fault v = dk_fault w \<and>
        (case r of Inl e \<Rightarrow> off_path tmp t (dk_fs v) \<and> (\<forall>d e'. e \<noteq> FileIo d e' \<or> d = p)
         | Inr _ \<Rightarrow> put_done tmp p bs t (dk_fs v))"
  show "run_ok ?I (case r of Inl e \<Rightarrow> bind_p (temp_drop tmp) (\<lambda>_. fail e) | Inr x \<Rightarrow> ret x) v ?Q"
  proof (cases r)
    case (Inl e)
    have "off_path tmp t (dk_fs v)" using post Inl by simp
    from temp_drop_spec [OF assms(1,2) this] show ?thesis
      unfolding Inl sum.case
      by (rule run_ok_seq) (use post Inl off_path_temps_only [OF _ assms(1,2)] in \<open>auto intro!: run_ok_fail\<close>)
  qed (use post in \<open>auto intro!: run_ok_ret\<close>)
qed

lemma put_atomic_spec:
  "run_ok (put_states p bs (dk_fs w)) (put_atomic p bs) w
     (\<lambda>r w'. disk.more w' = disk.more w \<and> dk_fault w' = dk_fault w \<and> put_states p bs (dk_fs w) (dk_fs w') \<and>
        (r = Ok () \<longrightarrow> node_at (dk_fs w') p = Some (FileNode bs)) \<and>
        ((\<exists>e. r = Err (FileIo p e) \<or> r = Err (Persist e)) \<longrightarrow> temps_only (butlast p) (dk_fs w) (dk_fs w')))"
    (is "run_ok ?I _ w ?Q")
proof (cases "p = []")
  case True
  then show ?thesis by (auto simp: put_atomic_body intro!: run_ok_fail)
next
  case False
  then have parent: "butlast p \<noteq> p" by (metis append_butlast_last_id append_self_conv not_Cons_self2)
  have sync: "run_ok ?I (io_at (butlast p) (fsync_dir (butlast p))) v ?Q"
    if v: "disk.more v = disk.more w" "dk_fault v = dk_fault w" "put_done tmp p bs (dk_fs w) (dk_fs v)"
      "node_at (dk_fs w) tmp = None" for v tmp
    unfolding io_at_def io_err_def
    by (rule run_ok_map_err, rule run_ok_post [OF fsync_dir_spec])
      (use v parent put_done_put_states [OF v(3,4)] in \<open>auto simp: put_done_def split: sum.splits\<close>)
  have body: "run_ok ?I (bind_p (or_drop tmp (put_body tmp p bs)) (\<lambda>_. io_at (butlast p) (fsync_dir (butlast p)))) v ?Q"
    if v: "disk.more v = disk.more w" "dk_fault v = dk_fault w" "is_temp_in (butlast p) tmp"
      "node_at (dk_fs w) tmp = None" "off_path tmp (dk_fs w) (dk_fs v)" "node_at (dk_fs v) tmp = Some (FileNode [])"
    for v tmp
    by (rule run_ok_seq [OF or_drop_put_spec [OF v(3-6)]])
      (use v sync [OF _ _ _ v(4)] temps_only_put_states in auto)
  show ?thesis
    unfolding put_atomic_body if_not_P [OF False] io_at_def [of "butlast p" "temp_new_in (butlast p)"]
    by (rule run_ok_seq_err [OF temp_new_in_spec]) (use body parent in \<open>auto simp: io_err_def\<close>)
qed

lemma extension_matches_iff:
  "extension_matches name ext \<longleftrightarrow>
     (\<exists>stem tail. name = stem @ CHR ''.'' # tail \<and> eq_ignore_ascii_case tail ext)"
proof
  assume m: "extension_matches name ext"
  define k where "k = length name - (length ext + 1)"
  have len: "k < length name" using m by (auto simp: extension_matches_def k_def Let_def split: if_splits)
  have "drop k name = name ! k # drop (Suc k) name" using len by (rule Cons_nth_drop_Suc [symmetric])
  then have "name = take k name @ CHR ''.'' # drop (Suc k) name"
    using m append_take_drop_id [of k name] by (auto simp: extension_matches_def k_def Let_def split: if_splits)
  moreover have "eq_ignore_ascii_case (drop (Suc k) name) ext"
    using m by (auto simp: extension_matches_def k_def Let_def drop_drop [symmetric] split: if_splits)
  ultimately show "\<exists>stem tail. name = stem @ CHR ''.'' # tail \<and> eq_ignore_ascii_case tail ext" by blast
next
  assume "\<exists>stem tail. name = stem @ CHR ''.'' # tail \<and> eq_ignore_ascii_case tail ext"
  then obtain stem tail where n: "name = stem @ CHR ''.'' # tail" and t: "eq_ignore_ascii_case tail ext" by blast
  have "length tail = length ext" using t by (metis eq_ignore_ascii_case_def length_map)
  then show "extension_matches name ext" using n t by (simp add: extension_matches_def Let_def)
qed

section \<open>Properties\<close>

text \<open>
  C23.  Atomic writes: whichever calls fail and at whatever point the process dies, every state of
  the tree on the way holds at the target either its old node or a file with all the new bytes,
  and differs elsewhere only by temporary files that did not exist before.  Success means the new
  bytes are in place; an error that names the target, or the rename, means the target is untouched.
\<close>

theorem put_atomic_is_atomic:
  assumes "\<not> is_temp_in (butlast p) p" and "put_atomic p bs w = (r, w')"
  shows "(\<exists>ts. dk_trace w' = dk_trace w @ ts \<and>
            (\<forall>t \<in> set ts. node_at t p \<in> {node_at (dk_fs w) p, Some (FileNode bs)} \<and>
              (\<forall>q. q \<noteq> p \<longrightarrow> node_at t q = node_at (dk_fs w) q \<or>
                 is_temp_in (butlast p) q \<and> node_at (dk_fs w) q = None))) \<and>
         (r = Ok () \<longrightarrow> node_at (dk_fs w') p = Some (FileNode bs)) \<and>
         (\<forall>e. r = Err (FileIo p e) \<or> r = Err (Persist e) \<longrightarrow> node_at (dk_fs w') p = node_at (dk_fs w) p)"
proof -
  note spec = run_okD [OF put_atomic_spec assms(2)]
  obtain ts where "dk_trace w' = dk_trace w @ ts" and "\<forall>t \<in> set ts. put_states p bs (dk_fs w) t"
    using spec(1) by (auto simp: passes_def)
  moreover have "node_at t p \<in> {node_at (dk_fs w) p, Some (FileNode bs)} \<and>
      (\<forall>q. q \<noteq> p \<longrightarrow> node_at t q = node_at (dk_fs w) q \<or>
         is_temp_in (butlast p) q \<and> node_at (dk_fs w) q = None)" if "put_states p bs (dk_fs w) t" for t
    using that assms(1) unfolding put_states_def by (metis insertCI)
  moreover have "node_at (dk_fs w') p = node_at (dk_fs w) p"
    if "r = Err (FileIo p e) \<or> r = Err (Persist e)" for e
    using that spec(2) assms(1) unfolding temps_only_def by blast
  ultimately show ?thesis using spec(2) by blast
qed

definition demo_disk :: disk where
  "demo_disk =
     \<lparr>dk_fs = [([], DirNode), ([''a''], FileNode [1])], dk_trace = [], dk_clock = 0,
      dk_fault = (\<lambda>n. if n = 5 then Some (IoOther 5, 0) else None), dk_rand = (\<lambda>_. ''x'')\<rparr>"

theorem put_atomic_is_atomic_witness:
  "node_at (dk_fs (snd (put_atomic [''a''] [2, 3] (demo_disk\<lparr>dk_fault := \<lambda>_. None\<rparr>)))) [''a''] = Some (FileNode [2, 3])"
proof -
  let ?w = "demo_disk\<lparr>dk_fault := \<lambda>_. None\<rparr>"
  have ok: "fst (put_atomic [''a''] [2, 3] ?w) = Ok ()" by code_simp
  have "\<not> is_temp_in (butlast [''a'']) [''a'']" by (simp add: is_temp_in_def temp_path_def)
  from put_atomic_is_atomic [OF this surjective_pairing] ok show ?thesis by blast
qed

text \<open>
  An error of \<open>put_atomic\<close> does not mean that the target is unchanged: when the sync of the parent
  directory fails, the call reports an I/O error on the parent and the new bytes are already in place.
\<close>

lemma put_atomic_error_after_rename:
  "\<exists>w :: disk. fst (put_atomic [''a''] [2] w) = Err (FileIo [] (IoOther 5)) \<and>
     node_at (dk_fs w) [''a''] = Some (FileNode [1]) \<and>
     node_at (dk_fs (snd (put_atomic [''a''] [2] w))) [''a''] = Some (FileNode [2])"
proof (intro exI [of _ demo_disk] conjI)
  show "fst (put_atomic [''a''] [2] demo_disk) = Err (FileIo [] (IoOther 5))" by code_simp
  show "node_at (dk_fs demo_disk) [''a''] = Some (FileNode [1])" by code_simp
  show "node_at (dk_fs (snd (put_atomic [''a''] [2] demo_disk))) [''a''] = Some (FileNode [2])" by code_simp
qed

end
