(* ===== verification/Schema.thy ===== *)
theory Schema
  imports Fs_Atomic Job_Registry
begin

text \<open>
  \<^verbatim>\<open>file_mgr/schema.rs\<close> and \<^verbatim>\<open>file_mgr/cache.rs\<close>: where the metadata files live, how each is read with its
  cap and validator and rewritten atomically, and the per-workspace cache cell.  The JSON codec is
  serde's and appears as the parameter \<open>sj\<close>; what the code relies on is \<open>serde_ok\<close>: parsing what was
  serialised gives it back.  The duration samples the writers report to the metrics registry are
  left out.
\<close>

section \<open>Path layout\<close>

definition workspace_core_path :: "path \<Rightarrow> path" where
  "workspace_core_path workspace_dir = workspace_dir @ [''workspace.json'']"

definition head_index_path :: "path \<Rightarrow> path" where
  "head_index_path workspace_dir = workspace_dir @ [''heads.json'']"

definition heads_dir :: "path \<Rightarrow> path" where
  "heads_dir workspace_dir = workspace_dir @ [''heads'']"

definition head_manifest_path :: "path \<Rightarrow> head_id \<Rightarrow> path" where
  "head_manifest_path workspace_dir h = heads_dir workspace_dir @ [h @ ''.json'']"

definition head_artifact_path :: "path \<Rightarrow> head_id \<Rightarrow> path" where
  "head_artifact_path workspace_dir h = heads_dir workspace_dir @ [h @ ''.mpk'']"

definition workspaces_dir :: "path \<Rightarrow> path" where
  "workspaces_dir root = root @ [''workspaces'']"

definition workspace_dir_for :: "path \<Rightarrow> workspace_id \<Rightarrow> path" where
  "workspace_dir_for root ws = workspaces_dir root @ [ws]"

definition root_tmp_dir :: "path \<Rightarrow> path" where
  "root_tmp_dir root = root @ [''.tmp'']"

definition active_dir :: "path \<Rightarrow> path" where
  "active_dir root = root @ [''active'']"

definition active_current_path :: "path \<Rightarrow> path" where
  "active_current_path root = active_dir root @ [''current.json'']"

definition active_generations_dir :: "path \<Rightarrow> path" where
  "active_generations_dir root = active_dir root @ [''generations'']"

definition active_generation_dir :: "path \<Rightarrow> string \<Rightarrow> path" where
  "active_generation_dir root activation_id = active_generations_dir root @ [activation_id]"

definition active_staging_dir :: "path \<Rightarrow> path" where
  "active_staging_dir root = active_dir root @ [''.tmp'']"

definition active_manifest_filename :: string where "active_manifest_filename = ''manifest.json''"
definition active_head_filename :: string where "active_head_filename = ''head.mpk''"
definition active_labels_filename :: string where "active_labels_filename = ''labels.txt''"

definition max_workspace_core_bytes :: nat where
  "max_workspace_core_bytes = 64 * 1024"

lemmas layout_defs =
  workspace_core_path_def head_index_path_def heads_dir_def head_manifest_path_def head_artifact_path_def
  workspaces_dir_def workspace_dir_for_def root_tmp_dir_def active_dir_def active_current_path_def
  active_generations_dir_def active_generation_dir_def active_staging_dir_def

section \<open>The JSON codec\<close>

record active_current_pointer =
  ap_activation_id :: string

record serde =
  sj_core_to_vec :: "workspace_core \<Rightarrow> (string, bytes) result"
  sj_core_from_slice :: "bytes \<Rightarrow> (string, workspace_core) result"
  sj_index_to_vec :: "head_index \<Rightarrow> (string, bytes) result"
  sj_index_from_slice :: "bytes \<Rightarrow> (string, head_index) result"
  sj_head_to_vec :: "head_manifest \<Rightarrow> (string, bytes) result"
  sj_head_from_slice :: "bytes \<Rightarrow> (string, head_manifest) result"
  sj_active_to_vec :: "active_head_manifest \<Rightarrow> (string, bytes) result"
  sj_active_from_slice :: "bytes \<Rightarrow> (string, active_head_manifest) result"
  sj_pointer_to_vec :: "active_current_pointer \<Rightarrow> (string, bytes) result"
  sj_pointer_from_slice :: "bytes \<Rightarrow> (string, active_current_pointer) result"

definition codec_ok :: "('a \<Rightarrow> (string, bytes) result) \<Rightarrow> (bytes \<Rightarrow> (string, 'a) result) \<Rightarrow> bool" where
  "codec_ok enc dec \<longleftrightarrow> (\<forall>x b. enc x = Ok b \<longrightarrow> dec b = Ok x)"

definition serde_ok :: "serde \<Rightarrow> bool" where
  "serde_ok sj \<longleftrightarrow>
     codec_ok (sj_core_to_vec sj) (sj_core_from_slice sj) \<and>
     codec_ok (sj_index_to_vec sj) (sj_index_from_slice sj) \<and>
     codec_ok (sj_head_to_vec sj) (sj_head_from_slice sj) \<and>
     codec_ok (sj_active_to_vec sj) (sj_active_from_slice sj) \<and>
     codec_ok (sj_pointer_to_vec sj) (sj_pointer_from_slice sj)"

text \<open>\<open>serde_json::to_vec\<close> with the question mark: a failure is \<open>MetadataSerialize\<close>.\<close>

definition to_vec :: "('a \<Rightarrow> (string, bytes) result) \<Rightarrow> 'a \<Rightarrow> ('z, bytes) file_prog" where
  "to_vec enc x = lift_result (case enc x of Inl e \<Rightarrow> Err (MetadataSerialize e) | Inr b \<Rightarrow> Ok b)"

definition from_slice :: "path \<Rightarrow> (bytes \<Rightarrow> (string, 'a) result) \<Rightarrow> bytes \<Rightarrow> ('z, 'a) file_prog" where
  "from_slice p dec b = lift_result (case dec b of Inl e \<Rightarrow> Err (metadata_parse_err p e) | Inr x \<Rightarrow> Ok x)"

section \<open>Activation ids and the active pointer\<close>

definition activation_byte_ok :: "char \<Rightarrow> bool" where
  "activation_byte_ok b \<longleftrightarrow> asset_byte_ok b"

definition validate_activation_id :: "string \<Rightarrow> (activation_id_error, unit) result" where
  "validate_activation_id s =
     (if s = [] then Err ActivationEmpty
      else if length s > 64 then Err (ActivationTooLong (length s))
      else if hd s = CHR ''.'' then Err ActivationLeadingDot
      else case first_bad (\<lambda>_. activation_byte_ok) 0 s of
          Some (i, b) \<Rightarrow> Err (ActivationBadByte i b)
        | None \<Rightarrow> Ok ())"

text \<open>The derived deserialiser runs the validator on the field and reports a custom error.\<close>

definition deserialize_pointer :: "serde \<Rightarrow> bytes \<Rightarrow> (string, active_current_pointer) result" where
  "deserialize_pointer sj b =
     and_then (sj_pointer_from_slice sj b) (\<lambda>p.
       case validate_activation_id (ap_activation_id p) of
         Inl _ \<Rightarrow> Err ''invalid activation_id'' | Inr _ \<Rightarrow> Ok p)"

definition read_active_current :: "serde \<Rightarrow> path \<Rightarrow> ('z, active_current_pointer) file_prog" where
  "read_active_current sj root =
     (let p = active_current_path root in
      bind_p (io_at p (fs_call (fs_read p))) (\<lambda>bs. from_slice p (deserialize_pointer sj) bs))"

definition write_active_current :: "serde \<Rightarrow> path \<Rightarrow> active_current_pointer \<Rightarrow> ('z, unit) file_prog" where
  "write_active_current sj root pointer =
     bind_p (to_vec (sj_pointer_to_vec sj) pointer) (\<lambda>bs. put_atomic (active_current_path root) bs)"

definition check_activation_id :: "string \<Rightarrow> ('z, unit) file_prog" where
  "check_activation_id activation_id =
     lift_result (case validate_activation_id activation_id of
       Inl e \<Rightarrow> Err (InvalidName (NameActivation e)) | Inr _ \<Rightarrow> Ok ())"

definition read_active_manifest :: "serde \<Rightarrow> path \<Rightarrow> string \<Rightarrow> ('z, active_head_manifest) file_prog" where
  "read_active_manifest sj root activation_id =
     bind_p (check_activation_id activation_id) (\<lambda>_.
     let p = active_generation_dir root activation_id @ [active_manifest_filename] in
     bind_p (io_at p (fs_call (fs_read p))) (\<lambda>bs. from_slice p (sj_active_from_slice sj) bs))"

definition write_active_manifest ::
  "serde \<Rightarrow> path \<Rightarrow> string \<Rightarrow> active_head_manifest \<Rightarrow> ('z, unit) file_prog"
where
  "write_active_manifest sj root activation_id manifest =
     bind_p (check_activation_id activation_id) (\<lambda>_.
     bind_p (to_vec (sj_active_to_vec sj) manifest) (\<lambda>bs.
     put_atomic (active_generation_dir root activation_id @ [active_manifest_filename]) bs))"

section \<open>Workspace core, head index and head manifests\<close>

definition node_len :: "node \<Rightarrow> nat" where
  "node_len n = (case n of FileNode b \<Rightarrow> length b | DirNode \<Rightarrow> 0)"

definition read_capped :: "path \<Rightarrow> nat \<Rightarrow> ('z, bytes) file_prog" where
  "read_capped p cap =
     bind_p (io_at p (fs_call (fs_stat p))) (\<lambda>_.
     bind_p (io_at p (fs_call (fs_stat p))) (\<lambda>n.
     if node_len n > cap then fail (MetadataTooLarge p (node_len n) cap)
     else bind_p (io_at p (fs_call (fs_read p))) (\<lambda>bs. ret (take cap bs))))"

definition read_workspace_core :: "serde \<Rightarrow> path \<Rightarrow> ('z, workspace_core) file_prog" where
  "read_workspace_core sj workspace_dir =
     (let p = workspace_core_path workspace_dir in
      bind_p (read_capped p max_workspace_core_bytes) (\<lambda>bs. from_slice p (sj_core_from_slice sj) bs))"

definition write_workspace_core :: "serde \<Rightarrow> path \<Rightarrow> workspace_core \<Rightarrow> ('z, unit) file_prog" where
  "write_workspace_core sj workspace_dir core =
     (let p = workspace_core_path workspace_dir in
      bind_p (to_vec (sj_core_to_vec sj) core) (\<lambda>bs.
      if length bs > max_workspace_core_bytes
      then fail (MetadataTooLarge p (length bs) max_workspace_core_bytes)
      else put_atomic p bs))"

definition read_head_index :: "serde \<Rightarrow> path \<Rightarrow> ('z, head_index) file_prog" where
  "read_head_index sj workspace_dir =
     (let p = head_index_path workspace_dir in
      bind_p (io_at p (fs_call (fs_read p))) (\<lambda>bs.
      bind_p (from_slice p (sj_index_from_slice sj) bs) (\<lambda>index.
      if length (hi_heads index) > max_heads_per_workspace
      then fail (metadata_parse_err p ''too many heads'')
      else ret index)))"

definition write_head_index :: "serde \<Rightarrow> path \<Rightarrow> head_index \<Rightarrow> ('z, unit) file_prog" where
  "write_head_index sj workspace_dir index =
     (let p = head_index_path workspace_dir in
      if length (hi_heads index) > max_heads_per_workspace
      then fail (metadata_parse_err p ''too many heads'')
      else bind_p (to_vec (sj_index_to_vec sj) index) (\<lambda>bs. put_atomic p bs))"

definition read_head_manifest :: "serde \<Rightarrow> path \<Rightarrow> head_id \<Rightarrow> ('z, head_manifest) file_prog" where
  "read_head_manifest sj workspace_dir h =
     (let p = head_manifest_path workspace_dir h in
      bind_p (io_at p (fs_call (fs_read p))) (\<lambda>bs.
      bind_p (from_slice p (sj_head_from_slice sj) bs) (\<lambda>manifest.
      case head_manifest_validate manifest of
        Inl _ \<Rightarrow> fail (metadata_parse_err p ''HeadManifest validation'')
      | Inr _ \<Rightarrow> ret manifest)))"

definition write_head_manifest :: "serde \<Rightarrow> path \<Rightarrow> head_manifest \<Rightarrow> ('z, unit) file_prog" where
  "write_head_manifest sj workspace_dir manifest =
     bind_p (to_vec (sj_head_to_vec sj) manifest) (\<lambda>bs.
     put_atomic (head_manifest_path workspace_dir (hm_head_id manifest)) bs)"

section \<open>The workspace manager's state and the cache cells\<close>

record workspace_cache_cell =
  cc_core :: workspace_core
  cc_heads :: head_index

text \<open>
  The manager: the disk, its root, one cell per workspace (readers load the two snapshots of a cell
  independently; the ghost \<open>mg_cells_seen\<close> lists every value a cell took), and the job registry.
  Functions that take a cell by reference take the workspace id that names it.
\<close>

record manager = disk +
  mg_root :: path
  mg_caches :: "(workspace_id \<times> workspace_cache_cell) list"
  mg_cells_seen :: "(workspace_id \<times> workspace_cache_cell) list"
  mg_jobs :: "unit job_registry"

definition cell_at :: "manager \<Rightarrow> workspace_id \<Rightarrow> workspace_cache_cell option" where
  "cell_at w ws = map_of (mg_caches w) ws"

definition set_cell :: "workspace_id \<Rightarrow> workspace_cache_cell \<Rightarrow> manager \<Rightarrow> manager" where
  "set_cell ws c w = w\<lparr>mg_caches := AList.update ws c (mg_caches w), mg_cells_seen := mg_cells_seen w @ [(ws, c)]\<rparr>"

definition cache_load_from_disk :: "serde \<Rightarrow> path \<Rightarrow> ('z, workspace_cache_cell) file_prog" where
  "cache_load_from_disk sj workspace_dir =
     bind_p (read_workspace_core sj workspace_dir) (\<lambda>core.
     bind_p (read_head_index sj workspace_dir) (\<lambda>heads.
     ret \<lparr>cc_core = core, cc_heads = heads\<rparr>))"

definition cache_core :: "workspace_id \<Rightarrow> manager \<Rightarrow> workspace_core option" where
  "cache_core ws w = map_option cc_core (cell_at w ws)"

definition cache_heads :: "workspace_id \<Rightarrow> manager \<Rightarrow> head_index" where
  "cache_heads ws w = (case cell_at w ws of None \<Rightarrow> \<lparr>hi_heads = []\<rparr> | Some c \<Rightarrow> cc_heads c)"

definition publish_core :: "workspace_id \<Rightarrow> workspace_core \<Rightarrow> manager \<Rightarrow> manager" where
  "publish_core ws core w = (case cell_at w ws of None \<Rightarrow> w | Some c \<Rightarrow> set_cell ws (c\<lparr>cc_core := core\<rparr>) w)"

definition publish_heads :: "workspace_id \<Rightarrow> head_index \<Rightarrow> manager \<Rightarrow> manager" where
  "publish_heads ws heads w = (case cell_at w ws of None \<Rightarrow> w | Some c \<Rightarrow> set_cell ws (c\<lparr>cc_heads := heads\<rparr>) w)"

text \<open>\<open>cache_cell_for_head_delete\<close>: the resident cell, or one loaded from disk and kept.\<close>

definition cache_cell_for_head_delete ::
  "serde \<Rightarrow> workspace_id \<Rightarrow> (manager, file_error, workspace_cache_cell) prog"
where
  "cache_cell_for_head_delete sj ws w =
     (case cell_at w ws of
        Some c \<Rightarrow> (Ok c, w)
      | None \<Rightarrow>
          bind_p (cache_load_from_disk sj (workspace_dir_for (mg_root w) ws))
            (\<lambda>c w'. (Ok c, set_cell ws c w')) w)"

section \<open>What the readers and writers do\<close>

text \<open>A file's decoded content; nodes outside a set are kept.\<close>

definition file_value :: "(bytes \<Rightarrow> (string, 'a) result) \<Rightarrow> fs \<Rightarrow> path \<Rightarrow> 'a option" where
  "file_value dec t p =
     (case node_at t p of
        Some (FileNode b) \<Rightarrow> (case dec b of Inl _ \<Rightarrow> None | Inr x \<Rightarrow> Some x)
      | _ \<Rightarrow> None)"

definition keeps :: "path set \<Rightarrow> fs \<Rightarrow> fs \<Rightarrow> bool" where
  "keeps X t s \<longleftrightarrow> (\<forall>q n. q \<notin> X \<longrightarrow> node_at t q = Some n \<longrightarrow> node_at s q = Some n)"

lemma keeps_refl [simp]: "keeps X t t"
  by (simp add: keeps_def)

lemma keeps_trans: "keeps X t s \<Longrightarrow> keeps Y s u \<Longrightarrow> keeps (X \<union> Y) t u"
  by (simp add: keeps_def)

lemma keeps_mono: "keeps X t s \<Longrightarrow> X \<subseteq> Y \<Longrightarrow> keeps Y t s"
  by (auto simp: keeps_def)

lemma keeps_node: "keeps X t s \<Longrightarrow> q \<notin> X \<Longrightarrow> node_at t q = Some n \<Longrightarrow> node_at s q = Some n"
  by (simp add: keeps_def)

lemma keeps_file: "keeps X t s \<Longrightarrow> q \<notin> X \<Longrightarrow> is_file_at t q \<Longrightarrow> is_file_at s q"
  by (auto simp: keeps_def is_file_at_iff)

lemma file_value_Some:
  "file_value dec t p = Some x \<longleftrightarrow> (\<exists>b. node_at t p = Some (FileNode b) \<and> dec b = Ok x)"
  by (auto simp: file_value_def split: option.splits node.splits sum.splits)

lemma keeps_value: "keeps X t s \<Longrightarrow> p \<notin> X \<Longrightarrow> file_value dec t p = Some x \<Longrightarrow> file_value dec s p = Some x"
  by (auto simp: file_value_Some dest: keeps_node)

lemma put_states_keeps: "put_states p bs t s \<Longrightarrow> keeps {p} t s"
  unfolding put_states_def keeps_def by (metis insertI1 option.distinct(1))

definition value_states :: "(bytes \<Rightarrow> (string, 'a) result) \<Rightarrow> path \<Rightarrow> 'a \<Rightarrow> fs \<Rightarrow> fs \<Rightarrow> bool" where
  "value_states dec p x t s \<longleftrightarrow>
     keeps {p} t s \<and>
     (\<not> is_temp_in (butlast p) p \<longrightarrow> node_at s p = node_at t p \<or> file_value dec s p = Some x)"

lemma put_value_spec1:
  assumes "\<And>b. enc x = Ok b \<Longrightarrow> dec b = Ok x"
  shows "run_ok (value_states dec p x (dk_fs w)) (bind_p (to_vec enc x) (\<lambda>bs. put_atomic p bs)) w
     (\<lambda>r w'. disk.more w' = disk.more w \<and> dk_fault w' = dk_fault w \<and> value_states dec p x (dk_fs w) (dk_fs w') \<and>
        (r = Ok () \<longrightarrow> file_value dec (dk_fs w') p = Some x))"
    (is "run_ok ?I _ w ?Q")
proof (cases "enc x")
  case (Inl e)
  then show ?thesis
    unfolding to_vec_def by (intro run_ok_bind run_ok_lift) (simp add: value_states_def)
next
  case (Inr bs)
  then have dec: "dec bs = Ok x" by (rule assms)
  have states: "?I s" if "put_states p bs (dk_fs w) s" for s
    using that put_states_keeps [OF that] dec
    unfolding value_states_def put_states_def file_value_Some by metis
  have "run_ok ?I (put_atomic p bs) w ?Q"
    by (rule run_ok_weaken [OF put_atomic_spec]) (use states dec in \<open>auto simp: file_value_Some\<close>)
  then show ?thesis unfolding to_vec_def by (intro run_ok_bind run_ok_lift) (simp add: Inr)
qed

lemma put_value_spec:
  assumes "codec_ok enc dec"
  shows "run_ok (value_states dec p x (dk_fs w)) (bind_p (to_vec enc x) (\<lambda>bs. put_atomic p bs)) w
     (\<lambda>r w'. disk.more w' = disk.more w \<and> dk_fault w' = dk_fault w \<and> value_states dec p x (dk_fs w) (dk_fs w') \<and>
        (r = Ok () \<longrightarrow> file_value dec (dk_fs w') p = Some x))"
  by (rule put_value_spec1) (use assms in \<open>simp add: codec_ok_def\<close>)

abbreviation core_on_disk :: "serde \<Rightarrow> path \<Rightarrow> fs \<Rightarrow> workspace_core option" where
  "core_on_disk sj d t \<equiv> file_value (sj_core_from_slice sj) t (workspace_core_path d)"

abbreviation index_on_disk :: "serde \<Rightarrow> path \<Rightarrow> fs \<Rightarrow> head_index option" where
  "index_on_disk sj d t \<equiv> file_value (sj_index_from_slice sj) t (head_index_path d)"

lemma write_workspace_core_spec:
  assumes "serde_ok sj"
  shows "run_ok (value_states (sj_core_from_slice sj) (workspace_core_path d) core (dk_fs w))
     (write_workspace_core sj d core) w
     (\<lambda>r w'. disk.more w' = disk.more w \<and> dk_fault w' = dk_fault w \<and>
        value_states (sj_core_from_slice sj) (workspace_core_path d) core (dk_fs w) (dk_fs w') \<and>
        (r = Ok () \<longrightarrow> core_on_disk sj d (dk_fs w') = Some core))"
    (is "run_ok ?I _ w ?Q")
proof -
  have put: "run_ok ?I (bind_p (to_vec (sj_core_to_vec sj) core) (\<lambda>bs. put_atomic (workspace_core_path d) bs)) w ?Q"
    by (rule put_value_spec) (use assms in \<open>simp add: serde_ok_def\<close>)
  show ?thesis
  proof (cases "sj_core_to_vec sj core")
    case (Inl e)
    then show ?thesis
      unfolding write_workspace_core_def to_vec_def Let_def
      by (intro run_ok_bind run_ok_lift) (simp add: value_states_def)
  next
    case (Inr bs)
    have "run_ok ?I (put_atomic (workspace_core_path d) bs) w ?Q"
      using put Inr by (simp add: run_ok_def bind_p_def to_vec_def lift_result_def)
    then show ?thesis
      unfolding write_workspace_core_def to_vec_def Let_def
      by (intro run_ok_bind run_ok_lift) (auto simp: Inr value_states_def intro!: run_ok_fail)
  qed
qed

lemma write_head_index_spec:
  assumes "serde_ok sj"
  shows "run_ok (value_states (sj_index_from_slice sj) (head_index_path d) idx (dk_fs w))
     (write_head_index sj d idx) w
     (\<lambda>r w'. disk.more w' = disk.more w \<and> dk_fault w' = dk_fault w \<and>
        value_states (sj_index_from_slice sj) (head_index_path d) idx (dk_fs w) (dk_fs w') \<and>
        (r = Ok () \<longrightarrow> index_on_disk sj d (dk_fs w') = Some idx \<and> length (hi_heads idx) \<le> 2))"
    (is "run_ok ?I _ w ?Q")
proof -
  have put: "run_ok ?I (bind_p (to_vec (sj_index_to_vec sj) idx) (\<lambda>bs. put_atomic (head_index_path d) bs)) w
      (\<lambda>r w'. disk.more w' = disk.more w \<and> dk_fault w' = dk_fault w \<and>
        value_states (sj_index_from_slice sj) (head_index_path d) idx (dk_fs w) (dk_fs w') \<and>
        (r = Ok () \<longrightarrow> index_on_disk sj d (dk_fs w') = Some idx))"
    by (rule put_value_spec) (use assms in \<open>simp add: serde_ok_def\<close>)
  show ?thesis
    unfolding write_head_index_def Let_def
    by (rule run_ok_if; (rule run_ok_fail | rule run_ok_post [OF put]))
      (auto simp: value_states_def max_heads_per_workspace_def)
qed

text \<open>Reading never changes the tree, and what it returns is what the files hold.\<close>

definition unchanged :: "'z disk_scheme \<Rightarrow> 'z disk_scheme \<Rightarrow> bool" where
  "unchanged w w' \<longleftrightarrow> disk.more w' = disk.more w \<and> dk_fault w' = dk_fault w \<and> dk_fs w' = dk_fs w"

lemma unchanged_refl [simp]: "unchanged w w"
  by (simp add: unchanged_def)

lemma unchanged_trans: "unchanged u v \<Longrightarrow> unchanged v w \<Longrightarrow> unchanged u w"
  by (simp add: unchanged_def)

lemma run_ok_test:
  assumes "\<And>t x ts. op t = Ok (x, ts) \<Longrightarrow> ts = []"
    and "\<And>b v. unchanged w v \<Longrightarrow> (b \<Longrightarrow> op (dk_fs w) = Ok (True, [])) \<Longrightarrow> run_ok I (f b) v Q"
  shows "run_ok I (bind_p (fs_test op) f) w Q"
proof (rule run_ok_step [OF test_spec [OF assms(1)]], assumption, assumption)
  fix b v
  assume "disk.more v = disk.more w \<and> dk_fault v = dk_fault w \<and> dk_fs v = dk_fs w \<and>
      (Inr b = Ok False \<or> (\<exists>x. Inr b = Ok x \<and> op (dk_fs w) = Ok (x, [])))"
  then have "unchanged w v" and "b \<Longrightarrow> op (dk_fs w) = Ok (True, [])" by (auto simp: unchanged_def)
  then show "run_ok I (f b) v Q" by (rule assms(2))
qed simp

lemma exists_pure: "fs_exists p t = Ok (x, ts) \<Longrightarrow> ts = []"
  by (simp add: fs_exists_def)

lemma is_file_pure: "fs_is_file p t = Ok (x, ts) \<Longrightarrow> ts = []"
  by (simp add: fs_is_file_def)

lemma is_dir_pure: "fs_is_dir p t = Ok (x, ts) \<Longrightarrow> ts = []"
  by (simp add: fs_is_dir_def)

lemma run_ok_exists:
  assumes "\<And>b v. unchanged w v \<Longrightarrow> (b \<Longrightarrow> node_at (dk_fs w) p \<noteq> None) \<Longrightarrow> run_ok I (f b) v Q"
  shows "run_ok I (bind_p (fs_test (fs_exists p)) f) w Q"
  by (rule run_ok_test, erule exists_pure) (use assms in \<open>auto simp: fs_exists_def\<close>)

lemma run_ok_is_file:
  assumes "\<And>b v. unchanged w v \<Longrightarrow> (b \<Longrightarrow> is_file_at (dk_fs w) p) \<Longrightarrow> run_ok I (f b) v Q"
  shows "run_ok I (bind_p (fs_test (fs_is_file p)) f) w Q"
  by (rule run_ok_test, erule is_file_pure) (use assms in \<open>auto simp: fs_is_file_def\<close>)

lemma run_ok_is_dir:
  assumes "\<And>b v. unchanged w v \<Longrightarrow> (b \<Longrightarrow> is_dir_at (dk_fs w) p) \<Longrightarrow> run_ok I (f b) v Q"
  shows "run_ok I (bind_p (fs_test (fs_is_dir p)) f) w Q"
  by (rule run_ok_test, erule is_dir_pure) (use assms in \<open>auto simp: fs_is_dir_def is_dir_at_def\<close>)

lemma pure_call:
  assumes "\<And>t x ts. op t = Ok (x, ts) \<Longrightarrow> ts = []"
  shows "run_ok I (fs_call op) w
     (\<lambda>r w'. unchanged w w' \<and>
        (case r of Inr x \<Rightarrow> op (dk_fs w) = Ok (x, [])
         | Inl e \<Rightarrow> (\<exists>k. dk_fault w (dk_clock w) = Some (e, k)) \<or> op (dk_fs w) = Err e))"
  by (rule run_ok_post [OF call_spec])
    (use assms in \<open>fastforce simp: call_post_def unchanged_def split: sum.splits\<close>)+

lemma stat_pure: "fs_stat p t = Ok (x, ts) \<Longrightarrow> ts = []"
  by (auto simp: fs_stat_def split: option.splits)

lemma read_pure: "fs_read p t = Ok (x, ts) \<Longrightarrow> ts = []"
  by (auto simp: fs_read_def split: option.splits node.splits)

lemma read_dir_pure: "fs_read_dir p t = Ok (x, ts) \<Longrightarrow> ts = []"
  by (auto simp: fs_read_dir_def split: option.splits node.splits)

lemma fs_read_Ok: "fs_read p t = Ok (b, []) \<longleftrightarrow> node_at t p = Some (FileNode b)"
  by (auto simp: fs_read_def split: option.splits node.splits)

lemma read_capped_spec:
  "run_ok I (read_capped p cap) w
     (\<lambda>r w'. unchanged w w' \<and> (\<forall>b. r = Ok b \<longrightarrow> node_at (dk_fs w) p = Some (FileNode b) \<and> length b \<le> cap))"
    (is "run_ok I _ w ?Q")
proof -
  have last: "run_ok I (bind_p (io_at p (fs_call (fs_read p))) (\<lambda>bs. ret (take cap bs))) v ?Q"
    if "unchanged w v" and "node_at (dk_fs w) p = Some n" "node_len n \<le> cap" for v n
    unfolding io_at_def
    by (rule run_ok_seq_err [OF pure_call [OF read_pure]])
      (use that in \<open>auto simp: fs_read_Ok unchanged_def node_len_def intro!: run_ok_ret\<close>)
  have mid: "run_ok I (bind_p (io_at p (fs_call (fs_stat p))) (\<lambda>n.
     if node_len n > cap then fail (MetadataTooLarge p (node_len n) cap)
     else bind_p (io_at p (fs_call (fs_read p))) (\<lambda>bs. ret (take cap bs)))) v ?Q"
    if "unchanged w v" for v
    unfolding io_at_def [of p "fs_call (fs_stat p)"]
    by (rule run_ok_seq_err [OF pure_call [OF stat_pure]], assumption)
      (use that last unchanged_trans [OF that] in
        \<open>auto simp: fs_stat_def unchanged_def split: option.splits intro!: run_ok_if run_ok_fail last\<close>)
  show ?thesis
    unfolding read_capped_def io_at_def [of p "fs_call (fs_stat p)"]
    by (rule run_ok_seq_err [OF pure_call [OF stat_pure]], assumption)
      (use mid in \<open>auto simp: io_at_def\<close>)
qed

lemma from_slice_spec:
  "run_ok I (from_slice p dec b) w (\<lambda>r w'. w' = w \<and> (\<forall>x. r = Ok x \<longrightarrow> dec b = Ok x))"
  unfolding from_slice_def by (rule run_ok_lift) (auto split: sum.splits)

lemma read_workspace_core_spec:
  "run_ok I (read_workspace_core sj d) w
     (\<lambda>r w'. unchanged w w' \<and> (\<forall>core. r = Ok core \<longrightarrow> core_on_disk sj d (dk_fs w) = Some core))"
  unfolding read_workspace_core_def Let_def
  by (rule run_ok_seq [OF read_capped_spec], simp, rule run_ok_post [OF from_slice_spec])
    (auto simp: file_value_Some)

lemma read_head_index_spec:
  "run_ok I (read_head_index sj d) w
     (\<lambda>r w'. unchanged w w' \<and>
        (\<forall>idx. r = Ok idx \<longrightarrow> index_on_disk sj d (dk_fs w) = Some idx \<and> length (hi_heads idx) \<le> 2))"
    (is "run_ok I _ w ?Q")
proof -
  let ?p = "head_index_path d"
  have "run_ok I (bind_p (from_slice ?p (sj_index_from_slice sj) bs) (\<lambda>index.
      if length (hi_heads index) > max_heads_per_workspace
      then fail (metadata_parse_err ?p ''too many heads'') else ret index)) v ?Q"
    if "unchanged w v" "node_at (dk_fs w) ?p = Some (FileNode bs)" for v bs
    by (rule run_ok_seq [OF from_slice_spec])
      (use that in \<open>auto simp: file_value_Some max_heads_per_workspace_def intro!: run_ok_if run_ok_fail run_ok_ret\<close>)
  then show ?thesis
    unfolding read_head_index_def Let_def io_at_def
    by (intro run_ok_seq_err [OF pure_call [OF read_pure]]) (auto simp: fs_read_Ok)
qed

lemma read_head_manifest_spec:
  "run_ok I (read_head_manifest sj d h) w
     (\<lambda>r w'. unchanged w w' \<and>
        (\<forall>m. r = Ok m \<longrightarrow> file_value (sj_head_from_slice sj) (dk_fs w) (head_manifest_path d h) = Some m \<and>
                        head_manifest_validate m = Ok ()))"
    (is "run_ok I _ w ?Q")
proof -
  let ?p = "head_manifest_path d h"
  have "run_ok I (bind_p (from_slice ?p (sj_head_from_slice sj) bs) (\<lambda>manifest.
      case head_manifest_validate manifest of
        Inl _ \<Rightarrow> fail (metadata_parse_err ?p ''HeadManifest validation'') | Inr _ \<Rightarrow> ret manifest)) v ?Q"
    if "unchanged w v" "node_at (dk_fs w) ?p = Some (FileNode bs)" for v bs
    by (rule run_ok_seq [OF from_slice_spec])
      (use that in \<open>auto simp: file_value_Some split: sum.splits intro!: run_ok_fail run_ok_ret\<close>)
  then show ?thesis
    unfolding read_head_manifest_def Let_def io_at_def
    by (intro run_ok_seq_err [OF pure_call [OF read_pure]]) (auto simp: fs_read_Ok)
qed

lemma read_active_manifest_spec:
  "run_ok I (read_active_manifest sj root a) w
     (\<lambda>r w'. unchanged w w' \<and>
        (\<forall>m. r = Ok m \<longrightarrow> file_value (sj_active_from_slice sj) (dk_fs w)
                           (active_generation_dir root a @ [active_manifest_filename]) = Some m))"
    (is "run_ok I _ w ?Q")
proof -
  let ?p = "active_generation_dir root a @ [active_manifest_filename]"
  have "run_ok I (bind_p (io_at ?p (fs_call (fs_read ?p))) (\<lambda>bs. from_slice ?p (sj_active_from_slice sj) bs)) w ?Q"
    unfolding io_at_def
    by (rule run_ok_seq_err [OF pure_call [OF read_pure]], assumption)
      (auto simp: fs_read_Ok file_value_Some intro!: run_ok_post [OF from_slice_spec])
  then show ?thesis
    unfolding read_active_manifest_def check_activation_id_def Let_def
    by (intro run_ok_bind run_ok_lift) (auto split: sum.splits)
qed

lemma read_active_current_spec:
  "run_ok I (read_active_current sj root) w
     (\<lambda>r w'. unchanged w w' \<and>
        (\<forall>p. r = Ok p \<longrightarrow> file_value (deserialize_pointer sj) (dk_fs w) (active_current_path root) = Some p) \<and>
        (\<forall>e. r = Err e \<longrightarrow> (\<exists>k io. dk_fault w (dk_clock w) = Some (io, k) \<and> e = FileIo (active_current_path root) io) \<or>
             file_value (deserialize_pointer sj) (dk_fs w) (active_current_path root) = None))"
    (is "run_ok I _ w ?Q")
proof -
  let ?p = "active_current_path root"
  have none: "file_value (deserialize_pointer sj) t ?p = None" if "fs_read ?p t = Err e" for t e
    using that by (auto simp: fs_read_def file_value_def split: option.splits node.splits)
  have slice: "run_ok I (from_slice ?p (deserialize_pointer sj) bs) v ?Q"
    if "unchanged w v" "node_at (dk_fs w) ?p = Some (FileNode bs)" for v bs
    unfolding from_slice_def
    by (rule run_ok_lift) (use that in \<open>auto simp: file_value_def split: sum.splits\<close>)
  show ?thesis
    unfolding read_active_current_def Let_def io_at_def
    by (rule run_ok_seq_err [OF pure_call [OF read_pure]], assumption)
      (use none slice in \<open>auto simp: fs_read_Ok io_err_def\<close>)
qed

section \<open>Concrete runs\<close>

text \<open>A codec given by its table, for runs on concrete values.\<close>

definition book_enc :: "('a \<times> bytes) list \<Rightarrow> 'a \<Rightarrow> (string, bytes) result" where
  "book_enc tbl x = (case map_of tbl x of Some b \<Rightarrow> Ok b | None \<Rightarrow> Err ''unknown'')"

definition book_dec :: "('a \<times> bytes) list \<Rightarrow> bytes \<Rightarrow> (string, 'a) result" where
  "book_dec tbl b = (case map_of (map prod.swap tbl) b of Some x \<Rightarrow> Ok x | None \<Rightarrow> Err ''unknown'')"

lemma book_codec_ok:
  assumes "distinct (map snd tbl)"
  shows "codec_ok (book_enc tbl) (book_dec tbl)"
proof -
  have "book_dec tbl b = Ok x" if "book_enc tbl x = Ok b" for x b
  proof -
    have "(x, b) \<in> set tbl" using that by (auto simp: book_enc_def split: option.splits dest: map_of_SomeD)
    then have "(b, x) \<in> set (map prod.swap tbl)" by force
    moreover have "distinct (map fst (map prod.swap tbl))" using assms by (simp add: comp_def)
    ultimately show ?thesis by (simp add: book_dec_def)
  qed
  then show ?thesis by (simp add: codec_ok_def)
qed

text \<open>The definitions the simplifier unfolds to run an operation on a concrete tree.\<close>

lemmas run_defs =
  bind_p_def ret_def fail_def map_err_def attempt_def lift_result_def fs_call_def fs_test_def visit_def tick_def
  io_at_def io_err_def temp_new_in_def temp_drop_def or_drop_def temp_path_def put_atomic_def fsync_dir_def
  fs_read_def fs_exists_def fs_is_file_def is_file_at_def fs_is_dir_def fs_stat_def fs_create_new_def fs_write_all_def
  fs_sync_def fs_open_dir_def fs_remove_file_def fs_create_dir_all_def fs_rename_def to_vec_def from_slice_def
  read_capped_def node_len_def read_workspace_core_def write_workspace_core_def read_head_index_def write_head_index_def
  max_workspace_core_bytes_def max_heads_per_workspace_def node_at_def Let_def
  layout_defs butlast_append

end
