(* ===== verification/Head_Rotation.thy ===== *)
theory Head_Rotation
  imports Schema
begin

text \<open>
  \<^verbatim>\<open>file_mgr/head_rotation.rs\<close>: publishing a trained head into a workspace's two-slot index and deleting
  one.  The per-workspace mutex is held for the whole of either operation, so each is one program
  over the manager's state.  Log output is left out.  The phases that publish and delete share
  (committing an index, unlinking a head's files) are definitions of their own.
\<close>

record pending_head =
  ph_head_id :: head_id
  ph_mpk_tempfile :: path
  ph_manifest :: head_manifest

record head_rotation_result =
  rr_displaced_head_id :: "head_id option"

definition gets :: "('s \<Rightarrow> 'a) \<Rightarrow> ('s, 'e, 'a) prog" where
  "gets f s = (Ok (f s), s)"

definition modify :: "('s \<Rightarrow> 's) \<Rightarrow> ('s, 'e, unit) prog" where
  "modify f s = (Ok (), f s)"

definition remove_best_effort :: "path \<Rightarrow> ('z, unit) file_prog" where
  "remove_best_effort p = bind_p (attempt (fs_call (fs_remove_file p))) (\<lambda>_. ret ())"

text \<open>Steps 9 and 10: unlink both files of a head and sync the directory, ignoring failures.\<close>

definition remove_head_files :: "path \<Rightarrow> head_id \<Rightarrow> ('z, unit) file_prog" where
  "remove_head_files workspace_dir h =
     bind_p (remove_best_effort (head_artifact_path workspace_dir h)) (\<lambda>_.
     bind_p (remove_best_effort (head_manifest_path workspace_dir h)) (\<lambda>_.
     bind_p (attempt (fsync_dir (heads_dir workspace_dir))) (\<lambda>_. ret ())))"

text \<open>Steps 1, 5 and 6: the manifest, the weights, the directory sync.\<close>

definition stage_head_files :: "serde \<Rightarrow> path \<Rightarrow> pending_head \<Rightarrow> ('z, unit) file_prog" where
  "stage_head_files sj workspace_dir pending =
     (let heads = heads_dir workspace_dir;
          manifest_path = head_manifest_path workspace_dir (ph_head_id pending);
          mpk_path = head_artifact_path workspace_dir (ph_head_id pending) in
      bind_p (io_at heads (fs_call (fs_create_dir_all heads))) (\<lambda>_.
      bind_p (bind_p (to_vec (sj_head_to_vec sj) (ph_manifest pending)) (\<lambda>bs. put_atomic manifest_path bs)) (\<lambda>_.
      bind_p (io_at mpk_path (fs_call (fs_rename (ph_mpk_tempfile pending) mpk_path))) (\<lambda>_.
      io_at heads (fsync_dir heads)))))"

text \<open>Steps 3 and 4: prepend the new record; what falls out of the window is displaced.\<close>

definition head_record_of :: "head_manifest \<Rightarrow> head_record" where
  "head_record_of m =
     \<lparr>hr_head_id = hm_head_id m, hr_workspace_revision = hm_workspace_revision m, hr_sha256 = hm_sha256 m,
      hr_n_classes = hm_n_classes m, hr_size_bytes = hm_size_bytes m, hr_created_at = hm_created_at m\<rparr>"

definition rotate_index :: "head_manifest \<Rightarrow> head_index \<Rightarrow> head_index \<times> head_id option" where
  "rotate_index m prev =
     (let next_records = head_record_of m # hi_heads prev in
      if length next_records > max_heads_per_workspace
      then (\<lparr>hi_heads = take max_heads_per_workspace next_records\<rparr>,
            (case drop max_heads_per_workspace next_records of [] \<Rightarrow> None | r # _ \<Rightarrow> Some (hr_head_id r)))
      else (\<lparr>hi_heads = next_records\<rparr>, None))"

text \<open>
  Steps 7 and 8: rewrite \<open>heads.json\<close> (the publish point), then \<open>workspace.json\<close> with the head count (a
  \<open>u8\<close>), then the cache cell: heads first, core second.
\<close>

definition commit_index :: "serde \<Rightarrow> path \<Rightarrow> workspace_id \<Rightarrow> head_index \<Rightarrow> (manager, file_error, unit) prog" where
  "commit_index sj workspace_dir ws next_index =
     bind_p (write_head_index sj workspace_dir next_index) (\<lambda>_.
     bind_p (read_workspace_core sj workspace_dir) (\<lambda>core.
     let next_core = core\<lparr>wc_head_count := length (hi_heads next_index) mod 256\<rparr> in
     bind_p (write_workspace_core sj workspace_dir next_core) (\<lambda>_.
     bind_p (modify (publish_heads ws next_index)) (\<lambda>_.
     modify (publish_core ws next_core)))))"

definition publish_trained_head ::
  "serde \<Rightarrow> path \<Rightarrow> workspace_id \<Rightarrow> pending_head \<Rightarrow> (manager, file_error, head_rotation_result) prog"
where
  "publish_trained_head sj workspace_dir ws pending =
     (if hm_head_id (ph_manifest pending) \<noteq> ph_head_id pending
      then fail (io_err workspace_dir IoInvalidInput)
      else bind_p (fs_test (fs_is_file (ph_mpk_tempfile pending))) (\<lambda>staged.
        if \<not> staged then fail (io_err (ph_mpk_tempfile pending) IoNotFound)
        else bind_p (stage_head_files sj workspace_dir pending) (\<lambda>_.
          bind_p (gets (cache_heads ws)) (\<lambda>prev_heads.
          let (next_index, displaced) = rotate_index (ph_manifest pending) prev_heads in
          bind_p (commit_index sj workspace_dir ws next_index) (\<lambda>_.
          bind_p (case displaced of None \<Rightarrow> ret () | Some old \<Rightarrow> remove_head_files workspace_dir old) (\<lambda>_.
          ret \<lparr>rr_displaced_head_id = displaced\<rparr>))))))"

section \<open>The manager's operations\<close>

fun job_type_debug :: "job_type \<Rightarrow> string" where
  "job_type_debug Train = ''Train''"
| "job_type_debug Convert = ''Convert''"
| "job_type_debug DatasetDelete = ''DatasetDelete''"
| "job_type_debug ConverterDelete = ''ConverterDelete''"
| "job_type_debug TrainingLogsDelete = ''TrainingLogsDelete''"
| "job_type_debug ConverterLogsDelete = ''ConverterLogsDelete''"
| "job_type_debug WorkspaceDelete = ''WorkspaceDelete''"

fun conflict_to_file_error :: "registry_conflict \<Rightarrow> file_error" where
  "conflict_to_file_error AnotherTrainRunning = FileAnotherTrainRunning"
| "conflict_to_file_error (JobConflict j t) =
     FileJobConflict (''conflicts with running job '' @ j @ '' ('' @ job_type_debug t @ '')'')"

text \<open>A body that runs while a lease on one workspace is held; the guard releases it on every return.\<close>

definition with_workspace_lease ::
  "workspace_id \<Rightarrow> (manager, file_error, 'a) prog \<Rightarrow> (manager, file_error, 'a) prog"
where
  "with_workspace_lease ws body w =
     (case try_acquire_lease [RefWorkspace ws] (mg_jobs w) of
        (Inl c, jobs) \<Rightarrow> (Err (conflict_to_file_error c), w\<lparr>mg_jobs := jobs\<rparr>)
      | (Inr lease, jobs) \<Rightarrow>
          (case body (w\<lparr>mg_jobs := jobs\<rparr>) of
             (r, w') \<Rightarrow> (r, w'\<lparr>mg_jobs := release_lease lease (mg_jobs w')\<rparr>)))"

definition manager_workspace_dir :: "manager \<Rightarrow> workspace_id \<Rightarrow> path" where
  "manager_workspace_dir w ws = workspace_dir_for (mg_root w) ws"

definition delete_head_body :: "serde \<Rightarrow> path \<Rightarrow> workspace_id \<Rightarrow> head_id \<Rightarrow> (manager, file_error, unit) prog" where
  "delete_head_body sj workspace_dir ws h =
     bind_p (cache_cell_for_head_delete sj ws) (\<lambda>cell.
     let prev = hi_heads (cc_heads cell);
         next_records = filter (\<lambda>r. hr_head_id r \<noteq> h) prev in
     if \<not> list_ex (\<lambda>r. hr_head_id r = h) prev then fail (AssetNotFound ws HeadMpk (h @ ''.mpk''))
     else bind_p (commit_index sj workspace_dir ws \<lparr>hi_heads = next_records\<rparr>) (\<lambda>_.
       remove_head_files workspace_dir h))"

definition delete_head :: "serde \<Rightarrow> workspace_id \<Rightarrow> head_id \<Rightarrow> (manager, file_error, unit) prog" where
  "delete_head sj ws h w =
     (let workspace_dir = manager_workspace_dir w ws in
      bind_p (fs_test (fs_exists (workspace_core_path workspace_dir))) (\<lambda>present.
      if \<not> present then fail (FileNotFound ws)
      else with_workspace_lease ws (delete_head_body sj workspace_dir ws h)) w)"

definition publish_trained_head_for_workspace ::
  "serde \<Rightarrow> workspace_id \<Rightarrow> pending_head \<Rightarrow> (manager, file_error, head_rotation_result) prog"
where
  "publish_trained_head_for_workspace sj ws pending w =
     (let workspace_dir = manager_workspace_dir w ws in
      bind_p (fs_test (fs_exists (workspace_core_path workspace_dir))) (\<lambda>present.
      if \<not> present then fail (FileNotFound ws)
      else bind_p (cache_cell_for_head_delete sj ws) (\<lambda>_. publish_trained_head sj workspace_dir ws pending)) w)"

section \<open>Soundness of an index\<close>

text \<open>An index is sound in a tree when it lists at most two heads, each once, and each has both files.\<close>

definition head_backed :: "path \<Rightarrow> fs \<Rightarrow> head_id \<Rightarrow> bool" where
  "head_backed d t h \<longleftrightarrow> is_file_at t (head_artifact_path d h) \<and> is_file_at t (head_manifest_path d h)"

definition index_ids :: "head_index \<Rightarrow> head_id list" where
  "index_ids idx = map hr_head_id (hi_heads idx)"

definition sound_index :: "path \<Rightarrow> fs \<Rightarrow> head_index \<Rightarrow> bool" where
  "sound_index d t idx \<longleftrightarrow>
     length (hi_heads idx) \<le> 2 \<and> distinct (index_ids idx) \<and> (\<forall>h \<in> set (index_ids idx). head_backed d t h)"

definition heads_sound :: "serde \<Rightarrow> path \<Rightarrow> fs \<Rightarrow> bool" where
  "heads_sound sj d t \<longleftrightarrow> (case index_on_disk sj d t of None \<Rightarrow> False | Some idx \<Rightarrow> sound_index d t idx)"

lemma heads_sound_iff: "heads_sound sj d t \<longleftrightarrow> (\<exists>idx. index_on_disk sj d t = Some idx \<and> sound_index d t idx)"
  by (simp add: heads_sound_def split: option.splits)

lemma suffix_clash: "h @ ''.mpk'' \<noteq> h' @ ''.json''"
proof
  assume "h @ ''.mpk'' = h' @ ''.json''"
  then have "last (h @ ''.mpk'') = last (h' @ ''.json'')" by (rule arg_cong)
  then show False by simp
qed

lemma head_paths [simp]:
  "head_artifact_path d h = head_artifact_path d h' \<longleftrightarrow> h = h'"
  "head_manifest_path d h = head_manifest_path d h' \<longleftrightarrow> h = h'"
  "head_artifact_path d h \<noteq> head_manifest_path d h'"
  "head_manifest_path d h \<noteq> head_artifact_path d h'"
  "head_artifact_path d h \<noteq> head_index_path d" "head_index_path d \<noteq> head_artifact_path d h"
  "head_manifest_path d h \<noteq> head_index_path d" "head_index_path d \<noteq> head_manifest_path d h"
  "head_artifact_path d h \<noteq> workspace_core_path d" "head_manifest_path d h \<noteq> workspace_core_path d"
  "workspace_core_path d \<noteq> head_artifact_path d h" "workspace_core_path d \<noteq> head_manifest_path d h"
  "head_index_path d \<noteq> workspace_core_path d" "workspace_core_path d \<noteq> head_index_path d"
  by (auto simp: layout_defs suffix_clash suffix_clash [symmetric])

lemma not_temp [simp]: "\<not> is_temp_in (butlast (head_index_path d)) (head_index_path d)"
  "\<not> is_temp_in (butlast (workspace_core_path d)) (workspace_core_path d)"
  by (simp_all add: is_temp_in_def temp_path_def layout_defs butlast_append)

text \<open>An index stays sound while no file of its heads is touched.\<close>

lemma sound_index_keeps:
  assumes "sound_index d t idx" and "keeps X t s"
    and "\<And>h. h \<in> set (index_ids idx) \<Longrightarrow> head_artifact_path d h \<notin> X \<and> head_manifest_path d h \<notin> X"
  shows "sound_index d s idx"
  using assms keeps_file [OF assms(2)] by (auto simp: sound_index_def head_backed_def)

lemma heads_sound_keeps:
  assumes "heads_sound sj d t" and "keeps X t s" and "head_index_path d \<notin> X"
    and "\<And>h idx. index_on_disk sj d t = Some idx \<Longrightarrow> h \<in> set (index_ids idx) \<Longrightarrow>
           head_artifact_path d h \<notin> X \<and> head_manifest_path d h \<notin> X"
  shows "heads_sound sj d s"
proof -
  obtain idx where idx: "index_on_disk sj d t = Some idx" "sound_index d t idx"
    using assms(1) by (auto simp: heads_sound_iff)
  then show ?thesis
    using keeps_value [OF assms(2,3) idx(1)] sound_index_keeps [OF idx(2) assms(2) assms(4) [OF idx(1)]]
    by (auto simp: heads_sound_iff)
qed

end
