(* ===== verification/Rotation_Properties.thy ===== *)
theory Rotation_Properties
  imports Head_Rotation
begin

text \<open>
  Crash safety of the head rotation: through any sequence of publishes and deletes, with any calls
  failing and the process killed at any point, \<open>heads.json\<close> parses to at most two distinct heads and
  every one of them has its weights and its manifest; and what a completed operation leaves on disk
  and in the cache.
\<close>

section \<open>The phases\<close>

lemma manager_same:
  assumes "disk.more w' = disk.more (w :: manager)"
  shows "mg_root w' = mg_root w" "mg_caches w' = mg_caches w" "mg_cells_seen w' = mg_cells_seen w"
    "mg_jobs w' = mg_jobs w" "cell_at w' ws = cell_at w ws" "cache_heads ws w' = cache_heads ws w"
  using assms by (cases w; cases w'; simp add: cell_at_def cache_heads_def)+

lemma run_ok_gets: "Q (Ok (f w)) w \<Longrightarrow> run_ok I (gets f) w Q"
  by (simp add: run_ok_def gets_def)

lemma run_ok_modify:
  "dk_fs (f w) = dk_fs w \<Longrightarrow> dk_trace (f w) = dk_trace w \<Longrightarrow> dk_fault (f w) = dk_fault w \<Longrightarrow>
     dk_rand (f w) = dk_rand w \<Longrightarrow> Q (Ok ()) (f w) \<Longrightarrow> run_ok I (modify f) w Q"
  by (simp add: run_ok_def modify_def passes_def)

lemma cell_fields [simp]:
  "dk_fs (set_cell ws c w) = dk_fs w" "dk_trace (set_cell ws c w) = dk_trace w"
  "dk_fault (set_cell ws c w) = dk_fault w" "dk_rand (set_cell ws c w) = dk_rand w"
  "mg_root (set_cell ws c w) = mg_root w" "mg_jobs (set_cell ws c w) = mg_jobs w"
  "mg_cells_seen (set_cell ws c w) = mg_cells_seen w @ [(ws, c)]"
  "cell_at (set_cell ws c w) ws' = (if ws' = ws then Some c else cell_at w ws')"
  by (simp_all add: set_cell_def cell_at_def AList.update_conv)

lemma publish_fields [simp]:
  "dk_fs (publish_heads ws x w) = dk_fs w" "dk_trace (publish_heads ws x w) = dk_trace w"
  "dk_fault (publish_heads ws x w) = dk_fault w" "dk_rand (publish_heads ws x w) = dk_rand w"
  "dk_fs (publish_core ws y w) = dk_fs w" "dk_trace (publish_core ws y w) = dk_trace w"
  "dk_fault (publish_core ws y w) = dk_fault w" "dk_rand (publish_core ws y w) = dk_rand w"
  by (simp_all add: publish_heads_def publish_core_def split: option.splits)

lemma remove_file_states:
  assumes "fs_remove_file p t = Ok (x, ts)"
  shows "\<forall>s \<in> set ts. keeps {p} t s" and "keeps {p} t (last (t # ts))" and "s \<in> set (butlast ts) \<Longrightarrow> keeps {p} t s"
  using assms by (auto simp: fs_remove_file_def keeps_def split: option.splits node.splits)

lemma remove_best_effort_spec:
  "run_ok (keeps {p} (dk_fs w)) (remove_best_effort p) w
     (\<lambda>r w'. disk.more w' = disk.more w \<and> keeps {p} (dk_fs w) (dk_fs w') \<and> r = Ok ())"
  unfolding remove_best_effort_def
  by (rule run_ok_seq_attempt [OF call_spec], erule remove_file_states)
    (auto simp: call_post_def dest: remove_file_states split: sum.splits intro!: run_ok_ret)

lemma remove_head_files_spec:
  "run_ok (keeps {head_artifact_path d h, head_manifest_path d h} (dk_fs w)) (remove_head_files d h) w
     (\<lambda>r w'. disk.more w' = disk.more w \<and> r = Ok () \<and>
        keeps {head_artifact_path d h, head_manifest_path d h} (dk_fs w) (dk_fs w'))"
    (is "run_ok ?I _ w ?Q")
proof -
  let ?a = "head_artifact_path d h" and ?m = "head_manifest_path d h"
  have two: "keeps {?a, ?m} (dk_fs w) s" if "keeps {?a} (dk_fs w) t" "keeps {?m} t s" for s t
    using keeps_trans [OF that] by (simp add: insert_commute)
  have sync: "run_ok ?I (bind_p (attempt (fsync_dir (heads_dir d))) (\<lambda>_. ret ())) v ?Q"
    if "disk.more v = disk.more w" "?I (dk_fs v)" for v
    by (rule run_ok_seq_attempt [OF fsync_dir_spec]) (use that in \<open>auto intro!: run_ok_ret\<close>)
  have snd: "run_ok ?I (bind_p (remove_best_effort ?m) (\<lambda>_. bind_p (attempt (fsync_dir (heads_dir d))) (\<lambda>_. ret ()))) v ?Q"
    if v: "disk.more v = disk.more w" "keeps {?a} (dk_fs w) (dk_fs v)" for v
  proof (rule run_ok_step [OF remove_best_effort_spec])
    show "?I t" if "keeps {?m} (dk_fs v) t" for t using two v that by blast
  qed (use v two sync in auto)
  show ?thesis
    unfolding remove_head_files_def
  proof (rule run_ok_step [OF remove_best_effort_spec])
    show "?I t" if "keeps {?a} (dk_fs w) t" for t using that by (rule keeps_mono) simp
  qed (use snd in auto)
qed

text \<open>Committing an index whose heads all have their files keeps every state sound.\<close>

lemma value_states_sound:
  assumes "value_states (sj_index_from_slice sj) (head_index_path d) idx t s"
    and "heads_sound sj d t" and "sound_index d t idx"
  shows "heads_sound sj d s"
proof -
  have k: "keeps {head_index_path d} t s" using assms(1) by (simp add: value_states_def)
  consider "node_at s (head_index_path d) = node_at t (head_index_path d)" | "index_on_disk sj d s = Some idx"
    using assms(1) by (auto simp: value_states_def)
  then show ?thesis
  proof cases
    case 1
    then have "index_on_disk sj d s = index_on_disk sj d t" by (simp add: file_value_def)
    moreover have "sound_index d s i" if "sound_index d t i" for i
      using that k by (rule sound_index_keeps) simp
    ultimately show ?thesis using assms(2) by (auto simp: heads_sound_iff)
  next
    case 2
    moreover have "sound_index d s idx" using assms(3) k by (rule sound_index_keeps) simp
    ultimately show ?thesis by (auto simp: heads_sound_iff)
  qed
qed

lemma core_states_keep:
  assumes "value_states dec (workspace_core_path d) core t s"
  shows "keeps {head_index_path d, workspace_core_path d} t s" and "keeps {workspace_core_path d} t s"
  using assms keeps_mono by (fastforce simp: value_states_def)+

lemma core_states_sound:
  assumes "value_states dec (workspace_core_path d) core t s" and "heads_sound sj d t"
  shows "heads_sound sj d s"
  using assms(2) core_states_keep(2) [OF assms(1)] by (rule heads_sound_keeps) auto

definition committed :: "serde \<Rightarrow> path \<Rightarrow> workspace_id \<Rightarrow> head_index \<Rightarrow> manager \<Rightarrow> manager \<Rightarrow> bool" where
  "committed sj d ws idx w w' \<longleftrightarrow>
     index_on_disk sj d (dk_fs w') = Some idx \<and> mg_root w' = mg_root w \<and> mg_jobs w' = mg_jobs w \<and>
     (\<exists>core. core_on_disk sj d (dk_fs w') = Some core \<and> wc_head_count core = length (hi_heads idx) \<and>
        (\<forall>c. cell_at w ws = Some c \<longrightarrow>
           cell_at w' ws = Some \<lparr>cc_core = core, cc_heads = idx\<rparr> \<and>
           mg_cells_seen w' = mg_cells_seen w @
             [(ws, c\<lparr>cc_heads := idx\<rparr>), (ws, \<lparr>cc_core = core, cc_heads = idx\<rparr>)]))"

lemma commit_index_spec:
  assumes "serde_ok sj" and "heads_sound sj d (dk_fs w)" and "sound_index d (dk_fs w) idx"
  shows "run_ok (heads_sound sj d) (commit_index sj d ws idx) w
     (\<lambda>r w'. heads_sound sj d (dk_fs w') \<and> keeps {head_index_path d, workspace_core_path d} (dk_fs w) (dk_fs w') \<and>
        (case r of Inl _ \<Rightarrow> disk.more w' = disk.more w | Inr _ \<Rightarrow> committed sj d ws idx w w'))"
    (is "run_ok ?I _ w ?Q")
proof -
  let ?K = "keeps {head_index_path d, workspace_core_path d}"
  have len: "length (hi_heads idx) mod 256 = length (hi_heads idx)"
    using assms(3) by (simp add: sound_index_def)
  let ?ready = "\<lambda>v. disk.more v = disk.more w \<and> heads_sound sj d (dk_fs v) \<and> ?K (dk_fs w) (dk_fs v) \<and>
    index_on_disk sj d (dk_fs v) = Some idx"
  have publish: "run_ok ?I (bind_p (modify (publish_heads ws idx)) (\<lambda>_. modify (publish_core ws core))) v ?Q"
    if v: "?ready v" "core_on_disk sj d (dk_fs v) = Some core" "wc_head_count core = length (hi_heads idx)" for v core
    by (intro run_ok_bind run_ok_modify, simp_all, intro run_ok_modify)
      (use v manager_same [of v w] in \<open>auto simp: committed_def publish_heads_def publish_core_def split: option.splits\<close>)
  have write_core: "run_ok ?I (bind_p (write_workspace_core sj d core) (\<lambda>_.
      bind_p (modify (publish_heads ws idx)) (\<lambda>_. modify (publish_core ws core)))) v ?Q"
    if v: "?ready v" and n: "wc_head_count core = length (hi_heads idx)" for v core
  proof (rule run_ok_step [OF write_workspace_core_spec [OF assms(1)]])
    let ?V = "value_states (sj_core_from_slice sj) (workspace_core_path d) core (dk_fs v)"
    show "?I t" if "?V t" for t using core_states_sound [OF that] v by blast
    have after: "?ready w'" if p: "disk.more w' = disk.more v" "?V (dk_fs w')" for w'
    proof -
      have "?K (dk_fs w) (dk_fs v)" using v by blast
      then have "?K (dk_fs w) (dk_fs w')" using keeps_trans [OF _ core_states_keep(1) [OF p(2)]] by fastforce
      moreover have "index_on_disk sj d (dk_fs w') = Some idx"
        by (rule keeps_value [OF core_states_keep(2) [OF p(2)]]) (use v in auto)
      ultimately show ?thesis using p v core_states_sound [OF p(2)] by auto
    qed
    fix x and w' :: manager
    show "?Q (Inl e) w'" if "disk.more w' = disk.more v \<and> dk_fault w' = dk_fault v \<and> ?V (dk_fs w') \<and>
        (Inl e = Ok () \<longrightarrow> core_on_disk sj d (dk_fs w') = Some core)" for e
      using that after [of w'] by simp
    show "run_ok ?I (bind_p (modify (publish_heads ws idx)) (\<lambda>_. modify (publish_core ws core))) w' ?Q"
      if "disk.more w' = disk.more v \<and> dk_fault w' = dk_fault v \<and> ?V (dk_fs w') \<and>
        (Inr x = Ok () \<longrightarrow> core_on_disk sj d (dk_fs w') = Some core)"
      by (rule publish) (use that after [of w'] n in auto)
  qed
  have read_core: "run_ok ?I (bind_p (read_workspace_core sj d) (\<lambda>core.
     let next_core = core\<lparr>wc_head_count := length (hi_heads idx) mod 256\<rparr> in
     bind_p (write_workspace_core sj d next_core) (\<lambda>_.
     bind_p (modify (publish_heads ws idx)) (\<lambda>_. modify (publish_core ws next_core))))) v ?Q"
    if v: "?ready v" for v
    by (rule run_ok_step [OF read_workspace_core_spec], assumption)
      (use v write_core len in \<open>auto simp: Let_def unchanged_def\<close>)
  let ?V = "value_states (sj_index_from_slice sj) (head_index_path d) idx (dk_fs w)"
  have after: "heads_sound sj d t \<and> ?K (dk_fs w) t" if "?V t" for t
  proof -
    have "keeps {head_index_path d} (dk_fs w) t" using that by (simp add: value_states_def)
    then have "?K (dk_fs w) t" by (rule keeps_mono) simp
    then show ?thesis using value_states_sound [OF that assms(2,3)] by blast
  qed
  show ?thesis
    unfolding commit_index_def
    by (rule run_ok_step [OF write_head_index_spec [OF assms(1)]]) (use read_core after in auto)
qed

text \<open>Staging touches the new head's two files and the temporary file only.\<close>

lemma create_dir_all_keeps:
  assumes "fs_create_dir_all p t = Ok (x, ts)" and "s \<in> set ts"
  shows "keeps {} t s"
proof -
  have "s \<in> set (mkdir_steps (prefixes p) t)" using assms by (auto simp: fs_create_dir_all_def split: if_splits)
  then have "node_at s q = node_at t q \<or> node_at t q = None" for q using mkdir_steps_only by metis
  then show ?thesis unfolding keeps_def by (metis option.distinct(1))
qed

lemma call_post_keeps:
  assumes "call_post op w r w'" and "\<And>x ts s. op (dk_fs w) = Ok (x, ts) \<Longrightarrow> s \<in> set ts \<Longrightarrow> keeps X (dk_fs w) s"
  shows "keeps X (dk_fs w) (dk_fs w')"
proof (cases r)
  case (Inl e)
  then show ?thesis using assms by (fastforce simp: call_post_def dest: in_set_butlastD)
next
  case (Inr x)
  then obtain ts where "op (dk_fs w) = Ok (x, ts)" "dk_fs w' = last (dk_fs w # ts)"
    using assms(1) by (auto simp: call_post_def)
  then show ?thesis using assms(2) by (cases "ts = []") auto
qed

lemma call_keeps:
  assumes "\<And>x ts s. op (dk_fs w) = Ok (x, ts) \<Longrightarrow> s \<in> set ts \<Longrightarrow> keeps X (dk_fs w) s"
  shows "run_ok (keeps X (dk_fs w)) (fs_call op) w
     (\<lambda>r w'. disk.more w' = disk.more w \<and> dk_fault w' = dk_fault w \<and> keeps X (dk_fs w) (dk_fs w') \<and>
        (\<forall>x. r = Ok x \<longrightarrow> (\<exists>ts. op (dk_fs w) = Ok (x, ts) \<and> dk_fs w' = last (dk_fs w # ts))))"
proof (rule run_ok_post [OF call_spec])
  fix r and w' :: "'b disk_scheme"
  assume p: "call_post op w r w'"
  have "keeps X (dk_fs w) (dk_fs w')" by (rule call_post_keeps [OF p assms])
  then show "disk.more w' = disk.more w \<and> dk_fault w' = dk_fault w \<and> keeps X (dk_fs w) (dk_fs w') \<and>
        (\<forall>x. r = Ok x \<longrightarrow> (\<exists>ts. op (dk_fs w) = Ok (x, ts) \<and> dk_fs w' = last (dk_fs w # ts)))"
    using p unfolding call_post_def by (cases r) simp_all
qed (use assms in blast)

lemma rename_file_keeps:
  assumes "fs_rename src dst t = Ok (x, ts)" and "is_file_at t src" and "s \<in> set ts"
  shows "keeps {src, dst} t s" and "node_at s dst = node_at t src"
  using assms by (auto simp: fs_rename_def is_file_at_iff keeps_def split: if_splits)

abbreviation new_head_paths :: "path \<Rightarrow> pending_head \<Rightarrow> path set" where
  "new_head_paths d pending \<equiv>
     {head_artifact_path d (ph_head_id pending), head_manifest_path d (ph_head_id pending), ph_mpk_tempfile pending}"

lemma stage_head_files_spec:
  assumes "serde_ok sj" and "is_file_at (dk_fs w) (ph_mpk_tempfile pending)"
    and tmp: "ph_mpk_tempfile pending = d @ [''.tmp'', name]"
  shows "run_ok (keeps (new_head_paths d pending) (dk_fs w)) (stage_head_files sj d pending) w
     (\<lambda>r w'. disk.more w' = disk.more w \<and> keeps (new_head_paths d pending) (dk_fs w) (dk_fs w') \<and>
        (r = Ok () \<longrightarrow> head_backed d (dk_fs w') (ph_head_id pending)))"
    (is "run_ok ?I _ w ?Q")
proof -
  let ?h = "ph_head_id pending" and ?tmp = "ph_mpk_tempfile pending"
  let ?mpk = "head_artifact_path d ?h" and ?man = "head_manifest_path d ?h"
  have paths: "?tmp \<noteq> ?mpk" "?tmp \<noteq> ?man" "?mpk \<noteq> ?tmp" "?man \<noteq> ?tmp" by (auto simp: tmp layout_defs)
  have sync: "run_ok ?I (io_at (heads_dir d) (fsync_dir (heads_dir d))) v ?Q"
    if "disk.more v = disk.more w" "?I (dk_fs v)" "head_backed d (dk_fs v) ?h" for v
    unfolding io_at_def
    by (rule run_ok_map_err, rule run_ok_post [OF fsync_dir_spec]) (use that in \<open>auto split: sum.splits\<close>)
  have rename: "run_ok ?I (bind_p (io_at ?mpk (fs_call (fs_rename ?tmp ?mpk))) (\<lambda>_.
      io_at (heads_dir d) (fsync_dir (heads_dir d)))) v ?Q"
    if v: "disk.more v = disk.more w" "keeps {?man} (dk_fs w) (dk_fs v)" "is_file_at (dk_fs v) ?man" for v
  proof -
    have src: "is_file_at (dk_fs v) ?tmp" using keeps_file [OF v(2)] paths assms(2) by simp
    have k: "keeps {?tmp, ?mpk} (dk_fs v) s" if "fs_rename ?tmp ?mpk (dk_fs v) = Ok (x, ts)" "s \<in> set ts" for x ts s
      using rename_file_keeps(1) [OF that(1) src that(2)] .
    have I: "?I s" if "keeps {?tmp, ?mpk} (dk_fs v) s" for s
      using keeps_trans [OF v(2) that] by (rule keeps_mono) auto
    have fin: "head_backed d (dk_fs v') ?h"
      if ts: "fs_rename ?tmp ?mpk (dk_fs v) = Ok (x, ts)" "dk_fs v' = last (dk_fs v # ts)" for x ts v'
    proof -
      have "ts \<noteq> []" using ts(1) src by (auto simp: fs_rename_def is_file_at_iff split: if_splits)
      then have s: "dk_fs v' \<in> set ts" using ts(2) by simp
      show ?thesis
        using rename_file_keeps [OF ts(1) src s] src v(3) keeps_file [of _ "dk_fs v" "dk_fs v'" ?man] paths
        by (auto simp: head_backed_def is_file_at_iff)
    qed
    show ?thesis
      unfolding io_at_def [of ?mpk]
      by (rule run_ok_step_err [OF call_keeps [OF k]], assumption, assumption)
        (use v(1) I sync fin in \<open>auto simp: io_err_def\<close>)
  qed
  have manifest: "run_ok ?I (bind_p (bind_p (to_vec (sj_head_to_vec sj) (ph_manifest pending)) (\<lambda>bs. put_atomic ?man bs)) (\<lambda>_.
      bind_p (io_at ?mpk (fs_call (fs_rename ?tmp ?mpk))) (\<lambda>_. io_at (heads_dir d) (fsync_dir (heads_dir d))))) v ?Q"
    if v: "disk.more v = disk.more w" "keeps {} (dk_fs w) (dk_fs v)" for v
  proof -
    have codec: "codec_ok (sj_head_to_vec sj) (sj_head_from_slice sj)" using assms(1) by (simp add: serde_ok_def)
    have k: "keeps {?man} (dk_fs w) t" if "value_states (sj_head_from_slice sj) ?man (ph_manifest pending) (dk_fs v) t" for t
      using keeps_trans [OF v(2), of "{?man}" t] that by (simp add: value_states_def)
    have I: "?I t" if "keeps {?man} (dk_fs w) t" for t using that by (rule keeps_mono) simp
    show ?thesis
      by (rule run_ok_step [OF put_value_spec [OF codec]])
        (use v k I rename in \<open>auto simp: file_value_Some is_file_at_iff\<close>)
  qed
  have I0: "?I t" if "keeps {} (dk_fs w) t" for t using that by (rule keeps_mono) simp
  show ?thesis
    unfolding stage_head_files_def Let_def io_at_def [of "heads_dir d" "fs_call (fs_create_dir_all (heads_dir d))"]
    by (rule run_ok_step_err [OF call_keeps [OF create_dir_all_keeps]], assumption, assumption)
      (use I0 manifest in \<open>auto simp: io_err_def\<close>)
qed

section \<open>Publishing and deleting\<close>

lemma rotate_index_sound:
  assumes "sound_index d t prev" and "head_backed d t (hm_head_id m)" and "hm_head_id m \<notin> set (index_ids prev)"
    and "rotate_index m prev = (next_index, displaced)"
  shows "sound_index d t next_index"
    and "displaced = Some old \<Longrightarrow> old \<notin> set (index_ids next_index)"
proof -
  have id: "hr_head_id (head_record_of m) = hm_head_id m" by (simp add: head_record_of_def)
  consider "hi_heads prev = []" | a where "hi_heads prev = [a]" | a b where "hi_heads prev = [a, b]"
    using assms(1) by (cases "hi_heads prev"; cases "tl (hi_heads prev)"; cases "tl (tl (hi_heads prev))")
      (auto simp: sound_index_def)
  then have "sound_index d t next_index \<and> (\<forall>old. displaced = Some old \<longrightarrow> old \<notin> set (index_ids next_index))"
    using assms id
    by cases (auto simp: rotate_index_def max_heads_per_workspace_def sound_index_def index_ids_def Let_def)
  then show "sound_index d t next_index" "displaced = Some old \<Longrightarrow> old \<notin> set (index_ids next_index)" by blast+
qed

lemma committed_from:
  assumes "committed sj d ws idx v v'" and "disk.more v = disk.more (w :: manager)"
  shows "committed sj d ws idx w v'"
  using assms manager_same [OF assms(2)] by (simp add: committed_def)

lemma committed_keeps:
  assumes "committed sj d ws idx w v" and "disk.more v' = disk.more v" and "keeps X (dk_fs v) (dk_fs v')"
    and "head_index_path d \<notin> X" and "workspace_core_path d \<notin> X"
  shows "committed sj d ws idx w v'"
proof -
  obtain core where c: "core_on_disk sj d (dk_fs v) = Some core" and i: "index_on_disk sj d (dk_fs v) = Some idx"
    using assms(1) by (auto simp: committed_def)
  note c' = keeps_value [OF assms(3,5) c] and i' = keeps_value [OF assms(3,4) i]
  show ?thesis using assms(1) manager_same [OF assms(2)] c c' i' by (simp add: committed_def)
qed

text \<open>The end of a rotation: the files of a head that the committed index no longer lists go.\<close>

lemma remove_after_commit:
  assumes "committed sj d ws idx w v" and "sound_index d (dk_fs v) idx" and "h \<notin> set (index_ids idx)"
  shows "run_ok (heads_sound sj d) (remove_head_files d h) v
     (\<lambda>r w'. r = Ok () \<and> committed sj d ws idx w w' \<and> sound_index d (dk_fs w') idx)"
proof (rule run_ok_weaken [OF remove_head_files_spec])
  let ?X = "{head_artifact_path d h, head_manifest_path d h}"
  have idx: "index_on_disk sj d (dk_fs v) = Some idx" using assms(1) by (simp add: committed_def)
  have sound: "sound_index d t idx" if "keeps ?X (dk_fs v) t" for t
    using assms(2) that by (rule sound_index_keeps) (use assms(3) in auto)
  show "heads_sound sj d t" if "keeps ?X (dk_fs v) t" for t
    using sound [OF that] keeps_value [OF that _ idx] by (auto simp: heads_sound_iff)
  show "r = Ok () \<and> committed sj d ws idx w w' \<and> sound_index d (dk_fs w') idx"
    if p: "disk.more w' = disk.more v \<and> r = Ok () \<and> keeps ?X (dk_fs v) (dk_fs w')" for r w'
    using p sound committed_keeps [OF assms(1), of w' ?X] by auto
qed

definition fresh_head :: "serde \<Rightarrow> path \<Rightarrow> workspace_id \<Rightarrow> pending_head \<Rightarrow> manager \<Rightarrow> bool" where
  "fresh_head sj d ws pending w \<longleftrightarrow>
     (case index_on_disk sj d (dk_fs w) of None \<Rightarrow> True | Some idx \<Rightarrow> ph_head_id pending \<notin> set (index_ids idx)) \<and>
     ph_head_id pending \<notin> set (index_ids (cache_heads ws w)) \<and>
     (\<exists>name. ph_mpk_tempfile pending = d @ [''.tmp'', name])"

text \<open>
  What an operation may leave behind: a sound disk; on an error, the cell it found, still sound; on
  success, the new index on disk and in the cell, and the head count on disk.
\<close>

definition op_post ::
  "serde \<Rightarrow> path \<Rightarrow> workspace_id \<Rightarrow> head_index \<Rightarrow> workspace_cache_cell \<Rightarrow> manager \<Rightarrow> bool \<Rightarrow> manager \<Rightarrow> bool"
where
  "op_post sj d ws next_index c w ok w' \<longleftrightarrow>
     heads_sound sj d (dk_fs w') \<and>
     (if ok then committed sj d ws next_index w w' \<and> sound_index d (dk_fs w') next_index
      else disk.more w' = disk.more w \<and> sound_index d (dk_fs w') (cc_heads c))"

lemma commit_then_remove:
  assumes "serde_ok sj" and "heads_sound sj d (dk_fs v)" and "sound_index d (dk_fs v) idx"
    and "sound_index d (dk_fs v) (cc_heads c)" and "disk.more v = disk.more w"
    and "\<And>h. h \<in> set_option gone \<Longrightarrow> h \<notin> set (index_ids idx)"
  shows "run_ok (heads_sound sj d)
     (bind_p (commit_index sj d ws idx) (\<lambda>_.
        case gone of None \<Rightarrow> ret () | Some h \<Rightarrow> remove_head_files d h)) v
     (\<lambda>r w'. op_post sj d ws idx c w (\<exists>x. r = Ok x) w')"
    (is "run_ok ?I _ v ?Q")
proof (rule run_ok_step [OF commit_index_spec [OF assms(1-3)]])
  let ?K = "keeps {head_index_path d, workspace_core_path d}"
  have keep: "sound_index d t i" if "?K (dk_fs v) t" "sound_index d (dk_fs v) i" for t i
    using that(2,1) by (rule sound_index_keeps) simp
  fix w'
  show "?Q (Inl e) w'" if p: "heads_sound sj d (dk_fs w') \<and> ?K (dk_fs v) (dk_fs w') \<and>
      (case Inl e of Inl _ \<Rightarrow> disk.more w' = disk.more v | Inr _ \<Rightarrow> committed sj d ws idx v w')" for e
    using p keep assms(4,5) by (auto simp: op_post_def)
  show "run_ok ?I (case gone of None \<Rightarrow> ret () | Some h \<Rightarrow> remove_head_files d h) w' ?Q"
    if p: "heads_sound sj d (dk_fs w') \<and> ?K (dk_fs v) (dk_fs w') \<and>
      (case Inr x of Inl _ \<Rightarrow> disk.more w' = disk.more v | Inr _ \<Rightarrow> committed sj d ws idx v w')" for x :: unit
  proof -
    have com: "committed sj d ws idx w w'" "sound_index d (dk_fs w') idx"
      using p keep assms(3,5) by (auto intro: committed_from)
    have fin: "heads_sound sj d (dk_fs u)" if "committed sj d ws idx w u" "sound_index d (dk_fs u) idx" for u
      using that by (auto simp: heads_sound_iff committed_def)
    show ?thesis
    proof (cases gone)
      case None
      then show ?thesis using com fin by (auto simp: op_post_def intro!: run_ok_ret)
    next
      case (Some h)
      from remove_after_commit [OF com assms(6)] Some show ?thesis
        by (auto simp: op_post_def intro: fin elim!: run_ok_post)
    qed
  qed
qed auto

lemma bind_assoc: "bind_p (bind_p m f) g = bind_p m (\<lambda>x. bind_p (f x) g)"
  by (auto simp: fun_eq_iff bind_p_def split: prod.splits sum.splits)

lemma publish_trained_head_spec:
  assumes "serde_ok sj" and "heads_sound sj d (dk_fs w)" and c: "cell_at w ws = Some c"
    and "sound_index d (dk_fs w) (cc_heads c)" and "fresh_head sj d ws pending w"
  shows "run_ok (heads_sound sj d) (publish_trained_head sj d ws pending) w
     (\<lambda>r w'. op_post sj d ws (fst (rotate_index (ph_manifest pending) (cc_heads c))) c w (\<exists>x. r = Ok x) w' \<and>
        (\<forall>x. r = Ok x \<longrightarrow> rr_displaced_head_id x = snd (rotate_index (ph_manifest pending) (cc_heads c))))"
    (is "run_ok ?I _ w ?Q")
proof -
  let ?m = "ph_manifest pending" and ?h = "ph_head_id pending" and ?X = "new_head_paths d pending"
  obtain next_index displaced where rot: "rotate_index ?m (cc_heads c) = (next_index, displaced)" by fastforce
  obtain name where tmp: "ph_mpk_tempfile pending = d @ [''.tmp'', name]" using assms(5) by (auto simp: fresh_head_def)
  have heads: "cache_heads ws v = cc_heads c" if "disk.more v = disk.more w" for v
    using manager_same [OF that] c by (simp add: cache_heads_def)
  have fresh: "?h \<notin> set (index_ids (cc_heads c))" using assms(5) heads [of w] by (simp add: fresh_head_def)
  have outside: "head_artifact_path d g \<notin> ?X \<and> head_manifest_path d g \<notin> ?X" if "g \<noteq> ?h" for g
    using that by (auto simp: tmp layout_defs)
  have keepI: "?I t" if k: "keeps ?X (dk_fs w) t" for t
    using assms(2) k
  proof (rule heads_sound_keeps)
    show "head_index_path d \<notin> ?X" by (auto simp: tmp layout_defs)
    show "head_artifact_path d g \<notin> ?X \<and> head_manifest_path d g \<notin> ?X"
      if "index_on_disk sj d (dk_fs w) = Some idx" "g \<in> set (index_ids idx)" for g idx
    proof -
      have "?h \<notin> set (index_ids idx)" using assms(5) that(1) by (simp add: fresh_head_def)
      then have "g \<noteq> ?h" using that(2) by metis
      then show ?thesis by (rule outside)
    qed
  qed
  have keepC: "sound_index d t (cc_heads c)" if k: "keeps ?X (dk_fs w) t" for t
    using assms(4) k
  proof (rule sound_index_keeps)
    fix g assume "g \<in> set (index_ids (cc_heads c))"
    then have "g \<noteq> ?h" using fresh by metis
    then show "head_artifact_path d g \<notin> ?X \<and> head_manifest_path d g \<notin> ?X" by (rule outside)
  qed
  have commit: "run_ok ?I (bind_p (commit_index sj d ws next_index) (\<lambda>_.
      bind_p (case displaced of None \<Rightarrow> ret () | Some old \<Rightarrow> remove_head_files d old) (\<lambda>_.
      ret \<lparr>rr_displaced_head_id = displaced\<rparr>))) v ?Q"
    if v: "disk.more v = disk.more w" "keeps ?X (dk_fs w) (dk_fs v)" "head_backed d (dk_fs v) ?h" and "hm_head_id ?m = ?h" for v
  proof -
    have next_ok: "sound_index d (dk_fs v) next_index" "\<And>old. displaced = Some old \<Longrightarrow> old \<notin> set (index_ids next_index)"
      using rotate_index_sound [OF keepC [OF v(2)] _ _ rot] that fresh by auto
    show ?thesis
      unfolding bind_assoc [symmetric]
      by (rule run_ok_step [OF commit_then_remove [OF assms(1) keepI [OF v(2)] next_ok(1) keepC [OF v(2)] v(1)]])
        (use next_ok(2) rot in \<open>auto simp: op_post_def intro!: run_ok_ret\<close>)
  qed
  have staged: "run_ok ?I (bind_p (stage_head_files sj d pending) (\<lambda>_.
      bind_p (gets (cache_heads ws)) (\<lambda>prev_heads.
      let (next_index, displaced) = rotate_index ?m prev_heads in
      bind_p (commit_index sj d ws next_index) (\<lambda>_.
      bind_p (case displaced of None \<Rightarrow> ret () | Some old \<Rightarrow> remove_head_files d old) (\<lambda>_.
      ret \<lparr>rr_displaced_head_id = displaced\<rparr>))))) v ?Q"
    if v: "unchanged w v" "is_file_at (dk_fs w) (ph_mpk_tempfile pending)" and id: "hm_head_id ?m = ?h" for v
  proof (rule run_ok_step [OF stage_head_files_spec [OF assms(1) _ tmp]])
    show "is_file_at (dk_fs v) (ph_mpk_tempfile pending)" using v by (simp add: unchanged_def)
    show "?I t" if "keeps ?X (dk_fs v) t" for t using that v keepI by (simp add: unchanged_def)
    fix v'
    show "?Q (Inl e) v'" if "disk.more v' = disk.more v \<and> keeps ?X (dk_fs v) (dk_fs v') \<and>
        (Inl e = Ok () \<longrightarrow> head_backed d (dk_fs v') ?h)" for e
      using that v keepI keepC by (auto simp: op_post_def unchanged_def)
    show "run_ok ?I (bind_p (gets (cache_heads ws)) (\<lambda>prev_heads.
      let (next_index, displaced) = rotate_index ?m prev_heads in
      bind_p (commit_index sj d ws next_index) (\<lambda>_.
      bind_p (case displaced of None \<Rightarrow> ret () | Some old \<Rightarrow> remove_head_files d old) (\<lambda>_.
      ret \<lparr>rr_displaced_head_id = displaced\<rparr>)))) v' ?Q"
      if p: "disk.more v' = disk.more v \<and> keeps ?X (dk_fs v) (dk_fs v') \<and>
        (Inr x = Ok () \<longrightarrow> head_backed d (dk_fs v') ?h)" for x :: unit
      by (intro run_ok_bind run_ok_gets) (use p v id heads [of v'] rot commit in \<open>simp add: unchanged_def\<close>)
  qed
  show ?thesis
    unfolding publish_trained_head_def
    by (intro run_ok_if run_ok_fail run_ok_step [OF test_spec])
      (use assms(2,4) staged in \<open>auto simp: op_post_def fs_is_file_def unchanged_def intro!: run_ok_fail\<close>)
qed

section \<open>The manager's operations\<close>

definition rotation_inv :: "serde \<Rightarrow> workspace_id \<Rightarrow> manager \<Rightarrow> bool" where
  "rotation_inv sj ws w \<longleftrightarrow>
     heads_sound sj (manager_workspace_dir w ws) (dk_fs w) \<and>
     (case cell_at w ws of None \<Rightarrow> True
      | Some c \<Rightarrow> sound_index (manager_workspace_dir w ws) (dk_fs w) (cc_heads c))"

lemma jobs_fields [simp]:
  "cell_at (w\<lparr>mg_jobs := j\<rparr>) ws = cell_at w ws" "manager_workspace_dir (w\<lparr>mg_jobs := j\<rparr>) ws = manager_workspace_dir w ws"
  "rotation_inv sj ws (w\<lparr>mg_jobs := j\<rparr>) = rotation_inv sj ws w"
  by (simp_all add: cell_at_def manager_workspace_dir_def rotation_inv_def split: option.splits)

lemma op_post_inv:
  assumes "op_post sj (manager_workspace_dir w ws) ws idx c w ok w'" and "cell_at w ws = Some c"
  shows "mg_root w' = mg_root w \<and> rotation_inv sj ws w'"
  using assms manager_same [of w' w]
  by (auto simp: op_post_def rotation_inv_def committed_def manager_workspace_dir_def split: if_splits option.splits)

lemma cache_cell_spec:
  "run_ok I (cache_cell_for_head_delete sj ws) w
     (\<lambda>r w'. dk_fs w' = dk_fs w \<and> mg_root w' = mg_root w \<and> mg_jobs w' = mg_jobs w \<and>
        (case r of Inl _ \<Rightarrow> disk.more w' = disk.more w
         | Inr c \<Rightarrow> cell_at w' ws = Some c \<and>
             (cell_at w ws = Some c \<or>
              cell_at w ws = None \<and> index_on_disk sj (manager_workspace_dir w ws) (dk_fs w) = Some (cc_heads c))))"
    (is "run_ok I _ w ?Q")
proof (cases "cell_at w ws")
  case (Some c)
  then show ?thesis by (simp add: run_ok_def cache_cell_for_head_delete_def)
next
  case None
  let ?d = "manager_workspace_dir w ws"
  have load: "run_ok I (cache_load_from_disk sj ?d) w
      (\<lambda>r w'. unchanged w w' \<and> (\<forall>c. r = Ok c \<longrightarrow> index_on_disk sj ?d (dk_fs w) = Some (cc_heads c)))"
    unfolding cache_load_from_disk_def
    by (rule run_ok_step [OF read_workspace_core_spec], assumption, simp,
        rule run_ok_step [OF read_head_index_spec], assumption)
      (auto simp: unchanged_def intro!: run_ok_ret)
  have "run_ok I (bind_p (cache_load_from_disk sj ?d) (\<lambda>c w'. (Ok c, set_cell ws c w'))) w ?Q"
  proof (rule run_ok_step [OF load], assumption)
    fix v
    show "?Q (Inl e) v" if "unchanged w v \<and> (\<forall>c. Inl e = Ok c \<longrightarrow> index_on_disk sj ?d (dk_fs w) = Some (cc_heads c))" for e
      using that manager_same [of v w] by (simp add: unchanged_def)
    show "run_ok I (\<lambda>w'. (Ok c, set_cell ws c w')) v ?Q"
      if "unchanged w v \<and> (\<forall>c'. Inr c = Ok c' \<longrightarrow> index_on_disk sj ?d (dk_fs w) = Some (cc_heads c'))" for c
      using that manager_same [of v w] None by (simp add: run_ok_def passes_def unchanged_def)
  qed
  then show ?thesis using None by (simp add: run_ok_def cache_cell_for_head_delete_def manager_workspace_dir_def)
qed

text \<open>After the cell is resolved the invariant gives a sound cell, whichever way it was found.\<close>

lemma cell_sound:
  assumes "rotation_inv sj ws w" and "dk_fs v = dk_fs w" and "mg_root v = mg_root w"
    and "cell_at v ws = Some c"
    and "cell_at w ws = Some c \<or> cell_at w ws = None \<and>
      index_on_disk sj (manager_workspace_dir w ws) (dk_fs w) = Some (cc_heads c)"
  shows "rotation_inv sj ws v \<and> sound_index (manager_workspace_dir w ws) (dk_fs v) (cc_heads c)"
  using assms by (auto simp: rotation_inv_def heads_sound_iff manager_workspace_dir_def)

lemma publish_op_spec:
  assumes "serde_ok sj" and inv: "rotation_inv sj ws w"
    and fresh: "fresh_head sj (manager_workspace_dir w ws) ws pending w"
  shows "run_ok (heads_sound sj (manager_workspace_dir w ws)) (publish_trained_head_for_workspace sj ws pending) w
     (\<lambda>r w'. mg_root w' = mg_root w \<and> rotation_inv sj ws w')"
    (is "run_ok ?I _ w ?Q")
proof -
  let ?d = "manager_workspace_dir w ws"
  have same: "?Q r v" if "disk.more v = disk.more w" "dk_fs v = dk_fs w" for r :: "(file_error, head_rotation_result) result" and v
    using inv that manager_same [OF that(1)]
    by (simp add: rotation_inv_def manager_workspace_dir_def split: option.splits)
  have go: "run_ok ?I (bind_p (cache_cell_for_head_delete sj ws) (\<lambda>_. publish_trained_head sj ?d ws pending)) v ?Q"
    if v: "unchanged w v" for v
  proof (rule run_ok_step [OF cache_cell_spec], assumption, goal_cases)
    case (1 e u)
    then show ?case using v same [of u] manager_same [of v w] by (simp add: unchanged_def)
  next
    case (2 c u)
    have d: "manager_workspace_dir v ws = ?d" "dk_fs v = dk_fs w" "cell_at v ws = cell_at w ws" "mg_root v = mg_root w"
      using v manager_same [of v w] by (auto simp: unchanged_def manager_workspace_dir_def)
    have u: "dk_fs u = dk_fs w" "mg_root u = mg_root w" "cell_at u ws = Some c"
      "cell_at w ws = Some c \<or> cell_at w ws = None \<and> index_on_disk sj ?d (dk_fs w) = Some (cc_heads c)"
      using 2 d by auto
    have du: "manager_workspace_dir u ws = ?d" using u by (simp add: manager_workspace_dir_def)
    have s: "rotation_inv sj ws u" "sound_index ?d (dk_fs u) (cc_heads c)" using cell_sound [OF inv u] by auto
    have f: "fresh_head sj ?d ws pending u"
      using fresh u by (auto simp: fresh_head_def cache_heads_def split: option.splits)
    have "heads_sound sj ?d (dk_fs u)" using s du by (simp add: rotation_inv_def)
    from publish_trained_head_spec [OF assms(1) this u(3) s(2) f] show ?case
    proof (rule run_ok_post)
      fix r :: "(file_error, head_rotation_result) result" and w'
      assume "op_post sj ?d ws (fst (rotate_index (ph_manifest pending) (cc_heads c))) c u (\<exists>x. r = Ok x) w' \<and>
        (\<forall>x. r = Ok x \<longrightarrow> rr_displaced_head_id x = snd (rotate_index (ph_manifest pending) (cc_heads c)))"
      then show "?Q r w'" using op_post_inv [of sj u ws] u du by auto
    qed
  qed
  have "run_ok ?I (bind_p (fs_test (fs_exists (workspace_core_path ?d))) (\<lambda>present.
      if \<not> present then fail (FileNotFound ws)
      else bind_p (cache_cell_for_head_delete sj ws) (\<lambda>_. publish_trained_head sj ?d ws pending))) w ?Q"
    by (intro run_ok_exists run_ok_if run_ok_fail go same) (simp_all add: unchanged_def)
  then show ?thesis by (simp add: run_ok_def publish_trained_head_for_workspace_def Let_def)
qed

lemma run_ok_lease:
  assumes "\<And>jobs. run_ok I body (w\<lparr>mg_jobs := jobs\<rparr>) (\<lambda>r w'. \<forall>j. Q r (w'\<lparr>mg_jobs := j\<rparr>))"
    and "\<And>e jobs. Q (Err e) (w\<lparr>mg_jobs := jobs\<rparr>)"
  shows "run_ok I (with_workspace_lease ws body) w Q"
proof (cases "try_acquire_lease [RefWorkspace ws] (mg_jobs w)")
  case (Pair r jobs)
  show ?thesis
  proof (cases r)
    case (Inl c)
    then show ?thesis using Pair assms(2) by (simp add: run_ok_def with_workspace_lease_def passes_def)
  next
    case (Inr l)
    obtain x w' where b: "body (w\<lparr>mg_jobs := jobs\<rparr>) = (x, w')" by fastforce
    note spec = run_okD [OF assms(1) [of jobs] b]
    have "passes I w (w'\<lparr>mg_jobs := release_lease l (mg_jobs w')\<rparr>)" using spec(1) by (simp add: passes_def)
    then show ?thesis using Pair Inr b spec(2) by (simp add: run_ok_def with_workspace_lease_def)
  qed
qed

lemma sound_index_filter:
  assumes "sound_index d t \<lparr>hi_heads = xs\<rparr>"
  shows "sound_index d t \<lparr>hi_heads = filter P xs\<rparr>"
proof -
  have "length xs \<le> 2" using assms by (simp add: sound_index_def)
  then have "length (filter P xs) \<le> 2" using length_filter_le [of P xs] by linarith
  then show ?thesis using assms by (auto simp: sound_index_def index_ids_def distinct_map_filter)
qed

lemma delete_body_spec:
  assumes "serde_ok sj" and inv: "rotation_inv sj ws v" and d: "d = manager_workspace_dir v ws"
  shows "run_ok (heads_sound sj d) (delete_head_body sj d ws h) v
           (\<lambda>r w'. mg_root w' = mg_root v \<and> rotation_inv sj ws w')"
    (is "run_ok ?I _ v ?Q")
  unfolding delete_head_body_def
proof (rule run_ok_step [OF cache_cell_spec], assumption, goal_cases)
  case (1 e u)
  then show ?case
    using inv manager_same [of u v] by (simp add: rotation_inv_def manager_workspace_dir_def split: option.splits)
next
  case (2 c u)
  let ?idx = "\<lparr>hi_heads = filter (\<lambda>r. hr_head_id r \<noteq> h) (hi_heads (cc_heads c))\<rparr>"
  have du: "manager_workspace_dir u ws = d" using 2 by (simp add: manager_workspace_dir_def d)
  have u: "dk_fs u = dk_fs v" "mg_root u = mg_root v" "cell_at u ws = Some c"
    "cell_at v ws = Some c \<or> cell_at v ws = None \<and> index_on_disk sj (manager_workspace_dir v ws) (dk_fs v) = Some (cc_heads c)"
    using 2 by auto
  have s: "rotation_inv sj ws u" "sound_index d (dk_fs u) (cc_heads c)" using cell_sound [OF inv u] d by auto
  have "sound_index d (dk_fs u) \<lparr>hi_heads = hi_heads (cc_heads c)\<rparr>" using s(2) by (simp add: sound_index_def index_ids_def)
  from sound_index_filter [OF this] have idx: "sound_index d (dk_fs u) ?idx" .
  have snd: "heads_sound sj d (dk_fs u)" using s(1) du by (simp add: rotation_inv_def)
  have "run_ok ?I (bind_p (commit_index sj d ws ?idx) (\<lambda>_. remove_head_files d h)) u ?Q"
  proof (rule run_ok_post [OF commit_then_remove [OF assms(1) snd idx s(2) refl, where gone = "Some h", unfolded option.case]])
    show "g \<notin> set (index_ids ?idx)" if "g \<in> set_option (Some h)" for g using that by (auto simp: index_ids_def)
    fix r :: "(file_error, unit) result" and w'
    assume "op_post sj d ws ?idx c u (\<exists>x. r = Ok x) w'"
    then show "?Q r w'" using op_post_inv [of sj u ws] u du by auto
  qed
  then show ?case using s(1) u(2) by (auto simp: Let_def intro!: run_ok_fail)
qed

lemma delete_op_spec:
  assumes "serde_ok sj" and inv: "rotation_inv sj ws w"
  shows "run_ok (heads_sound sj (manager_workspace_dir w ws)) (delete_head sj ws h) w
     (\<lambda>r w'. mg_root w' = mg_root w \<and> rotation_inv sj ws w')"
    (is "run_ok ?I _ w ?Q")
proof -
  let ?d = "manager_workspace_dir w ws"
  have same: "?Q r v" if "disk.more v = disk.more w" "dk_fs v = dk_fs w" for r :: "(file_error, unit) result" and v
    using inv that manager_same [OF that(1)]
    by (simp add: rotation_inv_def manager_workspace_dir_def split: option.splits)
  have go: "run_ok ?I (with_workspace_lease ws (delete_head_body sj ?d ws h)) v ?Q" if v: "unchanged w v" for v
  proof (rule run_ok_lease)
    have q: "mg_root v = mg_root w" "rotation_inv sj ws v" using same [of v] v by (simp_all add: unchanged_def)
    then show "?Q (Err e) (v\<lparr>mg_jobs := jobs\<rparr>)" for e jobs by simp
    have "?d = manager_workspace_dir v ws" using q(1) by (simp add: manager_workspace_dir_def)
    then show "run_ok ?I (delete_head_body sj ?d ws h) (v\<lparr>mg_jobs := jobs\<rparr>) (\<lambda>r w'. \<forall>j. ?Q r (w'\<lparr>mg_jobs := j\<rparr>))" for jobs
      by (intro run_ok_post [OF delete_body_spec [OF assms(1)]]) (use q in auto)
  qed
  have "run_ok ?I (bind_p (fs_test (fs_exists (workspace_core_path ?d))) (\<lambda>present.
      if \<not> present then fail (FileNotFound ws)
      else with_workspace_lease ws (delete_head_body sj ?d ws h))) w ?Q"
    by (intro run_ok_exists run_ok_if run_ok_fail go same) (simp_all add: unchanged_def)
  then show ?thesis by (simp add: run_ok_def delete_head_def Let_def)
qed

section \<open>Any number of operations, and crashes\<close>

text \<open>
  An operation on a workspace: a publish of a head not yet listed, a delete, or anything another
  component does outside \<open>heads.json\<close> and \<open>heads/\<close>.
\<close>

inductive rotation_op :: "serde \<Rightarrow> workspace_id \<Rightarrow> manager \<Rightarrow> manager \<Rightarrow> bool" for sj ws where
  publishes: "fresh_head sj (manager_workspace_dir w ws) ws pending w \<Longrightarrow>
     publish_trained_head_for_workspace sj ws pending w = (r, w') \<Longrightarrow> rotation_op sj ws w w'"
| deletes: "delete_head sj ws h w = (r, w') \<Longrightarrow> rotation_op sj ws w w'"
| elsewhere: "(\<And>q. q = head_index_path (manager_workspace_dir w ws) \<or> prefix (heads_dir (manager_workspace_dir w ws)) q \<Longrightarrow>
       node_at t q = node_at (dk_fs w) q) \<Longrightarrow>
     rotation_op sj ws w (w\<lparr>dk_fs := t, dk_trace := dk_trace w @ [t]\<rparr>)"

text \<open>An operation completes, or the process dies at any state on its way and starts without caches and jobs.\<close>

inductive rotation_step :: "serde \<Rightarrow> workspace_id \<Rightarrow> manager \<Rightarrow> manager \<Rightarrow> bool" for sj ws where
  completes: "rotation_op sj ws w w' \<Longrightarrow> rotation_step sj ws w w'"
| dies: "rotation_op sj ws w w' \<Longrightarrow> dk_trace w' = dk_trace w @ ts \<Longrightarrow> t \<in> set ts \<Longrightarrow>
     rotation_step sj ws w (w'\<lparr>dk_fs := t, mg_caches := [], mg_jobs := registry_new cfg\<rparr>)"

inductive_cases rotation_opE: "rotation_op sj ws w w'"
inductive_cases rotation_stepE: "rotation_step sj ws w w'"

lemma elsewhere_keeps:
  assumes "rotation_inv sj ws w" and "\<And>q. q = head_index_path (manager_workspace_dir w ws) \<or>
      prefix (heads_dir (manager_workspace_dir w ws)) q \<Longrightarrow> node_at t q = node_at (dk_fs w) q"
  shows "rotation_inv sj ws (w\<lparr>dk_fs := t, dk_trace := tr\<rparr>)"
proof -
  let ?d = "manager_workspace_dir w ws"
  have "head_backed ?d t h = head_backed ?d (dk_fs w) h" for h
    using assms(2) by (simp add: head_backed_def is_file_at_def layout_defs)
  then have "sound_index ?d t i = sound_index ?d (dk_fs w) i" for i by (simp add: sound_index_def)
  moreover have "index_on_disk sj ?d t = index_on_disk sj ?d (dk_fs w)" using assms(2) by (simp add: file_value_def)
  moreover have "manager_workspace_dir (w\<lparr>dk_fs := t, dk_trace := tr\<rparr>) ws = ?d"
    "cell_at (w\<lparr>dk_fs := t, dk_trace := tr\<rparr>) ws = cell_at w ws"
    by (simp_all add: manager_workspace_dir_def cell_at_def)
  ultimately show ?thesis
    using assms(1) by (simp add: rotation_inv_def heads_sound_def split: option.splits)
qed

lemma rotation_op_inv:
  assumes "serde_ok sj" and "rotation_inv sj ws w" and "rotation_op sj ws w w'"
  shows "rotation_inv sj ws w' \<and> mg_root w' = mg_root w \<and> passes (heads_sound sj (manager_workspace_dir w ws)) w w'"
  using assms(3)
proof (cases rule: rotation_op.cases)
  case (publishes pending r)
  from run_okD [OF publish_op_spec [OF assms(1,2) publishes(1)] publishes(2)] show ?thesis by blast
next
  case (deletes h r)
  from run_okD [OF delete_op_spec [OF assms(1,2)] deletes] show ?thesis by blast
next
  case (elsewhere t)
  have inv: "rotation_inv sj ws w'" unfolding elsewhere(1) by (rule elsewhere_keeps [OF assms(2) elsewhere(2)])
  have "manager_workspace_dir w' ws = manager_workspace_dir w ws" "dk_fs w' = t"
    by (simp_all add: elsewhere(1) manager_workspace_dir_def)
  then have "heads_sound sj (manager_workspace_dir w ws) t" using inv by (simp add: rotation_inv_def)
  then show ?thesis using inv by (simp add: elsewhere(1) passes_def)
qed

lemma rotation_step_inv:
  assumes "serde_ok sj" and "rotation_inv sj ws w" and "rotation_step sj ws w w'"
  shows "rotation_inv sj ws w' \<and> mg_root w' = mg_root w"
  using assms(3)
proof (cases rule: rotation_step.cases)
  case completes
  then show ?thesis using rotation_op_inv [OF assms(1,2)] by blast
next
  case (dies v ts t cfg)
  note op = rotation_op_inv [OF assms(1,2) dies(2)]
  have "heads_sound sj (manager_workspace_dir w ws) t" using op dies(3,4) by (auto simp: passes_def)
  then show ?thesis using op by (simp add: dies(1) rotation_inv_def manager_workspace_dir_def cell_at_def)
qed

lemma rotation_reachable_inv:
  assumes "serde_ok sj" and "rotation_inv sj ws w" and "(rotation_step sj ws)\<^sup>*\<^sup>* w w'"
  shows "rotation_inv sj ws w' \<and> mg_root w' = mg_root w"
  using assms(3)
proof (induction rule: rtranclp_induct)
  case base
  then show ?case using assms(2) by simp
next
  case (step y z)
  then show ?case using rotation_step_inv [OF assms(1), of ws y z] by simp
qed

section \<open>A concrete codec and workspace\<close>

definition demo_core :: "nat \<Rightarrow> workspace_core" where
  "demo_core n =
     \<lparr>wc_id = ''w'', wc_name = ''main'', wc_tags = [], wc_created_at = ''t'',
      wc_workspace_revision = \<lparr>rev_id = 5, rev_at = ''t''\<rparr>, wc_head_count = n\<rparr>"

definition demo_manifest :: head_manifest where
  "demo_manifest =
     \<lparr>hm_head_id = ''h'', hm_workspace_id = ''w'', hm_workspace_revision = \<lparr>rev_id = 5, rev_at = ''t''\<rparr>,
      hm_sha256 = ''s'', hm_n_classes = 1, hm_size_bytes = 1, hm_created_at = ''t'', hm_labels = [''a'']\<rparr>"

definition demo_index :: head_index where
  "demo_index = \<lparr>hi_heads = [head_record_of demo_manifest]\<rparr>"

definition demo_serde :: serde where
  "demo_serde =
     \<lparr>sj_core_to_vec = book_enc [(demo_core 0, [0]), (demo_core 1, [1])],
      sj_core_from_slice = book_dec [(demo_core 0, [0]), (demo_core 1, [1])],
      sj_index_to_vec = book_enc [(\<lparr>hi_heads = []\<rparr>, [0]), (demo_index, [1])],
      sj_index_from_slice = book_dec [(\<lparr>hi_heads = []\<rparr>, [0]), (demo_index, [1])],
      sj_head_to_vec = book_enc [(demo_manifest, [0])], sj_head_from_slice = book_dec [(demo_manifest, [0])],
      sj_active_to_vec = book_enc [], sj_active_from_slice = book_dec [],
      sj_pointer_to_vec = book_enc [], sj_pointer_from_slice = book_dec []\<rparr>"

definition demo_pending :: pending_head where
  "demo_pending =
     \<lparr>ph_head_id = ''h'', ph_mpk_tempfile = [''workspaces'', ''w'', ''.tmp'', ''x''], ph_manifest = demo_manifest\<rparr>"

definition demo_manager :: manager where
  "demo_manager =
     \<lparr>dk_fs = [([], DirNode), ([''workspaces''], DirNode), ([''workspaces'', ''w''], DirNode),
        ([''workspaces'', ''w'', ''workspace.json''], FileNode [0]), ([''workspaces'', ''w'', ''heads.json''], FileNode [0]),
        ([''workspaces'', ''w'', ''.tmp''], DirNode), ([''workspaces'', ''w'', ''.tmp'', ''x''], FileNode [7])],
      dk_trace = [], dk_clock = 0, dk_fault = (\<lambda>_. None), dk_rand = (\<lambda>_. ''r''),
      mg_root = [], mg_caches = [(''w'', \<lparr>cc_core = demo_core 0, cc_heads = \<lparr>hi_heads = []\<rparr>\<rparr>)], mg_cells_seen = [],
      mg_jobs = registry_new job_registry_cfg_default\<rparr>"

lemma demo_serde_ok: "serde_ok demo_serde"
  by (simp add: serde_ok_def demo_serde_def book_codec_ok)

lemmas demo_defs =
  gets_def modify_def demo_manager_def demo_pending_def demo_serde_def book_enc_def book_dec_def demo_manifest_def demo_core_def demo_index_def
  rotate_index_def head_record_of_def cache_heads_def cell_at_def publish_heads_def publish_core_def set_cell_def

lemma demo_dir: "manager_workspace_dir demo_manager ''w'' = [''workspaces'', ''w'']"
  by (simp add: manager_workspace_dir_def layout_defs demo_manager_def)

lemma demo_cell: "cell_at demo_manager ''w'' = Some \<lparr>cc_core = demo_core 0, cc_heads = \<lparr>hi_heads = []\<rparr>\<rparr>"
  by (simp add: cell_at_def demo_manager_def)

lemma demo_index_on_disk: "index_on_disk demo_serde [''workspaces'', ''w''] (dk_fs demo_manager) = Some \<lparr>hi_heads = []\<rparr>"
  by (simp add: file_value_def node_at_def demo_manager_def demo_serde_def book_dec_def layout_defs)

lemma demo_sound: "heads_sound demo_serde [''workspaces'', ''w''] (dk_fs demo_manager)"
  by (simp add: heads_sound_def demo_index_on_disk sound_index_def index_ids_def)

lemma demo_inv: "rotation_inv demo_serde ''w'' demo_manager"
  by (simp add: rotation_inv_def demo_dir demo_sound demo_cell sound_index_def index_ids_def)

lemma demo_fresh: "fresh_head demo_serde [''workspaces'', ''w''] ''w'' demo_pending demo_manager"
  by (simp add: fresh_head_def demo_index_on_disk index_ids_def cache_heads_def demo_cell demo_pending_def)

section \<open>Properties\<close>

text \<open>
  C1.  Crash safety of the head rotation: from a workspace whose index is sound, after any sequence of
  publishes, deletes and foreign writes outside \<open>heads.json\<close> and \<open>heads/\<close>, with arbitrary failures and
  with the process killed at any point of any of them, \<open>heads.json\<close> still parses, lists at most two
  heads, none twice, and the weights and the manifest of every listed head exist.
\<close>

theorem rotation_crash_safe:
  assumes "serde_ok sj" and "rotation_inv sj ws w" and "(rotation_step sj ws)\<^sup>*\<^sup>* w w'"
    and "d = manager_workspace_dir w ws"
  shows "\<exists>idx. index_on_disk sj d (dk_fs w') = Some idx \<and> length (hi_heads idx) \<le> 2 \<and> distinct (index_ids idx) \<and>
           (\<forall>h \<in> set (index_ids idx). is_file_at (dk_fs w') (head_artifact_path d h) \<and>
                                      is_file_at (dk_fs w') (head_manifest_path d h))"
  using rotation_reachable_inv [OF assms(1-3)] assms(4)
  by (auto simp: rotation_inv_def heads_sound_iff sound_index_def head_backed_def manager_workspace_dir_def)

theorem rotation_crash_safe_witness:
  "\<exists>idx. index_on_disk demo_serde [''workspaces'', ''w'']
       (dk_fs (snd (publish_trained_head_for_workspace demo_serde ''w'' demo_pending demo_manager))) = Some idx \<and>
     length (hi_heads idx) \<le> 2"
proof -
  have "rotation_step demo_serde ''w'' demo_manager
      (snd (publish_trained_head_for_workspace demo_serde ''w'' demo_pending demo_manager))"
    by (rule completes, rule publishes [OF _ surjective_pairing]) (simp add: demo_dir demo_fresh)
  then have "(rotation_step demo_serde ''w'')\<^sup>*\<^sup>* demo_manager
      (snd (publish_trained_head_for_workspace demo_serde ''w'' demo_pending demo_manager))" by (rule r_into_rtranclp)
  from rotation_crash_safe [OF demo_serde_ok demo_inv this refl] show ?thesis
    unfolding demo_dir by blast
qed

text \<open>
  C22.  A publish that reports success has put the new head first in \<open>heads.json\<close> and in the cached
  index, keeps at most one older head behind it and reports the one that fell out, has written
  \<open>workspace.json\<close> with the number of heads, and has left disk and cache in agreement.
\<close>

theorem publish_success:
  assumes "serde_ok sj" and "heads_sound sj d (dk_fs w)" and "cell_at w ws = Some c"
    and "sound_index d (dk_fs w) (cc_heads c)" and "fresh_head sj d ws pending w"
    and "publish_trained_head sj d ws pending w = (Ok res, w')"
  shows "\<exists>idx core. hi_heads idx = take 2 (head_record_of (ph_manifest pending) # hi_heads (cc_heads c)) \<and>
           index_on_disk sj d (dk_fs w') = Some idx \<and> core_on_disk sj d (dk_fs w') = Some core \<and>
           cell_at w' ws = Some \<lparr>cc_core = core, cc_heads = idx\<rparr> \<and> wc_head_count core = length (hi_heads idx) \<and>
           (\<forall>h \<in> set (index_ids idx). head_backed d (dk_fs w') h) \<and>
           rr_displaced_head_id res =
             (if length (hi_heads (cc_heads c)) = 2 then Some (hr_head_id (hi_heads (cc_heads c) ! 1)) else None)"
proof -
  let ?m = "ph_manifest pending" and ?prev = "hi_heads (cc_heads c)"
  let ?idx = "fst (rotate_index ?m (cc_heads c))"
  note post = run_okD(2) [OF publish_trained_head_spec [OF assms(1-5)] assms(6)]
  then have com: "committed sj d ws ?idx w w'" "sound_index d (dk_fs w') ?idx"
    and res: "rr_displaced_head_id res = snd (rotate_index ?m (cc_heads c))"
    by (simp_all add: op_post_def)
  have len: "length ?prev \<le> 2" using assms(4) by (simp add: sound_index_def)
  then have "hi_heads ?idx = take 2 (head_record_of ?m # ?prev)"
    and "snd (rotate_index ?m (cc_heads c)) = (if length ?prev = 2 then Some (hr_head_id (?prev ! 1)) else None)"
    by (cases ?prev; cases "tl ?prev"; simp add: rotate_index_def max_heads_per_workspace_def Let_def)+
  then show ?thesis
    using com res assms(3) by (intro exI [of _ ?idx]) (auto simp: committed_def sound_index_def)
qed

theorem publish_success_witness:
  "\<exists>idx core. cell_at (snd (publish_trained_head demo_serde [''workspaces'', ''w''] ''w'' demo_pending demo_manager)) ''w'' =
      Some \<lparr>cc_core = core, cc_heads = idx\<rparr> \<and> hi_heads idx = [head_record_of demo_manifest] \<and> wc_head_count core = 1"
proof -
  let ?r = "publish_trained_head demo_serde [''workspaces'', ''w''] ''w'' demo_pending demo_manager"
  have "fst ?r = Ok \<lparr>rr_displaced_head_id = None\<rparr>"
    by (simp add: run_defs demo_defs publish_trained_head_def stage_head_files_def commit_index_def)
  then have r: "?r = (Ok \<lparr>rr_displaced_head_id = None\<rparr>, snd ?r)" by (metis prod.collapse)
  have s: "sound_index [''workspaces'', ''w''] (dk_fs demo_manager) (cc_heads \<lparr>cc_core = demo_core 0, cc_heads = \<lparr>hi_heads = []\<rparr>\<rparr>)"
    by (simp add: sound_index_def index_ids_def)
  from publish_success [OF demo_serde_ok demo_sound demo_cell s demo_fresh r] show ?thesis
    by (auto simp: demo_pending_def)
qed

text \<open>
  Between the two stores a delete publishes the shorter head index before the new core, so a
  reader that loads both snapshots can see a head count larger than the number of heads.
\<close>

lemma delete_exposes_larger_count:
  "\<exists>w h. fst (delete_head demo_serde ''w'' h w) = Ok () \<and>
     list_all (\<lambda>(_, c). wc_head_count (cc_core c) \<le> length (hi_heads (cc_heads c))) (mg_cells_seen w) \<and>
     list_ex (\<lambda>(_, c). length (hi_heads (cc_heads c)) < wc_head_count (cc_core c))
       (mg_cells_seen (snd (delete_head demo_serde ''w'' h w)))"
proof -
  let ?cell = "\<lparr>cc_core = demo_core 1, cc_heads = demo_index\<rparr>"
  let ?w = "demo_manager\<lparr>dk_fs := [([], DirNode), ([''workspaces''], DirNode), ([''workspaces'', ''w''], DirNode),
        ([''workspaces'', ''w'', ''workspace.json''], FileNode [1]), ([''workspaces'', ''w'', ''heads.json''], FileNode [1])],
      mg_caches := [(''w'', ?cell)], mg_cells_seen := [(''w'', ?cell)]\<rparr>"
  let ?seen = "[(''w'', ?cell), (''w'', ?cell\<lparr>cc_heads := \<lparr>hi_heads = []\<rparr>\<rparr>),
    (''w'', \<lparr>cc_core = demo_core 0, cc_heads = \<lparr>hi_heads = []\<rparr>\<rparr>)]"
  have run: "fst (delete_head demo_serde ''w'' ''h'' ?w) = Ok () \<and>
      mg_cells_seen (snd (delete_head demo_serde ''w'' ''h'' ?w)) = ?seen"
    by (simp add: run_defs demo_defs delete_head_def manager_workspace_dir_def with_workspace_lease_def
        try_acquire_lease_def registry_new_def jobs_state_new_def entry_values_def delete_head_body_def
        cache_cell_for_head_delete_def commit_index_def remove_head_files_def remove_best_effort_def)
  have "list_all (\<lambda>(_, c). wc_head_count (cc_core c) \<le> length (hi_heads (cc_heads c))) (mg_cells_seen ?w)"
    by (simp add: demo_core_def demo_index_def)
  moreover have "list_ex (\<lambda>(_, c). length (hi_heads (cc_heads c)) < wc_head_count (cc_core c)) ?seen"
    by (simp add: demo_core_def demo_index_def)
  ultimately show ?thesis using run by (intro exI [of _ ?w] exI [of _ "''h''"] conjI) (simp_all only: simp_thms)
qed

end
