(* ===== verification/Active_Head.thy ===== *)
theory Active_Head
  imports Schema
begin

text \<open>
  \<^verbatim>\<open>file_mgr/active_head_writer.rs\<close>: the activation pipeline.  A generation directory is built below
  \<open>active/.tmp/\<close>, renamed below \<open>active/generations/\<close>, and only then named by \<open>active/current.json\<close>.  The
  SHA-256 digest (\<open>digest\<close>), the loader of the runtime candidate (\<open>loader\<close>, which reads the tree) and the fresh
  UUID are arguments.  A text is its UTF-8 bytes; the messages of errors keep their subject.
\<close>

section \<open>Text\<close>

definition as_bytes :: "string \<Rightarrow> bytes" where
  "as_bytes s = map (\<lambda>c. word_of_nat (of_char c)) s"

definition bytes_text :: "bytes \<Rightarrow> string" where
  "bytes_text b = map (\<lambda>x. char_of (unat x)) b"

lemma bytes_text_as_bytes [simp]: "bytes_text (as_bytes s) = s"
proof -
  have "char_of (unat (word_of_nat (of_char c) :: u8)) = c" for c :: char
    by (simp add: unat_of_nat)
  then show ?thesis by (simp add: bytes_text_def as_bytes_def comp_def)
qed

text \<open>The number of bytes of the character that starts with a byte; 1 also for a byte that starts none.\<close>

definition utf8_width :: "char \<Rightarrow> nat" where
  "utf8_width c =
     (let n = of_char c :: nat in if n < 192 then 1 else if n < 224 then 2 else if n < 240 then 3 else 4)"

function utf8_check :: "string \<Rightarrow> bool" where
  "utf8_check [] = True"
| "utf8_check (c # cs) =
     (utf8_char (take (utf8_width c) (c # cs)) \<and> utf8_check (drop (utf8_width c) (c # cs)))"
  by pat_completeness auto
termination
  by (relation "measure length") (auto simp: utf8_width_def Let_def)

text \<open>\<open>str::lines\<close>: pieces between line feeds, the last one only when not empty, without a final CR.\<close>

definition strip_cr :: "string \<Rightarrow> string" where
  "strip_cr s = (if s \<noteq> [] \<and> last s = CHR 0x0D then butlast s else s)"

definition str_lines :: "string \<Rightarrow> string list" where
  "str_lines s =
     (let ps = split_on (CHR 0x0A) s in map strip_cr (if last ps = [] then butlast ps else ps))"

definition trim_end_cr :: "string \<Rightarrow> string" where
  "trim_end_cr s = rev (dropWhile (\<lambda>c. c = CHR 0x0D) (rev s))"

section \<open>Data\<close>

record default_head_source =
  ds_path :: path
  ds_labels_path :: path

datatype activation_origin_input =
    HeadInput path workspace_id head_id
  | DefaultInput default_head_source

record pending_activation =
  pa_root :: path
  pa_origin_input :: activation_origin_input
  pa_now_rfc3339 :: string

record 'c activation_result =
  ar_manifest :: active_head_manifest
  ar_activation_id :: string
  ar_candidate :: 'c

datatype activation_error =
    ActivationNotFound string
  | HashMismatch string string string
  | ActivationValidation active_head_validation_error
  | SourceManifestInvalid head_validation_error
  | ActivationFile file_error
  | Preload string

fun activation_error_kind :: "activation_error \<Rightarrow> error_kind" where
  "activation_error_kind (ActivationNotFound _) = NotFound"
| "activation_error_kind (HashMismatch _ _ _) = UserInput"
| "activation_error_kind (Preload _) = UserInput"
| "activation_error_kind (ActivationValidation _) = Internal"
| "activation_error_kind (SourceManifestInvalid e) = head_validation_error_kind e"
| "activation_error_kind (ActivationFile e) = file_error_kind e"

record staged_source =
  ss_origin :: active_origin
  ss_head_sha256 :: string
  ss_labels_sha256 :: string
  ss_n_classes :: nat
  ss_labels :: "string list"

type_synonym ('z, 'a) act_prog = "('z disk_scheme, activation_error, 'a) prog"

section \<open>Helpers\<close>

definition labels_to_text :: "string list \<Rightarrow> string" where
  "labels_to_text labels = join_with (CHR 0x0A) labels"

definition sha256_hex_of :: "(bytes \<Rightarrow> bytes) \<Rightarrow> bytes \<Rightarrow> string" where
  "sha256_hex_of digest bs = hex_lowercase (digest bs)"

text \<open>One round of the copy loop per chunk: a read that may fail, then the write.\<close>

fun copy_chunks :: "path \<Rightarrow> path \<Rightarrow> bytes list \<Rightarrow> ('z, unit) file_prog" where
  "copy_chunks src dst [] = ret ()"
| "copy_chunks src dst (c # cs) =
     bind_p (io_at src (fs_call fs_sync)) (\<lambda>_.
     bind_p (io_at dst (fs_call (fs_write_all dst c))) (\<lambda>_. copy_chunks src dst cs))"

definition copy_and_hash :: "(bytes \<Rightarrow> bytes) \<Rightarrow> path \<Rightarrow> path \<Rightarrow> ('z, string) file_prog" where
  "copy_and_hash digest src dst =
     bind_p (io_at src (fs_call (fs_read src))) (\<lambda>bs.
     bind_p (io_at dst (fs_call (fs_create dst))) (\<lambda>_.
     bind_p (copy_chunks src dst (chunks 65536 bs)) (\<lambda>_.
     bind_p (io_at dst (fs_call fs_sync)) (\<lambda>_.
     ret (hex_lowercase (digest bs))))))"

definition not_found_as :: "string \<Rightarrow> file_error \<Rightarrow> activation_error" where
  "not_found_as what e = (case e of FileIo p IoNotFound \<Rightarrow> ActivationNotFound what | _ \<Rightarrow> ActivationFile e)"

section \<open>Staging\<close>

definition stage_head_origin ::
  "serde \<Rightarrow> (bytes \<Rightarrow> bytes) \<Rightarrow> path \<Rightarrow> workspace_id \<Rightarrow> head_id \<Rightarrow> path \<Rightarrow> ('z, staged_source) act_prog"
where
  "stage_head_origin sj digest workspace_dir ws h staging_dir =
     bind_p (map_err (not_found_as h) (read_head_manifest sj workspace_dir h)) (\<lambda>manifest.
     bind_p (lift_result (case head_manifest_validate manifest of
         Inl e \<Rightarrow> Err (SourceManifestInvalid e) | Inr _ \<Rightarrow> Ok ())) (\<lambda>_.
     let mpk_path = head_artifact_path workspace_dir h in
     bind_p (fs_test (fs_is_file mpk_path)) (\<lambda>present.
     if \<not> present then fail (ActivationNotFound h)
     else bind_p (map_err (not_found_as h) (copy_and_hash digest mpk_path (staging_dir @ [active_head_filename]))) (\<lambda>head_sha.
       if head_sha \<noteq> hm_sha256 manifest then fail (HashMismatch h (hm_sha256 manifest) head_sha)
       else let labels_bytes = as_bytes (labels_to_text (hm_labels manifest)) in
         bind_p (map_err ActivationFile (put_atomic (staging_dir @ [active_labels_filename]) labels_bytes)) (\<lambda>_.
         if length (hm_labels manifest) \<ge> 2 ^ 32
         then fail (ActivationFile (metadata_parse_err staging_dir ''labels count overflows u32''))
         else ret \<lparr>ss_origin = OriginHead ws h (hm_workspace_revision manifest), ss_head_sha256 = head_sha,
                   ss_labels_sha256 = sha256_hex_of digest labels_bytes,
                   ss_n_classes = length (hm_labels manifest), ss_labels = hm_labels manifest\<rparr>)))))"

definition default_labels :: "string \<Rightarrow> string list" where
  "default_labels text = filter (\<lambda>s. s \<noteq> []) (map trim_end_cr (str_lines text))"

definition read_default :: "path \<Rightarrow> string \<Rightarrow> ('z, bytes) act_prog" where
  "read_default p what =
     map_err (\<lambda>e. if e = IoNotFound then ActivationNotFound what else ActivationFile (io_err p e)) (fs_call (fs_read p))"

definition stage_default_origin ::
  "(bytes \<Rightarrow> bytes) \<Rightarrow> default_head_source \<Rightarrow> path \<Rightarrow> ('z, staged_source) act_prog"
where
  "stage_default_origin digest source staging_dir =
     bind_p (read_default (ds_path source) ''default head'') (\<lambda>mpk_bytes.
     bind_p (read_default (ds_labels_path source) ''default head labels'') (\<lambda>labels_bytes.
     let bad = ActivationFile (io_err (ds_labels_path source) IoInvalidData);
         text = bytes_text labels_bytes; labels = default_labels text in
     if \<not> utf8_check text then fail bad
     else if labels = [] then fail bad
     else if length labels \<ge> 2 ^ 32 then fail bad
     else bind_p (map_err ActivationFile (put_atomic (staging_dir @ [active_head_filename]) mpk_bytes)) (\<lambda>_.
       bind_p (map_err ActivationFile (put_atomic (staging_dir @ [active_labels_filename]) labels_bytes)) (\<lambda>_.
       ret \<lparr>ss_origin = OriginDefault, ss_head_sha256 = sha256_hex_of digest mpk_bytes,
            ss_labels_sha256 = sha256_hex_of digest labels_bytes, ss_n_classes = length labels,
            ss_labels = labels\<rparr>))))"

definition make_dir :: "path \<Rightarrow> ('z, unit) act_prog" where
  "make_dir p = map_err ActivationFile (io_at p (fs_call (fs_create_dir_all p)))"

definition stage_and_validate_activation ::
  "serde \<Rightarrow> (bytes \<Rightarrow> bytes) \<Rightarrow> (fs \<Rightarrow> path \<Rightarrow> path \<Rightarrow> head_id \<Rightarrow> (string, 'c) result) \<Rightarrow> string \<Rightarrow>
     pending_activation \<Rightarrow> ('z, 'c activation_result) act_prog"
where
  "stage_and_validate_activation sj digest loader activation_id pending =
     (let staging_root = active_staging_dir (pa_root pending); staging_dir = staging_root @ [activation_id] in
      bind_p (make_dir staging_root) (\<lambda>_.
      bind_p (fs_test (fs_exists staging_dir)) (\<lambda>clash.
      if clash then fail (ActivationFile (io_err staging_dir IoAlreadyExists))
      else bind_p (make_dir staging_dir) (\<lambda>_.
        bind_p (case pa_origin_input pending of
            HeadInput workspace_dir ws h \<Rightarrow> stage_head_origin sj digest workspace_dir ws h staging_dir
          | DefaultInput source \<Rightarrow> stage_default_origin digest source staging_dir) (\<lambda>staged.
        let runtime_head_id = (case pa_origin_input pending of
              HeadInput _ _ h \<Rightarrow> h | DefaultInput _ \<Rightarrow> default_runtime_head_id_str);
            manifest = \<lparr>am_origin = ss_origin staged, am_runtime_head_id = runtime_head_id,
              am_sha256 = ss_head_sha256 staged, am_labels_sha256 = ss_labels_sha256 staged,
              am_n_classes = ss_n_classes staged, am_labels = ss_labels staged,
              am_activated_at = pa_now_rfc3339 pending\<rparr> in
        bind_p (lift_result (case active_head_manifest_validate manifest of
            Inl e \<Rightarrow> Err (ActivationValidation e) | Inr _ \<Rightarrow> Ok ())) (\<lambda>_.
        bind_p (\<lambda>w. (case loader (dk_fs w) (staging_dir @ [active_head_filename])
              (staging_dir @ [active_labels_filename]) runtime_head_id of
            Inl message \<Rightarrow> Err (Preload message) | Inr c \<Rightarrow> Ok c, w)) (\<lambda>candidate.
        bind_p (map_err ActivationFile (bind_p (to_vec (sj_active_to_vec sj) manifest) (\<lambda>bs.
            put_atomic (staging_dir @ [active_manifest_filename]) bs))) (\<lambda>_.
        ret \<lparr>ar_manifest = manifest, ar_activation_id = activation_id, ar_candidate = candidate\<rparr>))))))))"

section \<open>Publishing and pruning\<close>

definition staging_path_for :: "path \<Rightarrow> string \<Rightarrow> path" where
  "staging_path_for root activation_id = active_staging_dir root @ [activation_id]"

definition publish_active_generation :: "serde \<Rightarrow> path \<Rightarrow> path \<Rightarrow> string \<Rightarrow> ('z, unit) act_prog" where
  "publish_active_generation sj root staging activation_id =
     (let generations_root = active_generations_dir root; final_dir = active_generation_dir root activation_id in
      bind_p (make_dir generations_root) (\<lambda>_.
      bind_p (map_err ActivationFile (io_at final_dir (fs_call (fs_rename staging final_dir)))) (\<lambda>_.
      bind_p (map_err ActivationFile (io_at generations_root (fsync_dir generations_root))) (\<lambda>_.
      bind_p (map_err ActivationFile (write_active_current sj root \<lparr>ap_activation_id = activation_id\<rparr>)) (\<lambda>_.
      map_err ActivationFile (io_at (active_dir root) (fsync_dir (active_dir root))))))))"

fun prune_entries :: "path \<Rightarrow> string list \<Rightarrow> (string \<times> bool) list \<Rightarrow> ('z, nat) act_prog" where
  "prune_entries generations_root keep [] = ret 0"
| "prune_entries generations_root keep ((name, _) # entries) =
     (if name \<in> set keep then prune_entries generations_root keep entries
      else let p = generations_root @ [name] in
        bind_p (map_err ActivationFile (io_at p (fs_call (fs_stat p)))) (\<lambda>metadata.
        if metadata = DirNode
        then bind_p (map_err ActivationFile (io_at p (fs_call (fs_remove_dir_all p)))) (\<lambda>_.
          bind_p (prune_entries generations_root keep entries) (\<lambda>removed. ret (Suc removed)))
        else prune_entries generations_root keep entries))"

definition prune_old_generations :: "path \<Rightarrow> string list \<Rightarrow> ('z, nat) act_prog" where
  "prune_old_generations root keep =
     (let generations_root = active_generations_dir root in
      bind_p (fs_test (fs_exists generations_root)) (\<lambda>present.
      if \<not> present then ret 0
      else bind_p (map_err ActivationFile (io_at generations_root (fs_call (fs_read_dir generations_root)))) (\<lambda>entries.
        bind_p (prune_entries generations_root keep entries) (\<lambda>removed.
        if removed > 0 then bind_p (attempt (fsync_dir generations_root)) (\<lambda>_. ret removed)
        else ret removed))))"

section \<open>The activation request\<close>

text \<open>
  The section of \<^verbatim>\<open>api/routes/active.rs\<close> that runs under the activation mutex: remember the previous
  generation, stage and publish, install the candidate into the runtime (\<open>aw_installed\<close>), prune all but
  the two newest generations.  \<open>install\<close> is the check with which the head store takes a candidate
  (\<open>install_prevalidated\<close>).
\<close>

record 'h active_world = disk +
  aw_installed :: "'h option"

datatype activate_request = HeadActivate workspace_id head_id | DefaultActivate bool

datatype active_api_error =
    ApiBad string
  | ApiActivation activation_error
  | ApiFile file_error
  | ApiHeadStore string

definition stage_and_publish_activation ::
  "serde \<Rightarrow> (bytes \<Rightarrow> bytes) \<Rightarrow> (fs \<Rightarrow> path \<Rightarrow> path \<Rightarrow> head_id \<Rightarrow> (string, 'c) result) \<Rightarrow> string \<Rightarrow> string \<Rightarrow>
     path \<Rightarrow> activation_origin_input \<Rightarrow> ('z, 'c activation_result) act_prog"
where
  "stage_and_publish_activation sj digest loader activation_id now root origin_input =
     bind_p (stage_and_validate_activation sj digest loader activation_id
        \<lparr>pa_root = root, pa_origin_input = origin_input, pa_now_rfc3339 = now\<rparr>) (\<lambda>result.
     bind_p (publish_active_generation sj root (staging_path_for root (ar_activation_id result)) (ar_activation_id result)) (\<lambda>_.
     ret result))"

definition origin_input_of ::
  "path \<Rightarrow> default_head_source option \<Rightarrow> activate_request \<Rightarrow> (active_api_error, activation_origin_input) result"
where
  "origin_input_of root default_head req =
     (case req of
        HeadActivate ws h \<Rightarrow> Ok (HeadInput (workspace_dir_for root ws) ws h)
      | DefaultActivate _ \<Rightarrow>
          (case default_head of
             None \<Rightarrow> Err (ApiBad ''head.default not configured'')
           | Some source \<Rightarrow> Ok (DefaultInput source)))"

definition install_prevalidated ::
  "('c \<Rightarrow> (string, 'h) result) \<Rightarrow> 'c \<Rightarrow> ('h active_world, active_api_error, unit) prog"
where
  "install_prevalidated install candidate w =
     (case install candidate of
        Inl e \<Rightarrow> (Err (ApiHeadStore e), w)
      | Inr h \<Rightarrow> (Ok (), w\<lparr>aw_installed := Some h\<rparr>))"

definition post_active_locked ::
  "serde \<Rightarrow> (bytes \<Rightarrow> bytes) \<Rightarrow> (fs \<Rightarrow> path \<Rightarrow> path \<Rightarrow> head_id \<Rightarrow> (string, 'c) result) \<Rightarrow> ('c \<Rightarrow> (string, 'h) result) \<Rightarrow>
     default_head_source option \<Rightarrow> string \<Rightarrow> string \<Rightarrow> path \<Rightarrow> activate_request \<Rightarrow>
     ('h active_world, active_api_error, string \<times> active_head_manifest) prog"
where
  "post_active_locked sj digest loader install default_head activation_id now root req =
     bind_p (attempt (read_active_current sj root)) (\<lambda>previous.
     bind_p (lift_result (case previous of
         Inr p \<Rightarrow> Ok (Some (ap_activation_id p))
       | Inl (FileIo _ IoNotFound) \<Rightarrow> Ok None
       | Inl e \<Rightarrow> Err (ApiFile e))) (\<lambda>previous_id.
     bind_p (lift_result (origin_input_of root default_head req)) (\<lambda>origin_input.
     bind_p (map_err ApiActivation
         (stage_and_publish_activation sj digest loader activation_id now root origin_input)) (\<lambda>result.
     bind_p (install_prevalidated install (ar_candidate result)) (\<lambda>_.
     bind_p (attempt (prune_old_generations root
         (ar_activation_id result # (case previous_id of None \<Rightarrow> [] | Some p \<Rightarrow> [p])))) (\<lambda>_.
     ret (ar_activation_id result, ar_manifest result)))))))"

end
