(* ===== verification/Active_Staging.thy ===== *)
theory Active_Staging
  imports Active_Head
begin

text \<open>
  Staging an activation (\<^verbatim>\<open>active_head_writer.rs\<close>): the programs touch nothing outside their own directory below
  \<open>active/.tmp/\<close>, and when they succeed the directory holds a valid manifest and files that hash to
  what the manifest records.
\<close>

section \<open>Frames\<close>

definition only :: "path set \<Rightarrow> fs \<Rightarrow> fs \<Rightarrow> bool" where
  "only X t s \<longleftrightarrow> (\<forall>q. q \<notin> X \<longrightarrow> node_at s q = node_at t q)"

lemma only_refl [simp]: "only X t t"
  by (simp add: only_def)

lemma only_trans: "only X t s \<Longrightarrow> only X s u \<Longrightarrow> only X t u"
  by (simp add: only_def)

lemma only_mono: "only X t s \<Longrightarrow> X \<subseteq> Y \<Longrightarrow> only Y t s"
  by (auto simp: only_def)

lemma only_node: "only X t s \<Longrightarrow> p \<notin> X \<Longrightarrow> node_at s p = node_at t p"
  by (simp add: only_def)

lemma only_value: "only X t s \<Longrightarrow> p \<notin> X \<Longrightarrow> file_value dec s p = file_value dec t p"
  by (simp add: only_def file_value_def)

lemma call_only:
  assumes "\<And>x ts s. op (dk_fs w) = Ok (x, ts) \<Longrightarrow> s \<in> set ts \<Longrightarrow> only X (dk_fs w) s"
  shows "run_ok (only X (dk_fs w)) (fs_call op) w
     (\<lambda>r w'. disk.more w' = disk.more w \<and> only X (dk_fs w) (dk_fs w') \<and>
        (\<forall>x. r = Ok x \<longrightarrow> (\<exists>ts. op (dk_fs w) = Ok (x, ts) \<and> dk_fs w' = last (dk_fs w # ts))))"
proof (rule run_ok_post [OF call_spec])
  fix r and w' :: "'b disk_scheme"
  assume p: "passes (only X (dk_fs w)) w w'" "call_post op w r w'"
  have "only X (dk_fs w) (dk_fs w')" using passes_final [OF p(1)] by simp
  then show "disk.more w' = disk.more w \<and> only X (dk_fs w) (dk_fs w') \<and>
        (\<forall>x. r = Ok x \<longrightarrow> (\<exists>ts. op (dk_fs w) = Ok (x, ts) \<and> dk_fs w' = last (dk_fs w # ts)))"
    using p(2) unfolding call_post_def by (cases r) simp_all
qed (use assms in blast)

lemma put_states_only:
  assumes "put_states (d @ [x]) bs t s"
  shows "only {q. prefix d q} t s"
  unfolding only_def
proof (intro allI impI)
  fix q assume "q \<notin> {q. prefix d q}"
  then have "q \<noteq> d @ [x]" "\<not> is_temp_in (butlast (d @ [x])) q" by (auto simp: is_temp_in_def temp_path_def)
  then show "node_at s q = node_at t q" using assms unfolding put_states_def by metis
qed

lemma put_atomic_only:
  "run_ok (only {q. prefix d q} (dk_fs w)) (put_atomic (d @ [x]) bs) w
     (\<lambda>r w'. disk.more w' = disk.more w \<and> only {q. prefix d q} (dk_fs w) (dk_fs w') \<and> keeps {d @ [x]} (dk_fs w) (dk_fs w') \<and>
        (r = Ok () \<longrightarrow> node_at (dk_fs w') (d @ [x]) = Some (FileNode bs)))"
  by (rule run_ok_weaken [OF put_atomic_spec]) (auto intro: put_states_only put_states_keeps)

section \<open>Copying\<close>

lemma write_all_file:
  assumes "fs_write_all p bs t = Ok (x, ts)" and "node_at t p = Some (FileNode a)"
  shows "s \<in> set ts \<Longrightarrow> only {p} t s" and "node_at (last (t # ts)) p = Some (FileNode (a @ bs))"
proof -
  have ts: "ts = map (\<lambda>i. AList.update p (FileNode (a @ take i bs)) t) [1 ..< Suc (length bs)]"
    using assms by (simp add: fs_write_all_def)
  show "only {p} t s" if "s \<in> set ts" using that by (auto simp: ts only_def)
  show "node_at (last (t # ts)) p = Some (FileNode (a @ bs))"
    using assms(2) by (cases "bs = []") (auto simp: ts last_map upt_Suc simp del: upt_Suc)
qed

lemma copy_chunks_spec:
  assumes "node_at (dk_fs w) dst = Some (FileNode a)"
  shows "run_ok (only {dst} (dk_fs w)) (copy_chunks src dst cs) w
     (\<lambda>r w'. disk.more w' = disk.more w \<and> only {dst} (dk_fs w) (dk_fs w') \<and>
        (r = Ok () \<longrightarrow> node_at (dk_fs w') dst = Some (FileNode (a @ concat cs))))"
  using assms
proof (induction cs arbitrary: a w)
  case Nil
  then show ?case by (auto intro!: run_ok_ret)
next
  case (Cons c cs)
  let ?I = "only {dst} (dk_fs w)"
  let ?Q = "\<lambda>r w'. disk.more w' = disk.more w \<and> only {dst} (dk_fs w) (dk_fs w') \<and>
        (r = Ok () \<longrightarrow> node_at (dk_fs w') dst = Some (FileNode (a @ concat (c # cs))))"
  have rest: "run_ok ?I (copy_chunks src dst cs) v ?Q"
    if v: "disk.more v = disk.more w" "?I (dk_fs v)" "node_at (dk_fs v) dst = Some (FileNode (a @ c))" for v
    by (rule run_ok_weaken [OF Cons.IH [OF v(3)]]) (use v only_trans in \<open>auto simp: only_def\<close>)
  have chunk: "run_ok ?I (bind_p (io_at dst (fs_call (fs_write_all dst c))) (\<lambda>_. copy_chunks src dst cs)) v ?Q"
    if v: "disk.more v = disk.more w" "dk_fs v = dk_fs w" for v
  proof -
    have n: "node_at (dk_fs v) dst = Some (FileNode a)" using v Cons.prems by simp
    show ?thesis
      unfolding io_at_def
      by (rule run_ok_step_err [OF call_only [OF write_all_file(1) [OF _ n]]], assumption, assumption)
        (use v write_all_file(2) [OF _ n] rest in \<open>auto simp del: last.simps\<close>)
  qed
  show ?case
    unfolding copy_chunks.simps io_at_def [of src]
    by (rule run_ok_step_err [OF sync_call]) (use chunk Cons.prems in auto)
qed

lemma create_file:
  assumes "fs_create p t = Ok (x, ts)"
  shows "s \<in> set ts \<Longrightarrow> only {p} t s" and "node_at (last (t # ts)) p = Some (FileNode [])"
  using assms by (auto simp: fs_create_def only_def split: if_splits)

lemma copy_and_hash_spec:
  "run_ok (only {dst} (dk_fs w)) (copy_and_hash digest src dst) w
     (\<lambda>r w'. disk.more w' = disk.more w \<and> only {dst} (dk_fs w) (dk_fs w') \<and>
        (\<forall>h. r = Ok h \<longrightarrow> (\<exists>b. node_at (dk_fs w') dst = Some (FileNode b) \<and> h = sha256_hex_of digest b)))"
    (is "run_ok ?I _ w ?Q")
proof -
  have fin: "run_ok ?I (bind_p (io_at dst (fs_call fs_sync)) (\<lambda>_. ret (hex_lowercase (digest bs)))) v ?Q"
    if v: "disk.more v = disk.more w" "?I (dk_fs v)" "node_at (dk_fs v) dst = Some (FileNode bs)" for v bs
    unfolding io_at_def
    by (rule run_ok_step_err [OF sync_call]) (use v in \<open>auto simp: sha256_hex_of_def intro!: run_ok_ret\<close>)
  have copy: "run_ok ?I (bind_p (copy_chunks src dst (chunks 65536 bs)) (\<lambda>_.
      bind_p (io_at dst (fs_call fs_sync)) (\<lambda>_. ret (hex_lowercase (digest bs))))) v ?Q"
    if v: "disk.more v = disk.more w" "?I (dk_fs v)" "node_at (dk_fs v) dst = Some (FileNode [])" for v bs
    by (rule run_ok_step [OF copy_chunks_spec [OF v(3)]])
      (use v only_trans [OF v(2)] fin in \<open>auto simp: concat_chunks\<close>)
  have create: "run_ok ?I (bind_p (io_at dst (fs_call (fs_create dst))) (\<lambda>_.
      bind_p (copy_chunks src dst (chunks 65536 bs)) (\<lambda>_.
      bind_p (io_at dst (fs_call fs_sync)) (\<lambda>_. ret (hex_lowercase (digest bs)))))) v ?Q"
    if v: "unchanged w v" for v bs
    unfolding io_at_def [of dst "fs_call (fs_create dst)"]
    by (rule run_ok_step_err [OF call_only [OF create_file(1)]], assumption, assumption)
      (use v create_file(2) copy in \<open>auto simp: unchanged_def simp del: last.simps\<close>)
  show ?thesis
    unfolding copy_and_hash_def io_at_def [of src]
    by (rule run_ok_step_err [OF pure_call [OF read_pure]]) (use create in \<open>auto simp: unchanged_def\<close>)
qed

section \<open>Staging\<close>

text \<open>The two artifact files of a directory, with the digests recorded for them.\<close>

definition artifacts :: "(bytes \<Rightarrow> bytes) \<Rightarrow> fs \<Rightarrow> path \<Rightarrow> string \<Rightarrow> string \<Rightarrow> bool" where
  "artifacts digest t dir head_sha labels_sha \<longleftrightarrow>
     (\<exists>hb lb. node_at t (dir @ [active_head_filename]) = Some (FileNode hb) \<and> sha256_hex_of digest hb = head_sha \<and>
              node_at t (dir @ [active_labels_filename]) = Some (FileNode lb) \<and> sha256_hex_of digest lb = labels_sha)"

definition staging_frame :: "path \<Rightarrow> 'z disk_scheme \<Rightarrow> 'z disk_scheme \<Rightarrow> bool" where
  "staging_frame dir w w' \<longleftrightarrow>
     disk.more w' = disk.more w \<and> only {q. prefix dir q} (dk_fs w) (dk_fs w') \<and>
     keeps {q. strict_prefix dir q} (dk_fs w) (dk_fs w')"

definition staged_post ::
  "(bytes \<Rightarrow> bytes) \<Rightarrow> path \<Rightarrow> 'z disk_scheme \<Rightarrow> (activation_error, staged_source) result \<Rightarrow> 'z disk_scheme \<Rightarrow> bool"
where
  "staged_post digest dir w r w' \<longleftrightarrow>
     staging_frame dir w w' \<and>
     (\<forall>x. r = Ok x \<longrightarrow> artifacts digest (dk_fs w') dir (ss_head_sha256 x) (ss_labels_sha256 x))"

lemma staged_post_Err [simp]: "staged_post digest dir w (Inl e) w' = staging_frame dir w w'"
  by (simp add: staged_post_def)

lemma unchanged_frame: "unchanged w v \<Longrightarrow> staging_frame dir w v"
  by (simp add: unchanged_def staging_frame_def)

lemma file_names: "active_head_filename \<noteq> active_labels_filename" "active_manifest_filename \<noteq> active_head_filename"
  "active_manifest_filename \<noteq> active_labels_filename"
  by (simp_all add: active_head_filename_def active_labels_filename_def active_manifest_filename_def)

lemma below: "strict_prefix d (d @ [x])"
  by (simp add: strict_prefix_def)

lemma keeps_below: "keeps {d @ [x]} t s \<Longrightarrow> keeps {q. strict_prefix d q} t s"
  by (erule keeps_mono) (auto simp: strict_prefix_def)

lemma keeps_below_trans: "keeps {q. strict_prefix d q} t s \<Longrightarrow> keeps {q. strict_prefix d q} s u \<Longrightarrow> keeps {q. strict_prefix d q} t u"
  using keeps_trans by fastforce

text \<open>Writing the labels after the weights: both are in place.\<close>

lemma staging_frame_trans: "staging_frame dir u v \<Longrightarrow> staging_frame dir v w \<Longrightarrow> staging_frame dir u w"
  unfolding staging_frame_def using only_trans keeps_below_trans by fastforce

lemma frame_only: "staging_frame dir w v \<Longrightarrow> only {q. prefix dir q} (dk_fs v) t \<Longrightarrow> only {q. prefix dir q} (dk_fs w) t"
  unfolding staging_frame_def using only_trans by blast

lemma put_in_staging:
  "run_ok (only {q. prefix dir q} (dk_fs v)) (put_atomic (dir @ [x]) bs) v
     (\<lambda>r w'. staging_frame dir v w' \<and> keeps {dir @ [x]} (dk_fs v) (dk_fs w') \<and>
        (r = Ok () \<longrightarrow> node_at (dk_fs w') (dir @ [x]) = Some (FileNode bs)))"
  by (rule run_ok_post [OF put_atomic_only]) (auto simp: staging_frame_def intro: keeps_below)

lemma put_labels:
  assumes "node_at (dk_fs v) (dir @ [active_head_filename]) = Some (FileNode hb)"
  shows "run_ok (only {q. prefix dir q} (dk_fs v)) (put_atomic (dir @ [active_labels_filename]) lb) v
     (\<lambda>r w'. staging_frame dir v w' \<and>
        (r = Ok () \<longrightarrow> artifacts digest (dk_fs w') dir (sha256_hex_of digest hb) (sha256_hex_of digest lb)))"
  by (rule run_ok_post [OF put_in_staging])
    (use assms file_names in \<open>auto simp: artifacts_def dest: keeps_node\<close>)

lemma copy_into_staging:
  "run_ok (only {q. prefix dir q} (dk_fs v)) (copy_and_hash digest src (dir @ [x])) v
     (\<lambda>r w'. staging_frame dir v w' \<and>
        (\<forall>h. r = Ok h \<longrightarrow> (\<exists>b. node_at (dk_fs w') (dir @ [x]) = Some (FileNode b) \<and> h = sha256_hex_of digest b)))"
proof (rule run_ok_weaken [OF copy_and_hash_spec])
  have o: "only {q. prefix dir q} (dk_fs v) t" if "only {dir @ [x]} (dk_fs v) t" for t
    using that by (rule only_mono) auto
  then show "only {q. prefix dir q} (dk_fs v) t" if "only {dir @ [x]} (dk_fs v) t" for t using that .
  have k: "keeps {q. strict_prefix dir q} (dk_fs v) t" if "only {dir @ [x]} (dk_fs v) t" for t
    by (rule keeps_below [of _ x]) (use that in \<open>auto simp: only_def keeps_def\<close>)
  fix r w'
  assume "disk.more w' = disk.more v \<and> only {dir @ [x]} (dk_fs v) (dk_fs w') \<and>
     (\<forall>h. r = Ok h \<longrightarrow> (\<exists>b. node_at (dk_fs w') (dir @ [x]) = Some (FileNode b) \<and> h = sha256_hex_of digest b))"
  then show "staging_frame dir v w' \<and>
        (\<forall>h. r = Ok h \<longrightarrow> (\<exists>b. node_at (dk_fs w') (dir @ [x]) = Some (FileNode b) \<and> h = sha256_hex_of digest b))"
    using o k by (simp add: staging_frame_def)
qed

lemma stage_head_origin_spec:
  "run_ok (only {q. prefix dir q} (dk_fs w)) (stage_head_origin sj digest wd ws h dir) w (staged_post digest dir w)"
    (is "run_ok ?I _ w ?Q")
proof -
  let ?F = "staging_frame dir w"
  have labels: "run_ok ?I (bind_p (map_err ActivationFile (put_atomic (dir @ [active_labels_filename]) lb)) (\<lambda>_.
         if length (hm_labels m) \<ge> 2 ^ 32 then fail e
         else ret \<lparr>ss_origin = org, ss_head_sha256 = sha256_hex_of digest hb, ss_labels_sha256 = sha256_hex_of digest lb,
                   ss_n_classes = n, ss_labels = ls\<rparr>)) v ?Q"
    if v: "?F v" "node_at (dk_fs v) (dir @ [active_head_filename]) = Some (FileNode hb)" for v hb lb m e org n ls
    by (rule run_ok_step_err [OF put_labels [OF v(2), where digest = digest]], erule frame_only [OF v(1)])
      (use v(1) staging_frame_trans in \<open>auto simp: staged_post_def intro!: run_ok_if run_ok_fail run_ok_ret\<close>)
  have copy: "run_ok ?I (bind_p (map_err (not_found_as h) (copy_and_hash digest mpk (dir @ [active_head_filename]))) (\<lambda>head_sha.
       if head_sha \<noteq> hm_sha256 m then fail (HashMismatch h (hm_sha256 m) head_sha)
       else let labels_bytes = as_bytes (labels_to_text (hm_labels m)) in
         bind_p (map_err ActivationFile (put_atomic (dir @ [active_labels_filename]) labels_bytes)) (\<lambda>_.
         if length (hm_labels m) \<ge> 2 ^ 32
         then fail (ActivationFile (metadata_parse_err dir ''labels count overflows u32''))
         else ret \<lparr>ss_origin = OriginHead ws h (hm_workspace_revision m), ss_head_sha256 = head_sha,
                   ss_labels_sha256 = sha256_hex_of digest labels_bytes,
                   ss_n_classes = length (hm_labels m), ss_labels = hm_labels m\<rparr>))) v ?Q"
    if v: "?F v" for v m mpk
  proof (rule run_ok_step_err [OF copy_into_staging], erule frame_only [OF v], goal_cases)
    case (2 head_sha w')
    then obtain hb where hb: "node_at (dk_fs w') (dir @ [active_head_filename]) = Some (FileNode hb)"
      and sha: "head_sha = sha256_hex_of digest hb" by blast
    have F: "?F w'" using 2 staging_frame_trans [OF v] by blast
    show ?case unfolding sha Let_def
      by (intro run_ok_if run_ok_fail labels [OF F hb]) (simp add: F)
  qed (use staging_frame_trans [OF v] in auto)
  show ?thesis
    unfolding stage_head_origin_def Let_def [of "head_artifact_path wd h"]
    by (rule run_ok_step_err [OF read_head_manifest_spec], assumption, simp add: unchanged_frame,
        intro run_ok_bind run_ok_lift, simp,
        intro run_ok_is_file run_ok_if run_ok_fail copy)
      (auto intro: unchanged_frame unchanged_trans)
qed

lemma stage_default_origin_spec:
  "run_ok (only {q. prefix dir q} (dk_fs w)) (stage_default_origin digest source dir) w (staged_post digest dir w)"
    (is "run_ok ?I _ w ?Q")
proof -
  let ?F = "staging_frame dir w"
  have labels: "run_ok ?I (bind_p (map_err ActivationFile (put_atomic (dir @ [active_labels_filename]) lb)) (\<lambda>_.
         ret \<lparr>ss_origin = org, ss_head_sha256 = sha256_hex_of digest hb, ss_labels_sha256 = sha256_hex_of digest lb,
                   ss_n_classes = n, ss_labels = ls\<rparr>)) v ?Q"
    if v: "?F v" "node_at (dk_fs v) (dir @ [active_head_filename]) = Some (FileNode hb)" for v hb lb org n ls
    by (rule run_ok_step_err [OF put_labels [OF v(2), where digest = digest]], erule frame_only [OF v(1)])
      (use v(1) staging_frame_trans in \<open>auto simp: staged_post_def intro!: run_ok_ret\<close>)
  have put: "run_ok ?I (bind_p (map_err ActivationFile (put_atomic (dir @ [active_head_filename]) hb)) (\<lambda>_.
       bind_p (map_err ActivationFile (put_atomic (dir @ [active_labels_filename]) lb)) (\<lambda>_.
       ret \<lparr>ss_origin = org, ss_head_sha256 = sha256_hex_of digest hb, ss_labels_sha256 = sha256_hex_of digest lb,
                   ss_n_classes = n, ss_labels = ls\<rparr>))) v ?Q"
    if v: "?F v" for v hb lb org n ls
    by (rule run_ok_step_err [OF put_in_staging], erule frame_only [OF v])
      (use labels staging_frame_trans [OF v] in auto)
  show ?thesis
    unfolding stage_default_origin_def read_default_def
    by (rule run_ok_step_err [OF pure_call [OF read_pure]], assumption, assumption, simp add: unchanged_frame,
        rule run_ok_step_err [OF pure_call [OF read_pure]], assumption, assumption,
        simp, metis unchanged_frame unchanged_trans,
        unfold Let_def, intro run_ok_if run_ok_fail put)
      (auto intro: unchanged_frame unchanged_trans)
qed

text \<open>A complete generation: a valid manifest and artifacts that match it.\<close>

definition gen_ok :: "serde \<Rightarrow> (bytes \<Rightarrow> bytes) \<Rightarrow> fs \<Rightarrow> path \<Rightarrow> active_head_manifest \<Rightarrow> bool" where
  "gen_ok sj digest t dir m \<longleftrightarrow>
     file_value (sj_active_from_slice sj) t (dir @ [active_manifest_filename]) = Some m \<and>
     active_head_manifest_validate m = Ok () \<and> artifacts digest t dir (am_sha256 m) (am_labels_sha256 m)"

lemma gen_ok_only:
  assumes "gen_ok sj digest t dir m" and "only X t s" and "\<And>x. dir @ [x] \<notin> X"
  shows "gen_ok sj digest s dir m"
  using assms(1) by (simp add: gen_ok_def artifacts_def only_value [OF assms(2,3)] only_node [OF assms(2,3)])

lemma gen_ok_keeps:
  assumes "gen_ok sj digest t dir m" and "keeps X t s" and "\<And>x. dir @ [x] \<notin> X"
  shows "gen_ok sj digest s dir m"
  using assms(1,3) keeps_node [OF assms(2)] unfolding gen_ok_def artifacts_def file_value_Some by blast

lemma make_dir_spec:
  "run_ok (only {q. prefix q p} (dk_fs w)) (make_dir p) w
     (\<lambda>r w'. disk.more w' = disk.more w \<and> only {q. prefix q p} (dk_fs w) (dk_fs w') \<and> keeps {} (dk_fs w) (dk_fs w') \<and>
        (r = Ok () \<longrightarrow> node_at (dk_fs w') p = Some DirNode))"
proof -
  have steps: "node_at s q = node_at t q \<or> prefix q p \<and> node_at t q = None"
    if "fs_create_dir_all p t = Ok (x, ts)" "s \<in> set ts" for t x ts s q
    using that mkdir_steps_only [of s "prefixes p" t q] by (auto simp: fs_create_dir_all_def in_set_prefixes split: if_splits)
  have fin: "node_at (last (t # ts)) p = Some DirNode" if "fs_create_dir_all p t = Ok (x, ts)" for t x ts
  proof -
    have "p \<in> set (prefixes p)" by (simp add: in_set_prefixes)
    then have "ts = mkdir_steps (prefixes p) t" "node_at t p = None \<or> node_at t p = Some DirNode"
      using that by (auto simp: fs_create_dir_all_def list_ex_iff split: if_splits)
    then show ?thesis using mkdir_steps_final [of t "prefixes p" p] \<open>p \<in> set (prefixes p)\<close> by (auto simp del: last.simps)
  qed
  have last: "keeps {} t (last (t # ts))" if "fs_create_dir_all p t = Ok (x, ts)" for t x ts
  proof (cases "ts = []")
    case False
    then have "last (t # ts) \<in> set ts" by simp
    from steps [OF that this] show ?thesis unfolding keeps_def by (metis option.distinct(1))
  qed simp
  have some: "keeps {} t s" if "fs_create_dir_all p t = Ok (x, ts)" "s \<in> set ts" for t x ts s
    using steps [OF that] unfolding keeps_def by (metis option.distinct(1))
  have only: "only {q. prefix q p} t s" if "fs_create_dir_all p t = Ok (x, ts)" "s \<in> set ts" for t x ts s
    using steps [OF that] unfolding only_def by (metis mem_Collect_eq)
  show ?thesis
    unfolding make_dir_def io_at_def
  proof (intro run_ok_map_err, rule run_ok_post [OF call_spec], goal_cases)
    case (1 x ts)
    then show ?case using only by blast
  next
    case (2 r w')
    have o: "only {q. prefix q p} (dk_fs w) (dk_fs w')" using passes_final [OF 2(1)] by simp
    have "keeps {} (dk_fs w) (dk_fs w')"
      using some last 2(2) by (cases r) (auto simp: call_post_def dest: in_set_butlastD simp del: last.simps)
    then show ?case
      using 2(2) o fin unfolding call_post_def by (cases r) (auto simp del: last.simps)
  qed
qed

abbreviation staging_paths :: "path \<Rightarrow> string \<Rightarrow> path set" where
  "staging_paths root a \<equiv> {q. prefix (staging_path_for root a) q \<or> prefix q (staging_path_for root a)}"

definition staged_ok ::
  "serde \<Rightarrow> (bytes \<Rightarrow> bytes) \<Rightarrow> path \<Rightarrow> string \<Rightarrow> fs \<Rightarrow> 'c activation_result \<Rightarrow> bool"
where
  "staged_ok sj digest root a t res \<longleftrightarrow>
     ar_activation_id res = a \<and> node_at t (staging_path_for root a) = Some DirNode \<and>
     gen_ok sj digest t (staging_path_for root a) (ar_manifest res)"

text \<open>The candidate was loaded from files with the digests of the manifest.\<close>

definition loaded_ok ::
  "(bytes \<Rightarrow> bytes) \<Rightarrow> (fs \<Rightarrow> path \<Rightarrow> path \<Rightarrow> head_id \<Rightarrow> (string, 'c) result) \<Rightarrow> path \<Rightarrow> active_head_manifest \<Rightarrow> 'c \<Rightarrow> bool"
where
  "loaded_ok digest loader dir m c \<longleftrightarrow>
     (\<exists>t. artifacts digest t dir (am_sha256 m) (am_labels_sha256 m) \<and>
          loader t (dir @ [active_head_filename]) (dir @ [active_labels_filename]) (am_runtime_head_id m) = Ok c)"

lemma staged_ok_keeps:
  "staged_ok sj digest root a t res \<Longrightarrow> keeps {} t s \<Longrightarrow> staged_ok sj digest root a s res"
  unfolding staged_ok_def using gen_ok_keeps [of sj digest t _ _ "{}" s] keeps_node [of "{}" t s] by blast

lemma write_manifest_spec:
  assumes "serde_ok sj" and "artifacts digest (dk_fs v) dir (am_sha256 m) (am_labels_sha256 m)"
    and "active_head_manifest_validate m = Ok ()"
  shows "run_ok (only {q. prefix dir q} (dk_fs v))
     (map_err ActivationFile (bind_p (to_vec (sj_active_to_vec sj) m) (\<lambda>bs. put_atomic (dir @ [active_manifest_filename]) bs))) v
     (\<lambda>r w'. staging_frame dir v w' \<and> (r = Ok () \<longrightarrow> gen_ok sj digest (dk_fs w') dir m))"
proof (rule run_ok_map_err, cases "sj_active_to_vec sj m")
  case (Inl e)
  then show "run_ok (only {q. prefix dir q} (dk_fs v))
     (bind_p (to_vec (sj_active_to_vec sj) m) (\<lambda>bs. put_atomic (dir @ [active_manifest_filename]) bs)) v
     (\<lambda>r w'. case r of Inl e \<Rightarrow> staging_frame dir v w' \<and> (Err (ActivationFile e) = Ok () \<longrightarrow> gen_ok sj digest (dk_fs w') dir m)
        | Inr x \<Rightarrow> staging_frame dir v w' \<and> (Ok x = Ok () \<longrightarrow> gen_ok sj digest (dk_fs w') dir m))"
    unfolding to_vec_def by (intro run_ok_bind run_ok_lift) (simp add: staging_frame_def)
next
  case (Inr bs)
  then have dec: "sj_active_from_slice sj bs = Ok m" using assms(1) by (auto simp: serde_ok_def codec_ok_def)
  have gen: "gen_ok sj digest (dk_fs w') dir m"
    if "keeps {dir @ [active_manifest_filename]} (dk_fs v) (dk_fs w')"
      "node_at (dk_fs w') (dir @ [active_manifest_filename]) = Some (FileNode bs)" for w' :: "'b disk_scheme"
    using that assms(2,3) dec file_names keeps_node [OF that(1)]
    by (auto simp: gen_ok_def artifacts_def file_value_Some)
  show "run_ok (only {q. prefix dir q} (dk_fs v))
     (bind_p (to_vec (sj_active_to_vec sj) m) (\<lambda>bs. put_atomic (dir @ [active_manifest_filename]) bs)) v
     (\<lambda>r w'. case r of Inl e \<Rightarrow> staging_frame dir v w' \<and> (Err (ActivationFile e) = Ok () \<longrightarrow> gen_ok sj digest (dk_fs w') dir m)
        | Inr x \<Rightarrow> staging_frame dir v w' \<and> (Ok x = Ok () \<longrightarrow> gen_ok sj digest (dk_fs w') dir m))"
    unfolding to_vec_def Inr
    by (intro run_ok_bind run_ok_lift, simp, rule run_ok_post [OF put_in_staging])
      (use gen in \<open>auto split: sum.splits\<close>)
qed

lemma run_ok_load: "Q (f (dk_fs w)) w \<Longrightarrow> run_ok I (\<lambda>w. (f (dk_fs w), w)) w Q"
  by (simp add: run_ok_def)

lemma stage_spec:
  assumes "serde_ok sj"
  shows "run_ok (only (staging_paths (pa_root pending) a) (dk_fs w))
     (stage_and_validate_activation sj digest loader a pending) w
     (\<lambda>r w'. disk.more w' = disk.more w \<and> only (staging_paths (pa_root pending) a) (dk_fs w) (dk_fs w') \<and>
        (\<forall>res. r = Ok res \<longrightarrow> staged_ok sj digest (pa_root pending) a (dk_fs w') res \<and>
           loaded_ok digest loader (staging_path_for (pa_root pending) a) (ar_manifest res) (ar_candidate res)))"
    (is "run_ok ?I _ w ?Q")
proof -
  let ?sd = "staging_path_for (pa_root pending) a"
  let ?F = "\<lambda>v. disk.more v = disk.more w \<and> ?I (dk_fs v)"
  have up: "only (staging_paths (pa_root pending) a) t s" if "only {q. prefix ?sd q} t s" for t s
    using that by (rule only_mono) auto
  have down: "only (staging_paths (pa_root pending) a) t s" if "only {q. prefix q p} t s" "prefix p ?sd" for t s p
    using that(1) by (rule only_mono) (use that(2) prefix_order.trans in blast)
  have F: "?F v'" if "?F v" "staging_frame ?sd v v'" for v v'
  proof -
    have "only (staging_paths (pa_root pending) a) (dk_fs v) (dk_fs v')" using that(2) up by (simp add: staging_frame_def)
    then show ?thesis using that only_trans [of _ "dk_fs w" "dk_fs v" "dk_fs v'"] by (simp add: staging_frame_def)
  qed
  have I: "?I t" if "?F v" "only {q. prefix ?sd q} (dk_fs v) t" for v t
    using up [OF that(2)] only_trans [of _ "dk_fs w" "dk_fs v" t] that(1) by simp
  have finish: "run_ok ?I (bind_p (map_err ActivationFile (bind_p (to_vec (sj_active_to_vec sj) m) (\<lambda>bs.
            put_atomic (?sd @ [active_manifest_filename]) bs))) (\<lambda>_.
        ret \<lparr>ar_manifest = m, ar_activation_id = a, ar_candidate = c\<rparr>)) v ?Q"
    if v: "?F v" "node_at (dk_fs v) ?sd = Some DirNode" "artifacts digest (dk_fs v) ?sd (am_sha256 m) (am_labels_sha256 m)"
      "active_head_manifest_validate m = Ok ()" "loaded_ok digest loader ?sd m c" for v m c
  proof (rule run_ok_step [OF write_manifest_spec [OF assms v(3,4)]], erule I [OF v(1)], goal_cases)
    case (1 e v')
    then show ?case using F [OF v(1), of v'] by simp
  next
    case (2 x v')
    have "node_at (dk_fs v') ?sd = Some DirNode"
      using 2 v(2) keeps_node [of "{q. strict_prefix ?sd q}" "dk_fs v" "dk_fs v'" ?sd] by (simp add: staging_frame_def)
    then show ?case using 2 F [OF v(1), of v'] v(5) by (intro run_ok_ret) (simp add: staged_ok_def)
  qed
  have load: "run_ok ?I (bind_p (lift_result (case active_head_manifest_validate m of
            Inl e \<Rightarrow> Err (ActivationValidation e) | Inr _ \<Rightarrow> Ok ())) (\<lambda>_.
        bind_p (\<lambda>w. (case loader (dk_fs w) (?sd @ [active_head_filename]) (?sd @ [active_labels_filename]) (am_runtime_head_id m) of
            Inl message \<Rightarrow> Err (Preload message) | Inr c \<Rightarrow> Ok c, w)) (\<lambda>candidate.
        bind_p (map_err ActivationFile (bind_p (to_vec (sj_active_to_vec sj) m) (\<lambda>bs.
            put_atomic (?sd @ [active_manifest_filename]) bs))) (\<lambda>_.
        ret \<lparr>ar_manifest = m, ar_activation_id = a, ar_candidate = candidate\<rparr>)))) v ?Q"
    if v: "?F v" "node_at (dk_fs v) ?sd = Some DirNode" "artifacts digest (dk_fs v) ?sd (am_sha256 m) (am_labels_sha256 m)"
      for v m
  proof -
    have "loaded_ok digest loader ?sd m c"
      if "loader (dk_fs v) (?sd @ [active_head_filename]) (?sd @ [active_labels_filename]) (am_runtime_head_id m) = Ok c" for c
      using that v(3) by (auto simp: loaded_ok_def)
    then show ?thesis
      by (intro run_ok_bind run_ok_lift, cases "active_head_manifest_validate m", use v in simp, simp,
          intro run_ok_bind run_ok_load)
        (use v finish in \<open>auto split: sum.splits\<close>)
  qed
  have source: "run_ok (only {q. prefix ?sd q} (dk_fs v)) (case pa_origin_input pending of
            HeadInput wd ws h \<Rightarrow> stage_head_origin sj digest wd ws h ?sd
          | DefaultInput source \<Rightarrow> stage_default_origin digest source ?sd) v (staged_post digest ?sd v)" for v
    by (cases "pa_origin_input pending") (simp_all add: stage_head_origin_spec stage_default_origin_spec)
  have same: "?F v" if "unchanged u v" "?F u" for u v using that by (simp add: unchanged_def)
  show ?thesis
    unfolding stage_and_validate_activation_def Let_def staging_path_for_def [symmetric]
  proof (rule run_ok_step [OF make_dir_spec], goal_cases)
    case (1 t) then show ?case by (rule down) (simp add: staging_path_for_def)
  next
    case (2 e v) then show ?case using down [of "active_staging_dir (pa_root pending)"] by (simp add: staging_path_for_def)
  next
    case (3 u v)
    have Fv: "?F v" using 3 down [of "active_staging_dir (pa_root pending)"] by (simp add: staging_path_for_def)
    show ?case
    proof (intro run_ok_exists run_ok_if run_ok_fail, goal_cases)
      case (1 b v') then show ?case using same [OF 1(1) Fv] by simp
    next
      case (2 b v')
      have Fv': "?F v'" by (rule same [OF 2(1) Fv])
      show ?case
      proof (rule run_ok_step [OF make_dir_spec], goal_cases)
        case (1 t) then show ?case using Fv' only_trans [of _ "dk_fs w" "dk_fs v'" t] down [of ?sd] by simp
      next
        case (2 e v2) then show ?case using Fv' only_trans [of _ "dk_fs w" "dk_fs v'" "dk_fs v2"] down [of ?sd] by simp
      next
        case (3 u v2)
        have F2: "?F v2" "node_at (dk_fs v2) ?sd = Some DirNode"
          using 3 Fv' only_trans [of _ "dk_fs w" "dk_fs v'" "dk_fs v2"] down [of ?sd] by simp_all
        show ?case
        proof (rule run_ok_step [OF source], goal_cases)
          case (1 t) then show ?case by (rule I [OF F2(1)])
        next
          case (2 e v3) then show ?case using F [OF F2(1), of v3] by simp
        next
          case (3 st v3)
          then have "staging_frame ?sd v2 v3" by (simp add: staged_post_def)
          then have "?F v3" "node_at (dk_fs v3) ?sd = Some DirNode"
            using F [OF F2(1), of v3] F2(2) keeps_node [of "{q. strict_prefix ?sd q}" "dk_fs v2" "dk_fs v3" ?sd]
            by (simp_all add: staging_frame_def)
          moreover define m where "m = \<lparr>am_origin = ss_origin st, am_runtime_head_id = (case pa_origin_input pending of
                HeadInput _ _ h \<Rightarrow> h | DefaultInput _ \<Rightarrow> default_runtime_head_id_str),
              am_sha256 = ss_head_sha256 st, am_labels_sha256 = ss_labels_sha256 st,
              am_n_classes = ss_n_classes st, am_labels = ss_labels st, am_activated_at = pa_now_rfc3339 pending\<rparr>"
          ultimately show ?case using 3 load [of v3 m] by (simp add: staged_post_def m_def)
        qed
      qed
    qed
  qed
qed

end
