(* ===== verification/Active_Properties.thy ===== *)
theory Active_Properties
  imports Active_Staging
begin

text \<open>
  The activation pipeline never lets \<open>current.json\<close> name a generation that is not complete: at every
  state of the tree, through failures and crashes, the generation it names has a valid manifest and
  files that hash to what the manifest records.
\<close>

section \<open>Publishing\<close>

text \<open>
  The invariant of \<open>active/\<close>: the generation \<open>current.json\<close> names, when it parses to a pointer, is
  complete.
\<close>

definition active_sound :: "serde \<Rightarrow> (bytes \<Rightarrow> bytes) \<Rightarrow> path \<Rightarrow> fs \<Rightarrow> bool" where
  "active_sound sj digest root t \<longleftrightarrow>
     (case file_value (sj_pointer_from_slice sj) t (active_current_path root) of
        None \<Rightarrow> True
      | Some p \<Rightarrow> \<exists>m. gen_ok sj digest t (active_generation_dir root (ap_activation_id p)) m)"

text \<open>Soundness, and no generation that was complete in \<open>t0\<close> has been damaged since.\<close>

definition sound_from :: "serde \<Rightarrow> (bytes \<Rightarrow> bytes) \<Rightarrow> path \<Rightarrow> fs \<Rightarrow> fs \<Rightarrow> bool" where
  "sound_from sj digest root t0 t \<longleftrightarrow>
     active_sound sj digest root t \<and>
     (\<forall>a m. gen_ok sj digest t0 (active_generation_dir root a) m \<longrightarrow> gen_ok sj digest t (active_generation_dir root a) m)"

lemma sound_from_refl [simp]: "sound_from sj digest root t t = active_sound sj digest root t"
  by (simp add: sound_from_def)

lemma sound_from_gen:
  "sound_from sj digest root t0 t \<Longrightarrow> gen_ok sj digest t0 (active_generation_dir root a) m \<Longrightarrow>
     gen_ok sj digest t (active_generation_dir root a) m"
  by (simp add: sound_from_def)

lemma sound_from_only:
  assumes "sound_from sj digest root t0 t" and "only X t s" and "active_current_path root \<notin> X"
    and "\<And>a m x. gen_ok sj digest t (active_generation_dir root a) m \<Longrightarrow> active_generation_dir root a @ [x] \<notin> X"
  shows "sound_from sj digest root t0 s"
proof -
  have g: "gen_ok sj digest s (active_generation_dir root a) m" if "gen_ok sj digest t (active_generation_dir root a) m" for a m
    using that assms(2) by (rule gen_ok_only) (rule assms(4) [OF that])
  then have "active_sound sj digest root s"
    using assms(1) only_value [OF assms(2,3), of "sj_pointer_from_slice sj"]
    unfolding active_sound_def sound_from_def by (auto split: option.splits)
  then show ?thesis using assms(1) g unfolding sound_from_def by blast
qed

lemma staging_sound:
  assumes "sound_from sj digest root t0 t" and "only (staging_paths root a) t s"
  shows "sound_from sj digest root t0 s"
  using assms by (rule sound_from_only) (auto simp: staging_path_for_def layout_defs prefix_def)

lemma mkdirs_sound:
  assumes "sound_from sj digest root t0 t" and "only {q. prefix q (active_generations_dir root)} t s"
  shows "sound_from sj digest root t0 s"
  using assms by (rule sound_from_only) (auto simp: layout_defs prefix_def)

text \<open>The rename carries the staged directory over and leaves every other generation alone.\<close>

lemma rename_dir:
  assumes "fs_rename src dst t = Ok (x, ts)" and "node_at t src = Some DirNode" and "src \<noteq> dst"
  shows "ts = [move_tree src dst t]" and "\<not> has_below t dst" and "\<not> prefix src dst"
  using assms by (auto simp: fs_rename_def split: if_splits)

lemma moved_gen_ok:
  assumes "gen_ok sj digest t src m" and "\<not> has_below t dst" and "\<not> prefix src dst"
  shows "gen_ok sj digest (move_tree src dst t) dst m"
proof -
  have "node_at (move_tree src dst t) (dst @ [x]) = node_at t (src @ [x])" for x
    using node_at_move_tree [OF assms(2,3), of "dst @ [x]"] by simp
  then show ?thesis using assms(1) by (simp add: gen_ok_def artifacts_def file_value_def)
qed

lemma moved_sound:
  assumes "sound_from sj digest root t0 t" and "\<not> has_below t (active_generation_dir root a)"
    and "\<not> prefix (staging_path_for root a) (active_generation_dir root a)"
  shows "sound_from sj digest root t0 (move_tree (staging_path_for root a) (active_generation_dir root a) t)"
    (is "sound_from sj digest root t0 ?s")
proof -
  let ?src = "staging_path_for root a" and ?dst = "active_generation_dir root a"
  have o: "only {q. prefix ?dst q \<or> prefix ?src q} t ?s"
    using node_at_move_tree [OF assms(2,3)] by (simp add: only_def)
  show ?thesis
    using assms(1) o
  proof (rule sound_from_only)
    show "active_current_path root \<notin> {q. prefix ?dst q \<or> prefix ?src q}"
      by (auto simp: staging_path_for_def layout_defs)
    fix b m x
    assume g: "gen_ok sj digest t (active_generation_dir root b) m"
    have "b \<noteq> a"
    proof
      assume "b = a"
      then have "node_at t (?dst @ [active_manifest_filename]) \<noteq> None"
        using g by (auto simp: gen_ok_def file_value_Some)
      moreover have "strict_prefix ?dst (?dst @ [active_manifest_filename])" by (rule below)
      ultimately show False using assms(2) unfolding has_below_iff by metis
    qed
    then show "active_generation_dir root b @ [x] \<notin> {q. prefix ?dst q \<or> prefix ?src q}"
      by (auto simp: staging_path_for_def layout_defs)
  qed
qed

text \<open>Switching the pointer to a complete generation.\<close>

lemma pointer_switch_sound:
  assumes "value_states (sj_pointer_from_slice sj) (active_current_path root) \<lparr>ap_activation_id = a\<rparr> t s"
    and "sound_from sj digest root t0 t" and "gen_ok sj digest t (active_generation_dir root a) m"
  shows "sound_from sj digest root t0 s"
proof -
  have k: "keeps {active_current_path root} t s" using assms(1) by (simp add: value_states_def)
  have keep: "gen_ok sj digest s (active_generation_dir root b) n" if "gen_ok sj digest t (active_generation_dir root b) n" for b n
    using that k by (rule gen_ok_keeps) (simp add: layout_defs)
  have "\<not> is_temp_in (butlast (active_current_path root)) (active_current_path root)"
    by (simp add: is_temp_in_def temp_path_def layout_defs butlast_append)
  then consider "node_at s (active_current_path root) = node_at t (active_current_path root)"
    | "file_value (sj_pointer_from_slice sj) s (active_current_path root) = Some \<lparr>ap_activation_id = a\<rparr>"
    using assms(1) by (auto simp: value_states_def)
  then show ?thesis
  proof cases
    case 1
    then have "file_value (sj_pointer_from_slice sj) s (active_current_path root) =
        file_value (sj_pointer_from_slice sj) t (active_current_path root)" by (simp add: file_value_def)
    then show ?thesis using assms(2) keep by (auto simp: sound_from_def active_sound_def split: option.splits)
  next
    case 2
    then show ?thesis using keep [OF assms(3)] assms(2) keep by (auto simp: sound_from_def active_sound_def)
  qed
qed

lemma publish_spec:
  assumes "serde_ok sj" and "sound_from sj digest root t0 (dk_fs w)" and "staged_ok sj digest root a (dk_fs w) res"
  shows "run_ok (sound_from sj digest root t0) (publish_active_generation sj root (staging_path_for root a) a) w
     (\<lambda>r w'. disk.more w' = disk.more w \<and> sound_from sj digest root t0 (dk_fs w') \<and>
        (r = Ok () \<longrightarrow>
           file_value (sj_pointer_from_slice sj) (dk_fs w') (active_current_path root) = Some \<lparr>ap_activation_id = a\<rparr> \<and>
           gen_ok sj digest (dk_fs w') (active_generation_dir root a) (ar_manifest res)))"
    (is "run_ok ?I _ w ?Q")
proof -
  let ?src = "staging_path_for root a" and ?dst = "active_generation_dir root a" and ?m = "ar_manifest res"
  let ?cur = "active_current_path root" and ?ptr = "\<lparr>ap_activation_id = a\<rparr>"
  have ne: "?src \<noteq> ?dst" by (simp add: staging_path_for_def layout_defs)
  have final_sync: "run_ok ?I (map_err ActivationFile (io_at (active_dir root) (fsync_dir (active_dir root)))) v ?Q"
    if v: "disk.more v = disk.more w" "?I (dk_fs v)" "file_value (sj_pointer_from_slice sj) (dk_fs v) ?cur = Some ?ptr"
      "gen_ok sj digest (dk_fs v) ?dst ?m" for v
    unfolding io_at_def
    by (intro run_ok_map_err, rule run_ok_post [OF fsync_dir_spec]) (use v in \<open>auto split: sum.splits\<close>)
  have pointer: "run_ok ?I (bind_p (map_err ActivationFile (write_active_current sj root ?ptr)) (\<lambda>_.
      map_err ActivationFile (io_at (active_dir root) (fsync_dir (active_dir root))))) v ?Q"
    if v: "disk.more v = disk.more w" "?I (dk_fs v)" "gen_ok sj digest (dk_fs v) ?dst ?m" for v
  proof -
    have codec: "codec_ok (sj_pointer_to_vec sj) (sj_pointer_from_slice sj)" using assms(1) by (simp add: serde_ok_def)
    let ?V = "value_states (sj_pointer_from_slice sj) ?cur ?ptr (dk_fs v)"
    have sound: "?I t" if "?V t" for t using pointer_switch_sound [OF that v(2,3)] .
    have gen: "gen_ok sj digest t ?dst ?m" if "?V t" for t
      using v(3) by (rule gen_ok_keeps [of _ _ _ _ _ "{?cur}"]) (use that in \<open>simp_all add: value_states_def layout_defs\<close>)
    show ?thesis
      unfolding write_active_current_def
    proof (rule run_ok_step_err [OF put_value_spec [OF codec]], goal_cases)
      case (1 t) then show ?case by (rule sound)
    next
      case (2 e v') then show ?case using v(1) sound [of "dk_fs v'"] by simp
    next
      case (3 x v') then show ?case using v(1) sound [of "dk_fs v'"] gen [of "dk_fs v'"] by (intro final_sync) simp_all
    qed
  qed
  have sync: "run_ok ?I (bind_p (map_err ActivationFile (io_at (active_generations_dir root) (fsync_dir (active_generations_dir root)))) (\<lambda>_.
      bind_p (map_err ActivationFile (write_active_current sj root ?ptr)) (\<lambda>_.
      map_err ActivationFile (io_at (active_dir root) (fsync_dir (active_dir root)))))) v ?Q"
    if v: "disk.more v = disk.more w" "?I (dk_fs v)" "gen_ok sj digest (dk_fs v) ?dst ?m" for v
    unfolding io_at_def [of "active_generations_dir root"] map_err_twice
    by (rule run_ok_step_err [OF fsync_dir_spec], assumption) (use v pointer in simp_all)
  have move: "run_ok ?I (bind_p (map_err ActivationFile (io_at ?dst (fs_call (fs_rename ?src ?dst)))) (\<lambda>_.
      bind_p (map_err ActivationFile (io_at (active_generations_dir root) (fsync_dir (active_generations_dir root)))) (\<lambda>_.
      bind_p (map_err ActivationFile (write_active_current sj root ?ptr)) (\<lambda>_.
      map_err ActivationFile (io_at (active_dir root) (fsync_dir (active_dir root))))))) v ?Q"
    if v: "disk.more v = disk.more w" "?I (dk_fs v)" "staged_ok sj digest root a (dk_fs v) res" for v
  proof -
    have dir: "node_at (dk_fs v) ?src = Some DirNode" and g: "gen_ok sj digest (dk_fs v) ?src ?m"
      using v(3) by (simp_all add: staged_ok_def)
    note ren = rename_dir [OF _ dir ne]
    have I: "\<forall>t \<in> set ts. ?I t" if "fs_rename ?src ?dst (dk_fs v) = Ok (x, ts)" for x ts
      using moved_sound [OF v(2) ren(2,3) [OF that]] ren(1) [OF that] by simp
    show ?thesis
      unfolding io_at_def [of ?dst] map_err_twice
    proof (rule run_ok_step_err [OF call_spec [OF I]], assumption, assumption, goal_cases)
      case (1 e v')
      then have "dk_fs v' = dk_fs v" using ren(1) by (auto simp: call_post_def)
      then show ?case using 1 v by (simp add: call_post_def)
    next
      case (2 x v')
      then obtain ts where op: "fs_rename ?src ?dst (dk_fs v) = Ok (x, ts)" and "dk_fs v' = last (dk_fs v # ts)"
        by (auto simp: call_post_def)
      then have "dk_fs v' = move_tree ?src ?dst (dk_fs v)" using ren(1) [OF op] by simp
      then show ?case
        using 2 v(1) moved_sound [OF v(2) ren(2,3) [OF op]] moved_gen_ok [OF g ren(2,3) [OF op]]
        by (intro sync) (simp_all add: call_post_def)
    qed
  qed
  show ?thesis
    unfolding publish_active_generation_def Let_def
  proof (rule run_ok_step [OF make_dir_spec], goal_cases)
    case (1 t) then show ?case using mkdirs_sound [OF assms(2), of t] by simp
  next
    case (2 e v) then show ?case using mkdirs_sound [OF assms(2), of "dk_fs v"] by simp
  next
    case (3 x v)
    have "staged_ok sj digest root a (dk_fs v) res" using 3 staged_ok_keeps [OF assms(3), of "dk_fs v"] by simp
    moreover have "?I (dk_fs v)" using 3 mkdirs_sound [OF assms(2), of "dk_fs v"] by simp
    ultimately show ?case using 3 by (intro move) simp_all
  qed
qed

section \<open>Pruning\<close>

text \<open>Pruning touches nothing outside the generations that are not kept.\<close>

abbreviation unkept_paths :: "path \<Rightarrow> string list \<Rightarrow> path set" where
  "unkept_paths gr keep \<equiv> {q. \<exists>name. name \<notin> set keep \<and> prefix (gr @ [name]) q}"

lemma remove_all_only:
  assumes "fs_remove_dir_all p t = Ok (x, ts)" and "s \<in> set ts"
  shows "only {q. prefix p q} t s"
proof -
  obtain ps where "ts = delete_steps ps t" "\<forall>q \<in> set ps. prefix p q"
    using assms(1) by (auto simp: fs_remove_dir_all_def split: option.splits node.splits)
  then show ?thesis using delete_steps_only [of s ps t] assms(2) by (auto simp: only_def)
qed

lemma prune_entries_spec:
  "run_ok (only (unkept_paths gr keep) (dk_fs w)) (prune_entries gr keep entries) w
     (\<lambda>r w'. disk.more w' = disk.more w \<and> only (unkept_paths gr keep) (dk_fs w) (dk_fs w'))"
proof (induction entries arbitrary: w)
  case Nil
  then show ?case by (auto intro!: run_ok_ret)
next
  case (Cons e entries)
  obtain name d where e: "e = (name, d)" by (cases e)
  let ?X = "unkept_paths gr keep" and ?p = "gr @ [name]"
  let ?Q = "\<lambda>r w'. disk.more w' = disk.more w \<and> only ?X (dk_fs w) (dk_fs w')"
  have rest: "run_ok (only ?X (dk_fs w)) (prune_entries gr keep entries) v ?Q"
    if v: "disk.more v = disk.more w" "only ?X (dk_fs w) (dk_fs v)" for v
    by (rule run_ok_weaken [OF Cons.IH]) (use v only_trans [OF v(2)] in auto)
  have count: "run_ok (only ?X (dk_fs w)) (bind_p (prune_entries gr keep entries) (\<lambda>n. ret (Suc n))) v
      (\<lambda>r w'. disk.more w' = disk.more w \<and> only ?X (dk_fs w) (dk_fs w'))"
    if v: "disk.more v = disk.more w" "only ?X (dk_fs w) (dk_fs v)" for v
    by (rule run_ok_step [OF rest [OF v]]) (auto intro!: run_ok_ret)
  show ?case
  proof (cases "name \<in> set keep")
    case True
    then show ?thesis using rest [of w] by (simp add: e)
  next
    case False
    then have X: "only ?X t s" if "only {q. prefix ?p q} t s" for t s using that by (rule_tac only_mono) auto
    have drop: "run_ok (only ?X (dk_fs w)) (bind_p (map_err ActivationFile (io_at ?p (fs_call (fs_remove_dir_all ?p)))) (\<lambda>_.
          bind_p (prune_entries gr keep entries) (\<lambda>removed. ret (Suc removed)))) v ?Q"
      if v: "unchanged w v" for v
      unfolding io_at_def map_err_twice
      by (rule run_ok_step_err [OF call_only [OF remove_all_only]], assumption, assumption)
        (use v X count in \<open>auto simp: unchanged_def\<close>)
    show ?thesis
      using False
      unfolding e prune_entries.simps Let_def io_at_def [of ?p "fs_call (fs_stat ?p)"] map_err_twice
      by (simp, intro run_ok_step_err [OF pure_call [OF stat_pure]] run_ok_if drop rest)
        (auto simp: unchanged_def)
  qed
qed

lemma prune_spec:
  "run_ok (only (unkept_paths (active_generations_dir root) keep) (dk_fs w)) (prune_old_generations root keep) w
     (\<lambda>r w'. disk.more w' = disk.more w \<and> only (unkept_paths (active_generations_dir root) keep) (dk_fs w) (dk_fs w'))"
    (is "run_ok ?I _ w ?Q")
proof -
  let ?gr = "active_generations_dir root"
  have sync: "run_ok ?I (if removed > 0 then bind_p (attempt (fsync_dir ?gr)) (\<lambda>_. ret removed) else ret removed) v ?Q"
    if v: "disk.more v = disk.more w" "?I (dk_fs v)" for v removed
    by (intro run_ok_if run_ok_ret, rule run_ok_seq_attempt [OF fsync_dir_spec], rule run_ok_ret) (use v in auto)
  have entries: "run_ok ?I (bind_p (prune_entries ?gr keep es) (\<lambda>removed.
      if removed > 0 then bind_p (attempt (fsync_dir ?gr)) (\<lambda>_. ret removed) else ret removed)) v ?Q"
    if v: "unchanged w v" for v es
    by (rule run_ok_step [OF prune_entries_spec]) (use v sync in \<open>auto simp: unchanged_def\<close>)
  show ?thesis
    unfolding prune_old_generations_def Let_def io_at_def map_err_twice
    by (intro run_ok_exists run_ok_if run_ok_ret run_ok_step_err [OF pure_call [OF read_dir_pure]] entries)
      (auto simp: unchanged_def)
qed

lemma pruned_gen_ok:
  assumes "only (unkept_paths (active_generations_dir root) keep) t s" and "a \<in> set keep"
    and "gen_ok sj digest t (active_generation_dir root a) m"
  shows "gen_ok sj digest s (active_generation_dir root a) m"
  using assms(3,1) by (rule gen_ok_only) (use assms(2) in \<open>auto simp: layout_defs\<close>)

lemma pruned_pointer:
  assumes "only (unkept_paths (active_generations_dir root) keep) t s"
  shows "file_value dec s (active_current_path root) = file_value dec t (active_current_path root)"
  using assms by (rule only_value) (auto simp: layout_defs)

section \<open>The activation request\<close>

definition activated ::
  "serde \<Rightarrow> (bytes \<Rightarrow> bytes) \<Rightarrow> (fs \<Rightarrow> path \<Rightarrow> path \<Rightarrow> head_id \<Rightarrow> (string, 'c) result) \<Rightarrow> path \<Rightarrow> string \<Rightarrow> fs \<Rightarrow>
     active_head_manifest \<Rightarrow> 'c \<Rightarrow> bool"
where
  "activated sj digest loader root a t m c \<longleftrightarrow>
     file_value (sj_pointer_from_slice sj) t (active_current_path root) = Some \<lparr>ap_activation_id = a\<rparr> \<and>
     gen_ok sj digest t (active_generation_dir root a) m \<and> loaded_ok digest loader (staging_path_for root a) m c"

lemma stage_and_publish_spec:
  assumes "serde_ok sj" and "sound_from sj digest root t0 (dk_fs w)"
  shows "run_ok (sound_from sj digest root t0) (stage_and_publish_activation sj digest loader a now root origin) w
     (\<lambda>r w'. disk.more w' = disk.more w \<and> sound_from sj digest root t0 (dk_fs w') \<and>
        (\<forall>res. r = Ok res \<longrightarrow> ar_activation_id res = a \<and>
           activated sj digest loader root a (dk_fs w') (ar_manifest res) (ar_candidate res)))"
  unfolding stage_and_publish_activation_def
proof (rule run_ok_step [OF stage_spec [OF assms(1)]], goal_cases)
  case (1 t)
  then show ?case using staging_sound [OF assms(2), of a t] by simp
next
  case (2 e v)
  then show ?case using staging_sound [OF assms(2), of a "dk_fs v"] by simp
next
  case (3 res v)
  have s: "sound_from sj digest root t0 (dk_fs v)" "staged_ok sj digest root a (dk_fs v) res"
    using 3 staging_sound [OF assms(2), of a "dk_fs v"] by simp_all
  have id: "ar_activation_id res = a" using s(2) by (simp add: staged_ok_def)
  show ?case unfolding id
    by (rule run_ok_step [OF publish_spec [OF assms(1) s]]) (use 3 id in \<open>auto simp: activated_def intro!: run_ok_ret\<close>)
qed

text \<open>Faults of the storage never look like a missing file.\<close>

definition honest_faults :: "'z disk_scheme \<Rightarrow> bool" where
  "honest_faults w \<longleftrightarrow> (\<forall>n k. dk_fault w n \<noteq> Some (IoNotFound, k))"

definition post_active_post ::
  "serde \<Rightarrow> (bytes \<Rightarrow> bytes) \<Rightarrow> (fs \<Rightarrow> path \<Rightarrow> path \<Rightarrow> head_id \<Rightarrow> (string, 'c) result) \<Rightarrow> ('c \<Rightarrow> (string, 'h) result) \<Rightarrow>
     path \<Rightarrow> string \<Rightarrow> 'h active_world \<Rightarrow> (active_api_error, string \<times> active_head_manifest) result \<Rightarrow> 'h active_world \<Rightarrow> bool"
where
  "post_active_post sj digest loader install root a w r w' \<longleftrightarrow>
     (case r of
        Inl _ \<Rightarrow> aw_installed w' = aw_installed w
      | Inr (b, m) \<Rightarrow> b = a \<and>
          (\<exists>c h. install c = Ok h \<and> aw_installed w' = Some h \<and> activated sj digest loader root a (dk_fs w') m c) \<and>
          (\<forall>p n. file_value (deserialize_pointer sj) (dk_fs w) (active_current_path root) = Some p \<longrightarrow>
             gen_ok sj digest (dk_fs w) (active_generation_dir root (ap_activation_id p)) n \<longrightarrow>
             gen_ok sj digest (dk_fs w') (active_generation_dir root (ap_activation_id p)) n))"

lemma more_installed: "disk.more v = disk.more w \<Longrightarrow> aw_installed v = aw_installed w"
  for v w :: "'c active_world"
  by (cases v, cases w) simp

lemma run_ok_install:
  assumes "\<And>e. install c = Err e \<Longrightarrow> Q (Inl (ApiHeadStore e)) w"
    and "\<And>h. install c = Ok h \<Longrightarrow> run_ok I (f ()) (w\<lparr>aw_installed := Some h\<rparr>) Q"
  shows "run_ok I (bind_p (install_prevalidated install c) f) w Q"
  using assms
  by (intro run_ok_bind, cases "install c")
    (simp_all add: run_ok_def [of _ "install_prevalidated install c"] install_prevalidated_def passes_def)

text \<open>The last two steps, from a published generation.\<close>

lemma install_and_prune_spec:
  assumes v: "sound_from sj digest root (dk_fs w) (dk_fs v)" "ar_activation_id res = a"
        "activated sj digest loader root a (dk_fs v) (ar_manifest res) (ar_candidate res)" "aw_installed v = aw_installed w"
    and prev: "\<forall>p. file_value (deserialize_pointer sj) (dk_fs w) (active_current_path root) = Some p \<longrightarrow>
        ap_activation_id p \<in> set prev"
  shows "run_ok (active_sound sj digest root) (bind_p (install_prevalidated install (ar_candidate res)) (\<lambda>_.
      bind_p (attempt (prune_old_generations root (ar_activation_id res # prev))) (\<lambda>_.
      ret (ar_activation_id res, ar_manifest res)))) v (post_active_post sj digest loader install root a w)"
    (is "run_ok ?I _ v ?Q")
proof (rule run_ok_install)
  fix h
  assume h: "install (ar_candidate res) = Ok h"
  let ?only = "only (unkept_paths (active_generations_dir root) (a # prev)) (dk_fs v)"
  have act: "activated sj digest loader root a t (ar_manifest res) (ar_candidate res)" if "?only t" for t
    using v(3) pruned_gen_ok [OF that, of a] pruned_pointer [OF that, of "sj_pointer_from_slice sj"]
    by (simp add: activated_def)
  have sound: "?I t" if "?only t" for t using act [OF that] by (auto simp: activated_def active_sound_def)
  have old: "gen_ok sj digest t (active_generation_dir root (ap_activation_id p)) n"
    if "?only t" "file_value (deserialize_pointer sj) (dk_fs w) (active_current_path root) = Some p"
      "gen_ok sj digest (dk_fs w) (active_generation_dir root (ap_activation_id p)) n" for t p n
    using pruned_gen_ok [OF that(1), of "ap_activation_id p"] prev that(2) sound_from_gen [OF v(1) that(3)] by simp
  show "run_ok ?I (bind_p (attempt (prune_old_generations root (ar_activation_id res # prev))) (\<lambda>_.
      ret (ar_activation_id res, ar_manifest res))) (v\<lparr>aw_installed := Some h\<rparr>) ?Q"
    unfolding v(2)
  proof (rule run_ok_step_attempt [OF prune_spec], goal_cases)
    case (1 t) then show ?case by (simp add: sound)
  next
    case (2 r v')
    then have only: "?only (dk_fs v')" and inst: "aw_installed v' = Some h"
      using more_installed [of v' "v\<lparr>aw_installed := Some h\<rparr>"] by simp_all
    show ?case
      using act [OF only] old [OF only] inst h by (intro run_ok_ret) (auto simp: post_active_post_def)
  qed
qed (use v in \<open>simp add: post_active_post_def\<close>)

lemma post_active_spec:
  assumes "serde_ok sj" and "active_sound sj digest root (dk_fs w)" and "honest_faults w"
  shows "run_ok (active_sound sj digest root) (post_active_locked sj digest loader install default_head a now root req) w
           (post_active_post sj digest loader install root a w)"
    (is "run_ok ?I _ w ?Q")
proof -
  let ?cur = "active_current_path root"
  let ?old = "file_value (deserialize_pointer sj) (dk_fs w) ?cur"
  have err: "?Q (Inl e) v" if "unchanged w v" for v e
    using that more_installed [of v w] by (simp add: post_active_post_def unchanged_def)
  have publish: "run_ok ?I (bind_p (map_err ApiActivation (stage_and_publish_activation sj digest loader a now root origin)) (\<lambda>result.
     bind_p (install_prevalidated install (ar_candidate result)) (\<lambda>_.
     bind_p (attempt (prune_old_generations root (ar_activation_id result # prev))) (\<lambda>_.
     ret (ar_activation_id result, ar_manifest result))))) v ?Q"
    if v: "unchanged w v" "\<forall>p. ?old = Some p \<longrightarrow> ap_activation_id p \<in> set prev" for v prev origin
  proof -
    have s: "sound_from sj digest root (dk_fs w) (dk_fs v)" using v(1) assms(2) by (simp add: unchanged_def)
    show ?thesis
    proof (rule run_ok_step_err [OF stage_and_publish_spec [OF assms(1) s]], goal_cases)
      case (1 t) then show ?case by (simp add: sound_from_def)
    next
      case (2 e v')
      then show ?case using v(1) more_installed [of v' w] by (simp add: post_active_post_def unchanged_def)
    next
      case (3 res v')
      show ?case
        by (rule install_and_prune_spec) (use 3 v more_installed [of v' w] in \<open>simp_all add: unchanged_def\<close>)
    qed
  qed
  have origin: "run_ok ?I (bind_p (lift_result (origin_input_of root default_head req)) (\<lambda>origin.
     bind_p (map_err ApiActivation (stage_and_publish_activation sj digest loader a now root origin)) (\<lambda>result.
     bind_p (install_prevalidated install (ar_candidate result)) (\<lambda>_.
     bind_p (attempt (prune_old_generations root (ar_activation_id result # prev))) (\<lambda>_.
     ret (ar_activation_id result, ar_manifest result)))))) v ?Q"
    if v: "unchanged w v" "\<forall>p. ?old = Some p \<longrightarrow> ap_activation_id p \<in> set prev" for v prev
    by (intro run_ok_bind run_ok_lift, cases "origin_input_of root default_head req")
      (simp_all add: err [OF v(1)] publish [OF v])
  show ?thesis
    unfolding post_active_locked_def
  proof (rule run_ok_step_attempt [OF read_active_current_spec [of ?I]], assumption, goal_cases)
    case (1 r v)
    then have same: "unchanged w v" by simp
    show ?case
    proof (cases r)
      case (Inl e)
      show ?thesis
      proof (cases "\<exists>q. e = FileIo q IoNotFound")
        case True
        then have "?old = None" using 1 Inl assms(3) by (auto simp: honest_faults_def)
        then show ?thesis using True Inl origin [OF same, of "[]"] by (auto intro!: run_ok_bind run_ok_lift)
      next
        case False
        then show ?thesis
          using Inl err [OF same] by (auto intro!: run_ok_bind run_ok_lift split: file_error.splits io_error.splits)
      qed
    next
      case (Inr p)
      then show ?thesis using origin [OF same, of "[ap_activation_id p]"] 1 by (auto intro!: run_ok_bind run_ok_lift)
    qed
  qed
qed

text \<open>
  C2.  An activation request is crash safe.  At every state of the tree on the way, whatever calls fail, the
  generation that \<open>current.json\<close> names has a valid manifest and files with the digests the manifest
  records.  A request that succeeds leaves \<open>current.json\<close> naming the new generation, that generation
  complete, the runtime with a candidate loaded from files with those digests, and the previous
  generation undamaged; one that fails leaves the runtime's head as it was.
\<close>

theorem activation_crash_safe:
  assumes "serde_ok sj" and "active_sound sj digest root (dk_fs w)" and "honest_faults w"
    and "post_active_locked sj digest loader install default_head a now root req w = (r, w')"
  shows "(\<exists>ts. dk_trace w' = dk_trace w @ ts \<and> list_all (active_sound sj digest root) ts) \<and>
         (case r of
            Inl _ \<Rightarrow> aw_installed w' = aw_installed w
          | Inr (b, m) \<Rightarrow> b = a \<and>
              (\<exists>c h. install c = Ok h \<and> aw_installed w' = Some h \<and> activated sj digest loader root a (dk_fs w') m c) \<and>
              (\<forall>p n. file_value (deserialize_pointer sj) (dk_fs w) (active_current_path root) = Some p \<longrightarrow>
                 gen_ok sj digest (dk_fs w) (active_generation_dir root (ap_activation_id p)) n \<longrightarrow>
                 gen_ok sj digest (dk_fs w') (active_generation_dir root (ap_activation_id p)) n))"
  using run_okD [OF post_active_spec [OF assms(1-3)] assms(4)]
  by (auto simp: passes_def post_active_post_def list_all_iff split: sum.splits)

definition demo_generation :: active_head_manifest where
  "demo_generation = \<lparr>am_origin = OriginDefault, am_runtime_head_id = default_runtime_head_id_str,
     am_sha256 = ''07'', am_labels_sha256 = ''61'', am_n_classes = 1, am_labels = [''a''], am_activated_at = ''now''\<rparr>"

definition demo_active_serde :: serde where
  "demo_active_serde =
     \<lparr>sj_core_to_vec = book_enc [], sj_core_from_slice = book_dec [],
      sj_index_to_vec = book_enc [], sj_index_from_slice = book_dec [],
      sj_head_to_vec = book_enc [], sj_head_from_slice = book_dec [],
      sj_active_to_vec = book_enc [(demo_generation, [1])], sj_active_from_slice = book_dec [(demo_generation, [1])],
      sj_pointer_to_vec = book_enc [(\<lparr>ap_activation_id = ''g''\<rparr>, [2])],
      sj_pointer_from_slice = book_dec [(\<lparr>ap_activation_id = ''g''\<rparr>, [2])]\<rparr>"

definition demo_active_world :: "nat active_world" where
  "demo_active_world =
     \<lparr>dk_fs = [([], DirNode), ([''d''], FileNode [7]), ([''l''], FileNode [97])],
      dk_trace = [], dk_clock = 0, dk_fault = (\<lambda>_. None), dk_rand = (\<lambda>_. ''r''), aw_installed = None\<rparr>"

abbreviation demo_activation :: "(nat active_world, active_api_error, string \<times> active_head_manifest) prog" where
  "demo_activation \<equiv> post_active_locked demo_active_serde (\<lambda>b. b) (\<lambda>_ _ _ _. Ok (5 :: nat)) Ok
     (Some \<lparr>ds_path = [''d''], ds_labels_path = [''l'']\<rparr>) ''g'' ''now'' [] (DefaultActivate True)"

lemma demo_texts:
  "default_labels (bytes_text [97]) = [''a'']" "utf8_check (bytes_text [97])"
  "sha256_hex_of (\<lambda>b. b) [7] = ''07''" "sha256_hex_of (\<lambda>b. b) [97] = ''61''"
  by code_simp+

lemma demo_activation_runs: "fst (demo_activation demo_active_world) = Ok (''g'', demo_generation)"
  by (simp add: run_defs demo_active_world_def demo_active_serde_def post_active_locked_def origin_input_of_def install_prevalidated_def read_active_current_def
      stage_and_publish_activation_def stage_and_validate_activation_def stage_default_origin_def make_dir_def read_default_def
      book_enc_def book_dec_def demo_texts demo_generation_def active_head_manifest_validate_def active_head_filename_def active_labels_filename_def
      active_manifest_filename_def publish_active_generation_def staging_path_for_def write_active_current_def
      prune_old_generations_def fs_read_dir_def is_dir_at_def has_below_def move_tree_def moved_path_def)

theorem activation_crash_safe_witness:
  "aw_installed (snd (demo_activation demo_active_world)) = Some 5 \<and>
   gen_ok demo_active_serde (\<lambda>b. b) (dk_fs (snd (demo_activation demo_active_world))) [''active'', ''generations'', ''g''] demo_generation"
proof -
  have r: "demo_activation demo_active_world = (Ok (''g'', demo_generation), snd (demo_activation demo_active_world))"
    using demo_activation_runs by (metis prod.collapse)
  have "serde_ok demo_active_serde" by (simp add: serde_ok_def demo_active_serde_def book_codec_ok)
  moreover have "active_sound demo_active_serde (\<lambda>b. b) [] (dk_fs demo_active_world)"
    by (simp add: active_sound_def file_value_def node_at_def demo_active_world_def layout_defs)
  moreover have "honest_faults demo_active_world" by (simp add: honest_faults_def demo_active_world_def)
  ultimately show ?thesis
    using activation_crash_safe [OF _ _ _ r] by (auto simp: activated_def loaded_ok_def layout_defs)
qed

end
