(* ===== verification/Mic_Types.thy ===== *)
theory Mic_Types
  imports Ids
begin

text \<open>
  \<^verbatim>\<open>audio_io/mic_arbitrator/types.rs\<close>: the launch-time catalogue of microphones, the live policy, and their
  validators.  Sample values and waveform parameters are 32-bit patterns, channel indices and sizes
  natural numbers; the \<open>saturating_mul\<close> and \<open>checked_mul\<close> of the source are written out at 64 bits.
\<close>

section \<open>Data\<close>

datatype waveform =
    Silence
  | Sine u32 u32
  | WhiteNoise u32 nat
  | WaveCounter
  | PingPongSine u32 u32 u32 nat bool

datatype candidate_source =
    AlsaSpec string nat nat
  | MockSpec "waveform list" nat nat

record mic_candidate =
  mc_id :: mic_id
  mc_source :: candidate_source
  mc_channels :: "nat list"

record mic_catalogue =
  cat_candidates :: "mic_candidate list"

datatype mic_selection = FirstAvailable | FixedMic mic_id

datatype channel_selection = AutoChannel | FixedChannel nat

record mic_policy =
  mp_mic :: mic_selection
  mp_channel :: channel_selection

definition mic_policy_default :: mic_policy where
  "mic_policy_default = \<lparr>mp_mic = FirstAvailable, mp_channel = AutoChannel\<rparr>"

record mic_settings =
  ms_catalogue :: mic_catalogue
  ms_policy :: mic_policy

definition mic_settings_default :: mic_settings where
  "mic_settings_default = \<lparr>ms_catalogue = \<lparr>cat_candidates = []\<rparr>, ms_policy = mic_policy_default\<rparr>"

datatype candidate_error =
    EmptyChannels
  | DuplicateChannel nat
  | DuplicateMicId mic_id
  | ChannelIndexTooLarge nat nat
  | EmptyHwSpec
  | InvalidPeriodSize nat
  | InvalidBufferSize nat nat
  | EmptyMockWaveforms
  | MockWhitelistOutOfRange nat nat
  | InvalidMockSampleRate nat
  | PeriodSizeTooLarge nat nat
  | BufferSizeTooLarge nat nat nat nat
  | TooManyChannels nat nat
  | SampleRateOutOfRange nat nat nat
  | ScratchSizeOverflow nat nat

definition max_channel_index :: nat where "max_channel_index = 1023"
definition max_channels :: nat where "max_channels = 8"
definition max_period_frames :: nat where "max_period_frames = 8192"
definition max_buffer_frames :: nat where "max_buffer_frames = max_period_frames * 16"
definition min_sample_rate :: nat where "min_sample_rate = 8000"
definition max_sample_rate :: nat where "max_sample_rate = 192000"

lemmas mic_limits =
  max_channel_index_def max_channels_def max_period_frames_def max_buffer_frames_def min_sample_rate_def max_sample_rate_def

section \<open>Candidates\<close>

text \<open>The loop over the windows of two of the sorted whitelist.\<close>

fun adjacent_dup :: "nat list \<Rightarrow> nat option" where
  "adjacent_dup (a # b # xs) = (if a = b then Some a else adjacent_dup (b # xs))"
| "adjacent_dup _ = None"

definition checked_mul :: "nat \<Rightarrow> nat \<Rightarrow> nat option" where
  "checked_mul a b = (if a * b < 2 ^ 64 then Some (a * b) else None)"

definition saturating_mul :: "nat \<Rightarrow> nat \<Rightarrow> nat" where
  "saturating_mul a b = min (a * b) u64_max"

fun source_validate :: "nat list \<Rightarrow> candidate_source \<Rightarrow> (candidate_error, unit) result" where
  "source_validate channels (AlsaSpec hw_spec period buffer) =
     (if hw_spec = [] then Err EmptyHwSpec
      else if period = 0 then Err (InvalidPeriodSize period)
      else if period > max_period_frames then Err (PeriodSizeTooLarge period max_period_frames)
      else if buffer < period then Err (InvalidBufferSize period buffer)
      else let multiplier_cap = saturating_mul period 16 in
        if buffer > max_buffer_frames \<or> buffer > multiplier_cap
        then Err (BufferSizeTooLarge buffer period max_buffer_frames 16)
        else let worst_case_channels = fold max channels 0 + 1 in
          if checked_mul period worst_case_channels = None
          then Err (ScratchSizeOverflow period worst_case_channels) else Ok ())"
| "source_validate channels (MockSpec waveforms period rate) =
     (if waveforms = [] then Err EmptyMockWaveforms
      else if length waveforms > max_channels then Err (TooManyChannels (length waveforms) max_channels)
      else let max_ch = fold max channels 0 in
        if max_ch \<ge> length waveforms then Err (MockWhitelistOutOfRange max_ch (length waveforms))
        else if period = 0 then Err (InvalidPeriodSize period)
        else if period > max_period_frames then Err (PeriodSizeTooLarge period max_period_frames)
        else if rate = 0 then Err (InvalidMockSampleRate rate)
        else if rate < min_sample_rate \<or> rate > max_sample_rate
        then Err (SampleRateOutOfRange rate min_sample_rate max_sample_rate)
        else if checked_mul period (length waveforms) = None
        then Err (ScratchSizeOverflow period (length waveforms)) else Ok ())"

definition candidate_validate :: "mic_candidate \<Rightarrow> (candidate_error, unit) result" where
  "candidate_validate c =
     (let channels = mc_channels c in
      if channels = [] then Err EmptyChannels
      else if length channels > max_channels then Err (TooManyChannels (length channels) max_channels)
      else case find (\<lambda>ch. ch > max_channel_index) channels of
        Some ch \<Rightarrow> Err (ChannelIndexTooLarge ch max_channel_index)
      | None \<Rightarrow>
          (case adjacent_dup (sort channels) of
             Some ch \<Rightarrow> Err (DuplicateChannel ch)
           | None \<Rightarrow> source_validate channels (mc_source c)))"

section \<open>The catalogue and the policy\<close>

fun validate_each :: "mic_candidate list \<Rightarrow> (mic_id \<times> candidate_error, unit) result" where
  "validate_each [] = Ok ()"
| "validate_each (c # cs) =
     (case candidate_validate c of Inl e \<Rightarrow> Err (mc_id c, e) | Inr _ \<Rightarrow> validate_each cs)"

fun unique_ids :: "mic_id set \<Rightarrow> mic_candidate list \<Rightarrow> (mic_id \<times> candidate_error, unit) result" where
  "unique_ids seen [] = Ok ()"
| "unique_ids seen (c # cs) =
     (if mc_id c \<in> seen then Err (mc_id c, DuplicateMicId (mc_id c)) else unique_ids (insert (mc_id c) seen) cs)"

definition catalogue_validate :: "mic_catalogue \<Rightarrow> (mic_id \<times> candidate_error, unit) result" where
  "catalogue_validate cat =
     and_then (validate_each (cat_candidates cat)) (\<lambda>_. unique_ids {} (cat_candidates cat))"

definition catalogue_find :: "mic_catalogue \<Rightarrow> mic_id \<Rightarrow> mic_candidate option" where
  "catalogue_find cat i = find (\<lambda>c. mc_id c = i) (cat_candidates cat)"

datatype policy_validation_error =
    UnknownMicId mic_id
  | ChannelNotAvailable mic_id nat "nat list"

definition policy_validate_against ::
  "mic_policy \<Rightarrow> mic_catalogue \<Rightarrow> (policy_validation_error, unit) result"
where
  "policy_validate_against p cat =
     (case mp_mic p of
        FirstAvailable \<Rightarrow> Ok ()
      | FixedMic i \<Rightarrow>
          (case catalogue_find cat i of
             None \<Rightarrow> Err (UnknownMicId i)
           | Some cand \<Rightarrow>
               (case mp_channel p of
                  AutoChannel \<Rightarrow> Ok ()
                | FixedChannel ch \<Rightarrow>
                    if ch \<in> set (mc_channels cand) then Ok ()
                    else Err (ChannelNotAvailable i ch (mc_channels cand)))))"

section \<open>What the validators accept\<close>

lemma adjacent_dup_sorted: "sorted xs \<Longrightarrow> adjacent_dup xs = None \<longleftrightarrow> distinct xs"
proof (induction xs rule: adjacent_dup.induct)
  case (1 a b xs)
  then show ?case by (auto simp: order_le_less)
qed auto

lemma fold_max_ge: "x \<in> set xs \<Longrightarrow> x \<le> fold max xs b" for x :: nat
  by (metis Max_ge List.finite_set Max.set_eq_fold insert_iff list.set(2))

lemma fold_max_in: "xs \<noteq> [] \<Longrightarrow> fold max xs 0 \<in> set xs" for xs :: "nat list"
proof -
  assume "xs \<noteq> []"
  have "fold max xs 0 = Max (set (0 # xs))" by (rule Max.set_eq_fold [symmetric])
  also have "\<dots> = Max (set xs)" using \<open>xs \<noteq> []\<close> by simp
  finally show ?thesis using \<open>xs \<noteq> []\<close> by simp
qed

definition source_ok :: "nat list \<Rightarrow> candidate_source \<Rightarrow> bool" where
  "source_ok channels s \<longleftrightarrow>
     (case s of
        AlsaSpec hw period buffer \<Rightarrow> hw \<noteq> [] \<and> 0 < period \<and> period \<le> 8192 \<and> period \<le> buffer \<and> buffer \<le> 16 * period
      | MockSpec ws period rate \<Rightarrow> ws \<noteq> [] \<and> length ws \<le> 8 \<and> (\<forall>ch \<in> set channels. ch < length ws) \<and>
          0 < period \<and> period \<le> 8192 \<and> 8000 \<le> rate \<and> rate \<le> 192000)"

definition candidate_ok :: "mic_candidate \<Rightarrow> bool" where
  "candidate_ok c \<longleftrightarrow>
     mc_channels c \<noteq> [] \<and> length (mc_channels c) \<le> 8 \<and> distinct (mc_channels c) \<and>
     (\<forall>ch \<in> set (mc_channels c). ch \<le> 1023) \<and> source_ok (mc_channels c) (mc_source c)"

text \<open>The two overflow guards never fire behind the caps.\<close>

lemma source_validate_Ok:
  assumes "channels \<noteq> []" and "\<forall>ch \<in> set channels. ch \<le> 1023"
  shows "source_validate channels s = Ok () \<longleftrightarrow> source_ok channels s"
proof (cases s)
  case (AlsaSpec hw period buffer)
  have "fold max channels 0 \<le> 1023" using assms fold_max_in by blast
  then have "period * (fold max channels 0 + 1) \<le> 8192 * 1024" if "period \<le> 8192"
    using that by (intro mult_mono) auto
  then show ?thesis
    using AlsaSpec by (auto simp: source_ok_def mic_limits saturating_mul_def checked_mul_def Let_def)
next
  case (MockSpec ws period rate)
  have "period * length ws \<le> 8192 * 8" if "period \<le> 8192" "length ws \<le> 8" using that by (intro mult_mono) auto
  moreover have "fold max channels 0 < length ws \<longleftrightarrow> (\<forall>ch \<in> set channels. ch < length ws)"
    using fold_max_ge [of _ channels 0] fold_max_in [OF assms(1)] by (meson le_less_trans)
  ultimately show ?thesis
    using MockSpec by (auto simp: source_ok_def mic_limits checked_mul_def Let_def)
qed

lemma candidate_validate_Ok: "candidate_validate c = Ok () \<longleftrightarrow> candidate_ok c"
proof -
  let ?cs = "mc_channels c"
  have dup: "adjacent_dup (sort ?cs) = None \<longleftrightarrow> distinct ?cs" by (simp add: adjacent_dup_sorted)
  have big: "find (\<lambda>ch. ch > max_channel_index) ?cs = None \<longleftrightarrow> (\<forall>ch \<in> set ?cs. ch \<le> 1023)"
    by (auto simp: find_None_iff max_channel_index_def)
  show ?thesis
  proof (cases "?cs \<noteq> [] \<and> length ?cs \<le> 8 \<and> (\<forall>ch \<in> set ?cs. ch \<le> 1023) \<and> distinct ?cs")
    case True
    then show ?thesis
      using source_validate_Ok [of ?cs "mc_source c"] dup big
      by (auto simp: candidate_validate_def candidate_ok_def max_channels_def split: option.splits)
  next
    case False
    then show ?thesis
      using dup big by (auto simp: candidate_validate_def candidate_ok_def max_channels_def Let_def split: option.splits if_splits)
  qed
qed

lemma validate_each_Ok: "validate_each cs = Ok () \<longleftrightarrow> (\<forall>c \<in> set cs. candidate_ok c)"
proof (induction cs)
  case (Cons c cs)
  then show ?case by (cases "candidate_validate c") (auto simp: candidate_validate_Ok [symmetric])
qed simp

lemma unique_ids_Ok:
  "unique_ids seen cs = Ok () \<longleftrightarrow> distinct (map mc_id cs) \<and> (\<forall>c \<in> set cs. mc_id c \<notin> seen)"
  by (induction cs arbitrary: seen) (auto intro: rev_image_eqI)

lemma catalogue_validate_Ok:
  "catalogue_validate cat = Ok () \<longleftrightarrow>
     (\<forall>c \<in> set (cat_candidates cat). candidate_ok c) \<and> distinct (map mc_id (cat_candidates cat))"
proof (cases "validate_each (cat_candidates cat)")
  case (Inl e)
  have "\<not> (\<forall>c \<in> set (cat_candidates cat). candidate_ok c)" using Inl validate_each_Ok [of "cat_candidates cat"] by simp
  then show ?thesis using Inl by (auto simp: catalogue_validate_def)
next
  case (Inr u)
  have "\<forall>c \<in> set (cat_candidates cat). candidate_ok c" using Inr validate_each_Ok [of "cat_candidates cat"] by simp
  then show ?thesis using Inr by (simp add: catalogue_validate_def unique_ids_Ok)
qed

text \<open>
  The launch-time check of the microphone catalogue accepts exactly the catalogues with distinct ids
  whose every candidate has one to eight distinct channels not above 1023, a period of 1 to 8192
  frames and, for hardware, a buffer of one to sixteen periods, or, for a synthetic source, at most
  eight waveforms that cover the channels and a rate between 8 and 192 kHz; the overflow guards behind
  those limits never fire.
\<close>

lemma catalogue_accepts_iff:
  "catalogue_validate cat = Ok () \<longleftrightarrow>
     distinct (map mc_id (cat_candidates cat)) \<and>
     list_all (\<lambda>c. let chs = mc_channels c in
       chs \<noteq> [] \<and> length chs \<le> 8 \<and> distinct chs \<and> list_all (\<lambda>ch. ch \<le> 1023) chs \<and>
       (case mc_source c of
          AlsaSpec hw period buffer \<Rightarrow> hw \<noteq> [] \<and> 0 < period \<and> period \<le> 8192 \<and> period \<le> buffer \<and> buffer \<le> 16 * period
        | MockSpec ws period rate \<Rightarrow> ws \<noteq> [] \<and> length ws \<le> 8 \<and> list_all (\<lambda>ch. ch < length ws) chs \<and>
            0 < period \<and> period \<le> 8192 \<and> 8000 \<le> rate \<and> rate \<le> 192000))
       (cat_candidates cat)"
  unfolding catalogue_validate_Ok by (auto simp: candidate_ok_def source_ok_def list_all_iff Let_def split: candidate_source.splits)

end
