(* ===== verification/Mic_Source.thy ===== *)
theory Mic_Source
  imports Mic_Types
begin

text \<open>
  \<^verbatim>\<open>audio_io/source.rs\<close>, \<^verbatim>\<open>audio_io/source/mock.rs\<close> and \<^verbatim>\<open>audio_io/source/alsa.rs\<close>: opening a capture source and
  the outcome of one read.  The ALSA library and the hardware behind it are an argument
  (\<open>alsa_device\<close> for the negotiation, \<open>source_io\<close> for one read); the samples a read delivers are arbitrary.
\<close>

section \<open>Sources\<close>

record active_source =
  src_id :: mic_id
  src_alsa :: bool
  src_channels :: nat
  src_rate :: nat
  src_period_size :: nat
  src_effective_whitelist :: "nat list"

datatype open_error =
    InvalidCandidate mic_id candidate_error
  | AlsaNotCompiledIn mic_id
  | SourceUnavailable mic_id string

fun open_error_id :: "open_error \<Rightarrow> mic_id" where
  "open_error_id (InvalidCandidate i _) = i"
| "open_error_id (AlsaNotCompiledIn i) = i"
| "open_error_id (SourceUnavailable i _) = i"

text \<open>\<open>sort_unstable\<close> and \<open>dedup\<close>.\<close>

definition sort_dedup :: "nat list \<Rightarrow> nat list" where
  "sort_dedup xs = remdups_adj (sort xs)"

definition mock_open :: "mic_candidate \<Rightarrow> (string, active_source) result" where
  "mock_open c =
     (case candidate_validate c of
        Inl e \<Rightarrow> Err ''candidate failed validation''
      | Inr _ \<Rightarrow>
          (case mc_source c of
             AlsaSpec _ _ _ \<Rightarrow> Err ''MockSource::open called on an Alsa candidate''
           | MockSpec ws period rate \<Rightarrow>
               Ok \<lparr>src_id = mc_id c, src_alsa = False, src_channels = length ws mod 2 ^ 16, src_rate = rate,
                   src_period_size = period, src_effective_whitelist = sort_dedup (mc_channels c)\<rparr>))"

text \<open>What the device answers during the negotiation, call by call.\<close>

record alsa_device =
  al_pcm_new :: "string \<Rightarrow> (string, unit) result"
  al_any :: "(string, unit) result"
  al_set_access :: "(string, unit) result"
  al_set_float :: "(string, unit) result"
  al_set_s16 :: "(string, unit) result"
  al_set_channels :: "nat \<Rightarrow> (string, unit) result"
  al_channels_max :: "(string, nat) result"
  al_set_rate :: "(string, unit) result"
  al_set_period :: "nat \<Rightarrow> (string, unit) result"
  al_set_buffer :: "nat \<Rightarrow> (string, unit) result"
  al_hw_params :: "(string, unit) result"
  al_rate :: "(string, nat) result"
  al_period :: "(string, int) result"
  al_prepare :: "(string, unit) result"
  al_start :: "(string, unit) result"
  al_pollfds :: "(string, unit) result"

definition negotiate_channels :: "alsa_device \<Rightarrow> nat \<Rightarrow> (string, nat) result" where
  "negotiate_channels d needed =
     (case al_set_channels d needed of
        Inr _ \<Rightarrow> Ok (needed mod 2 ^ 16)
      | Inl _ \<Rightarrow>
          and_then (al_channels_max d) (\<lambda>mx.
          if mx = 0 then Err ''reports 0 channels''
          else if mx > 65535 then Err ''implausible, refusing''
          else and_then (al_set_channels d mx) (\<lambda>_. Ok mx)))"

definition intersect_whitelist :: "nat list \<Rightarrow> nat \<Rightarrow> nat list" where
  "intersect_whitelist raw actual_channels = sort_dedup (filter (\<lambda>ch. ch < actual_channels) raw)"

definition alsa_open :: "alsa_device \<Rightarrow> mic_candidate \<Rightarrow> (string, active_source) result" where
  "alsa_open d c =
     (case candidate_validate c of
        Inl e \<Rightarrow> Err ''candidate failed validation''
      | Inr _ \<Rightarrow>
          (case mc_source c of
             MockSpec _ _ _ \<Rightarrow> Err ''AlsaSource::open called on a Mock candidate''
           | AlsaSpec hw_spec period buffer \<Rightarrow>
               and_then (al_pcm_new d hw_spec) (\<lambda>_.
               if mc_channels c = [] then Err ''candidate channels whitelist is empty''
               else let needed = fold max (mc_channels c) 0 + 1 in
               and_then (al_any d) (\<lambda>_.
               and_then (al_set_access d) (\<lambda>_.
               and_then (case al_set_float d of Inr _ \<Rightarrow> Ok () | Inl _ \<Rightarrow> al_set_s16 d) (\<lambda>_.
               and_then (negotiate_channels d needed) (\<lambda>actual_channels.
               and_then (al_set_rate d) (\<lambda>_.
               and_then (al_set_period d period) (\<lambda>_.
               and_then (al_set_buffer d buffer) (\<lambda>_.
               and_then (al_hw_params d) (\<lambda>_.
               and_then (al_rate d) (\<lambda>actual_rate.
               and_then (al_period d) (\<lambda>neg_period.
               if neg_period \<le> 0 then Err ''non-positive period size''
               else let effective = intersect_whitelist (mc_channels c) actual_channels in
                 if effective = [] then Err ''whitelist has no entries within the device channels''
                 else and_then (al_prepare d) (\<lambda>_.
                   and_then (al_start d) (\<lambda>_.
                   and_then (al_pollfds d) (\<lambda>_.
                   Ok \<lparr>src_id = mc_id c, src_alsa = True, src_channels = actual_channels, src_rate = actual_rate,
                       src_period_size = nat neg_period, src_effective_whitelist = effective\<rparr>))))))))))))))))"

text \<open>\<open>alsa\<close> is \<open>None\<close> in builds without the \<open>alsa-real\<close> feature.\<close>

definition open_alsa :: "alsa_device option \<Rightarrow> mic_candidate \<Rightarrow> (open_error, active_source) result" where
  "open_alsa alsa c =
     (case alsa of
        None \<Rightarrow> Err (AlsaNotCompiledIn (mc_id c))
      | Some d \<Rightarrow> (case alsa_open d c of Inl msg \<Rightarrow> Err (SourceUnavailable (mc_id c) msg) | Inr s \<Rightarrow> Ok s))"

definition open_source :: "alsa_device option \<Rightarrow> mic_candidate \<Rightarrow> (open_error, active_source) result" where
  "open_source alsa c =
     (case candidate_validate c of
        Inl e \<Rightarrow> Err (InvalidCandidate (mc_id c) e)
      | Inr _ \<Rightarrow>
          (case mc_source c of
             MockSpec _ _ _ \<Rightarrow>
               (case mock_open c of Inl msg \<Rightarrow> Err (SourceUnavailable (mc_id c) msg) | Inr s \<Rightarrow> Ok s)
           | AlsaSpec _ _ _ \<Rightarrow> open_alsa alsa c))"

section \<open>Reading\<close>

datatype read_outcome = Frames nat | Timeout | StopRequested | EndOfStream

datatype alsa_read_outcome = AlsaFrames nat | AlsaTimeout

definition eintr :: nat where "eintr = 4"
definition eagain :: nat where "eagain = 11"

definition is_eagain :: "nat \<Rightarrow> bool" where
  "is_eagain e \<longleftrightarrow> e = eagain"

text \<open>One read: the number of ready descriptors, the frames \<open>readi\<close> has (it delivers at most what the
  buffer of one period holds), whether the mock saw a stop, the samples, and how a recovery ends.\<close>

record source_io =
  io_poll :: "(nat, nat) result"
  io_readi :: "(nat, nat) result"
  io_stop_seen :: bool
  io_samples :: "u32 list"
  io_recover :: "(nat, unit) result"

definition read_with_timeout :: "nat \<Rightarrow> source_io \<Rightarrow> (nat, alsa_read_outcome) result" where
  "read_with_timeout period_size io =
     (case io_poll io of
        Inl e \<Rightarrow> if e = eintr then Ok AlsaTimeout else Err e
      | Inr n_ready \<Rightarrow>
          if n_ready = 0 then Ok AlsaTimeout
          else (case io_readi io of
             Inl e \<Rightarrow> if is_eagain e then Ok AlsaTimeout else Err e
           | Inr frames \<Rightarrow> Ok (AlsaFrames (min frames period_size))))"

definition read_result :: "active_source \<Rightarrow> source_io \<Rightarrow> (nat, read_outcome) result" where
  "read_result src io =
     (if src_alsa src
      then (case read_with_timeout (src_period_size src) io of
          Inl e \<Rightarrow> Err e
        | Inr AlsaTimeout \<Rightarrow> Ok Timeout
        | Inr (AlsaFrames n) \<Rightarrow> if n = 0 then Ok EndOfStream else Ok (Frames n))
      else if io_stop_seen io then Ok StopRequested else Ok (Frames (src_period_size src)))"

text \<open>
  \<open>Duration::from_secs_f64(frames / rate)\<close>: at rate 0 the quotient is infinite or no number, and the
  conversion panics.  The value itself is floating point, an argument.
\<close>

definition block_duration :: "(nat \<Rightarrow> nat \<Rightarrow> nat) \<Rightarrow> nat \<Rightarrow> nat \<Rightarrow> nat run" where
  "block_duration dur frames rate = (if rate = 0 then Panic else Done (dur frames rate))"

text \<open>
  A read into a buffer of \<open>buf\<close> samples.  Both sources first compute the duration of a period (the poll
  timeout of ALSA, the pace of the mock), check that the buffer holds one period, and wrap a positive
  number of frames into a \<open>NonZeroUsize\<close> with an \<open>expect\<close>.
\<close>

definition read_interleaved ::
  "(nat \<Rightarrow> nat \<Rightarrow> nat) \<Rightarrow> active_source \<Rightarrow> nat \<Rightarrow> source_io \<Rightarrow> (nat, read_outcome) result run"
where
  "read_interleaved dur src buf io =
     run_bind (block_duration dur (src_period_size src) (src_rate src)) (\<lambda>_.
     if buf < src_period_size src * src_channels src then Panic
     else (case read_result src io of
         Inr (Frames n) \<Rightarrow> if n = 0 then Panic else Done (Ok (Frames n))
       | r \<Rightarrow> Done r))"

section \<open>What an opened source promises\<close>

lemma sort_dedup [simp]: "set (sort_dedup xs) = set xs" "sort_dedup xs = [] \<longleftrightarrow> xs = []"
  by (simp_all add: sort_dedup_def) (metis set_empty set_sort)

lemma distinct_sort_dedup [simp]: "distinct (sort_dedup xs)"
proof -
  have "sorted ys \<Longrightarrow> distinct (remdups_adj ys)" for ys :: "nat list"
    by (induction ys rule: remdups_adj.induct) (auto simp: order_le_less)
  then show ?thesis by (simp add: sort_dedup_def)
qed

definition source_shape :: "active_source \<Rightarrow> bool" where
  "source_shape s \<longleftrightarrow>
     src_effective_whitelist s \<noteq> [] \<and> distinct (src_effective_whitelist s) \<and>
     (\<forall>ch \<in> set (src_effective_whitelist s). ch < src_channels s) \<and> 0 < src_period_size s"

lemma mock_open_shape:
  assumes "mock_open c = Ok s"
  shows "source_shape s" and "src_id s = mc_id c" and "src_period_size s \<le> max_period_frames" and "\<not> src_alsa s"
    and "set (src_effective_whitelist s) = set (mc_channels c)" and "0 < src_rate s"
proof -
  obtain ws period rate where c: "mc_source c = MockSpec ws period rate"
    using assms by (auto simp: mock_open_def split: sum.splits candidate_source.splits)
  have ok: "candidate_ok c"
    using assms candidate_validate_Ok [of c] by (auto simp: mock_open_def split: sum.splits)
  have s: "s = \<lparr>src_id = mc_id c, src_alsa = False, src_channels = length ws mod 2 ^ 16, src_rate = rate,
      src_period_size = period, src_effective_whitelist = sort_dedup (mc_channels c)\<rparr>"
    using assms c by (auto simp: mock_open_def split: sum.splits)
  have "length ws mod 2 ^ 16 = length ws" using ok c by (simp add: candidate_ok_def source_ok_def)
  then show "source_shape s" using ok c s by (auto simp: source_shape_def candidate_ok_def source_ok_def)
  show "src_id s = mc_id c" "\<not> src_alsa s" "set (src_effective_whitelist s) = set (mc_channels c)" by (simp_all add: s)
  show "src_period_size s \<le> max_period_frames" using ok c s by (simp add: candidate_ok_def source_ok_def max_period_frames_def)
  show "0 < src_rate s" using ok c s by (simp add: candidate_ok_def source_ok_def)
qed

lemma alsa_open_Ok:
  assumes "alsa_open d c = Ok s"
  shows "\<exists>n r p. 0 < p \<and> intersect_whitelist (mc_channels c) n \<noteq> [] \<and>
     s = \<lparr>src_id = mc_id c, src_alsa = True, src_channels = n, src_rate = r, src_period_size = nat p,
          src_effective_whitelist = intersect_whitelist (mc_channels c) n\<rparr>"
  using assms unfolding alsa_open_def Let_def
  by (simp split: sum.split_asm candidate_source.split_asm if_split_asm) (metis not_le)+

lemma alsa_open_shape:
  assumes "alsa_open d c = Ok s"
  shows "source_shape s" and "src_id s = mc_id c" and "src_alsa s" and "set (src_effective_whitelist s) \<subseteq> set (mc_channels c)"
  using alsa_open_Ok [OF assms] by (auto simp: source_shape_def intersect_whitelist_def)

lemma open_source_Ok:
  assumes "open_source alsa c = Ok s"
  shows "candidate_ok c \<and> (mock_open c = Ok s \<or> (\<exists>d. alsa = Some d \<and> alsa_open d c = Ok s))"
  using assms candidate_validate_Ok [of c]
  by (auto simp: open_source_def open_alsa_def split: sum.splits candidate_source.splits option.splits)

lemma open_source_shape:
  assumes "open_source alsa c = Ok s"
  shows "source_shape s" and "src_id s = mc_id c" and "set (src_effective_whitelist s) \<subseteq> set (mc_channels c)"
proof -
  consider "mock_open c = Ok s" | d where "alsa_open d c = Ok s" using open_source_Ok [OF assms] by blast
  then have "source_shape s \<and> src_id s = mc_id c \<and> set (src_effective_whitelist s) \<subseteq> set (mc_channels c)"
    by cases (simp_all add: mock_open_shape alsa_open_shape)
  then show "source_shape s" and "src_id s = mc_id c" and "set (src_effective_whitelist s) \<subseteq> set (mc_channels c)" by simp_all
qed

end
