(* ===== verification/Resample.thy ===== *)
theory Resample
  imports Errors
begin

text \<open>
  \<^verbatim>\<open>dsp/resample.rs\<close>: the streaming wrapper around the sinc resampler.  The resampler itself is the rubato
  crate: its state type and operations are arguments (\<open>rubato\<close>), with the documented laws as
  \<open>fixed_input\<close>.  Samples are 32-bit patterns.

  The construction may refuse a pair of rates, and \<open>Streaming::new\<close> then panics.  The two debug assertions
  of \<open>process\<close> on the answers of the crate, which the release profile compiles out, are not modelled.
  The loop of \<open>process\<close> is a \<open>partial_function\<close>: with a chunk size of zero it would not return.
\<close>

record 's rubato =
  rb_new :: "nat \<Rightarrow> nat \<Rightarrow> 's option"
  rb_input_frames_next :: "'s \<Rightarrow> nat"
  rb_process_into_buffer :: "'s \<Rightarrow> u32 list \<Rightarrow> (string, u32 list) result \<times> 's"
  rb_reset :: "'s \<Rightarrow> 's"

datatype streaming_resample_error = ProcessInto string

definition streaming_resample_error_kind :: "streaming_resample_error \<Rightarrow> error_kind" where
  "streaming_resample_error_kind e = Internal"

record 's streaming =
  sm_resampler :: 's
  sm_accum :: "u32 list"
  sm_out :: "u32 list"
  sm_chunk_size :: nat

text \<open>\<open>sinc_resampler\<close>: the \<open>expect\<close> on the constructor's result.\<close>

definition sinc_resampler :: "'s rubato \<Rightarrow> nat \<Rightarrow> nat \<Rightarrow> 's run" where
  "sinc_resampler rb from_sr to_sr = (case rb_new rb from_sr to_sr of None \<Rightarrow> Panic | Some r \<Rightarrow> Done r)"

definition streaming_new :: "'s rubato \<Rightarrow> nat \<Rightarrow> nat \<Rightarrow> 's streaming run" where
  "streaming_new rb from_sr to_sr =
     run_bind (sinc_resampler rb from_sr to_sr) (\<lambda>r.
       Done \<lparr>sm_resampler = r, sm_accum = [], sm_out = [], sm_chunk_size = rb_input_frames_next rb r\<rparr>)"

text \<open>The while loop: the resampler, the output, and the samples consumed and produced so far.\<close>

partial_function (option) process_chunks ::
  "'s rubato \<Rightarrow> nat \<Rightarrow> u32 list \<Rightarrow> 's \<Rightarrow> u32 list \<Rightarrow> nat \<Rightarrow> nat \<Rightarrow>
     ('s \<times> u32 list \<times> (streaming_resample_error, nat \<times> nat) result) option"
where
  "process_chunks rb chunk accum r out consumed produced =
     (if consumed + chunk \<le> length accum
      then case rb_process_into_buffer rb r (take chunk (drop consumed accum)) of
          (Inl e, r') \<Rightarrow> Some (r', out, Err (ProcessInto e))
        | (Inr ys, r') \<Rightarrow>
            process_chunks rb chunk accum r' (out @ ys) (consumed + chunk) (produced + length ys)
      else Some (r, out, Ok (consumed, produced)))"

declare process_chunks.simps [code]

definition streaming_process ::
  "'s rubato \<Rightarrow> 's streaming \<Rightarrow> u32 list \<Rightarrow> ('s streaming \<times> (streaming_resample_error, nat) result) option"
where
  "streaming_process rb st input =
     (if input = [] then Some (st, Ok 0)
      else let accum = sm_accum st @ input in
        case process_chunks rb (sm_chunk_size st) accum (sm_resampler st) (sm_out st) 0 0 of
          None \<Rightarrow> None
        | Some (r, out, Inl e) \<Rightarrow> Some (st\<lparr>sm_resampler := r, sm_accum := accum, sm_out := out\<rparr>, Err e)
        | Some (r, out, Inr (consumed, produced)) \<Rightarrow>
            Some (st\<lparr>sm_resampler := r, sm_accum := drop consumed accum, sm_out := out\<rparr>, Ok produced))"

definition drain_output_into :: "'s streaming \<Rightarrow> u32 list \<Rightarrow> 's streaming \<times> u32 list" where
  "drain_output_into st sink = (st\<lparr>sm_out := []\<rparr>, sink @ sm_out st)"

definition drop_output :: "'s streaming \<Rightarrow> 's streaming" where
  "drop_output st = st\<lparr>sm_out := []\<rparr>"

definition take_output :: "'s streaming \<Rightarrow> 's streaming \<times> u32 list" where
  "take_output st = (st\<lparr>sm_out := []\<rparr>, sm_out st)"

definition stream_pending :: "'s streaming \<Rightarrow> nat" where
  "stream_pending st = length (sm_out st)"

definition reset_after_discontinuity :: "'s rubato \<Rightarrow> 's streaming \<Rightarrow> 's streaming" where
  "reset_after_discontinuity rb st =
     st\<lparr>sm_accum := [], sm_out := [], sm_resampler := rb_reset rb (sm_resampler st)\<rparr>"

section \<open>The contract of the resampler\<close>

text \<open>
  In fixed-input mode the resampler takes a positive, constant number of frames per call and never
  refuses that many.  Construction is refused only for a ratio that is not positive.
\<close>

definition fixed_input :: "'s rubato \<Rightarrow> nat \<Rightarrow> bool" where
  "fixed_input rb chunk \<longleftrightarrow>
     0 < chunk \<and> (\<forall>a b r. rb_new rb a b = Some r \<longrightarrow> rb_input_frames_next rb r = chunk) \<and>
     (\<forall>r xs. length xs = chunk \<longrightarrow> (\<exists>ys r'. rb_process_into_buffer rb r xs = (Ok ys, r')))"

definition accepts_positive :: "'s rubato \<Rightarrow> bool" where
  "accepts_positive rb \<longleftrightarrow> (\<forall>a b. 0 < a \<longrightarrow> 0 < b \<longrightarrow> rb_new rb a b \<noteq> None)"

lemma fixed_input_accepts:
  assumes "fixed_input rb chunk" and "length xs = chunk"
  obtains ys r' where "rb_process_into_buffer rb r xs = (Ok ys, r')"
  using assms unfolding fixed_input_def by blast

text \<open>What the resampler makes of a stream fed chunk by chunk: output, final state, left-over input.\<close>

function feed :: "'s rubato \<Rightarrow> nat \<Rightarrow> 's \<Rightarrow> u32 list \<Rightarrow> u32 list \<times> 's \<times> u32 list" where
  "feed rb chunk r xs =
     (if chunk = 0 \<or> length xs < chunk then ([], r, xs)
      else case rb_process_into_buffer rb r (take chunk xs) of
          (Inl e, r') \<Rightarrow> ([], r', xs)
        | (Inr ys, r') \<Rightarrow> (case feed rb chunk r' (drop chunk xs) of (zs, q, rest) \<Rightarrow> (ys @ zs, q, rest)))"
  by pat_completeness auto
termination
  by (relation "measure (\<lambda>(rb, chunk, r, xs). length xs)") auto

declare feed.simps [simp del]

lemma feed_short: "length xs < chunk \<Longrightarrow> feed rb chunk r xs = ([], r, xs)"
  by (simp add: feed.simps [of rb chunk r xs])

lemma feed_chunk:
  assumes "0 < chunk" and "length xs = chunk" and "rb_process_into_buffer rb r xs = (Ok ys, r')"
  shows "feed rb chunk r (xs @ zs) = (case feed rb chunk r' zs of (os, q, rest) \<Rightarrow> (ys @ os, q, rest))"
  using assms by (simp add: feed.simps [of rb chunk r "xs @ zs"])

lemma feed_append:
  assumes "fixed_input rb chunk"
  shows "feed rb chunk r (xs @ zs) = (case feed rb chunk r xs of (ys, r', rest) \<Rightarrow> case feed rb chunk r' (rest @ zs) of (os, q, rest') \<Rightarrow> (ys @ os, q, rest'))"
  using assms
proof (induction rb chunk r xs rule: feed.induct)
  case (1 rb chunk r xs)
  show ?case
  proof (cases "length xs < chunk")
    case True
    then show ?thesis by (simp add: feed_short)
  next
    case False
    have len: "length (take chunk xs) = chunk" using False by simp
    obtain ys r' where p: "rb_process_into_buffer rb r (take chunk xs) = (Ok ys, r')"
      by (rule fixed_input_accepts [OF 1(2) len])
    have pos: "0 < chunk" using 1(2) by (simp add: fixed_input_def)
    have "feed rb chunk r (take chunk xs @ drop chunk xs) = (case feed rb chunk r' (drop chunk xs) of (os, q, rest) \<Rightarrow> (ys @ os, q, rest))"
      by (rule feed_chunk [OF pos len p])
    moreover have "feed rb chunk r (take chunk xs @ drop chunk xs @ zs) = (case feed rb chunk r' (drop chunk xs @ zs) of (os, q, rest) \<Rightarrow> (ys @ os, q, rest))"
      by (rule feed_chunk [OF pos len p])
    moreover have "take chunk xs @ drop chunk xs @ zs = xs @ zs" by (metis append.assoc append_take_drop_id)
    ultimately show ?thesis using 1(1) [OF _ p [symmetric] refl 1(2)] False pos by (simp split: prod.splits)
  qed
qed

lemma feed_rest:
  assumes "fixed_input rb chunk" and "feed rb chunk r xs = (ys, q, rest)"
  shows "length rest < chunk"
  using assms
proof (induction rb chunk r xs arbitrary: ys rule: feed.induct)
  case (1 rb chunk r xs)
  show ?case
  proof (cases "length xs < chunk")
    case True
    then show ?thesis using 1(3) by (simp add: feed_short)
  next
    case False
    then have "length (take chunk xs) = chunk" by simp
    from fixed_input_accepts [OF 1(2) this] obtain zs r' where
      p: "rb_process_into_buffer rb r (take chunk xs) = (Ok zs, r')" by blast
    have "chunk \<noteq> 0" using 1(2) by (simp add: fixed_input_def)
    then show ?thesis
      using 1(1) [OF _ p [symmetric] refl 1(2)] 1(3) p False by (auto simp: feed.simps [of rb chunk r xs] split: prod.splits)
  qed
qed

text \<open>The while loop computes it.\<close>

lemma process_chunks_feed:
  assumes "fixed_input rb chunk" and "consumed \<le> length accum" and "feed rb chunk r (drop consumed accum) = (ys, q, rest)"
  shows "\<exists>n. process_chunks rb chunk accum r out consumed produced = Some (q, out @ ys, Ok (n, produced + length ys)) \<and>
           drop n accum = rest \<and> consumed \<le> n"
  using assms(2-)
proof (induction "length accum - consumed" arbitrary: consumed r out produced ys rule: less_induct)
  case less
  show ?case
  proof (cases "consumed + chunk \<le> length accum")
    case False
    then have "length (drop consumed accum) < chunk" using less.prems(1) by simp
    then show ?thesis
      using less.prems False by (subst process_chunks.simps) (auto simp: feed_short)
  next
    case True
    let ?xs = "take chunk (drop consumed accum)"
    have len: "length ?xs = chunk" using True by simp
    obtain zs r' where p: "rb_process_into_buffer rb r ?xs = (Ok zs, r')" by (rule fixed_input_accepts [OF assms(1) len])
    have pos: "0 < chunk" using assms(1) by (simp add: fixed_input_def)
    have cut: "drop consumed accum = ?xs @ drop (consumed + chunk) accum" by (metis append_take_drop_id drop_drop add.commute)
    obtain os where f: "feed rb chunk r' (drop (consumed + chunk) accum) = (os, q, rest)" and ys: "ys = zs @ os"
      using feed_chunk [OF pos len p, of "drop (consumed + chunk) accum"] less.prems(2) unfolding cut [symmetric]
      by (auto split: prod.splits)
    have "length accum - (consumed + chunk) < length accum - consumed" using pos True by simp
    from less.hyps [OF this True f, of "out @ zs" "produced + length zs"] show ?thesis
      using True p ys by (subst process_chunks.simps) auto
  qed
qed

section \<open>Feeding a stream in pieces\<close>

lemma streaming_process_feed:
  assumes "fixed_input rb chunk" and "sm_chunk_size st = chunk" and "length (sm_accum st) < chunk"
  shows "\<exists>n. streaming_process rb st xs =
     (case feed rb chunk (sm_resampler st) (sm_accum st @ xs) of (ys, r, rest) \<Rightarrow>
        Some (st\<lparr>sm_resampler := r, sm_accum := rest, sm_out := sm_out st @ ys\<rparr>, Ok n))"
proof (cases "xs = []")
  case True
  then show ?thesis using assms(3) by (simp add: streaming_process_def feed_short)
next
  case False
  obtain ys r rest where f: "feed rb chunk (sm_resampler st) (sm_accum st @ xs) = (ys, r, rest)" by (metis surj_pair)
  then show ?thesis
    using process_chunks_feed [OF assms(1), of 0 "sm_accum st @ xs" "sm_resampler st" ys r rest "sm_out st" 0] False assms(2)
    by (auto simp: streaming_process_def)
qed

fun streaming_run :: "'s rubato \<Rightarrow> 's streaming \<Rightarrow> u32 list list \<Rightarrow> 's streaming option" where
  "streaming_run rb st [] = Some st"
| "streaming_run rb st (xs # xss) =
     (case streaming_process rb st xs of Some (st', Inr _) \<Rightarrow> streaming_run rb st' xss | _ \<Rightarrow> None)"

lemma streaming_run_feed:
  assumes "fixed_input rb chunk" and "sm_chunk_size st = chunk" and "length (sm_accum st) < chunk"
  shows "streaming_run rb st xss =
     (case feed rb chunk (sm_resampler st) (sm_accum st @ concat xss) of (ys, r, rest) \<Rightarrow>
        Some (st\<lparr>sm_resampler := r, sm_accum := rest, sm_out := sm_out st @ ys\<rparr>))"
  using assms(2,3)
proof (induction xss arbitrary: st)
  case Nil
  then show ?case by (simp add: feed_short)
next
  case (Cons xs xss)
  obtain ys r rest where f: "feed rb chunk (sm_resampler st) (sm_accum st @ xs) = (ys, r, rest)" by (metis surj_pair)
  let ?st = "st\<lparr>sm_resampler := r, sm_accum := rest, sm_out := sm_out st @ ys\<rparr>"
  obtain n where p: "streaming_process rb st xs = Some (?st, Ok n)"
    using streaming_process_feed [OF assms(1) Cons.prems, of xs] f by auto
  have "length rest < chunk" by (rule feed_rest [OF assms(1) f])
  then show ?case
    using p Cons.IH [of ?st] Cons.prems feed_append [OF assms(1), of "sm_resampler st" "sm_accum st @ xs" "concat xss"] f
    by (auto split: prod.splits)
qed

lemma streaming_new_ready:
  assumes "fixed_input rb chunk" and "streaming_new rb a b = Done st"
  shows "sm_chunk_size st = chunk" and "length (sm_accum st) < chunk"
  using assms by (auto simp: streaming_new_def sinc_resampler_def fixed_input_def split: option.splits)

lemma streaming_new_Done:
  assumes "accepts_positive rb" and "0 < a" and "0 < b"
  shows "\<exists>st. streaming_new rb a b = Done st"
  using assms by (fastforce simp: streaming_new_def sinc_resampler_def accepts_positive_def split: option.splits)

text \<open>
  C8.  Feeding a new streaming resampler returns, and what it has produced, what it holds back and the state
  of its filter depend only on the samples fed, not on how they were cut into calls: fewer samples than
  one chunk are held back at any time.
\<close>

theorem streaming_split_invariant:
  assumes "fixed_input rb chunk" and "streaming_new rb a b = Done st0" and "concat xss = concat yss"
  shows "\<exists>st. streaming_run rb st0 xss = Some st \<and> streaming_run rb st0 yss = Some st \<and> length (sm_accum st) < chunk"
proof -
  obtain ys r rest where f: "feed rb chunk (sm_resampler st0) (sm_accum st0 @ concat xss) = (ys, r, rest)"
    by (metis surj_pair)
  have "length rest < chunk" by (rule feed_rest [OF assms(1) f])
  then show ?thesis
    using streaming_run_feed [OF assms(1) streaming_new_ready [OF assms(1,2)]] f assms(3) by auto
qed

text \<open>A resampler that refuses a zero rate and otherwise works on chunks of two.\<close>

definition demo_rubato :: "unit rubato" where
  "demo_rubato = \<lparr>rb_new = (\<lambda>a b. if a = 0 \<or> b = 0 then None else Some ()), rb_input_frames_next = (\<lambda>_. 2),
     rb_process_into_buffer = (\<lambda>r xs. (Ok (rev xs), r)), rb_reset = (\<lambda>r. r)\<rparr>"

lemma demo_rubato_ok: "fixed_input demo_rubato 2"
  by (simp add: fixed_input_def demo_rubato_def)

lemma demo_rubato_accepts: "accepts_positive demo_rubato"
  by (simp add: accepts_positive_def demo_rubato_def)

theorem streaming_split_invariant_witness:
  "\<exists>st0 st. streaming_new demo_rubato 48000 44100 = Done st0 \<and> streaming_run demo_rubato st0 [[1], [2, 3]] = Some st \<and>
        streaming_run demo_rubato st0 [[1, 2, 3]] = Some st"
proof -
  obtain st0 where new: "streaming_new demo_rubato 48000 44100 = Done st0"
    using streaming_new_Done [OF demo_rubato_accepts, of 48000 44100] by auto
  from streaming_split_invariant [OF demo_rubato_ok new, of "[[1], [2, 3]]" "[[1, 2, 3]]"] new show ?thesis by auto
qed

end
