(* ===== verification/Mic_Arbitrator.thy ===== *)
theory Mic_Arbitrator
  imports Mic_Source Resample Audio_Buffer Clock
begin

text \<open>
  \<^verbatim>\<open>audio_io/mic_arbitrator.rs\<close>: the capture thread.  Samples and levels are \<open>f32\<close> bit patterns: their
  classification and comparison are defined on the bits, their arithmetic is an argument (\<open>fpu\<close>).
  Instants and durations are nanoseconds.  One iteration of the run loop is the function \<open>loop_step\<close> of
  the world and of what the outside does during the iteration (\<open>mic_env\<close>): the settings snapshot, the
  devices, the read, the clock readings.  Every index, slice, \<open>expect\<close>, conversion and assert of the file
  that could abort the thread is a \<open>Panic\<close> branch, debug assertions included; a resampler that refuses its
  rates, or a call of it that fails or does not return, counts as one.  Only the index of the chosen
  candidate is a plain \<open>!\<close>: it comes from a search of the same catalogue.
\<close>

section \<open>Floating point\<close>

definition f32_is_nan :: "u32 \<Rightarrow> bool" where
  "f32_is_nan x \<longleftrightarrow> unat (x AND 0x7FFFFFFF) > 0x7F800000"

definition f32_is_finite :: "u32 \<Rightarrow> bool" where
  "f32_is_finite x \<longleftrightarrow> unat (x AND 0x7FFFFFFF) < 0x7F800000"

text \<open>Sign and magnitude; both zeros have key 0.\<close>

definition f32_key :: "u32 \<Rightarrow> int" where
  "f32_key x = (if bit x 31 then - int (unat (x AND 0x7FFFFFFF)) else int (unat (x AND 0x7FFFFFFF)))"

datatype ordering = OLess | OEqual | OGreater

definition f32_partial_cmp :: "u32 \<Rightarrow> u32 \<Rightarrow> ordering option" where
  "f32_partial_cmp x y =
     (if f32_is_nan x \<or> f32_is_nan y then None
      else Some (if f32_key x < f32_key y then OLess else if f32_key x = f32_key y then OEqual else OGreater))"

definition f32_gt :: "u32 \<Rightarrow> u32 \<Rightarrow> bool" where
  "f32_gt x y \<longleftrightarrow> f32_partial_cmp x y = Some OGreater"

definition f32_ge :: "u32 \<Rightarrow> u32 \<Rightarrow> bool" where
  "f32_ge x y \<longleftrightarrow> f32_partial_cmp x y \<in> {Some OGreater, Some OEqual}"

definition f32_one :: u32 where "f32_one = 0x3F800000"

record fpu =
  fp_add :: "u32 \<Rightarrow> u32 \<Rightarrow> u32"
  fp_sub :: "u32 \<Rightarrow> u32 \<Rightarrow> u32"
  fp_mul :: "u32 \<Rightarrow> u32 \<Rightarrow> u32"
  fp_div :: "u32 \<Rightarrow> u32 \<Rightarrow> u32"
  fp_sqrt :: "u32 \<Rightarrow> u32"
  fp_of_usize :: "nat \<Rightarrow> u32"
  fp_block_dur :: "nat \<Rightarrow> nat \<Rightarrow> nat"
  fp_exp_neg_ratio :: "nat \<Rightarrow> nat \<Rightarrow> u32"
  fp_db_to_linear :: "u32 \<Rightarrow> u32"

section \<open>Configuration\<close>

record mic_arbitrator_config =
  ac_hysteresis_db :: u32
  ac_dwell :: nat
  ac_rms_window :: nat
  ac_mic_failover_after :: nat
  ac_failover_retry_interval :: nat
  ac_timing_anchor :: bool

definition hysteresis_linear :: "fpu \<Rightarrow> mic_arbitrator_config \<Rightarrow> u32" where
  "hysteresis_linear fpu cfg = fp_db_to_linear fpu (ac_hysteresis_db cfg)"

definition arbitrator_config_validate :: "mic_arbitrator_config \<Rightarrow> (string, unit) result" where
  "arbitrator_config_validate cfg =
     (if \<not> (f32_is_finite (ac_hysteresis_db cfg) \<and> f32_ge (ac_hysteresis_db cfg) 0)
      then Err ''hysteresis_db must be finite and >= 0.0''
      else if ac_rms_window cfg = 0 then Err ''rms_window must be > 0''
      else if ac_mic_failover_after cfg = 0 then Err ''mic_failover_after must be > 0''
      else if ac_failover_retry_interval cfg = 0 then Err ''failover_retry_interval must be > 0''
      else Ok ())"

definition ema_alpha :: "fpu \<Rightarrow> nat \<Rightarrow> nat \<Rightarrow> u32" where
  "ema_alpha fpu block_dur window =
     (if window = 0 then f32_one else fp_sub fpu f32_one (fp_exp_neg_ratio fpu block_dur window))"

text \<open>
  The three debug assertions come first; without them a short read at rate 0 panics in the conversion.
\<close>

definition alpha_for_frames :: "fpu \<Rightarrow> nat \<Rightarrow> nat \<Rightarrow> nat \<Rightarrow> u32 \<Rightarrow> nat \<Rightarrow> u32 run" where
  "alpha_for_frames fpu frames nominal_period rate cached_alpha window =
     (if frames = 0 \<or> nominal_period = 0 \<or> rate = 0 then Panic
      else if frames = nominal_period then Done cached_alpha
      else run_bind (block_duration (fp_block_dur fpu) frames rate) (\<lambda>actual_block.
        Done (ema_alpha fpu actual_block window)))"

definition warn_interval :: nat where
  "warn_interval = 30 * 10 ^ 9"

definition canonical_rate :: nat where
  "canonical_rate = 44100"

section \<open>State\<close>

record 's arb_state =
  st_active :: "active_source option"
  st_whitelist :: "nat list"
  st_n_channels :: nat
  st_rate :: nat
  st_period_frames :: nat
  st_alpha :: u32
  st_per_slot :: "u32 list"
  st_resamplers :: "'s streaming option list"
  st_active_slot :: "nat option"
  st_last_switch_at :: "nat option"
  st_last_data_at :: nat
  st_interleaved :: "u32 list"
  st_slot_flat :: "u32 list"
  st_sum_sq :: "u32 list"
  st_out :: "u32 list"

definition arb_state_new :: "nat \<Rightarrow> 's arb_state" where
  "arb_state_new now =
     \<lparr>st_active = None, st_whitelist = [], st_n_channels = 0, st_rate = 0, st_period_frames = 0, st_alpha = f32_one,
      st_per_slot = [], st_resamplers = [], st_active_slot = None, st_last_switch_at = None, st_last_data_at = now,
      st_interleaved = [], st_slot_flat = [], st_sum_sq = [], st_out = []\<rparr>"

definition active_id :: "'s arb_state \<Rightarrow> mic_id option" where
  "active_id st = map_option src_id (st_active st)"

text \<open>One resampler per slot where the rate is not the canonical one.\<close>

fun boot_resamplers :: "'s rubato \<Rightarrow> nat \<Rightarrow> nat \<Rightarrow> 's streaming option list run" where
  "boot_resamplers rb rate 0 = Done []"
| "boot_resamplers rb rate (Suc n) =
     run_bind (if rate \<noteq> canonical_rate
               then run_bind (streaming_new rb rate canonical_rate) (\<lambda>r. Done (Some r)) else Done None) (\<lambda>r.
     run_bind (boot_resamplers rb rate n) (\<lambda>rs. Done (r # rs)))"

definition arb_boot ::
  "fpu \<Rightarrow> 's rubato \<Rightarrow> mic_arbitrator_config \<Rightarrow> nat \<Rightarrow> active_source \<Rightarrow> 's arb_state \<Rightarrow> 's arb_state run"
where
  "arb_boot fpu rb cfg now src st =
     (let n_channels = src_channels src; period = src_period_size src; rate = src_rate src;
          n_slots = length (src_effective_whitelist src) in
      run_bind (block_duration (fp_block_dur fpu) period rate) (\<lambda>nominal_block.
      run_bind (boot_resamplers rb rate n_slots) (\<lambda>rs.
      Done \<lparr>st_active = Some src, st_whitelist = src_effective_whitelist src, st_n_channels = n_channels, st_rate = rate,
       st_period_frames = period, st_alpha = ema_alpha fpu nominal_block (ac_rms_window cfg),
       st_per_slot = replicate n_slots 0, st_resamplers = rs,
       st_active_slot = None, st_last_switch_at = None, st_last_data_at = now,
       st_interleaved = replicate (period * n_channels) 0, st_slot_flat = replicate (n_slots * period) 0,
       st_sum_sq = replicate n_slots 0, st_out = []\<rparr>)))"

definition tear_down :: "'s arb_state \<Rightarrow> 's arb_state" where
  "tear_down st =
     st\<lparr>st_active := None, st_whitelist := [], st_n_channels := 0, st_rate := 0, st_period_frames := 0,
        st_alpha := f32_one, st_per_slot := [], st_resamplers := [], st_active_slot := None, st_last_switch_at := None\<rparr>"

text \<open>What the thread reports through its log.\<close>

datatype mic_log =
    LogOpened mic_id
  | LogWarn nat mic_id
  | LogFailover mic_id
  | LogEndOfStream mic_id
  | LogReadError mic_id nat
  | LogSwitched nat nat nat
  | LogSelected nat nat

record 's mic_world =
  mw_state :: "'s arb_state"
  mw_writer :: audio_ring
  mw_anchor :: timing_anchor
  mw_last_warn_at :: "nat option"
  mw_log :: "mic_log list"

definition log_event :: "mic_log \<Rightarrow> 's mic_world \<Rightarrow> 's mic_world" where
  "log_event e w = w\<lparr>mw_log := mw_log w @ [e]\<rparr>"

definition rate_limited_warn :: "nat \<Rightarrow> mic_id \<Rightarrow> 's mic_world \<Rightarrow> 's mic_world" where
  "rate_limited_warn now i w =
     (if (case mw_last_warn_at w of None \<Rightarrow> True | Some t \<Rightarrow> saturating_sub now t > warn_interval)
      then log_event (LogWarn now i) (w\<lparr>mw_last_warn_at := Some now\<rparr>) else w)"

section \<open>Choosing the microphone\<close>

definition resolve_desired_idx :: "mic_selection \<Rightarrow> mic_candidate list \<Rightarrow> mic_id option \<Rightarrow> nat option" where
  "resolve_desired_idx policy candidates current_active =
     (case policy of
        FixedMic i \<Rightarrow> position (\<lambda>c. mc_id c = i) candidates
      | FirstAvailable \<Rightarrow>
          (case (case current_active of None \<Rightarrow> None | Some a \<Rightarrow> position (\<lambda>c. mc_id c = a) candidates) of
             Some idx \<Rightarrow> Some idx
           | None \<Rightarrow> if candidates = [] then None else Some 0))"

record mic_env =
  ev_settings :: mic_settings
  ev_alsa :: "mic_id \<Rightarrow> alsa_device option"
  ev_io :: source_io
  ev_now_warn :: "nat \<Rightarrow> nat"
  ev_now_boot :: nat
  ev_now_failover :: nat
  ev_now_data :: nat
  ev_now_pick :: nat
  ev_now_anchor :: "nat \<Rightarrow> nat"

abbreviation open_cand :: "mic_env \<Rightarrow> mic_candidate \<Rightarrow> (open_error, active_source) result" where
  "open_cand env c \<equiv> open_source (ev_alsa env (mc_id c)) c"

text \<open>The walk over the candidates from an index on.\<close>

fun open_walk ::
  "mic_env \<Rightarrow> nat \<Rightarrow> mic_candidate list \<Rightarrow> 's mic_world \<Rightarrow> active_source option \<times> 's mic_world"
where
  "open_walk env i [] w = (None, w)"
| "open_walk env i (c # cs) w =
     (case open_cand env c of
        Inr src \<Rightarrow> (Some src, w)
      | Inl e \<Rightarrow> open_walk env (Suc i) cs (rate_limited_warn (ev_now_warn env i) (mc_id c) w))"

definition open_starting_from ::
  "mic_env \<Rightarrow> mic_candidate list \<Rightarrow> nat \<Rightarrow> 's mic_world \<Rightarrow> active_source option \<times> 's mic_world"
where
  "open_starting_from env candidates start w = open_walk env start (drop start candidates) w"

definition boot_world ::
  "fpu \<Rightarrow> 's rubato \<Rightarrow> mic_arbitrator_config \<Rightarrow> mic_env \<Rightarrow> active_source \<Rightarrow> 's mic_world \<Rightarrow> 's mic_world run"
where
  "boot_world fpu rb cfg env src w =
     run_bind (arb_boot fpu rb cfg (ev_now_boot env) src (mw_state w)) (\<lambda>st. Done (w\<lparr>mw_state := st\<rparr>))"

definition need_switch :: "mic_env \<Rightarrow> nat option \<Rightarrow> mic_id option \<Rightarrow> bool" where
  "need_switch env desired active =
     (case (active, desired) of
        (None, None) \<Rightarrow> False
      | (None, Some _) \<Rightarrow> True
      | (Some _, None) \<Rightarrow> True
      | (Some a, Some d) \<Rightarrow> a \<noteq> mc_id (cat_candidates (ms_catalogue (ev_settings env)) ! d))"

definition switch_source ::
  "fpu \<Rightarrow> 's rubato \<Rightarrow> mic_arbitrator_config \<Rightarrow> mic_env \<Rightarrow> nat option \<Rightarrow> 's mic_world \<Rightarrow> 's mic_world run"
where
  "switch_source fpu rb cfg env desired w0 =
     (let w = w0\<lparr>mw_state := tear_down (mw_state w0)\<rparr>;
          candidates = cat_candidates (ms_catalogue (ev_settings env)) in
      case desired of
        None \<Rightarrow> Done w
      | Some idx \<Rightarrow>
          let cand = candidates ! idx in
          (case open_cand env cand of
             Inr src \<Rightarrow> boot_world fpu rb cfg env src (log_event (LogOpened (mc_id cand)) w)
           | Inl e \<Rightarrow>
               let w1 = rate_limited_warn (ev_now_warn env idx) (open_error_id e) w in
               if mp_mic (ms_policy (ev_settings env)) = FirstAvailable
               then (case open_starting_from env candidates (idx + 1) w1 of
                   (Some src, w2) \<Rightarrow> boot_world fpu rb cfg env src w2
                 | (None, w2) \<Rightarrow> Done w2)
               else Done w1))"

section \<open>One period\<close>

definition finite_or_zero :: "u32 \<Rightarrow> u32" where
  "finite_or_zero raw = (if f32_is_finite raw then raw else 0)"

definition sum_of_squares :: "fpu \<Rightarrow> u32 list \<Rightarrow> u32" where
  "sum_of_squares fpu ss = foldl (\<lambda>acc s. fp_add fpu acc (fp_mul fpu s s)) 0 ss"

fun demux_slots ::
  "fpu \<Rightarrow> u32 list \<Rightarrow> nat \<Rightarrow> nat \<Rightarrow> nat \<Rightarrow> nat \<Rightarrow> nat list \<Rightarrow> u32 list \<Rightarrow> u32 list \<Rightarrow> (u32 list \<times> u32 list) run"
where
  "demux_slots fpu xs n_channels frames stride slot [] flat sums = Done (flat, sums)"
| "demux_slots fpu xs n_channels frames stride slot (ch # chs) flat sums =
     (let offset = slot * stride in
      if offset + frames > length flat then Panic
      else if \<not> list_all (\<lambda>f. f * n_channels + ch < length xs) [0 ..< frames] then Panic
      else if slot \<ge> length sums then Panic
      else let ss = map (\<lambda>f. finite_or_zero (xs ! (f * n_channels + ch))) [0 ..< frames] in
        demux_slots fpu xs n_channels frames stride (Suc slot) chs (blit offset ss flat)
          (sums[slot := sum_of_squares fpu ss]))"

definition single_pass_demux_and_rms ::
  "fpu \<Rightarrow> u32 list \<Rightarrow> nat \<Rightarrow> nat list \<Rightarrow> u32 list \<Rightarrow> u32 list \<Rightarrow> nat \<Rightarrow> nat \<Rightarrow> (u32 list \<times> u32 list) run"
where
  "single_pass_demux_and_rms fpu xs n_channels whitelist flat sums frames stride =
     (if frames > stride \<or> length flat \<noteq> length whitelist * stride \<or> length sums \<noteq> length whitelist \<or>
         length xs \<noteq> frames * n_channels then Panic
      else demux_slots fpu xs n_channels frames stride 0 whitelist flat sums)"

text \<open>The smoothed level of every slot.\<close>

definition update_levels :: "fpu \<Rightarrow> u32 \<Rightarrow> nat \<Rightarrow> nat \<Rightarrow> u32 list \<Rightarrow> u32 list \<Rightarrow> u32 list run" where
  "update_levels fpu alpha frames n_slots sums levels =
     (if n_slots > length sums \<or> n_slots > length levels then Panic
      else Done (map (\<lambda>i. let block_rms = fp_sqrt fpu (fp_div fpu (sums ! i) (fp_of_usize fpu frames)) in
                    fp_add fpu (fp_mul fpu alpha block_rms) (fp_mul fpu (fp_sub fpu f32_one alpha) (levels ! i)))
                 [0 ..< n_slots] @ drop n_slots levels))"

text \<open>\<open>max_by\<close> keeps the later of two elements unless the earlier one is greater; incomparable is equal.\<close>

fun loudest_from :: "nat \<Rightarrow> nat \<times> u32 \<Rightarrow> u32 list \<Rightarrow> nat \<times> u32" where
  "loudest_from i best [] = best"
| "loudest_from i best (r # rs) = loudest_from (Suc i) (if f32_gt (snd best) r then best else (i, r)) rs"

definition pick_slot ::
  "fpu \<Rightarrow> channel_selection \<Rightarrow> u32 list \<Rightarrow> nat list \<Rightarrow> nat option \<Rightarrow> nat option \<Rightarrow> nat \<Rightarrow> u32 \<Rightarrow> nat \<Rightarrow> nat option run"
where
  "pick_slot fpu policy per_slot whitelist current_slot last_switched_at now hysteresis dwell =
     (if per_slot = [] then Done None
      else case (case policy of FixedChannel ch \<Rightarrow> position (\<lambda>w. w = ch) whitelist | AutoChannel \<Rightarrow> None) of
        Some idx \<Rightarrow> Done (Some idx)
      | None \<Rightarrow>
          let (loudest_idx, loudest_rms) = loudest_from 1 (0, hd per_slot) (tl per_slot) in
          (case current_slot of
             None \<Rightarrow> Done (Some loudest_idx)
           | Some active_idx \<Rightarrow>
               if active_idx = loudest_idx then Done (Some active_idx)
               else if active_idx \<ge> length per_slot then Panic
               else let above_threshold = f32_gt loudest_rms (fp_mul fpu (per_slot ! active_idx) hysteresis);
                        dwell_satisfied = (case last_switched_at of None \<Rightarrow> True | Some t \<Rightarrow> saturating_sub now t \<ge> dwell)
                    in Done (Some (if above_threshold \<and> dwell_satisfied then loudest_idx else active_idx))))"

definition publish_timing_anchor :: "mic_arbitrator_config \<Rightarrow> nat \<Rightarrow> 's mic_world \<Rightarrow> 's mic_world" where
  "publish_timing_anchor cfg now w =
     (if ac_timing_anchor cfg
      then w\<lparr>mw_anchor := \<lparr>ta_head_pos = ar_head (mw_writer w), ta_captured_at = now, ta_sample_rate_hz = canonical_rate\<rparr>\<rparr>
      else w)"

definition push_and_publish :: "mic_arbitrator_config \<Rightarrow> nat \<Rightarrow> u32 list \<Rightarrow> 's mic_world \<Rightarrow> 's mic_world run" where
  "push_and_publish cfg now samples w =
     run_bind (ring_push (mw_writer w) samples) (\<lambda>r. Done (publish_timing_anchor cfg now (w\<lparr>mw_writer := r\<rparr>)))"

fun push_chunks :: "mic_arbitrator_config \<Rightarrow> (nat \<Rightarrow> nat) \<Rightarrow> nat \<Rightarrow> u32 list list \<Rightarrow> 's mic_world \<Rightarrow> 's mic_world run" where
  "push_chunks cfg now k [] w = Done w"
| "push_chunks cfg now k (c # cs) w = run_bind (push_and_publish cfg (now k) c w) (\<lambda>w'. push_chunks cfg now (Suc k) cs w')"

definition set_resampler :: "nat \<Rightarrow> 's streaming \<Rightarrow> 's mic_world \<Rightarrow> 's mic_world" where
  "set_resampler slot r w = w\<lparr>mw_state := (mw_state w)\<lparr>st_resamplers := (st_resamplers (mw_state w))[slot := Some r]\<rparr>\<rparr>"

text \<open>The body of the loop over the slots on the resampling path.\<close>

definition resample_slot ::
  "'s rubato \<Rightarrow> mic_arbitrator_config \<Rightarrow> mic_env \<Rightarrow> bool \<Rightarrow> nat \<Rightarrow> nat \<Rightarrow> nat \<Rightarrow> nat \<Rightarrow> 's mic_world \<Rightarrow> 's mic_world run"
where
  "resample_slot rb cfg env truly_fixed active_idx frames stride slot w =
     (let st = mw_state w in
      if slot \<ge> length (st_resamplers st) then Panic
      else case st_resamplers st ! slot of
        None \<Rightarrow> Panic
      | Some r \<Rightarrow>
          if truly_fixed \<and> slot \<noteq> active_idx then Done (set_resampler slot (reset_after_discontinuity rb r) w)
          else if slot * stride + frames > length (st_slot_flat st) then Panic
          else (case streaming_process rb r (take frames (drop (slot * stride) (st_slot_flat st))) of
              None \<Rightarrow> Panic
            | Some (_, Inl _) \<Rightarrow> Panic
            | Some (r', Inr _) \<Rightarrow>
                if slot = active_idx
                then let (r2, out) = drain_output_into r' [];
                         w1 = set_resampler slot r2 (w\<lparr>mw_state := (mw_state w)\<lparr>st_out := out\<rparr>\<rparr>) in
                  if out = [] then Done w1
                  else if ar_safety_margin (mw_writer w1) = 0 then Panic
                  else push_chunks cfg (ev_now_anchor env) 0 (chunks (ar_safety_margin (mw_writer w1)) out) w1
                else Done (set_resampler slot (drop_output r') w)))"

fun resample_slots ::
  "'s rubato \<Rightarrow> mic_arbitrator_config \<Rightarrow> mic_env \<Rightarrow> bool \<Rightarrow> nat \<Rightarrow> nat \<Rightarrow> nat \<Rightarrow> nat list \<Rightarrow> 's mic_world \<Rightarrow> 's mic_world run"
where
  "resample_slots rb cfg env truly_fixed active_idx frames stride [] w = Done w"
| "resample_slots rb cfg env truly_fixed active_idx frames stride (slot # slots) w =
     run_bind (resample_slot rb cfg env truly_fixed active_idx frames stride slot w) (\<lambda>w'.
       resample_slots rb cfg env truly_fixed active_idx frames stride slots w')"

definition emit_period ::
  "'s rubato \<Rightarrow> mic_arbitrator_config \<Rightarrow> mic_env \<Rightarrow> nat \<Rightarrow> channel_selection \<Rightarrow> nat \<Rightarrow> 's mic_world \<Rightarrow> 's mic_world run"
where
  "emit_period rb cfg env frames policy active_idx w =
     (let st = mw_state w; stride = st_period_frames st in
      if active_idx \<ge> length (st_resamplers st) then Panic
      else if st_resamplers st ! active_idx = None
      then if active_idx * stride + frames > length (st_slot_flat st) then Panic
        else push_and_publish cfg (ev_now_anchor env 0) (take frames (drop (active_idx * stride) (st_slot_flat st))) w
      else let truly_fixed = (case policy of FixedChannel ch \<Rightarrow> ch \<in> set (st_whitelist st) | AutoChannel \<Rightarrow> False) in
        resample_slots rb cfg env truly_fixed active_idx frames stride [0 ..< length (st_whitelist st)] w)"

definition log_switch :: "nat \<Rightarrow> nat option \<Rightarrow> nat option \<Rightarrow> 's mic_world \<Rightarrow> 's mic_world run" where
  "log_switch now prev new w =
     (let n_slots = length (st_whitelist (mw_state w)) in
      case (prev, new) of
        (Some p, Some n) \<Rightarrow> if p \<ge> n_slots \<or> n \<ge> n_slots then Panic else Done (log_event (LogSwitched now p n) w)
      | (None, Some n) \<Rightarrow> if n \<ge> n_slots then Panic else Done (log_event (LogSelected now n) w)
      | (_, None) \<Rightarrow> Done w)"

text \<open>Demultiplexing, levels and the choice of the slot; then the output.\<close>

definition select_slot ::
  "fpu \<Rightarrow> mic_arbitrator_config \<Rightarrow> mic_env \<Rightarrow> nat \<Rightarrow> channel_selection \<Rightarrow> u32 \<Rightarrow> 's mic_world \<Rightarrow> 's mic_world run"
where
  "select_slot fpu cfg env frames policy hysteresis w =
     (let st = mw_state w; now = ev_now_pick env in
      run_bind (pick_slot fpu policy (st_per_slot st) (st_whitelist st) (st_active_slot st) (st_last_switch_at st) now
          hysteresis (ac_dwell cfg)) (\<lambda>new_slot.
      run_bind (if new_slot \<noteq> st_active_slot st
                then log_switch now (st_active_slot st) new_slot (w\<lparr>mw_state := st\<lparr>st_last_switch_at := Some now\<rparr>\<rparr>)
                else Done w) (\<lambda>w1.
      Done (w1\<lparr>mw_state := (mw_state w1)\<lparr>st_active_slot := new_slot\<rparr>\<rparr>))))"

definition measure_period ::
  "fpu \<Rightarrow> mic_arbitrator_config \<Rightarrow> nat \<Rightarrow> 's mic_world \<Rightarrow> 's mic_world run"
where
  "measure_period fpu cfg frames w =
     (let st = mw_state w in
      if frames * st_n_channels st > length (st_interleaved st) then Panic
      else run_bind (single_pass_demux_and_rms fpu (take (frames * st_n_channels st) (st_interleaved st)) (st_n_channels st)
            (st_whitelist st) (st_slot_flat st) (st_sum_sq st) frames (st_period_frames st)) (\<lambda>(flat, sums).
        run_bind (alpha_for_frames fpu frames (st_period_frames st) (st_rate st) (st_alpha st) (ac_rms_window cfg)) (\<lambda>alpha.
        run_bind (update_levels fpu alpha frames (length (st_whitelist st)) sums (st_per_slot st)) (\<lambda>levels.
        Done (w\<lparr>mw_state := st\<lparr>st_slot_flat := flat, st_sum_sq := sums, st_per_slot := levels\<rparr>\<rparr>)))))"

definition process_period ::
  "fpu \<Rightarrow> 's rubato \<Rightarrow> mic_arbitrator_config \<Rightarrow> mic_env \<Rightarrow> nat \<Rightarrow> channel_selection \<Rightarrow> u32 \<Rightarrow> 's mic_world \<Rightarrow> 's mic_world run"
where
  "process_period fpu rb cfg env frames policy hysteresis w =
     run_bind (measure_period fpu cfg frames w) (\<lambda>w1.
     run_bind (select_slot fpu cfg env frames policy hysteresis w1) (\<lambda>w2.
     case st_active_slot (mw_state w2) of
       None \<Rightarrow> Done w2
     | Some active_idx \<Rightarrow> emit_period rb cfg env frames policy active_idx w2))"

section \<open>The run loop\<close>

definition reset_per_channel_fir :: "'s rubato \<Rightarrow> 's streaming option list \<Rightarrow> 's streaming option list" where
  "reset_per_channel_fir rb rs = map (map_option (reset_after_discontinuity rb)) rs"

text \<open>\<open>read_interleaved\<close> writes a prefix of the buffer it is handed.\<close>

definition fill_prefix :: "'a list \<Rightarrow> 'a list \<Rightarrow> 'a list" where
  "fill_prefix new old = take (length old) new @ drop (length new) old"

definition read_step ::
  "fpu \<Rightarrow> 's rubato \<Rightarrow> mic_arbitrator_config \<Rightarrow> mic_env \<Rightarrow> active_source \<Rightarrow> 's mic_world \<Rightarrow> 's mic_world run"
where
  "read_step fpu rb cfg env src w =
     (let st = mw_state w in
      run_bind (read_interleaved (fp_block_dur fpu) src (length (st_interleaved st)) (ev_io env)) (\<lambda>outcome.
      case outcome of
        Inr (Frames n) \<Rightarrow>
          process_period fpu rb cfg env n (mp_channel (ms_policy (ev_settings env))) (hysteresis_linear fpu cfg)
            (w\<lparr>mw_state := st\<lparr>st_interleaved := fill_prefix (io_samples (ev_io env)) (st_interleaved st),
                             st_last_data_at := ev_now_data env\<rparr>\<rparr>)
      | Inr EndOfStream \<Rightarrow> Done (log_event (LogEndOfStream (src_id src)) (w\<lparr>mw_state := tear_down st\<rparr>))
      | Inr _ \<Rightarrow> Done w
      | Inl e \<Rightarrow>
          (let w1 = log_event (LogReadError (src_id src) e) w in
           case io_recover (ev_io env) of
             Inl _ \<Rightarrow> Done (w1\<lparr>mw_state := tear_down st\<rparr>)
           | Inr _ \<Rightarrow> Done (w1\<lparr>mw_state := st\<lparr>st_resamplers := reset_per_channel_fir rb (st_resamplers st)\<rparr>\<rparr>))))"

definition failover_due :: "mic_arbitrator_config \<Rightarrow> mic_env \<Rightarrow> 's arb_state \<Rightarrow> bool" where
  "failover_due cfg env st \<longleftrightarrow>
     st_active st \<noteq> None \<and> mp_mic (ms_policy (ev_settings env)) = FirstAvailable \<and>
     saturating_sub (ev_now_failover env) (st_last_data_at st) > ac_mic_failover_after cfg"

definition loop_step ::
  "fpu \<Rightarrow> 's rubato \<Rightarrow> mic_arbitrator_config \<Rightarrow> mic_env \<Rightarrow> 's mic_world \<Rightarrow> 's mic_world run"
where
  "loop_step fpu rb cfg env w0 =
     (let policy = ms_policy (ev_settings env);
          desired = resolve_desired_idx (mp_mic policy) (cat_candidates (ms_catalogue (ev_settings env))) (active_id (mw_state w0)) in
      run_bind (if need_switch env desired (active_id (mw_state w0)) then switch_source fpu rb cfg env desired w0 else Done w0) (\<lambda>w.
      if failover_due cfg env (mw_state w)
      then Done (log_event (LogFailover (the (active_id (mw_state w)))) (w\<lparr>mw_state := tear_down (mw_state w)\<rparr>))
      else case st_active (mw_state w) of
        None \<Rightarrow>
          (case (desired, mp_mic policy) of
             (None, FixedMic i) \<Rightarrow> Done (rate_limited_warn (ev_now_warn env 0) i w)
           | _ \<Rightarrow> Done w)
      | Some src \<Rightarrow> read_step fpu rb cfg env src w))"

text \<open>The loop runs one iteration per environment until the stop flag is seen.\<close>

fun loop_steps ::
  "fpu \<Rightarrow> 's rubato \<Rightarrow> mic_arbitrator_config \<Rightarrow> mic_env list \<Rightarrow> 's mic_world \<Rightarrow> 's mic_world run"
where
  "loop_steps fpu rb cfg [] w = Done w"
| "loop_steps fpu rb cfg (env # envs) w = run_bind (loop_step fpu rb cfg env w) (\<lambda>w'. loop_steps fpu rb cfg envs w')"

definition arb_start :: "nat \<Rightarrow> audio_ring \<Rightarrow> 's mic_world" where
  "arb_start now writer =
     \<lparr>mw_state = arb_state_new now, mw_writer = writer, mw_anchor = boot_placeholder, mw_last_warn_at = None, mw_log = []\<rparr>"

definition arb_run_loop ::
  "fpu \<Rightarrow> 's rubato \<Rightarrow> mic_arbitrator_config \<Rightarrow> mic_env list \<Rightarrow> nat \<Rightarrow> audio_ring \<Rightarrow> 's mic_world run"
where
  "arb_run_loop fpu rb cfg envs now writer =
     (case arbitrator_config_validate cfg of
        Inl _ \<Rightarrow> Panic
      | Inr _ \<Rightarrow> run_bind (loop_steps fpu rb cfg envs (arb_start now writer)) (\<lambda>w.
          Done (w\<lparr>mw_state := tear_down (mw_state w)\<rparr>)))"

end
