(* ===== verification/Mic_Properties.thy ===== *)
theory Mic_Properties
  imports Mic_Arbitrator
begin

text \<open>
  The capture thread never aborts while its devices answer within bounds, keeps to the policy, and
  switches channels and warns no faster than configured.
\<close>

section \<open>The shape of the state\<close>

definition resampler_ready :: "nat \<Rightarrow> 's streaming \<Rightarrow> bool" where
  "resampler_ready chunk r \<longleftrightarrow> sm_chunk_size r = chunk \<and> length (sm_accum r) < chunk"

definition arb_shape :: "nat \<Rightarrow> nat \<Rightarrow> 's arb_state \<Rightarrow> bool" where
  "arb_shape chunk margin st \<longleftrightarrow>
     (case st_active st of
        None \<Rightarrow> True
      | Some src \<Rightarrow>
          source_shape src \<and> src_period_size src \<le> margin \<and> 0 < src_rate src \<and> st_rate st = src_rate src \<and>
          st_whitelist st = src_effective_whitelist src \<and> st_n_channels st = src_channels src \<and>
          st_period_frames st = src_period_size src \<and>
          length (st_per_slot st) = length (st_whitelist st) \<and> length (st_sum_sq st) = length (st_whitelist st) \<and>
          length (st_slot_flat st) = length (st_whitelist st) * st_period_frames st \<and>
          length (st_interleaved st) = st_period_frames st * st_n_channels st \<and>
          length (st_resamplers st) = length (st_whitelist st) \<and>
          ((\<forall>r \<in> set (st_resamplers st). r = None) \<or>
           (\<forall>r \<in> set (st_resamplers st). \<exists>s. r = Some s \<and> resampler_ready chunk s)) \<and>
          (\<forall>i. st_active_slot st = Some i \<longrightarrow> i < length (st_whitelist st)))"

definition world_shape :: "nat \<Rightarrow> nat \<Rightarrow> 's mic_world \<Rightarrow> bool" where
  "world_shape chunk margin w \<longleftrightarrow>
     arb_shape chunk margin (mw_state w) \<and> ring_shape (mw_writer w) \<and> ar_safety_margin (mw_writer w) = margin"

lemma tear_down_shape [simp]: "arb_shape chunk margin (tear_down st)"
  by (simp add: arb_shape_def tear_down_def)

lemma tear_down_inactive [simp]: "st_active (tear_down st) = None" "active_id (tear_down st) = None"
  by (simp_all add: tear_down_def active_id_def)

lemma log_event_fields [simp]:
  "mw_state (log_event e w) = mw_state w" "mw_writer (log_event e w) = mw_writer w"
  "mw_last_warn_at (log_event e w) = mw_last_warn_at w" "mw_log (log_event e w) = mw_log w @ [e]"
  by (simp_all add: log_event_def)

lemma warn_fields [simp]:
  "mw_state (rate_limited_warn now i w) = mw_state w" "mw_writer (rate_limited_warn now i w) = mw_writer w"
  by (simp_all add: rate_limited_warn_def)

lemma boot_resamplers_Done:
  assumes "boot_resamplers rb rate n = Done rs"
  shows "length rs = n \<and>
     (\<forall>r \<in> set rs. if rate = canonical_rate then r = None else \<exists>s. r = Some s \<and> streaming_new rb rate canonical_rate = Done s)"
  using assms by (induction n arbitrary: rs) (auto simp: run_bind_Done split: if_splits)

lemma boot_Done:
  assumes "arb_boot fpu rb cfg now src st = Done st'"
  shows "0 < src_rate src" and "st_active st' = Some src" and "st_active_slot st' = None" and "st_last_data_at st' = now"
  using assms by (auto simp: arb_boot_def Let_def run_bind_Done block_duration_def split: if_splits)

lemma boot_shape:
  assumes "fixed_input rb chunk" and "source_shape src" and "src_period_size src \<le> margin"
    and "arb_boot fpu rb cfg now src st = Done st'"
  shows "arb_shape chunk margin st'"
proof -
  obtain d rs where rs: "boot_resamplers rb (src_rate src) (length (src_effective_whitelist src)) = Done rs" "st_resamplers st' = rs"
    using assms(4) by (auto simp: arb_boot_def Let_def run_bind_Done)
  have "resampler_ready chunk s" if "streaming_new rb a b = Done s" for a b s
    using streaming_new_ready [OF assms(1) that] by (simp add: resampler_ready_def)
  then have "length rs = length (src_effective_whitelist src) \<and>
      ((\<forall>r \<in> set rs. r = None) \<or> (\<forall>r \<in> set rs. \<exists>s. r = Some s \<and> resampler_ready chunk s))"
    using boot_resamplers_Done [OF rs(1)] by (cases "src_rate src = canonical_rate") fastforce+
  then show ?thesis
    using assms(2-4) rs(2) boot_Done(1) [OF assms(4)] by (auto simp: arb_shape_def arb_boot_def Let_def run_bind_Done)
qed

text \<open>Booting a source with a positive rate succeeds.\<close>

lemma boot_resamplers_total:
  assumes "accepts_positive rb" and "0 < rate"
  shows "\<exists>rs. boot_resamplers rb rate n = Done rs"
proof -
  obtain s where "streaming_new rb rate canonical_rate = Done s"
    using streaming_new_Done [OF assms, of canonical_rate] by (auto simp: canonical_rate_def)
  then show ?thesis by (induction n) auto
qed

lemma boot_total:
  assumes "accepts_positive rb" and "0 < src_rate src"
  shows "\<exists>st'. arb_boot fpu rb cfg now src st = Done st'"
  using boot_resamplers_total [OF assms] assms(2)
  by (fastforce simp: arb_boot_def Let_def block_duration_def run_bind_Done)

section \<open>One period\<close>

lemma demux_slots_Done:
  assumes "(slot + length chs) * stride \<le> length flat" and "slot + length chs \<le> length sums" and "frames \<le> stride"
    and "length xs = frames * n" and "\<forall>ch \<in> set chs. ch < n"
  shows "\<exists>flat' sums'. demux_slots fpu xs n frames stride slot chs flat sums = Done (flat', sums') \<and>
           length flat' = length flat \<and> length sums' = length sums"
  using assms
proof (induction chs arbitrary: slot flat sums)
  case (Cons ch chs)
  have idx: "f * n + ch < length xs" if "f < frames" for f
  proof -
    have "f * n + ch < f * n + n" using Cons.prems(5) by simp
    also have "\<dots> = Suc f * n" by simp
    also have "\<dots> \<le> frames * n" using that by (intro mult_right_mono) auto
    finally show ?thesis using Cons.prems(4) by simp
  qed
  have "slot * stride + stride = Suc slot * stride" by simp
  also have "\<dots> \<le> (slot + length (ch # chs)) * stride" by (rule mult_le_mono1) simp
  also have "\<dots> \<le> length flat" by (rule Cons.prems(1))
  finally have "slot * stride + stride \<le> length flat" .
  then have room: "slot * stride + frames \<le> length flat" using Cons.prems(3) by simp
  define ss where "ss = map (\<lambda>f. finite_or_zero (xs ! (f * n + ch))) [0 ..< frames]"
  have len: "length (blit (slot * stride) ss flat) = length flat"
    using room by (intro length_blit) (simp add: ss_def)
  have "\<exists>flat' sums'. demux_slots fpu xs n frames stride (Suc slot) chs (blit (slot * stride) ss flat)
      (sums[slot := sum_of_squares fpu ss]) = Done (flat', sums') \<and>
      length flat' = length flat \<and> length sums' = length sums"
    using Cons.IH [of "Suc slot" "blit (slot * stride) ss flat" "sums[slot := sum_of_squares fpu ss]"] Cons.prems len
    by simp
  moreover have "slot < length sums" using Cons.prems(2) by simp
  ultimately show ?case using room idx by (simp add: list_all_iff Let_def ss_def)
qed simp

lemma loudest_from_index:
  "fst best < i \<Longrightarrow> fst (loudest_from i best rs) < i + length rs"
proof (induction rs arbitrary: i best)
  case (Cons r rs)
  then show ?case using Cons.IH [of "if f32_gt (snd best) r then best else (i, r)" "Suc i"] by simp
qed simp

lemma pick_slot_Done:
  assumes "per_slot \<noteq> []" and "length per_slot = length whitelist" and "\<forall>i. current = Some i \<longrightarrow> i < length whitelist"
  shows "\<exists>i < length whitelist. pick_slot fpu policy per_slot whitelist current switched now h dwell = Done (Some i)"
proof -
  obtain li lr where l: "loudest_from 1 (0, hd per_slot) (tl per_slot) = (li, lr)" by (metis surj_pair)
  have "li < length whitelist"
    using loudest_from_index [of "(0, hd per_slot)" 1 "tl per_slot"] l assms(1,2) by (cases per_slot) auto
  moreover have "idx < length whitelist" if "position (\<lambda>w. w = ch) whitelist = Some idx" for ch idx
    using position_Some [OF that] by simp
  ultimately show ?thesis
    using assms l by (auto simp: pick_slot_def Let_def split: option.splits channel_selection.splits)
qed

text \<open>What a period leaves alone.\<close>

definition same_source :: "'s mic_world \<Rightarrow> 's mic_world \<Rightarrow> bool" where
  "same_source w w' \<longleftrightarrow> st_active (mw_state w') = st_active (mw_state w)"

lemma alpha_Done:
  "0 < frames \<Longrightarrow> 0 < nominal \<Longrightarrow> 0 < rate \<Longrightarrow> \<exists>alpha. alpha_for_frames fpu frames nominal rate cached window = Done alpha"
  by (simp add: alpha_for_frames_def block_duration_def)

lemma measure_period_Done:
  assumes "world_shape chunk margin w" and "st_active (mw_state w) = Some src" and "frames \<le> src_period_size src" and "0 < frames"
  shows "\<exists>w'. measure_period fpu cfg frames w = Done w' \<and> world_shape chunk margin w' \<and> mw_log w' = mw_log w \<and>
     st_active (mw_state w') = Some src \<and> st_active_slot (mw_state w') = st_active_slot (mw_state w) \<and>
     st_last_switch_at (mw_state w') = st_last_switch_at (mw_state w) \<and> mw_last_warn_at w' = mw_last_warn_at w"
proof -
  let ?st = "mw_state w"
  note sh = assms(1) [unfolded world_shape_def arb_shape_def assms(2), simplified]
  have room: "frames * st_n_channels ?st \<le> length (st_interleaved ?st)" using sh assms(3) by simp
  have dd: "\<exists>flat' sums'. demux_slots fpu (take (frames * st_n_channels ?st) (st_interleaved ?st)) (st_n_channels ?st) frames
      (st_period_frames ?st) 0 (st_whitelist ?st) (st_slot_flat ?st) (st_sum_sq ?st) = Done (flat', sums') \<and>
      length flat' = length (st_slot_flat ?st) \<and> length sums' = length (st_sum_sq ?st)"
    by (rule demux_slots_Done) (use sh assms(3) room in \<open>auto simp: source_shape_def\<close>)
  obtain alpha where a: "alpha_for_frames fpu frames (st_period_frames ?st) (st_rate ?st) (st_alpha ?st) (ac_rms_window cfg) = Done alpha"
    using alpha_Done [of frames "st_period_frames ?st" "st_rate ?st" fpu "st_alpha ?st" "ac_rms_window cfg"] sh assms(4)
    by (auto simp: source_shape_def)
  from dd obtain flat sums where d: "demux_slots fpu (take (frames * st_n_channels ?st) (st_interleaved ?st)) (st_n_channels ?st) frames
      (st_period_frames ?st) 0 (st_whitelist ?st) (st_slot_flat ?st) (st_sum_sq ?st) = Done (flat, sums)"
    and len: "length flat = length (st_slot_flat ?st)" "length sums = length (st_sum_sq ?st)" by blast
  from len show ?thesis
    using sh assms(2,3) room a d
    by (auto simp: measure_period_def single_pass_demux_and_rms_def update_levels_def Let_def world_shape_def arb_shape_def)
qed

definition slot_event :: "nat \<Rightarrow> nat option \<Rightarrow> nat \<Rightarrow> mic_log list" where
  "slot_event now active i =
     (if active = Some i then [] else [case active of None \<Rightarrow> LogSelected now i | Some p \<Rightarrow> LogSwitched now p i])"

definition slot_chosen :: "nat \<Rightarrow> nat \<Rightarrow> 's mic_world \<Rightarrow> 's mic_world" where
  "slot_chosen now i w =
     w\<lparr>mw_state := (mw_state w)\<lparr>st_last_switch_at :=
           (if st_active_slot (mw_state w) = Some i then st_last_switch_at (mw_state w) else Some now),
         st_active_slot := Some i\<rparr>,
       mw_log := mw_log w @ slot_event now (st_active_slot (mw_state w)) i\<rparr>"

lemma select_slot_chosen:
  assumes "pick_slot fpu policy (st_per_slot (mw_state w)) (st_whitelist (mw_state w)) (st_active_slot (mw_state w))
      (st_last_switch_at (mw_state w)) (ev_now_pick env) h (ac_dwell cfg) = Done (Some i)"
    and "i < length (st_whitelist (mw_state w))" and "\<forall>p. st_active_slot (mw_state w) = Some p \<longrightarrow> p < length (st_whitelist (mw_state w))"
  shows "select_slot fpu cfg env frames policy h w = Done (slot_chosen (ev_now_pick env) i w)"
  using assms
  by (auto simp: select_slot_def Let_def log_switch_def log_event_def slot_chosen_def slot_event_def split: option.splits)

lemma slot_chosen_fields [simp]:
  "st_active (mw_state (slot_chosen now i w)) = st_active (mw_state w)" "st_active_slot (mw_state (slot_chosen now i w)) = Some i"
  "st_whitelist (mw_state (slot_chosen now i w)) = st_whitelist (mw_state w)" "mw_writer (slot_chosen now i w) = mw_writer w"
  "mw_last_warn_at (slot_chosen now i w) = mw_last_warn_at w"
  "mw_log (slot_chosen now i w) = mw_log w @ slot_event now (st_active_slot (mw_state w)) i"
  by (simp_all add: slot_chosen_def)

lemma slot_chosen_shape:
  "world_shape chunk margin w \<Longrightarrow> st_active (mw_state w) = Some src \<Longrightarrow> i < length (st_whitelist (mw_state w)) \<Longrightarrow>
     world_shape chunk margin (slot_chosen now i w)"
  by (simp add: world_shape_def arb_shape_def slot_chosen_def)

lemma pick_in_world:
  assumes "world_shape chunk margin w" and "st_active (mw_state w) = Some src"
  shows "\<exists>i < length (st_whitelist (mw_state w)). pick_slot fpu policy (st_per_slot (mw_state w)) (st_whitelist (mw_state w))
      (st_active_slot (mw_state w)) (st_last_switch_at (mw_state w)) now h dwell = Done (Some i)"
  by (rule pick_slot_Done) (use assms in \<open>auto simp: world_shape_def arb_shape_def source_shape_def\<close>)

lemma push_and_publish_Done:
  assumes "world_shape chunk margin w" and "length xs \<le> margin"
  shows "\<exists>w'. push_and_publish cfg now xs w = Done w' \<and> world_shape chunk margin w' \<and>
     mw_state w' = mw_state w \<and> mw_log w' = mw_log w \<and> mw_last_warn_at w' = mw_last_warn_at w"
proof -
  have r: "ring_shape (mw_writer w)" "ar_safety_margin (mw_writer w) = margin" using assms(1) by (simp_all add: world_shape_def)
  have "\<exists>r. ring_push (mw_writer w) xs = Done r \<and> ring_shape r \<and> ar_safety_margin r = margin"
  proof (cases "xs = []")
    case True
    then show ?thesis using r by (simp add: ring_push_def)
  next
    case False
    then have "length (ring_write (ar_head (mw_writer w)) xs (ar_data (mw_writer w))) = length (ar_data (mw_writer w))"
      using r assms(2) False by (intro ring_write_pieces(1)) (auto simp: ring_shape_def)
    then show ?thesis using False r assms(2) ring_push_eq [OF r(1), of xs] by (simp add: ring_shape_def)
  qed
  then show ?thesis
    using assms(1) by (auto simp: push_and_publish_def publish_timing_anchor_def world_shape_def)
qed

lemma push_chunks_Done:
  assumes "world_shape chunk margin w" and "\<forall>c \<in> set cs. length c \<le> margin"
  shows "\<exists>w'. push_chunks cfg now k cs w = Done w' \<and> world_shape chunk margin w' \<and>
     mw_state w' = mw_state w \<and> mw_log w' = mw_log w \<and> mw_last_warn_at w' = mw_last_warn_at w"
  using assms
proof (induction cs arbitrary: k w)
  case (Cons c cs)
  obtain w1 where w1: "push_and_publish cfg (now k) c w = Done w1" "world_shape chunk margin w1"
      "mw_state w1 = mw_state w" "mw_log w1 = mw_log w" "mw_last_warn_at w1 = mw_last_warn_at w"
    using push_and_publish_Done [OF Cons.prems(1), of c cfg "now k"] Cons.prems(2) by auto
  from Cons.IH [OF w1(2), of "Suc k"] Cons.prems(2) w1 show ?case by auto
qed simp

lemma process_ready:
  assumes "fixed_input rb chunk" and "resampler_ready chunk r"
  shows "\<exists>r' n. streaming_process rb r xs = Some (r', Ok n) \<and> resampler_ready chunk r'"
proof -
  obtain ys q rest where f: "feed rb chunk (sm_resampler r) (sm_accum r @ xs) = (ys, q, rest)" by (metis surj_pair)
  then show ?thesis
    using streaming_process_feed [OF assms(1), of r xs] assms(2) feed_rest [OF assms(1) f]
    by (auto simp: resampler_ready_def)
qed

text \<open>All resamplers in place and ready: the state on the resampling path.\<close>

definition resampling :: "nat \<Rightarrow> 's mic_world \<Rightarrow> bool" where
  "resampling chunk w \<longleftrightarrow> (\<forall>r \<in> set (st_resamplers (mw_state w)). \<exists>s. r = Some s \<and> resampler_ready chunk s)"

text \<open>Everything but the resamplers and the output is as before.\<close>

definition quiet :: "'s mic_world \<Rightarrow> 's mic_world \<Rightarrow> bool" where
  "quiet w w' \<longleftrightarrow>
     st_active (mw_state w') = st_active (mw_state w) \<and> st_active_slot (mw_state w') = st_active_slot (mw_state w) \<and>
     st_last_switch_at (mw_state w') = st_last_switch_at (mw_state w) \<and> mw_log w' = mw_log w \<and>
     mw_last_warn_at w' = mw_last_warn_at w \<and> st_whitelist (mw_state w') = st_whitelist (mw_state w) \<and>
     st_slot_flat (mw_state w') = st_slot_flat (mw_state w) \<and>
     length (st_resamplers (mw_state w')) = length (st_resamplers (mw_state w)) \<and> st_last_data_at (mw_state w') = st_last_data_at (mw_state w)"

lemma quiet_refl [simp]: "quiet w w"
  by (simp add: quiet_def)

lemma quiet_trans: "quiet u v \<Longrightarrow> quiet v w \<Longrightarrow> quiet u w"
  by (simp add: quiet_def)

lemma set_resampler_ok:
  assumes "world_shape chunk margin w" and "resampling chunk w" and "resampler_ready chunk r" and "st_active (mw_state w) = Some src"
  shows "world_shape chunk margin (set_resampler slot r w)" and "resampling chunk (set_resampler slot r w)"
    and "quiet w (set_resampler slot r w)"
proof -
  have new: "\<forall>x \<in> set ((st_resamplers (mw_state w))[slot := Some r]). \<exists>s. x = Some s \<and> resampler_ready chunk s"
  proof
    fix x assume "x \<in> set ((st_resamplers (mw_state w))[slot := Some r])"
    then have "x = Some r \<or> x \<in> set (st_resamplers (mw_state w))" using set_update_subset_insert by fastforce
    then show "\<exists>s. x = Some s \<and> resampler_ready chunk s" using assms(2,3) by (auto simp: resampling_def)
  qed
  then show "resampling chunk (set_resampler slot r w)" by (simp add: resampling_def set_resampler_def)
  show "world_shape chunk margin (set_resampler slot r w)"
    using assms(1,4) new unfolding world_shape_def arb_shape_def set_resampler_def by fastforce
  show "quiet w (set_resampler slot r w)" by (simp add: quiet_def set_resampler_def)
qed

lemma resample_slot_Done:
  assumes "fixed_input rb chunk" and w: "world_shape chunk margin w" "resampling chunk w" "st_active (mw_state w) = Some src"
    and slot: "slot < length (st_resamplers (mw_state w))" "slot * stride + frames \<le> length (st_slot_flat (mw_state w))"
  shows "\<exists>w'. resample_slot rb cfg env truly_fixed a frames stride slot w = Done w' \<and> world_shape chunk margin w' \<and>
     resampling chunk w' \<and> quiet w w'"
proof -
  let ?st = "mw_state w"
  obtain r where r: "st_resamplers ?st ! slot = Some r" "resampler_ready chunk r"
    using w(2) nth_mem [OF slot(1)] unfolding resampling_def by blast
  have margin: "0 < margin" "ar_safety_margin (mw_writer w) = margin"
    using w(1) ring_shape_sizes(1) [of "mw_writer w"] by (auto simp: world_shape_def)
  obtain r' n where p: "streaming_process rb r (take frames (drop (slot * stride) (st_slot_flat ?st))) = Some (r', Ok n)"
      "resampler_ready chunk r'"
    using process_ready [OF assms(1) r(2)] by metis
  have ready: "resampler_ready chunk (reset_after_discontinuity rb r)" "resampler_ready chunk (r'\<lparr>sm_out := []\<rparr>)"
    using r(2) p(2) by (auto simp: resampler_ready_def reset_after_discontinuity_def)
  show ?thesis
  proof (cases "truly_fixed \<and> slot \<noteq> a \<or> slot \<noteq> a")
    case True
    then show ?thesis
      using set_resampler_ok [OF w(1,2) ready(1) w(3), of slot] set_resampler_ok [OF w(1,2) ready(2) w(3), of slot] slot r p
      by (auto simp: resample_slot_def drop_output_def Let_def)
  next
    case False
    let ?v = "w\<lparr>mw_state := ?st\<lparr>st_out := sm_out r'\<rparr>\<rparr>"
    have v: "world_shape chunk margin ?v" "resampling chunk ?v" "st_active (mw_state ?v) = Some src" "quiet w ?v"
      using w by (auto simp: world_shape_def arb_shape_def resampling_def quiet_def)
    note s = set_resampler_ok [OF v(1,2) ready(2) v(3), of slot]
    have m: "ar_safety_margin (mw_writer (set_resampler slot (r'\<lparr>sm_out := []\<rparr>) ?v)) = margin"
      using margin(2) by (simp add: set_resampler_def)
    obtain w2 where "push_chunks cfg (ev_now_anchor env) 0 (chunks margin (sm_out r')) (set_resampler slot (r'\<lparr>sm_out := []\<rparr>) ?v) = Done w2"
        "world_shape chunk margin w2" "mw_state w2 = mw_state (set_resampler slot (r'\<lparr>sm_out := []\<rparr>) ?v)"
        "mw_log w2 = mw_log (set_resampler slot (r'\<lparr>sm_out := []\<rparr>) ?v)"
        "mw_last_warn_at w2 = mw_last_warn_at (set_resampler slot (r'\<lparr>sm_out := []\<rparr>) ?v)"
      using push_chunks_Done [OF s(1), of "chunks margin (sm_out r')"] length_chunks [OF margin(1)] by blast
    then show ?thesis
      using False slot r p s margin m quiet_trans [OF v(4) s(3)]
      by (auto simp: resample_slot_def drain_output_into_def Let_def resampling_def quiet_def)
  qed
qed

lemma resample_slots_Done:
  assumes "fixed_input rb chunk" and "world_shape chunk margin w" "resampling chunk w" "st_active (mw_state w) = Some src"
    and "\<forall>slot \<in> set slots. slot < length (st_resamplers (mw_state w)) \<and> slot * stride + frames \<le> length (st_slot_flat (mw_state w))"
  shows "\<exists>w'. resample_slots rb cfg env truly_fixed a frames stride slots w = Done w' \<and> world_shape chunk margin w' \<and> quiet w w'"
  using assms(2-)
proof (induction slots arbitrary: w)
  case (Cons slot slots)
  obtain w1 where w1: "resample_slot rb cfg env truly_fixed a frames stride slot w = Done w1" "world_shape chunk margin w1"
      "resampling chunk w1" "quiet w w1"
    using resample_slot_Done [OF assms(1) Cons.prems(1-3), of slot stride frames cfg env truly_fixed a] Cons.prems(4) by auto
  from Cons.IH [OF w1(2,3)] Cons.prems w1 show ?case by (auto simp: quiet_def)
qed simp

lemma emit_period_Done:
  assumes "fixed_input rb chunk" and "world_shape chunk margin w" "st_active (mw_state w) = Some src"
    and "a < length (st_whitelist (mw_state w))" "frames \<le> src_period_size src"
  shows "\<exists>w'. emit_period rb cfg env frames policy a w = Done w' \<and> world_shape chunk margin w' \<and> quiet w w'"
proof -
  let ?st = "mw_state w"
  note sh = assms(2) [unfolded world_shape_def arb_shape_def assms(3), simplified]
  have room: "slot * st_period_frames ?st + frames \<le> length (st_slot_flat ?st)" if "slot < length (st_whitelist ?st)" for slot
  proof -
    have "slot * st_period_frames ?st + st_period_frames ?st = Suc slot * st_period_frames ?st" by simp
    also have "\<dots> \<le> length (st_whitelist ?st) * st_period_frames ?st" using that by (intro mult_le_mono1) simp
    finally show ?thesis using sh assms(5) by simp
  qed
  have a: "a < length (st_resamplers ?st)" using sh assms(4) by simp
  show ?thesis
  proof (cases "st_resamplers ?st ! a = None")
    case True
    have "length (take frames (drop (a * st_period_frames ?st) (st_slot_flat ?st))) \<le> frames" by simp
    then have len: "length (take frames (drop (a * st_period_frames ?st) (st_slot_flat ?st))) \<le> margin"
      using sh assms(5) by linarith
    obtain w' where "push_and_publish cfg (ev_now_anchor env 0) (take frames (drop (a * st_period_frames ?st) (st_slot_flat ?st))) w = Done w'"
        "world_shape chunk margin w'" "mw_state w' = mw_state w" "mw_log w' = mw_log w" "mw_last_warn_at w' = mw_last_warn_at w"
      using push_and_publish_Done [OF assms(2) len] by metis
    then show ?thesis using True a room [OF assms(4)] by (simp add: emit_period_def Let_def quiet_def)
  next
    case False
    then have rs: "resampling chunk w" using sh nth_mem [OF a] unfolding resampling_def by metis
    have "\<exists>w'. resample_slots rb cfg env tf a frames (st_period_frames ?st) [0 ..< length (st_whitelist ?st)] w = Done w' \<and>
        world_shape chunk margin w' \<and> quiet w w'" for tf
      by (rule resample_slots_Done [OF assms(1,2) rs assms(3)]) (use room sh in auto)
    then show ?thesis using False a by (auto simp: emit_period_def Let_def)
  qed
qed

text \<open>A whole period: it cannot abort, and its effect on the log is that of the slot it chose.\<close>

definition chosen_by :: "fpu \<Rightarrow> mic_arbitrator_config \<Rightarrow> mic_env \<Rightarrow> channel_selection \<Rightarrow> 's mic_world \<Rightarrow> nat \<Rightarrow> bool" where
  "chosen_by fpu cfg env policy w i \<longleftrightarrow>
     (\<exists>levels. pick_slot fpu policy levels (st_whitelist (mw_state w)) (st_active_slot (mw_state w)) (st_last_switch_at (mw_state w))
        (ev_now_pick env) (hysteresis_linear fpu cfg) (ac_dwell cfg) = Done (Some i))"

lemma process_period_Done:
  assumes "fixed_input rb chunk" and "world_shape chunk margin w" "st_active (mw_state w) = Some src"
    and "frames \<le> src_period_size src" "0 < frames"
  shows "\<exists>w' i. process_period fpu rb cfg env frames policy (hysteresis_linear fpu cfg) w = Done w' \<and> world_shape chunk margin w' \<and>
     st_active (mw_state w') = Some src \<and> mw_last_warn_at w' = mw_last_warn_at w \<and> chosen_by fpu cfg env policy w i \<and>
     st_active_slot (mw_state w') = Some i \<and> mw_log w' = mw_log w @ slot_event (ev_now_pick env) (st_active_slot (mw_state w)) i \<and>
     st_last_switch_at (mw_state w') = (if st_active_slot (mw_state w) = Some i then st_last_switch_at (mw_state w) else Some (ev_now_pick env))"
proof -
  obtain w1 where w1: "measure_period fpu cfg frames w = Done w1" "world_shape chunk margin w1" "mw_log w1 = mw_log w"
      "st_active (mw_state w1) = Some src" "st_active_slot (mw_state w1) = st_active_slot (mw_state w)"
      "st_last_switch_at (mw_state w1) = st_last_switch_at (mw_state w)" "mw_last_warn_at w1 = mw_last_warn_at w"
    using measure_period_Done [OF assms(2-5), of fpu cfg] by blast
  have wl: "st_whitelist (mw_state w1) = st_whitelist (mw_state w)"
    using w1(2,4) assms(2,3) by (simp add: world_shape_def arb_shape_def)
  obtain i where i: "i < length (st_whitelist (mw_state w1))" "pick_slot fpu policy (st_per_slot (mw_state w1)) (st_whitelist (mw_state w1))
      (st_active_slot (mw_state w1)) (st_last_switch_at (mw_state w1)) (ev_now_pick env) (hysteresis_linear fpu cfg) (ac_dwell cfg) = Done (Some i)"
    using pick_in_world [OF w1(2,4)] by metis
  let ?w2 = "slot_chosen (ev_now_pick env) i w1"
  have w2: "world_shape chunk margin ?w2" by (rule slot_chosen_shape [OF w1(2,4) i(1)])
  obtain w3 where w3: "emit_period rb cfg env frames policy i ?w2 = Done w3" "world_shape chunk margin w3" "quiet ?w2 w3"
    using emit_period_Done [OF assms(1) w2, of src i frames cfg env policy] w1(4) i(1) assms(4) by auto
  have "\<forall>p. st_active_slot (mw_state w1) = Some p \<longrightarrow> p < length (st_whitelist (mw_state w1))"
    using w1(2,4) by (auto simp: world_shape_def arb_shape_def)
  note sel = select_slot_chosen [OF i(2,1) this, of frames]
  have "chosen_by fpu cfg env policy w i" using i(2) w1(5,6) wl unfolding chosen_by_def by metis
  then show ?thesis
    using w1 w3 sel
    by (auto simp: process_period_def quiet_def slot_chosen_def)
qed

section \<open>The log\<close>

fun slot_time :: "mic_log \<Rightarrow> nat option" where
  "slot_time (LogSwitched t _ _) = Some t"
| "slot_time (LogSelected t _) = Some t"
| "slot_time _ = None"

fun is_switch :: "mic_log \<Rightarrow> bool" where
  "is_switch (LogSwitched _ _ _) = True"
| "is_switch _ = False"

definition slot_events :: "mic_log list \<Rightarrow> mic_log list" where
  "slot_events log = filter (\<lambda>e. slot_time e \<noteq> None) log"

fun warn_time :: "mic_log \<Rightarrow> nat list" where
  "warn_time (LogWarn t _) = [t]"
| "warn_time _ = []"

definition warn_times :: "mic_log list \<Rightarrow> nat list" where
  "warn_times log = concat (map warn_time log)"

definition dwell_pair :: "nat \<Rightarrow> mic_log \<Rightarrow> mic_log \<Rightarrow> bool" where
  "dwell_pair dwell a b \<longleftrightarrow> (is_switch b \<longrightarrow> dwell \<le> the (slot_time b) - the (slot_time a))"

text \<open>The last slot event is the one the dwell timer runs from.\<close>

definition dwell_ok :: "nat \<Rightarrow> 's mic_world \<Rightarrow> bool" where
  "dwell_ok dwell w \<longleftrightarrow>
     successively (dwell_pair dwell) (slot_events (mw_log w)) \<and>
     (st_active_slot (mw_state w) \<noteq> None \<longrightarrow>
        slot_events (mw_log w) \<noteq> [] \<and> st_last_switch_at (mw_state w) = slot_time (last (slot_events (mw_log w))))"

definition warns_ok :: "'s mic_world \<Rightarrow> bool" where
  "warns_ok w \<longleftrightarrow>
     successively (\<lambda>s t. warn_interval < t - s) (warn_times (mw_log w)) \<and>
     mw_last_warn_at w = (if warn_times (mw_log w) = [] then None else Some (last (warn_times (mw_log w))))"

lemma slot_events_append [simp]: "slot_events (xs @ ys) = slot_events xs @ slot_events ys"
  by (simp add: slot_events_def)

lemma slot_events_single [simp]: "slot_events [] = []" "slot_events [e] = (if slot_time e = None then [] else [e])"
  by (simp_all add: slot_events_def)

lemma warn_times_append [simp]: "warn_times (xs @ ys) = warn_times xs @ warn_times ys"
  by (simp add: warn_times_def)

lemma slot_event_times [simp]: "warn_times (slot_event now a i) = []" "slot_events (slot_event now a i) = slot_event now a i"
  by (auto simp: slot_event_def warn_times_def slot_events_def split: option.splits)

lemma warn_keeps:
  assumes "warns_ok w"
  shows "warns_ok (rate_limited_warn now i w)" and "slot_events (mw_log (rate_limited_warn now i w)) = slot_events (mw_log w)"
  using assms
  by (auto simp: rate_limited_warn_def warns_ok_def slot_events_def warn_times_def [of "[_]"] successively_append_iff saturating_sub_def
      split: option.splits if_splits)

section \<open>Choosing the microphone\<close>

fun first_open :: "mic_env \<Rightarrow> mic_candidate list \<Rightarrow> active_source option" where
  "first_open env [] = None"
| "first_open env (c # cs) = (case open_cand env c of Inr s \<Rightarrow> Some s | Inl _ \<Rightarrow> first_open env cs)"

lemma first_open_Some: "first_open env cs = Some s \<Longrightarrow> \<exists>c \<in> set cs. open_cand env c = Ok s"
  by (induction cs) (auto split: sum.splits)

lemma open_walk_spec:
  assumes "warns_ok w" and "open_walk env i cs w = (r, w')"
  shows "r = first_open env cs \<and> mw_state w' = mw_state w \<and> mw_writer w' = mw_writer w \<and>
     slot_events (mw_log w') = slot_events (mw_log w) \<and> warns_ok w'"
  using assms
proof (induction cs arbitrary: i w)
  case (Cons c cs)
  show ?case
  proof (cases "open_cand env c")
    case (Inl e)
    note IH = Cons.IH [of "rate_limited_warn (ev_now_warn env i) (mc_id c) w" "Suc i"]
    show ?thesis using IH Cons.prems Inl warn_keeps [OF Cons.prems(1), of "ev_now_warn env i" "mc_id c"] by simp
  qed (use Cons.prems in auto)
qed simp

abbreviation cands :: "mic_env \<Rightarrow> mic_candidate list" where
  "cands env \<equiv> cat_candidates (ms_catalogue (ev_settings env))"

abbreviation sel :: "mic_env \<Rightarrow> mic_selection" where
  "sel env \<equiv> mp_mic (ms_policy (ev_settings env))"

definition opened :: "mic_env \<Rightarrow> nat option \<Rightarrow> active_source option" where
  "opened env desired =
     (case desired of
        None \<Rightarrow> None
      | Some idx \<Rightarrow>
          if sel env = FirstAvailable then first_open env (drop idx (cands env))
          else (case open_cand env (cands env ! idx) of Inr s \<Rightarrow> Some s | Inl _ \<Rightarrow> None))"

lemma warns_ok_state [simp]: "warns_ok (w\<lparr>mw_state := st\<rparr>) = warns_ok w"
  by (simp add: warns_ok_def)

lemma warns_ok_log: "warn_time e = [] \<Longrightarrow> warns_ok (log_event e w) = warns_ok w"
  by (simp add: warns_ok_def log_event_def warn_times_def)

text \<open>What a switch leaves: nothing, or the booted source.\<close>

definition switched ::
  "fpu \<Rightarrow> 's rubato \<Rightarrow> mic_arbitrator_config \<Rightarrow> mic_env \<Rightarrow> nat option \<Rightarrow> 's mic_world \<Rightarrow> 's arb_state run"
where
  "switched fpu rb cfg env desired w =
     (case opened env desired of
        None \<Rightarrow> Done (tear_down (mw_state w))
      | Some s \<Rightarrow> arb_boot fpu rb cfg (ev_now_boot env) s (tear_down (mw_state w)))"

lemma boot_world_Done:
  "boot_world fpu rb cfg env s w = Done w' \<longleftrightarrow>
     (\<exists>st. arb_boot fpu rb cfg (ev_now_boot env) s (mw_state w) = Done st \<and> w' = w\<lparr>mw_state := st\<rparr>)"
  by (auto simp: boot_world_def run_bind_Done)

lemma switch_source_walk:
  fixes rb :: "'s rubato" and w :: "'s mic_world"
  assumes "warns_ok w" and "\<forall>idx. desired = Some idx \<longrightarrow> idx < length (cands env)"
  shows "\<exists>u. switch_source fpu rb cfg env desired w = run_bind (switched fpu rb cfg env desired w) (\<lambda>st. Done (u\<lparr>mw_state := st\<rparr>)) \<and>
     mw_writer u = mw_writer w \<and> slot_events (mw_log u) = slot_events (mw_log w) \<and> warns_ok u"
proof (cases desired)
  case None
  then show ?thesis using assms(1) by (auto simp: switch_source_def switched_def opened_def intro: exI [of _ w])
next
  case (Some idx)
  let ?w = "w\<lparr>mw_state := tear_down (mw_state w)\<rparr>" and ?c = "cands env ! idx"
  have split: "drop idx (cands env) = ?c # drop (Suc idx) (cands env)"
    using assms(2) Some by (simp add: Cons_nth_drop_Suc)
  show ?thesis
  proof (cases "open_cand env ?c")
    case (Inr s)
    then show ?thesis
      using Some split assms(1) warns_ok_log [of "LogOpened (mc_id ?c)" ?w]
      by (intro exI [of _ "log_event (LogOpened (mc_id ?c)) ?w"])
         (simp add: switch_source_def switched_def opened_def boot_world_def slot_events_def)
  next
    case (Inl e)
    let ?w1 = "rate_limited_warn (ev_now_warn env idx) (open_error_id e) ?w"
    have w1: "warns_ok ?w1" "slot_events (mw_log ?w1) = slot_events (mw_log w)"
      using warn_keeps [of ?w] assms(1) by simp_all
    obtain r w2 where walk: "open_walk env (Suc idx) (drop (Suc idx) (cands env)) ?w1 = (r, w2)" by (metis surj_pair)
    note spec = open_walk_spec [OF w1(1) walk]
    have st: "w2 = w2\<lparr>mw_state := tear_down (mw_state w)\<rparr>" "?w1 = ?w1\<lparr>mw_state := tear_down (mw_state w)\<rparr>" using spec by simp_all
    show ?thesis
    proof (cases "sel env = FirstAvailable")
      case True
      then show ?thesis
        using Some split Inl w1 walk spec st(1)
        by (intro exI [of _ w2])
           (auto simp: switch_source_def switched_def opened_def boot_world_def open_starting_from_def Let_def split: option.splits)
    next
      case False
      then show ?thesis
        using Some Inl w1 st(2) by (intro exI [of _ ?w1]) (simp add: switch_source_def switched_def opened_def Let_def)
    qed
  qed
qed

lemma switch_source_spec:
  fixes rb :: "'s rubato" and w :: "'s mic_world"
  assumes "warns_ok w" and "\<forall>idx. desired = Some idx \<longrightarrow> idx < length (cands env)"
    and "switch_source fpu rb cfg env desired w = Done w'"
  shows "switched fpu rb cfg env desired w = Done (mw_state w') \<and>
     mw_writer w' = mw_writer w \<and> slot_events (mw_log w') = slot_events (mw_log w) \<and> warns_ok w'"
  using switch_source_walk [OF assms(1,2), of fpu rb cfg] assms(3) by (cases "switched fpu rb cfg env desired w") auto

lemma resolve_in_range:
  "resolve_desired_idx policy cs active = Some idx \<Longrightarrow> idx < length cs"
  using position_Some [of _ cs idx]
  by (auto simp: resolve_desired_idx_def split: mic_selection.splits option.splits if_splits)

section \<open>One iteration\<close>

definition periods_fit :: "nat \<Rightarrow> mic_env \<Rightarrow> bool" where
  "periods_fit margin env \<longleftrightarrow>
     max_period_frames \<le> margin \<and> (\<forall>i d p. ev_alsa env i = Some d \<longrightarrow> al_period d = Ok p \<longrightarrow> p \<le> int margin)"

lemma alsa_open_period:
  assumes "alsa_open d c = Ok s"
  shows "\<exists>p. al_period d = Ok p \<and> src_period_size s = nat p"
  using assms unfolding alsa_open_def Let_def
  by (auto split: sum.split_asm candidate_source.split_asm if_split_asm)

lemma open_cand_fits:
  assumes "periods_fit margin env" and "open_cand env c = Ok s"
  shows "source_shape s \<and> src_period_size s \<le> margin"
proof -
  consider "mock_open c = Ok s" | d where "ev_alsa env (mc_id c) = Some d" "alsa_open d c = Ok s"
    using open_source_Ok [OF assms(2)] by blast
  then have "src_period_size s \<le> margin"
  proof cases
    case 1
    then show ?thesis using mock_open_shape(3) [OF 1] assms(1) by (simp add: periods_fit_def)
  next
    case 2
    then show ?thesis using alsa_open_period [OF 2(2)] assms(1) by (fastforce simp: periods_fit_def)
  qed
  then show ?thesis using open_source_shape(1) [OF assms(2)] by simp
qed

lemma opened_fits:
  assumes "periods_fit margin env" and "opened env desired = Some s"
  shows "source_shape s \<and> src_period_size s \<le> margin"
  using assms open_cand_fits first_open_Some
  unfolding opened_def by (auto split: option.splits if_splits sum.splits; blast)

lemma read_frames_bound:
  "read_result src io = Ok (Frames n) \<Longrightarrow> n \<le> src_period_size src"
  by (auto simp: read_result_def read_with_timeout_def split: if_splits sum.splits alsa_read_outcome.splits)

lemma read_frames_positive:
  "source_shape src \<Longrightarrow> read_result src io = Ok (Frames n) \<Longrightarrow> 0 < n"
  by (auto simp: read_result_def source_shape_def split: if_splits sum.splits alsa_read_outcome.splits)

lemma read_interleaved_Done:
  assumes "source_shape src" and "0 < src_rate src" and "src_period_size src * src_channels src \<le> buf"
  shows "read_interleaved dur src buf io = Done (read_result src io)"
  using assms read_frames_positive [OF assms(1), of io]
  by (auto simp: read_interleaved_def block_duration_def split: sum.splits read_outcome.splits)

text \<open>
  Devices that negotiate a positive rate, which neither \<open>AlsaSource::open\<close> nor the loop checks; the rate of
  a mock microphone is validated.
\<close>

definition rates_positive :: "mic_env \<Rightarrow> bool" where
  "rates_positive env \<longleftrightarrow> (\<forall>i d r. ev_alsa env i = Some d \<longrightarrow> al_rate d = Ok r \<longrightarrow> 0 < r)"

lemma alsa_open_rate:
  assumes "alsa_open d c = Ok s"
  shows "al_rate d = Ok (src_rate s)"
  using assms unfolding alsa_open_def Let_def
  by (auto split: sum.split_asm candidate_source.split_asm if_split_asm)

lemma open_cand_rate:
  assumes "rates_positive env" and "open_cand env c = Ok s"
  shows "0 < src_rate s"
proof -
  consider "mock_open c = Ok s" | d where "ev_alsa env (mc_id c) = Some d" "alsa_open d c = Ok s"
    using open_source_Ok [OF assms(2)] by blast
  then show ?thesis
  proof cases
    case 1
    then show ?thesis by (rule mock_open_shape)
  next
    case 2
    then show ?thesis using alsa_open_rate [OF 2(2)] assms(1) by (auto simp: rates_positive_def)
  qed
qed

lemma opened_from:
  "opened env desired = Some s \<Longrightarrow> \<exists>c. open_cand env c = Ok s"
  using first_open_Some unfolding opened_def by (auto split: option.splits if_splits sum.splits; blast)

text \<open>The world an iteration enters its read with.\<close>

definition entered :: "fpu \<Rightarrow> 's rubato \<Rightarrow> mic_arbitrator_config \<Rightarrow> mic_env \<Rightarrow> 's mic_world \<Rightarrow> 's mic_world run" where
  "entered fpu rb cfg env w =
     (let desired = resolve_desired_idx (sel env) (cands env) (active_id (mw_state w)) in
      if need_switch env desired (active_id (mw_state w)) then switch_source fpu rb cfg env desired w else Done w)"

lemma tear_down_slot [simp]: "st_active_slot (tear_down st) = None"
  by (simp add: tear_down_def)

text \<open>Entering without a switch changes nothing; a switch leaves what \<open>switched\<close> says.\<close>

lemma entered_cases:
  assumes "warns_ok w" and "entered fpu rb cfg env w = Done v"
  shows "v = w \<or>
     switched fpu rb cfg env (resolve_desired_idx (sel env) (cands env) (active_id (mw_state w))) w = Done (mw_state v) \<and>
     mw_writer v = mw_writer w \<and> slot_events (mw_log v) = slot_events (mw_log w) \<and> warns_ok v"
  using switch_source_spec [OF assms(1), of "resolve_desired_idx (sel env) (cands env) (active_id (mw_state w))" env fpu rb cfg v]
    assms resolve_in_range
  by (fastforce simp: entered_def Let_def split: if_splits)

lemma entered_spec:
  assumes "warns_ok w" and "entered fpu rb cfg env w = Done v"
  shows "warns_ok v" and "mw_writer v = mw_writer w" and "slot_events (mw_log v) = slot_events (mw_log w)"
  using entered_cases [OF assms] assms(1) by auto

lemma switched_inactive:
  "switched fpu rb cfg env desired w = Done st \<Longrightarrow> st_active_slot st = None"
  using boot_Done(3) by (auto simp: switched_def split: option.splits)

lemma entered_shape:
  assumes "fixed_input rb chunk" and "periods_fit margin env" and "world_shape chunk margin w" and "warns_ok w"
    and "entered fpu rb cfg env w = Done v"
  shows "world_shape chunk margin v"
proof -
  have "arb_shape chunk margin st"
    if "switched fpu rb cfg env (resolve_desired_idx (sel env) (cands env) (active_id (mw_state w))) w = Done st" for st
  proof (cases "opened env (resolve_desired_idx (sel env) (cands env) (active_id (mw_state w)))")
    case None
    then show ?thesis using that by (auto simp: switched_def)
  next
    case (Some s)
    then show ?thesis
      using that boot_shape [OF assms(1), of s margin] opened_fits [OF assms(2) Some] by (auto simp: switched_def)
  qed
  then show ?thesis using entered_cases [OF assms(4,5)] assms(3) by (auto simp: world_shape_def)
qed

lemma entered_dwell:
  assumes "dwell_ok dwell w" and "warns_ok w" and "entered fpu rb cfg env w = Done v"
  shows "dwell_ok dwell v"
proof (cases "v = w")
  case False
  then have "st_active_slot (mw_state v) = None" "slot_events (mw_log v) = slot_events (mw_log w)"
    using entered_cases [OF assms(2,3)] switched_inactive by blast+
  then show ?thesis using assms(1) by (simp add: dwell_ok_def)
qed (use assms(1) in simp)

lemma entered_total:
  assumes "accepts_positive rb" and "rates_positive env" and "warns_ok w"
  shows "\<exists>v. entered fpu rb cfg env w = Done v"
proof -
  let ?d = "resolve_desired_idx (sel env) (cands env) (active_id (mw_state w))"
  have "\<exists>st. arb_boot fpu rb cfg now s old = Done st" if "opened env ?d = Some s" for s now old
    using opened_from [OF that] open_cand_rate [OF assms(2)] boot_total [OF assms(1)] by blast
  then have "\<exists>st. switched fpu rb cfg env ?d w = Done st" by (auto simp: switched_def split: option.splits)
  then show ?thesis
    using switch_source_walk [OF assms(3), of ?d env fpu rb cfg] resolve_in_range
    by (fastforce simp: entered_def Let_def run_bind_Done)
qed

lemma pick_auto_dwell:
  assumes "pick_slot fpu AutoChannel levels wl (Some p) (Some t) now h dwell = Done (Some i)" and "i \<noteq> p"
  shows "dwell \<le> now - t"
  using assms by (auto simp: pick_slot_def Let_def saturating_sub_def split: if_splits prod.splits)

lemma period_dwell:
  assumes "dwell_ok (ac_dwell cfg) w" and "chosen_by fpu cfg env AutoChannel w i"
    and w': "st_active_slot (mw_state w') = Some i" "mw_log w' = mw_log w @ slot_event (ev_now_pick env) (st_active_slot (mw_state w)) i"
      "st_last_switch_at (mw_state w') = (if st_active_slot (mw_state w) = Some i then st_last_switch_at (mw_state w) else Some (ev_now_pick env))"
  shows "dwell_ok (ac_dwell cfg) w'"
proof (cases "st_active_slot (mw_state w)")
  case None
  then show ?thesis
    using assms by (simp add: dwell_ok_def slot_event_def successively_append_iff dwell_pair_def)
next
  case (Some p)
  let ?es = "slot_events (mw_log w)"
  have last: "?es \<noteq> []" "st_last_switch_at (mw_state w) = slot_time (last ?es)"
    using assms(1) Some by (simp_all add: dwell_ok_def)
  have "slot_time (last ?es) \<noteq> None" using last(1) last_in_set [OF last(1)] by (simp add: slot_events_def)
  then obtain t where t: "slot_time (last ?es) = Some t" by blast
  have "ac_dwell cfg \<le> ev_now_pick env - t" if "i \<noteq> p"
    using assms(2) Some last(2) t that unfolding chosen_by_def by (auto dest: pick_auto_dwell)
  then show ?thesis
    using assms(1) w' Some last t by (auto simp: dwell_ok_def slot_event_def successively_append_iff dwell_pair_def)
qed

lemma reset_shape:
  assumes "fixed_input rb chunk" and "arb_shape chunk margin st"
  shows "arb_shape chunk margin (st\<lparr>st_resamplers := reset_per_channel_fir rb (st_resamplers st)\<rparr>)"
proof (cases "st_active st")
  case (Some src)
  have "0 < chunk" using assms(1) by (simp add: fixed_input_def)
  then have "resampler_ready chunk (reset_after_discontinuity rb r)" if "resampler_ready chunk r" for r :: "'a streaming"
    using that by (simp add: resampler_ready_def reset_after_discontinuity_def)
  then show ?thesis
    using assms(2) Some by (fastforce simp: arb_shape_def reset_per_channel_fir_def)
qed (simp add: arb_shape_def)

lemma log_keeps:
  assumes "slot_time e = None" and "warn_time e = []"
  shows "warns_ok (log_event e w) = warns_ok w" and "slot_events (mw_log (log_event e w)) = slot_events (mw_log w)"
  using assms by (simp_all add: warns_ok_log slot_events_def)

lemma dwell_ok_cong:
  "dwell_ok dwell w \<Longrightarrow> slot_events (mw_log w') = slot_events (mw_log w) \<Longrightarrow>
     st_active_slot (mw_state w') = None \<or>
     st_active_slot (mw_state w') = st_active_slot (mw_state w) \<and> st_last_switch_at (mw_state w') = st_last_switch_at (mw_state w) \<Longrightarrow>
     dwell_ok dwell w'"
  by (auto simp: dwell_ok_def)

definition iteration_ok :: "nat \<Rightarrow> nat \<Rightarrow> mic_arbitrator_config \<Rightarrow> mic_env \<Rightarrow> 's mic_world \<Rightarrow> 's mic_world \<Rightarrow> bool" where
  "iteration_ok chunk margin cfg env w w' \<longleftrightarrow>
     world_shape chunk margin w' \<and> warns_ok w' \<and>
     (mp_channel (ms_policy (ev_settings env)) = AutoChannel \<longrightarrow> dwell_ok (ac_dwell cfg) w \<longrightarrow> dwell_ok (ac_dwell cfg) w')"

lemma read_step_Done:
  assumes "fixed_input rb chunk" and w: "world_shape chunk margin w" "warns_ok w" "st_active (mw_state w) = Some src"
  shows "\<exists>w'. read_step fpu rb cfg env src w = Done w' \<and> iteration_ok chunk margin cfg env w w' \<and>
     (st_active (mw_state w') = Some src \<or>
      st_active (mw_state w') = None \<and> (read_result src (ev_io env) = Ok EndOfStream \<or> (\<exists>e. read_result src (ev_io env) = Err e)))"
proof -
  have src: "source_shape src" "0 < src_rate src" "length (st_interleaved (mw_state w)) = src_period_size src * src_channels src"
    using w(1,3) by (simp_all add: world_shape_def arb_shape_def)
  have read: "read_interleaved (fp_block_dur fpu) src (length (st_interleaved (mw_state w))) (ev_io env) = Done (read_result src (ev_io env))"
    by (rule read_interleaved_Done [OF src(1,2)]) (simp add: src(3))
  show ?thesis
proof (cases "read_result src (ev_io env)")
  case (Inl e)
  show ?thesis
  proof (cases "io_recover (ev_io env)")
    case (Inl f)
    then show ?thesis
      using w \<open>read_result src (ev_io env) = Err e\<close> log_keeps [of "LogReadError (src_id src) e" w]
      by (auto simp: read_step_def read Let_def iteration_ok_def world_shape_def intro: dwell_ok_cong)
  next
    case (Inr u)
    have "arb_shape chunk margin ((mw_state w)\<lparr>st_resamplers := reset_per_channel_fir rb (st_resamplers (mw_state w))\<rparr>)"
      using reset_shape [OF assms(1)] w(1) by (simp add: world_shape_def)
    then show ?thesis
      using Inr w \<open>read_result src (ev_io env) = Err e\<close> log_keeps [of "LogReadError (src_id src) e" w]
      by (auto simp: read_step_def read Let_def iteration_ok_def world_shape_def intro: dwell_ok_cong)
  qed
next
  case (Inr out)
  show ?thesis
  proof (cases out)
    case (Frames n)
    let ?st = "mw_state w"
    let ?v = "w\<lparr>mw_state := ?st\<lparr>st_interleaved := fill_prefix (io_samples (ev_io env)) (st_interleaved ?st),
        st_last_data_at := ev_now_data env\<rparr>\<rparr>"
    have v: "world_shape chunk margin ?v" "st_active (mw_state ?v) = Some src" "warns_ok ?v"
      using w by (auto simp: world_shape_def arb_shape_def fill_prefix_def)
    have n: "n \<le> src_period_size src" using Inr Frames read_frames_bound by simp
    have pos: "0 < n" using Inr Frames read_frames_positive [OF src(1)] by simp
    obtain w' i where w': "process_period fpu rb cfg env n (mp_channel (ms_policy (ev_settings env))) (hysteresis_linear fpu cfg) ?v = Done w'"
      "world_shape chunk margin w'" "st_active (mw_state w') = Some src" "mw_last_warn_at w' = mw_last_warn_at ?v"
      "chosen_by fpu cfg env (mp_channel (ms_policy (ev_settings env))) ?v i" "st_active_slot (mw_state w') = Some i"
      "mw_log w' = mw_log ?v @ slot_event (ev_now_pick env) (st_active_slot (mw_state ?v)) i"
      "st_last_switch_at (mw_state w') = (if st_active_slot (mw_state ?v) = Some i then st_last_switch_at (mw_state ?v) else Some (ev_now_pick env))"
      using process_period_Done [OF assms(1) v(1,2) n pos, of fpu cfg env "mp_channel (ms_policy (ev_settings env))"] by blast
    have "warns_ok w'" using v(3) w'(4,7) by (simp add: warns_ok_def)
    moreover have "dwell_ok (ac_dwell cfg) w'" if "mp_channel (ms_policy (ev_settings env)) = AutoChannel" "dwell_ok (ac_dwell cfg) w"
      by (rule period_dwell [of cfg ?v fpu env i]) (use w' that in \<open>auto simp: dwell_ok_def\<close>)
    ultimately show ?thesis using Inr Frames w' by (simp add: read_step_def read Let_def iteration_ok_def)
  next
    case EndOfStream
    then show ?thesis
      using Inr w log_keeps [of "LogEndOfStream (src_id src)" "w\<lparr>mw_state := tear_down (mw_state w)\<rparr>"]
      by (auto simp: read_step_def read Let_def iteration_ok_def world_shape_def intro: dwell_ok_cong)
  qed (use Inr w in \<open>simp_all add: read_step_def read Let_def iteration_ok_def\<close>)
qed
qed

text \<open>The iteration behind the switch.\<close>

definition captured ::
  "fpu \<Rightarrow> 's rubato \<Rightarrow> mic_arbitrator_config \<Rightarrow> mic_env \<Rightarrow> mic_id option \<Rightarrow> 's mic_world \<Rightarrow> 's mic_world run"
where
  "captured fpu rb cfg env active v =
     (if failover_due cfg env (mw_state v)
      then Done (log_event (LogFailover (the (active_id (mw_state v)))) (v\<lparr>mw_state := tear_down (mw_state v)\<rparr>))
      else case st_active (mw_state v) of
        None \<Rightarrow>
          (case (resolve_desired_idx (sel env) (cands env) active, sel env) of
             (None, FixedMic i) \<Rightarrow> Done (rate_limited_warn (ev_now_warn env 0) i v)
           | _ \<Rightarrow> Done v)
      | Some src \<Rightarrow> read_step fpu rb cfg env src v)"

lemma loop_step_entered:
  "loop_step fpu rb cfg env w = run_bind (entered fpu rb cfg env w) (captured fpu rb cfg env (active_id (mw_state w)))"
  by (simp add: loop_step_def entered_def captured_def [abs_def] Let_def)

lemma captured_Done:
  assumes "fixed_input rb chunk" and v: "world_shape chunk margin v" "warns_ok v"
  shows "\<exists>w'. captured fpu rb cfg env active v = Done w' \<and> iteration_ok chunk margin cfg env v w'"
proof (cases "failover_due cfg env (mw_state v)")
  case True
  let ?w' = "log_event (LogFailover (the (active_id (mw_state v)))) (v\<lparr>mw_state := tear_down (mw_state v)\<rparr>)"
  have "iteration_ok chunk margin cfg env v ?w'"
    using v log_keeps [of "LogFailover (the (active_id (mw_state v)))" "v\<lparr>mw_state := tear_down (mw_state v)\<rparr>"]
    by (auto simp: iteration_ok_def world_shape_def intro: dwell_ok_cong)
  then show ?thesis using True by (simp add: captured_def)
next
  case no: False
  show ?thesis
  proof (cases "st_active (mw_state v)")
    case None
    have "iteration_ok chunk margin cfg env v v" using v by (simp add: iteration_ok_def)
    moreover have "iteration_ok chunk margin cfg env v (rate_limited_warn (ev_now_warn env 0) i v)" for i
      using v warn_keeps [OF v(2), of "ev_now_warn env 0" i]
      by (auto simp: iteration_ok_def world_shape_def intro: dwell_ok_cong)
    ultimately show ?thesis
      using no None by (auto simp: captured_def split: option.splits mic_selection.splits)
  next
    case (Some src)
    then show ?thesis using no read_step_Done [OF assms(1) v Some, of fpu cfg env] by (auto simp: captured_def)
  qed
qed

lemma loop_step_ok:
  assumes "fixed_input rb chunk" and "periods_fit margin env" and "world_shape chunk margin w" and "warns_ok w"
    and "loop_step fpu rb cfg env w = Done w'"
  shows "iteration_ok chunk margin cfg env w w'"
proof -
  obtain v where v: "entered fpu rb cfg env w = Done v" "captured fpu rb cfg env (active_id (mw_state w)) v = Done w'"
    using assms(5) by (auto simp: loop_step_entered run_bind_Done)
  have "iteration_ok chunk margin cfg env v w'"
    using captured_Done [OF assms(1) entered_shape [OF assms(1-4) v(1)] entered_spec(1) [OF assms(4) v(1)], of fpu cfg env "active_id (mw_state w)"] v(2)
    by auto
  then show ?thesis using entered_dwell [OF _ assms(4) v(1)] by (auto simp: iteration_ok_def)
qed

lemma loop_step_total:
  assumes "fixed_input rb chunk" and "periods_fit margin env" and "world_shape chunk margin w" and "warns_ok w"
    and "accepts_positive rb" and "rates_positive env"
  shows "\<exists>w'. loop_step fpu rb cfg env w = Done w'"
proof -
  obtain v where v: "entered fpu rb cfg env w = Done v" using entered_total [OF assms(5,6,4)] by blast
  show ?thesis
    using captured_Done [OF assms(1) entered_shape [OF assms(1-4) v] entered_spec(1) [OF assms(4) v], of fpu cfg env] v
    by (fastforce simp: loop_step_entered)
qed

section \<open>Runs\<close>

lemma loop_steps_ok:
  assumes "fixed_input rb chunk" and "list_all (periods_fit margin) envs" and "world_shape chunk margin w" and "warns_ok w"
    and "loop_steps fpu rb cfg envs w = Done w'"
  shows "world_shape chunk margin w' \<and> warns_ok w' \<and>
     (list_all (\<lambda>env. mp_channel (ms_policy (ev_settings env)) = AutoChannel) envs \<longrightarrow> dwell_ok (ac_dwell cfg) w \<longrightarrow>
        dwell_ok (ac_dwell cfg) w')"
  using assms(2-)
proof (induction envs arbitrary: w)
  case (Cons env envs)
  obtain w1 where w1: "loop_step fpu rb cfg env w = Done w1" "loop_steps fpu rb cfg envs w1 = Done w'"
    using Cons.prems(4) by (auto simp: run_bind_Done)
  have "iteration_ok chunk margin cfg env w w1" by (rule loop_step_ok [OF assms(1) _ _ _ w1(1)]) (use Cons.prems in auto)
  then show ?case using Cons.IH [of w1] Cons.prems w1 by (auto simp: iteration_ok_def)
qed simp

lemma loop_steps_total:
  assumes "fixed_input rb chunk" and "accepts_positive rb" and "list_all (periods_fit margin) envs" and "list_all rates_positive envs"
    and "world_shape chunk margin w" and "warns_ok w"
  shows "\<exists>w'. loop_steps fpu rb cfg envs w = Done w'"
  using assms(3-)
proof (induction envs arbitrary: w)
  case (Cons env envs)
  have fit: "periods_fit margin env" "rates_positive env" using Cons.prems by simp_all
  obtain w1 where w1: "loop_step fpu rb cfg env w = Done w1"
    using loop_step_total [OF assms(1) fit(1) Cons.prems(3,4) assms(2) fit(2), of fpu cfg] by blast
  have "iteration_ok chunk margin cfg env w w1" by (rule loop_step_ok [OF assms(1) fit(1) Cons.prems(3,4) w1])
  then show ?case using Cons.IH [of w1] Cons.prems w1 by (auto simp: iteration_ok_def)
qed simp

lemma loop_steps_append:
  "loop_steps fpu rb cfg (es @ fs) w = run_bind (loop_steps fpu rb cfg es w) (\<lambda>w'. loop_steps fpu rb cfg fs w')"
proof (induction es arbitrary: w)
  case (Cons e es)
  then show ?case by (cases "loop_step fpu rb cfg e w") simp_all
qed simp

lemma start_ok:
  assumes "ring_shape writer"
  shows "world_shape chunk (ar_safety_margin writer) (arb_start now writer)" "warns_ok (arb_start now writer)" "dwell_ok dwell (arb_start now writer)"
  using assms by (simp_all add: world_shape_def arb_shape_def arb_start_def arb_state_new_def warns_ok_def warn_times_def dwell_ok_def)

lemma run_finishes:
  assumes "arbitrator_config_validate cfg = Ok ()" and "fixed_input rb chunk" and "accepts_positive rb" and "ring_shape writer"
    and "list_all (periods_fit (ar_safety_margin writer)) envs" and "list_all rates_positive envs"
  shows "\<exists>w. arb_run_loop fpu rb cfg envs now writer = Done w \<and> st_active (mw_state w) = None"
proof -
  obtain w where "loop_steps fpu rb cfg envs (arb_start now writer) = Done w"
    using loop_steps_total [OF assms(2,3,5,6) start_ok(1,2) [OF assms(4)], of fpu cfg now] by blast
  then show ?thesis using assms(1) by (simp add: arb_run_loop_def)
qed

text \<open>
  C6.  The capture thread never aborts.  With a valid configuration, a ring whose safety margin holds the
  largest period, a resampler that keeps its contract, and devices that negotiate no period above that
  margin and no rate of zero, every run of the loop finishes, whatever the settings, the devices and the
  reads do: no index, slice, \<open>expect\<close>, duration conversion, resampler construction, debug assertion of the
  loop or push assertion fails.
\<close>

theorem mic_thread_never_aborts:
  assumes "arbitrator_config_validate cfg = Ok ()" and "fixed_input rb chunk" and "accepts_positive rb" and "ring_shape writer"
    and "list_all (periods_fit (ar_safety_margin writer)) envs" and "list_all rates_positive envs"
  shows "\<exists>w. arb_run_loop fpu rb cfg envs now writer = Done w \<and> st_active (mw_state w) = None"
  using assms by (rule run_finishes)

definition demo_fpu :: fpu where
  "demo_fpu = \<lparr>fp_add = (+), fp_sub = (-), fp_mul = (*), fp_div = (\<lambda>a b. a), fp_sqrt = (\<lambda>a. a), fp_of_usize = of_nat,
     fp_block_dur = (\<lambda>a b. a), fp_exp_neg_ratio = (\<lambda>a b. 0), fp_db_to_linear = (\<lambda>a. 2)\<rparr>"

definition demo_cfg :: mic_arbitrator_config where
  "demo_cfg = \<lparr>ac_hysteresis_db = 0x40400000, ac_dwell = 250, ac_rms_window = 100, ac_mic_failover_after = 2000,
     ac_failover_retry_interval = 1000, ac_timing_anchor = True\<rparr>"

definition demo_mic :: "string \<Rightarrow> mic_candidate" where
  "demo_mic i = \<lparr>mc_id = MicId i, mc_source = MockSpec [Silence, WaveCounter] 512 44100, mc_channels = [0, 1]\<rparr>"

definition demo_env :: mic_env where
  "demo_env = \<lparr>ev_settings = \<lparr>ms_catalogue = \<lparr>cat_candidates = [demo_mic ''front'', demo_mic ''rear'']\<rparr>, ms_policy = mic_policy_default\<rparr>,
     ev_alsa = (\<lambda>_. None), ev_io = \<lparr>io_poll = Ok 1, io_readi = Ok 512, io_stop_seen = False, io_samples = [], io_recover = Ok ()\<rparr>,
     ev_now_warn = (\<lambda>_. 10), ev_now_boot = 10, ev_now_failover = 11, ev_now_data = 12, ev_now_pick = 13, ev_now_anchor = (\<lambda>_. 14)\<rparr>"

definition demo_writer :: audio_ring where
  "demo_writer = \<lparr>ar_data = replicate 32768 0, ar_capacity = 32768, ar_capacity_minus_margin = 24576, ar_safety_margin = 8192,
     ar_writer_taken = True, ar_head = 0\<rparr>"

lemma demo_writer_shape: "ring_shape demo_writer"
proof -
  have "is_power_of_two 32768" by (simp add: is_power_of_two.simps)
  then show ?thesis by (simp add: ring_shape_def demo_writer_def)
qed

lemma demo_periods: "periods_fit (ar_safety_margin demo_writer) demo_env"
  by (simp add: periods_fit_def demo_env_def demo_writer_def max_period_frames_def)

lemma demo_cfg_ok: "arbitrator_config_validate demo_cfg = Ok ()"
  by (simp add: arbitrator_config_validate_def demo_cfg_def f32_is_finite_def f32_ge_def f32_partial_cmp_def f32_is_nan_def f32_key_def)

definition demo_fixed :: mic_env where
  "demo_fixed = demo_env\<lparr>ev_settings := (ev_settings demo_env)\<lparr>ms_policy := \<lparr>mp_mic = FixedMic (MicId ''rear''), mp_channel = AutoChannel\<rparr>\<rparr>,
     ev_io := (ev_io demo_env)\<lparr>io_stop_seen := True\<rparr>\<rparr>"

definition demo_hw :: alsa_device where
  "demo_hw = \<lparr>al_pcm_new = (\<lambda>_. Ok ()), al_any = Ok (), al_set_access = Ok (), al_set_float = Ok (), al_set_s16 = Ok (),
     al_set_channels = (\<lambda>_. Ok ()), al_channels_max = Ok 2, al_set_rate = Ok (), al_set_period = (\<lambda>_. Ok ()),
     al_set_buffer = (\<lambda>_. Ok ()), al_hw_params = Ok (), al_rate = Ok 48000, al_period = Ok 960, al_prepare = Ok (),
     al_start = Ok (), al_pollfds = Ok ()\<rparr>"

text \<open>An ALSA microphone that negotiates 48 kHz and periods of 960 frames, one of them short.\<close>

definition demo_alsa :: "nat \<Rightarrow> mic_env" where
  "demo_alsa n = demo_env\<lparr>ev_settings := (ev_settings demo_env)\<lparr>ms_catalogue :=
       \<lparr>cat_candidates = [\<lparr>mc_id = MicId ''usb'', mc_source = AlsaSpec ''hw:1'' 1024 4096, mc_channels = [0, 1]\<rparr>]\<rparr>\<rparr>,
     ev_alsa := (\<lambda>_. Some demo_hw), ev_io := (ev_io demo_env)\<lparr>io_readi := Ok n\<rparr>\<rparr>"

lemma demo_alsa_ok: "periods_fit (ar_safety_margin demo_writer) (demo_alsa n)" "rates_positive (demo_alsa n)"
  by (simp_all add: periods_fit_def rates_positive_def demo_alsa_def demo_hw_def demo_env_def demo_writer_def max_period_frames_def)

lemma demo_rates: "rates_positive demo_env" "rates_positive demo_fixed"
  by (simp_all add: rates_positive_def demo_env_def demo_fixed_def)

lemma demo_fixed_fits: "periods_fit (ar_safety_margin demo_writer) demo_fixed"
  using demo_periods by (simp add: periods_fit_def demo_fixed_def demo_env_def)

theorem mic_thread_never_aborts_witness:
  "\<exists>w. arb_run_loop demo_fpu demo_rubato demo_cfg [demo_env, demo_env, demo_fixed, demo_alsa 960, demo_alsa 100] 0 demo_writer = Done w \<and>
       st_active (mw_state w) = None"
  by (rule mic_thread_never_aborts [OF demo_cfg_ok demo_rubato_ok demo_rubato_accepts demo_writer_shape])
     (simp_all add: demo_periods demo_fixed_fits demo_alsa_ok demo_rates)

text \<open>
  C26.  In every run under automatic channel selection a channel switch follows the previous switch or
  selection by at least the configured dwell, across source changes too, and two logged open-failure
  warnings are more than 30 seconds apart.
\<close>

theorem mic_log_is_paced:
  assumes "fixed_input rb chunk" and "ring_shape writer" and "list_all (periods_fit (ar_safety_margin writer)) envs"
    and "list_all (\<lambda>env. mp_channel (ms_policy (ev_settings env)) = AutoChannel) envs"
    and "arb_run_loop fpu rb cfg envs now writer = Done w"
  shows "successively (dwell_pair (ac_dwell cfg)) (slot_events (mw_log w)) \<and>
         successively (\<lambda>s t. 30 * 10 ^ 9 < t - s) (warn_times (mw_log w))"
proof -
  obtain w' where w': "loop_steps fpu rb cfg envs (arb_start now writer) = Done w'" "mw_log w = mw_log w'"
    using assms(5) by (auto simp: arb_run_loop_def run_bind_Done split: sum.splits)
  have "warns_ok w'" "dwell_ok (ac_dwell cfg) w'"
    using loop_steps_ok [OF assms(1,3) start_ok(1,2) [OF assms(2)] w'(1)] start_ok(3) [OF assms(2)] assms(4) by auto
  then show ?thesis using w'(2) by (simp add: dwell_ok_def warns_ok_def warn_interval_def)
qed

theorem mic_log_is_paced_witness:
  "\<exists>w. arb_run_loop demo_fpu demo_rubato demo_cfg [demo_env, demo_env] 0 demo_writer = Done w \<and>
       successively (dwell_pair 250) (slot_events (mw_log w))"
proof -
  have fit: "list_all (periods_fit (ar_safety_margin demo_writer)) [demo_env, demo_env]" "list_all rates_positive [demo_env, demo_env]"
    using demo_periods demo_rates by simp_all
  obtain w where w: "arb_run_loop demo_fpu demo_rubato demo_cfg [demo_env, demo_env] 0 demo_writer = Done w"
    using run_finishes [OF demo_cfg_ok demo_rubato_ok demo_rubato_accepts demo_writer_shape fit, of demo_fpu 0] by blast
  from mic_log_is_paced [OF demo_rubato_ok demo_writer_shape fit(1) _ w] w show ?thesis
    by (auto simp: demo_env_def mic_policy_default_def demo_cfg_def)
qed

section \<open>Keeping to the policy\<close>

lemma run_ok:
  assumes "fixed_input rb chunk" and "ring_shape writer" and "list_all (periods_fit (ar_safety_margin writer)) envs"
    and "loop_steps fpu rb cfg envs (arb_start now writer) = Done w"
  shows "world_shape chunk (ar_safety_margin writer) w" and "warns_ok w"
  using loop_steps_ok [OF assms(1,3) start_ok(1,2) [OF assms(2)] assms(4)] by simp_all

lemma run_step_spec:
  assumes "fixed_input rb chunk" and "ring_shape writer" and "list_all (periods_fit (ar_safety_margin writer)) (envs @ [env])"
    and "loop_steps fpu rb cfg envs (arb_start now writer) = Done w" and "loop_step fpu rb cfg env w = Done w'"
  shows "\<exists>v. entered fpu rb cfg env w = Done v \<and>
         ((\<exists>src. st_active (mw_state v) = Some src \<and>
            (st_active (mw_state w') = Some src \<or> st_active (mw_state w') = None \<and>
              (failover_due cfg env (mw_state v) \<or>
               read_result src (ev_io env) = Ok EndOfStream \<or> (\<exists>e. read_result src (ev_io env) = Err e)))) \<or>
         st_active (mw_state v) = None \<and> st_active (mw_state w') = None)"
proof -
  have fit: "list_all (periods_fit (ar_safety_margin writer)) envs" "periods_fit (ar_safety_margin writer) env" using assms(3) by simp_all
  note w = run_ok [OF assms(1,2) fit(1) assms(4)]
  obtain v where e: "entered fpu rb cfg env w = Done v" "captured fpu rb cfg env (active_id (mw_state w)) v = Done w'"
    using assms(5) by (auto simp: loop_step_entered run_bind_Done)
  note v = entered_shape [OF assms(1) fit(2) w e(1)] entered_spec(1) [OF w(2) e(1)]
  show ?thesis
  proof (cases "st_active (mw_state v)")
    case None
    then show ?thesis
      using e by (auto simp: captured_def failover_due_def split: option.splits mic_selection.splits)
  next
    case (Some src)
    show ?thesis
    proof (cases "failover_due cfg env (mw_state v)")
      case True
      then show ?thesis using e Some by (auto simp: captured_def)
    next
      case False
      then have "read_step fpu rb cfg env src v = Done w'" using e Some by (simp add: captured_def)
      then show ?thesis using read_step_Done [OF assms(1) v Some, of fpu cfg env] Some e(1) by auto
    qed
  qed
qed

lemma opened_id:
  "opened env (Some idx) = Some s \<Longrightarrow> sel env = FixedMic i \<Longrightarrow> src_id s = mc_id (cands env ! idx)"
  using open_source_shape(2) by (auto simp: opened_def split: sum.splits)

lemma entered_fixed:
  assumes "sel env = FixedMic i" and "warns_ok w" and "entered fpu rb cfg env w = Done v"
  shows "active_id (mw_state v) \<in> {None, Some i}"
proof -
  let ?d = "position (\<lambda>c. mc_id c = i) (cands env)"
  have r: "resolve_desired_idx (sel env) (cands env) (active_id (mw_state w)) = ?d" using assms(1) by (simp add: resolve_desired_idx_def)
  have pos: "idx < length (cands env) \<and> mc_id (cands env ! idx) = i" if "?d = Some idx" for idx using position_Some [OF that] by simp
  show ?thesis
  proof (cases "need_switch env ?d (active_id (mw_state w))")
    case True
    have "switched fpu rb cfg env ?d w = Done (mw_state v)"
      using switch_source_spec [OF assms(2), of ?d env fpu rb cfg v] assms(3) True r pos by (simp add: entered_def)
    then show ?thesis
    proof (cases "opened env ?d")
      case None
      then have "mw_state v = tear_down (mw_state w)" using \<open>switched fpu rb cfg env ?d w = Done (mw_state v)\<close> by (simp add: switched_def)
      then show ?thesis by simp
    next
      case (Some s)
      then obtain idx where d: "?d = Some idx" by (cases ?d) (auto simp: opened_def)
      have "src_id s = i" using opened_id [OF _ assms(1), of idx s] Some d pos [OF d] by simp
      moreover have "st_active (mw_state v) = Some s"
        using \<open>switched fpu rb cfg env ?d w = Done (mw_state v)\<close> Some boot_Done(2) by (fastforce simp: switched_def)
      ultimately show ?thesis by (simp add: active_id_def)
    qed
  next
    case False
    then show ?thesis
      using r pos assms(3) by (auto simp: entered_def need_switch_def split: option.splits)
  qed
qed

lemma entered_sticky:
  assumes "sel env = FirstAvailable" and "st_active (mw_state w) = Some src" and "src_id src \<in> mc_id ` set (cands env)"
  shows "entered fpu rb cfg env w = Done w"
proof -
  obtain idx where idx: "position (\<lambda>c. mc_id c = src_id src) (cands env) = Some idx"
    using assms(3) by (cases "position (\<lambda>c. mc_id c = src_id src) (cands env)") (auto simp: position_None)
  then show ?thesis
    using assms(1,2) position_Some [OF idx]
    by (simp add: entered_def resolve_desired_idx_def need_switch_def active_id_def)
qed

lemma entered_first:
  assumes "sel env = FirstAvailable" and "st_active (mw_state w) = None" and "first_open env (cands env) = Some s" and "warns_ok w"
    and "entered fpu rb cfg env w = Done v"
  shows "arb_boot fpu rb cfg (ev_now_boot env) s (tear_down (mw_state w)) = Done (mw_state v)"
proof -
  have "cands env \<noteq> []" using assms(3) by auto
  then have r: "resolve_desired_idx (sel env) (cands env) (active_id (mw_state w)) = Some 0"
    using assms(1,2) by (simp add: resolve_desired_idx_def active_id_def)
  then show ?thesis
    using switch_source_spec [OF assms(4), of "Some 0" env fpu rb cfg v] \<open>cands env \<noteq> []\<close> assms(1-3,5)
    by (simp add: entered_def need_switch_def active_id_def opened_def switched_def)
qed

text \<open>A source with rate 0 is opened and aborts the thread.\<close>

lemma zero_rate_aborts:
  assumes "sel env = FirstAvailable" and "st_active (mw_state w) = None" and "first_open env (cands env) = Some s" and "warns_ok w"
    and "src_rate s = 0"
  shows "loop_step fpu rb cfg env w = Panic"
proof (cases "loop_step fpu rb cfg env w")
  case (Done w')
  then obtain v where "entered fpu rb cfg env w = Done v" by (auto simp: loop_step_entered run_bind_Done)
  from boot_Done(1) [OF entered_first [OF assms(1-4) this]] assms(5) show ?thesis by simp
qed

definition read_alive :: "mic_env \<Rightarrow> active_source \<Rightarrow> bool" where
  "read_alive env src \<longleftrightarrow> (\<exists>out. read_result src (ev_io env) = Ok out \<and> out \<noteq> EndOfStream)"

text \<open>
  C27.  After every iteration under a fixed microphone the active source, if there is one, is that
  microphone.  Under first-available a source that is still in the catalogue, not silent beyond the
  limit, and whose read neither fails nor ends, stays the active source.
\<close>

theorem mic_policy_is_kept:
  assumes "fixed_input rb chunk" and "ring_shape writer" and "list_all (periods_fit (ar_safety_margin writer)) (envs @ [env])"
    and "loop_steps fpu rb cfg envs (arb_start now writer) = Done w" and "loop_step fpu rb cfg env w = Done w'"
  shows "case sel env of
           FixedMic i \<Rightarrow> active_id (mw_state w') \<in> {None, Some i}
         | FirstAvailable \<Rightarrow> (\<forall>src. st_active (mw_state w) = Some src \<longrightarrow> src_id src \<in> mc_id ` set (cands env) \<longrightarrow>
             \<not> failover_due cfg env (mw_state w) \<longrightarrow> read_alive env src \<longrightarrow> st_active (mw_state w') = Some src)"
proof (cases "sel env")
  case FirstAvailable
  then show ?thesis
    using run_step_spec [OF assms] entered_sticky [OF FirstAvailable] by (fastforce simp: read_alive_def)
next
  case (FixedMic i)
  have ok: "warns_ok w" using run_ok(2) [OF assms(1,2) _ assms(4)] assms(3) by simp
  obtain v where v: "entered fpu rb cfg env w = Done v" "active_id (mw_state w') \<in> {None, active_id (mw_state v)}"
    using run_step_spec [OF assms] by (auto simp: active_id_def)
  from entered_fixed [OF FixedMic ok v(1)] v(2) FixedMic show ?thesis by auto
qed

definition demo_silent :: mic_env where
  "demo_silent = demo_env\<lparr>ev_io := (ev_io demo_env)\<lparr>io_stop_seen := True\<rparr>\<rparr>"

definition demo_late :: mic_env where
  "demo_late = demo_env\<lparr>ev_now_failover := 5000, ev_now_boot := 5000\<rparr>"

definition demo_source :: active_source where
  "demo_source = \<lparr>src_id = MicId ''front'', src_alsa = False, src_channels = 2, src_rate = 44100, src_period_size = 512,
     src_effective_whitelist = [0, 1]\<rparr>"

lemma demo_sel [simp]: "sel demo_env = FirstAvailable" "sel demo_silent = FirstAvailable" "sel demo_late = FirstAvailable"
  by (simp_all add: demo_silent_def demo_late_def demo_env_def mic_policy_default_def)

lemma demo_cands [simp]:
  "cands demo_env = [demo_mic ''front'', demo_mic ''rear'']" "cands demo_silent = cands demo_env" "cands demo_late = cands demo_env"
  by (simp_all add: demo_silent_def demo_late_def demo_env_def)

lemma demo_opens [simp]: "open_source d (demo_mic ''front'') = Ok demo_source"
  by (simp add: open_source_def mock_open_def candidate_validate_def demo_mic_def demo_source_def sort_dedup_def
    max_channels_def max_channel_index_def max_period_frames_def min_sample_rate_def max_sample_rate_def adjacent_dup.simps Let_def checked_mul_def)

lemma demo_fixed_env [simp]: "sel demo_fixed = FixedMic (MicId ''rear'')" "cands demo_fixed = cands demo_env"
  by (simp_all add: demo_fixed_def demo_env_def)

lemma demo_fits: "periods_fit (ar_safety_margin demo_writer) demo_silent" "periods_fit (ar_safety_margin demo_writer) demo_late"
  using demo_periods by (simp_all add: periods_fit_def demo_silent_def demo_late_def demo_env_def)

text \<open>A step whose read is told to stop leaves the world as it was entered.\<close>

lemma captured_stop:
  assumes "world_shape chunk margin v" and "st_active (mw_state v) = Some src" and "\<not> failover_due cfg env (mw_state v)"
    and "read_result src (ev_io env) = Ok StopRequested"
  shows "captured fpu rb cfg env active v = Done v"
proof -
  have "read_interleaved (fp_block_dur fpu) src (length (st_interleaved (mw_state v))) (ev_io env) = Done (Ok StopRequested)"
    using read_interleaved_Done [of src "length (st_interleaved (mw_state v))" "fp_block_dur fpu" "ev_io env"] assms(1,2,4)
    by (simp add: world_shape_def arb_shape_def)
  then show ?thesis using assms(2,3) by (simp add: captured_def read_step_def)
qed

lemma demo_silent_rates: "rates_positive demo_silent" "rates_positive demo_late"
  by (simp_all add: rates_positive_def demo_silent_def demo_late_def demo_env_def)

lemma demo_first:
  "\<exists>w. loop_steps demo_fpu demo_rubato demo_cfg [demo_silent] (arb_start 0 demo_writer) = Done w \<and>
     st_active (mw_state w) = Some demo_source \<and> st_last_data_at (mw_state w) = 10"
proof -
  let ?w = "arb_start 0 demo_writer :: unit mic_world"
  note start = start_ok(1,2) [OF demo_writer_shape]
  obtain v where v: "entered demo_fpu demo_rubato demo_cfg demo_silent ?w = Done v"
    using entered_total [OF demo_rubato_accepts demo_silent_rates(1) start(2)] by blast
  have "arb_boot demo_fpu demo_rubato demo_cfg (ev_now_boot demo_silent) demo_source (tear_down (mw_state ?w)) = Done (mw_state v)"
    by (rule entered_first [OF demo_sel(2) _ _ start(2) v]) (simp_all add: arb_start_def arb_state_new_def)
  then have st: "st_active (mw_state v) = Some demo_source" "st_last_data_at (mw_state v) = 10"
    by (auto dest: boot_Done simp: demo_silent_def demo_env_def)
  have "\<not> failover_due demo_cfg demo_silent (mw_state v)"
    using st by (simp add: failover_due_def demo_silent_def demo_env_def demo_cfg_def saturating_sub_def)
  then have "captured demo_fpu demo_rubato demo_cfg demo_silent (active_id (mw_state ?w)) v = Done v"
    using captured_stop [OF entered_shape [OF demo_rubato_ok demo_fits(1) start v] st(1)]
    by (simp add: read_result_def demo_source_def demo_silent_def)
  then show ?thesis using st v by (simp add: loop_step_entered)
qed

definition demo_rear :: active_source where
  "demo_rear = demo_source\<lparr>src_id := MicId ''rear''\<rparr>"

lemma demo_rear_opens: "open_source d (demo_mic ''rear'') = Ok demo_rear"
  by (simp add: open_source_def mock_open_def candidate_validate_def demo_mic_def demo_source_def demo_rear_def sort_dedup_def
    max_channels_def max_channel_index_def max_period_frames_def min_sample_rate_def max_sample_rate_def adjacent_dup.simps Let_def checked_mul_def)

lemma demo_rear_runs:
  "\<exists>w. loop_steps demo_fpu demo_rubato demo_cfg [demo_fixed] (arb_start 0 demo_writer) = Done w \<and>
     st_active (mw_state w) = Some demo_rear"
proof -
  let ?w = "arb_start 0 demo_writer :: unit mic_world"
  note start = start_ok(1,2) [OF demo_writer_shape]
  obtain v where v: "entered demo_fpu demo_rubato demo_cfg demo_fixed ?w = Done v"
    using entered_total [OF demo_rubato_accepts demo_rates(2) start(2)] by blast
  have d: "resolve_desired_idx (sel demo_fixed) (cands demo_fixed) (active_id (mw_state ?w)) = Some 1"
    by (simp add: resolve_desired_idx_def demo_mic_def)
  have "need_switch demo_fixed (Some 1) (active_id (mw_state ?w))"
    by (simp add: need_switch_def active_id_def arb_start_def arb_state_new_def)
  then have sw: "switch_source demo_fpu demo_rubato demo_cfg demo_fixed (Some 1) ?w = Done v"
    using v d by (simp add: entered_def Let_def)
  have "switched demo_fpu demo_rubato demo_cfg demo_fixed (Some 1) ?w = Done (mw_state v)"
    using switch_source_spec [OF start(2) _ sw] by simp
  then have st: "st_active (mw_state v) = Some demo_rear"
    using boot_Done(2) by (fastforce simp: switched_def opened_def demo_rear_opens)
  have "captured demo_fpu demo_rubato demo_cfg demo_fixed (active_id (mw_state ?w)) v = Done v"
    using captured_stop [OF entered_shape [OF demo_rubato_ok demo_fixed_fits start v] st]
    by (simp add: failover_due_def read_result_def demo_source_def demo_rear_def) (simp add: demo_fixed_def)
  then show ?thesis using st v by (simp add: loop_step_entered)
qed

theorem mic_policy_is_kept_witness:
  "(\<exists>w w'. loop_steps demo_fpu demo_rubato demo_cfg [demo_fixed] (arb_start 0 demo_writer) = Done w \<and>
      active_id (mw_state w) = Some (MicId ''rear'') \<and> loop_step demo_fpu demo_rubato demo_cfg demo_fixed w = Done w' \<and>
      active_id (mw_state w') \<in> {None, Some (MicId ''rear'')}) \<and>
   (\<exists>w w'. loop_steps demo_fpu demo_rubato demo_cfg [demo_silent] (arb_start 0 demo_writer) = Done w \<and>
      st_active (mw_state w) = Some demo_source \<and> loop_step demo_fpu demo_rubato demo_cfg demo_env w = Done w' \<and>
      st_active (mw_state w') = Some demo_source)"
proof
  obtain w where w: "loop_steps demo_fpu demo_rubato demo_cfg [demo_fixed] (arb_start 0 demo_writer) = Done w"
    "st_active (mw_state w) = Some demo_rear" using demo_rear_runs by blast
  have fit: "list_all (periods_fit (ar_safety_margin demo_writer)) [demo_fixed]"
    "list_all (periods_fit (ar_safety_margin demo_writer)) ([demo_fixed] @ [demo_fixed])" using demo_fixed_fits by simp_all
  obtain w' where w': "loop_step demo_fpu demo_rubato demo_cfg demo_fixed w = Done w'"
    using loop_step_total [OF demo_rubato_ok demo_fixed_fits run_ok [OF demo_rubato_ok demo_writer_shape fit(1) w(1)] demo_rubato_accepts demo_rates(2)]
    by blast
  from mic_policy_is_kept [OF demo_rubato_ok demo_writer_shape fit(2) w(1) w'] w w'
  show "\<exists>w w'. loop_steps demo_fpu demo_rubato demo_cfg [demo_fixed] (arb_start 0 demo_writer) = Done w \<and>
      active_id (mw_state w) = Some (MicId ''rear'') \<and> loop_step demo_fpu demo_rubato demo_cfg demo_fixed w = Done w' \<and>
      active_id (mw_state w') \<in> {None, Some (MicId ''rear'')}"
    by (auto simp: active_id_def demo_rear_def)
next
  obtain w where w: "loop_steps demo_fpu demo_rubato demo_cfg [demo_silent] (arb_start 0 demo_writer) = Done w"
    "st_active (mw_state w) = Some demo_source" "st_last_data_at (mw_state w) = 10" using demo_first by blast
  have fit: "list_all (periods_fit (ar_safety_margin demo_writer)) [demo_silent]"
    "list_all (periods_fit (ar_safety_margin demo_writer)) ([demo_silent] @ [demo_env])" using demo_fits demo_periods by simp_all
  obtain w' where w': "loop_step demo_fpu demo_rubato demo_cfg demo_env w = Done w'"
    using loop_step_total [OF demo_rubato_ok demo_periods run_ok [OF demo_rubato_ok demo_writer_shape fit(1) w(1)] demo_rubato_accepts demo_rates(1)]
    by blast
  have "src_id demo_source \<in> mc_id ` set (cands demo_env)" by (simp add: demo_source_def demo_mic_def)
  moreover have "\<not> failover_due demo_cfg demo_env (mw_state w)"
    using w by (simp add: failover_due_def saturating_sub_def demo_cfg_def demo_env_def mic_policy_default_def)
  moreover have "read_alive demo_env demo_source"
    by (simp add: read_alive_def read_result_def demo_source_def demo_env_def)
  ultimately have "st_active (mw_state w') = Some demo_source"
    using mic_policy_is_kept [OF demo_rubato_ok demo_writer_shape fit(2) w(1) w'] w(2) by simp
  then show "\<exists>w w'. loop_steps demo_fpu demo_rubato demo_cfg [demo_silent] (arb_start 0 demo_writer) = Done w \<and>
      st_active (mw_state w) = Some demo_source \<and> loop_step demo_fpu demo_rubato demo_cfg demo_env w = Done w' \<and>
      st_active (mw_state w') = Some demo_source"
    using w w' by blast
qed

text \<open>
  C7.  Fail-over finishes.  When the active source has been silent beyond the limit under first-available
  selection, the next iteration drops it, and the one after captures again, from the first candidate in the
  catalogue that opens, provided its first read neither fails nor ends.  That candidate may be the silent
  microphone itself: when it heads the catalogue and still opens, it is the one captured from again.  The
  comments at the fail-over (``pick a fresh candidate'', ``try to open another candidate'') and the
  configuration document (a fail-over walk over the candidate list) promise another one.
\<close>

theorem failover_finishes:
  assumes "fixed_input rb chunk" and "accepts_positive rb" and "ring_shape writer"
    and "list_all (periods_fit (ar_safety_margin writer)) (envs @ [e1, e2])" and "rates_positive e2"
    and "loop_steps fpu rb cfg envs (arb_start now writer) = Done w" and "sel e1 = FirstAvailable" and "sel e2 = FirstAvailable"
    and "st_active (mw_state w) = Some src" and "src_id src \<in> mc_id ` set (cands e1)" and "failover_due cfg e1 (mw_state w)"
    and "first_open e2 (cands e2) = Some s" and "ev_now_failover e2 \<le> ev_now_boot e2 + ac_mic_failover_after cfg" and "read_alive e2 s"
  shows "\<exists>w1 w2. loop_step fpu rb cfg e1 w = Done w1 \<and> st_active (mw_state w1) = None \<and>
     loop_step fpu rb cfg e2 w1 = Done w2 \<and> st_active (mw_state w2) = Some s \<and>
     (src_id src = mc_id (hd (cands e2)) \<and> (\<exists>s0. open_cand e2 (hd (cands e2)) = Ok s0) \<longrightarrow>
        active_id (mw_state w2) = Some (src_id src))"
proof -
  have fit: "list_all (periods_fit (ar_safety_margin writer)) envs" "periods_fit (ar_safety_margin writer) e1"
    "periods_fit (ar_safety_margin writer) e2" using assms(4) by simp_all
  note ok = run_ok [OF assms(1,3) fit(1) assms(6)]
  let ?w1 = "log_event (LogFailover (the (active_id (mw_state w)))) (w\<lparr>mw_state := tear_down (mw_state w)\<rparr>)"
  have s1: "loop_step fpu rb cfg e1 w = Done ?w1"
    using entered_sticky [OF assms(7,9,10), of fpu rb cfg] assms(11) by (simp add: loop_step_entered captured_def)
  have w1: "world_shape chunk (ar_safety_margin writer) ?w1" "warns_ok ?w1"
    using loop_step_ok [OF assms(1) fit(2) ok s1] by (simp_all add: iteration_ok_def)
  obtain v where v: "entered fpu rb cfg e2 ?w1 = Done v" using entered_total [OF assms(2,5) w1(2)] by blast
  have boot: "arb_boot fpu rb cfg (ev_now_boot e2) s (tear_down (mw_state ?w1)) = Done (mw_state v)"
    by (rule entered_first [OF assms(8) _ assms(12) w1(2) v]) simp
  note act = boot_Done(2) [OF boot]
  have "\<not> failover_due cfg e2 (mw_state v)"
    using boot_Done(4) [OF boot] assms(13) by (auto simp: failover_due_def saturating_sub_def)
  then have "loop_step fpu rb cfg e2 ?w1 = read_step fpu rb cfg e2 s v" using v act by (simp add: loop_step_entered captured_def)
  then obtain w2 where w2: "loop_step fpu rb cfg e2 ?w1 = Done w2" "st_active (mw_state w2) = Some s"
    using read_step_Done [OF assms(1) entered_shape [OF assms(1) fit(3) w1 v] entered_spec(1) [OF w1(2) v] act, of fpu cfg e2] assms(14)
    by (auto simp: read_alive_def)
  have "active_id (mw_state w2) = Some (src_id src)"
    if "src_id src = mc_id (hd (cands e2))" "open_cand e2 (hd (cands e2)) = Ok s0" for s0
  proof -
    have "s = s0" using assms(12) that(2) by (cases "cands e2") auto
    then show ?thesis using open_source_shape(2) [OF that(2)] that(1) w2(2) by (simp add: active_id_def)
  qed
  then show ?thesis using s1 w2 by auto
qed

theorem failover_finishes_witness:
  "\<exists>w w1 w2. loop_steps demo_fpu demo_rubato demo_cfg [demo_silent] (arb_start 0 demo_writer) = Done w \<and>
     active_id (mw_state w) = Some (MicId ''front'') \<and>
     loop_step demo_fpu demo_rubato demo_cfg demo_late w = Done w1 \<and> st_active (mw_state w1) = None \<and>
     loop_step demo_fpu demo_rubato demo_cfg demo_late w1 = Done w2 \<and> active_id (mw_state w2) = Some (MicId ''front'')"
proof -
  obtain w where w: "loop_steps demo_fpu demo_rubato demo_cfg [demo_silent] (arb_start 0 demo_writer) = Done w"
    "st_active (mw_state w) = Some demo_source" "st_last_data_at (mw_state w) = 10"
    using demo_first by blast
  have due: "failover_due demo_cfg demo_late (mw_state w)"
    using w by (simp add: failover_due_def saturating_sub_def demo_cfg_def demo_late_def demo_env_def mic_policy_default_def)
  have fit: "list_all (periods_fit (ar_safety_margin demo_writer)) ([demo_silent] @ [demo_late, demo_late])" using demo_fits by simp
  have alive: "read_alive demo_late demo_source"
    by (simp add: read_alive_def read_result_def demo_source_def demo_late_def demo_env_def)
  have listed: "src_id demo_source \<in> mc_id ` set (cands demo_late)" by (simp add: demo_source_def demo_mic_def)
  have first: "first_open demo_late (cands demo_late) = Some demo_source" by simp
  have soon: "ev_now_failover demo_late \<le> ev_now_boot demo_late + ac_mic_failover_after demo_cfg" by (simp add: demo_late_def)
  from failover_finishes [OF demo_rubato_ok demo_rubato_accepts demo_writer_shape fit demo_silent_rates(2) w(1) demo_sel(3) demo_sel(3) w(2)
      listed due first soon alive] w
  show ?thesis by (auto simp: active_id_def demo_source_def)
qed

text \<open>
  The fail-over walk never leaves a first candidate that opens: under first-available selection, as long as
  the first candidate of the catalogue opens, no other candidate is ever the active source, however long
  the first one stays silent.
\<close>

lemma first_candidate_shadows_rest:
  assumes "fixed_input rb chunk" and "ring_shape writer" and "list_all (periods_fit (ar_safety_margin writer)) envs"
    and "list_all (\<lambda>env. sel env = FirstAvailable \<and> (\<exists>cs s. cands env = c # cs \<and> open_cand env c = Ok s)) envs"
    and "loop_steps fpu rb cfg envs (arb_start now writer) = Done w"
  shows "active_id (mw_state w) \<in> {None, Some (mc_id c)}"
  using assms(3-5)
proof (induction envs arbitrary: w rule: rev_induct)
  case Nil
  then show ?case by (auto simp: arb_start_def arb_state_new_def active_id_def)
next
  case (snoc env envs)
  obtain v where v: "loop_steps fpu rb cfg envs (arb_start now writer) = Done v" "loop_step fpu rb cfg env v = Done w"
    using snoc.prems(3) loop_steps_append [of fpu rb cfg envs "[env]"] by (auto simp: run_bind_Done)
  have IH: "active_id (mw_state v) \<in> {None, Some (mc_id c)}" using snoc.IH [OF _ _ v(1)] snoc.prems by simp
  obtain cs s where env: "sel env = FirstAvailable" "cands env = c # cs" "open_cand env c = Ok s" using snoc.prems(2) by auto
  have ok: "warns_ok v" using run_ok(2) [OF assms(1,2) _ v(1)] snoc.prems(1) by simp
  obtain u where u: "entered fpu rb cfg env v = Done u" "active_id (mw_state w) \<in> {None, active_id (mw_state u)}"
    using run_step_spec [OF assms(1,2) snoc.prems(1) v] by (auto simp: active_id_def)
  have "active_id (mw_state u) \<in> {None, Some (mc_id c)}"
  proof (cases "st_active (mw_state v)")
    case None
    have "arb_boot fpu rb cfg (ev_now_boot env) s (tear_down (mw_state v)) = Done (mw_state u)"
      by (rule entered_first [OF env(1) None _ ok u(1)]) (simp add: env)
    then show ?thesis using boot_Done(2) open_source_shape(2) [OF env(3)] by (fastforce simp: active_id_def)
  next
    case (Some src)
    then have "src_id src = mc_id c" using IH by (simp add: active_id_def)
    then show ?thesis using entered_sticky [OF env(1) Some, of fpu rb cfg] env IH u(1) by simp
  qed
  then show ?case using u(2) by auto
qed

end
