(* ===== verification/Staging.thy ===== *)
theory Staging
  imports Schema
begin

text \<open>
  \<^verbatim>\<open>file_mgr/staging.rs\<close>: the delete state machine.  A tombstone announces the delete, the target is renamed
  below the staging directory, its entries are removed in bounded batches, and the stage directory and
  the tombstone go last.  The JSON codec of the tombstones is serde's and appears as a parameter.
\<close>

definition default_delete_batch_entries :: nat where "default_delete_batch_entries = 256"

definition dataset_tombstone_prefix :: string where "dataset_tombstone_prefix = ''delete-assets-''"
definition converter_tombstone_prefix :: string where "converter_tombstone_prefix = ''delete-converters-''"
definition training_logs_tombstone_prefix :: string where "training_logs_tombstone_prefix = ''delete-training-logs-''"
definition converter_logs_tombstone_prefix :: string where "converter_logs_tombstone_prefix = ''delete-converter-logs-''"
definition workspace_tombstone_prefix :: string where "workspace_tombstone_prefix = ''delete-workspace-''"

definition staged_payload_name :: string where "staged_payload_name = ''payload''"

section \<open>Tombstones\<close>

text \<open>Job, workspace, path below the tree (none for the whole tree), workspace revision, creation time.\<close>

datatype delete_tombstone =
    TombDataset job_id workspace_id "asset_path option" nat string
  | TombConverter job_id workspace_id "asset_path option" nat string
  | TombTrainingLogs job_id workspace_id "asset_path option" string
  | TombConverterLogs job_id workspace_id "asset_path option" string
  | TombWorkspace job_id workspace_id string

fun tombstone_job_id :: "delete_tombstone \<Rightarrow> job_id" where
  "tombstone_job_id (TombDataset j _ _ _ _) = j"
| "tombstone_job_id (TombConverter j _ _ _ _) = j"
| "tombstone_job_id (TombTrainingLogs j _ _ _) = j"
| "tombstone_job_id (TombConverterLogs j _ _ _) = j"
| "tombstone_job_id (TombWorkspace j _ _) = j"

fun tombstone_workspace_id :: "delete_tombstone \<Rightarrow> workspace_id" where
  "tombstone_workspace_id (TombDataset _ ws _ _ _) = ws"
| "tombstone_workspace_id (TombConverter _ ws _ _ _) = ws"
| "tombstone_workspace_id (TombTrainingLogs _ ws _ _) = ws"
| "tombstone_workspace_id (TombConverterLogs _ ws _ _) = ws"
| "tombstone_workspace_id (TombWorkspace _ ws _) = ws"

fun tombstone_prefix :: "delete_tombstone \<Rightarrow> string" where
  "tombstone_prefix (TombDataset _ _ _ _ _) = dataset_tombstone_prefix"
| "tombstone_prefix (TombConverter _ _ _ _ _) = converter_tombstone_prefix"
| "tombstone_prefix (TombTrainingLogs _ _ _ _) = training_logs_tombstone_prefix"
| "tombstone_prefix (TombConverterLogs _ _ _ _) = converter_logs_tombstone_prefix"
| "tombstone_prefix (TombWorkspace _ _ _) = workspace_tombstone_prefix"

definition tombstone_filename :: "delete_tombstone \<Rightarrow> string" where
  "tombstone_filename t = tombstone_prefix t @ tombstone_job_id t @ ''.json''"

definition stage_dir_name :: "delete_tombstone \<Rightarrow> string" where
  "stage_dir_name t = tombstone_prefix t @ tombstone_job_id t"

record staged_delete =
  sd_tombstone :: path
  sd_stage_dir :: path
  sd_payload :: path

definition for_tombstone :: "path \<Rightarrow> delete_tombstone \<Rightarrow> staged_delete" where
  "for_tombstone staging_dir t =
     (let stage_dir = staging_dir @ [stage_dir_name t] in
      \<lparr>sd_tombstone = staging_dir @ [tombstone_filename t], sd_stage_dir = stage_dir,
       sd_payload = stage_dir @ [staged_payload_name]\<rparr>)"

record tombstone_serde =
  tj_to_vec :: "delete_tombstone \<Rightarrow> (string, bytes) result"
  tj_from_slice :: "bytes \<Rightarrow> (string, delete_tombstone) result"

abbreviation tombstones_ok :: "tombstone_serde \<Rightarrow> bool" where
  "tombstones_ok tj \<equiv> codec_ok (tj_to_vec tj) (tj_from_slice tj)"

section \<open>The steps of a delete\<close>

definition write_tombstone :: "tombstone_serde \<Rightarrow> path \<Rightarrow> delete_tombstone \<Rightarrow> ('z, staged_delete) file_prog" where
  "write_tombstone tj staging_dir t =
     bind_p (io_at staging_dir (fs_call (fs_create_dir_all staging_dir))) (\<lambda>_.
     let staged = for_tombstone staging_dir t in
     bind_p (to_vec (tj_to_vec tj) t) (\<lambda>bs.
     bind_p (put_atomic (sd_tombstone staged) bs) (\<lambda>_. ret staged)))"

definition stage_payload :: "path \<Rightarrow> staged_delete \<Rightarrow> ('z, unit) file_prog" where
  "stage_payload target staged =
     (if target = [] then fail (io_err target IoInvalidInput)
      else let old_parent = butlast target; stage_dir = sd_stage_dir staged in
        bind_p (io_at stage_dir (fs_call (fs_create_dir_all stage_dir))) (\<lambda>_.
        bind_p (if stage_dir = [] then ret () else io_at (butlast stage_dir) (fsync_dir (butlast stage_dir))) (\<lambda>_.
        bind_p (io_at target (fs_call (fs_rename target (sd_payload staged)))) (\<lambda>_.
        bind_p (io_at old_parent (fsync_dir old_parent)) (\<lambda>_.
        io_at stage_dir (fsync_dir stage_dir))))))"

datatype drain_result = DrainDone | DrainMore

text \<open>
  Reading the next entry of an open directory and asking for its type; both may fail.  The recursion
  into subdirectories is bounded by \<open>depth\<close>; the caller passes the length of the longest path of the tree,
  which is never used up (\<open>drain_dir_spec\<close>).
\<close>

definition fs_next_entry :: "unit fs_op" where
  "fs_next_entry t = Ok ((), [])"

fun drain_dir :: "nat \<Rightarrow> path \<Rightarrow> nat \<Rightarrow> nat \<Rightarrow> ('z, drain_result \<times> nat) file_prog"
  and drain_entries :: "nat \<Rightarrow> path \<Rightarrow> (string \<times> bool) list \<Rightarrow> nat \<Rightarrow> nat \<Rightarrow> ('z, drain_result \<times> nat) file_prog"
where
  "drain_dir 0 dir budget removed = fail (io_err dir (IoOther 40))"
| "drain_dir (Suc depth) dir budget removed =
     bind_p (io_at dir (fs_call (fs_read_dir dir))) (\<lambda>entries. drain_entries depth dir entries budget removed)"
| "drain_entries depth dir [] budget removed = ret (DrainDone, removed)"
| "drain_entries depth dir ((name, is_dir) # entries) budget removed =
     (if removed \<ge> budget then ret (DrainMore, removed)
      else let p = dir @ [name] in
        bind_p (io_at dir (fs_call fs_next_entry)) (\<lambda>_.
        bind_p (io_at p (fs_call fs_next_entry)) (\<lambda>_.
        if is_dir
        then bind_p (drain_dir depth p budget removed) (\<lambda>(result, removed').
          case result of
            DrainMore \<Rightarrow> ret (DrainMore, removed')
          | DrainDone \<Rightarrow>
              if removed' \<ge> budget then ret (DrainMore, removed')
              else bind_p (io_at p (fs_call (fs_remove_dir p))) (\<lambda>_. drain_entries depth dir entries budget (Suc removed')))
        else bind_p (io_at p (fs_call (fs_remove_file p))) (\<lambda>_. drain_entries depth dir entries budget (Suc removed)))))"

definition fs_depth :: "fs \<Rightarrow> nat" where
  "fs_depth t = fold (\<lambda>(p, _) d. max (length p) d) t 0"

definition drain_tree :: "path \<Rightarrow> nat \<Rightarrow> ('z, drain_result \<times> nat) file_prog" where
  "drain_tree payload budget w = drain_dir (Suc (fs_depth (dk_fs w))) payload budget 0 w"

definition drain_staged_payload :: "staged_delete \<Rightarrow> nat \<Rightarrow> ('z, drain_result) file_prog" where
  "drain_staged_payload staged budget =
     (let payload = sd_payload staged in
      bind_p (attempt (fs_call (fs_stat payload))) (\<lambda>metadata.
        case metadata of
          Inl e \<Rightarrow> if e = IoNotFound then ret DrainDone else fail (io_err payload e)
        | Inr (FileNode _) \<Rightarrow> bind_p (io_at payload (fs_call (fs_remove_file payload))) (\<lambda>_. ret DrainDone)
        | Inr DirNode \<Rightarrow> bind_p (drain_tree payload budget) (\<lambda>(result, _). ret result)))"

definition ignore_not_found :: "path \<Rightarrow> ('z disk_scheme, io_error, unit) prog \<Rightarrow> ('z, unit) file_prog" where
  "ignore_not_found p m =
     bind_p (attempt m) (\<lambda>r. case r of Inl e \<Rightarrow> if e = IoNotFound then ret () else fail (io_err p e) | Inr _ \<Rightarrow> ret ())"

definition finalize_staged_delete :: "staged_delete \<Rightarrow> ('z, unit) file_prog" where
  "finalize_staged_delete staged =
     (let payload = sd_payload staged; stage_dir = sd_stage_dir staged; tombstone = sd_tombstone staged in
      bind_p (attempt (fs_call (fs_stat payload))) (\<lambda>metadata.
      bind_p (case metadata of
          Inr DirNode \<Rightarrow> io_at payload (fs_call (fs_remove_dir payload))
        | Inr (FileNode _) \<Rightarrow> io_at payload (fs_call (fs_remove_file payload))
        | Inl e \<Rightarrow> if e = IoNotFound then ret () else fail (io_err payload e)) (\<lambda>_.
      bind_p (ignore_not_found stage_dir (fs_call (fs_remove_dir stage_dir))) (\<lambda>_.
      bind_p (ignore_not_found tombstone (fs_call (fs_remove_file tombstone))) (\<lambda>_.
      if tombstone = [] then ret ()
      else let staging_dir = butlast tombstone in
        bind_p (fs_test (fs_exists staging_dir)) (\<lambda>present.
        if present then io_at staging_dir (fsync_dir staging_dir) else ret ()))))))"

definition read_tombstone :: "tombstone_serde \<Rightarrow> path \<Rightarrow> ('z, delete_tombstone) file_prog" where
  "read_tombstone tj p =
     bind_p (io_at p (fs_call (fs_read p))) (\<lambda>bs. from_slice p (tj_from_slice tj) bs)"

end
