(* ===== verification/Assets.thy ===== *)
theory Assets
  imports Staging Head_Rotation
begin

text \<open>
  \<^verbatim>\<open>file_mgr/dataset.rs\<close>: the asset trees of a workspace.  Uploads and deletes write the bumped workspace
  revision before they touch a byte; deletes go through the staging directory and drain off the mutex.
  Times, fresh job identifiers, modification times and the text of an error are arguments; log output and
  metric hooks are left out.  The trees hold files and directories only.
\<close>

definition datasets_dir_name :: string where "datasets_dir_name = ''datasets''"
definition converters_dir_name :: string where "converters_dir_name = ''converters''"
definition training_logs_dir_name :: string where "training_logs_dir_name = ''training_logs''"
definition converter_logs_dir_name :: string where "converter_logs_dir_name = ''converter_logs''"

datatype asset_tree = Datasets | Converters | TrainingLogs | ConverterLogs

fun tree_dir_name :: "asset_tree \<Rightarrow> string" where
  "tree_dir_name Datasets = datasets_dir_name"
| "tree_dir_name Converters = converters_dir_name"
| "tree_dir_name TrainingLogs = training_logs_dir_name"
| "tree_dir_name ConverterLogs = converter_logs_dir_name"

definition accepts_uploads :: "asset_tree \<Rightarrow> bool" where
  "accepts_uploads tree \<longleftrightarrow> tree \<in> {Datasets, Converters}"

fun async_delete_job_type :: "asset_tree \<Rightarrow> job_type" where
  "async_delete_job_type Datasets = DatasetDelete"
| "async_delete_job_type Converters = ConverterDelete"
| "async_delete_job_type TrainingLogs = TrainingLogsDelete"
| "async_delete_job_type ConverterLogs = ConverterLogsDelete"

definition bump_workspace_revision :: "string \<Rightarrow> workspace_core \<Rightarrow> nat \<times> workspace_core" where
  "bump_workspace_revision now prev_core =
     (let next_revision_id = min (2 ^ 64 - 1) (rev_id (wc_workspace_revision prev_core) + 1) in
      (next_revision_id, prev_core\<lparr>wc_workspace_revision := \<lparr>rev_id = next_revision_id, rev_at = now\<rparr>\<rparr>))"

section \<open>Paths\<close>

definition tree_of_name :: "string \<Rightarrow> asset_tree option" where
  "tree_of_name first =
     (if first = datasets_dir_name then Some Datasets
      else if first = converters_dir_name then Some Converters
      else if first = training_logs_dir_name then Some TrainingLogs
      else if first = converter_logs_dir_name then Some ConverterLogs
      else None)"

definition parse_mutable_path :: "asset_path \<Rightarrow> (file_error, asset_tree \<times> asset_path option) result" where
  "parse_mutable_path p =
     (case asset_path_components p of
        [] \<Rightarrow> Err (InvalidName (NameFormat ''workspace path empty: '' [asset_path_as_str p]))
      | first # _ \<Rightarrow>
          (case tree_of_name first of
             None \<Rightarrow> Err (InvalidName (NameFormat ''workspace mutation path top-level'' [first]))
           | Some tree \<Rightarrow>
               (case Option.bind (strip_prefix (tree_dir_name tree) (asset_path_as_str p)) (strip_prefix ''/'') of
                  None \<Rightarrow> Ok (tree, None)
                | Some sub_raw \<Rightarrow>
                    (case asset_path_parse sub_raw of
                       Inl e \<Rightarrow> Err (InvalidName (NameFormat ''internal: failed to re-parse sub-path'' [sub_raw, asset_path_as_str p]))
                     | Inr sub \<Rightarrow> Ok (tree, Some sub)))))"

definition validate_dataset_upload_depth :: "asset_tree \<Rightarrow> asset_path \<Rightarrow> (file_error, unit) result" where
  "validate_dataset_upload_depth tree p =
     (if tree \<noteq> Datasets then Ok ()
      else if length (asset_path_components p) < 3
      then Err (InvalidName (NameFormat ''dataset upload requires datasets/class/file'' [asset_path_as_str p]))
      else Ok ())"

definition default_dataset_list_limit :: nat where "default_dataset_list_limit = 100"
definition max_dataset_list_limit :: nat where "max_dataset_list_limit = 1000"

definition validate_log_subpath :: "asset_path \<Rightarrow> (file_error, unit) result" where
  "validate_log_subpath sub =
     (if length (asset_path_components sub) \<noteq> 1
      then Err (InvalidName (NameFormat ''log file path must be a single component'' [asset_path_as_str sub]))
      else if \<not> ends_with ''.jsonl'' (asset_path_as_str sub)
      then Err (InvalidName (NameFormat ''log file path must end in .jsonl'' [asset_path_as_str sub]))
      else Ok ())"

definition build_delete_target :: "path \<Rightarrow> asset_tree \<Rightarrow> asset_path option \<Rightarrow> path" where
  "build_delete_target workspace_dir tree sub =
     workspace_dir @ [tree_dir_name tree] @ (case sub of None \<Rightarrow> [] | Some rel \<Rightarrow> asset_path_components rel)"

text \<open>No value means that the \<open>expect\<close> panics.\<close>

definition build_display_path :: "asset_tree \<Rightarrow> asset_path option \<Rightarrow> asset_path option" where
  "build_display_path tree sub =
     (let raw = (case sub of Some rel \<Rightarrow> tree_dir_name tree @ ''/'' @ asset_path_as_str rel | None \<Rightarrow> tree_dir_name tree) in
      case asset_path_parse raw of Inl _ \<Rightarrow> None | Inr p \<Rightarrow> Some p)"

definition workspace_asset_path_join :: "path \<Rightarrow> asset_path \<Rightarrow> path" where
  "workspace_asset_path_join workspace_dir p = workspace_dir @ asset_path_components p"

section \<open>Reading\<close>

datatype entry_kind = EntryFile | EntryDirectory

record dataset_entry =
  de_name :: string
  de_kind :: entry_kind
  de_size_bytes :: "nat option"
  de_mtime :: string

record dataset_listing =
  dl_entries :: "dataset_entry list"
  dl_total :: nat
  dl_offset :: nat
  dl_limit :: nat

definition workspace_asset_path :: "workspace_id \<Rightarrow> asset_path \<Rightarrow> (manager, file_error, path) prog" where
  "workspace_asset_path ws p w =
     (let dir = manager_workspace_dir w ws in
      bind_p (fs_test (fs_exists (workspace_core_path dir))) (\<lambda>present.
      if \<not> present then fail (FileNotFound ws)
      else if hd (asset_path_components p) = ''.tmp''
      then fail (InvalidName (NameFormat ''internal staging path is not externally addressable'' [asset_path_as_str p]))
      else ret (workspace_asset_path_join dir p)) w)"

definition open_workspace_file :: "workspace_id \<Rightarrow> asset_path \<Rightarrow> (manager, file_error, path \<times> nat) prog" where
  "open_workspace_file ws p =
     bind_p (workspace_asset_path ws p) (\<lambda>target.
     bind_p (io_at target (fs_call (fs_stat target))) (\<lambda>md.
     case md of
       FileNode b \<Rightarrow> ret (target, length b)
     | DirNode \<Rightarrow> fail (io_err target IoInvalidInput)))"

fun collect_children ::
  "(path \<Rightarrow> string) \<Rightarrow> path \<Rightarrow> bool \<Rightarrow> (string \<times> bool) list \<Rightarrow> ('z, dataset_entry list) file_prog"
where
  "collect_children mtime target exclude_tmp [] = ret []"
| "collect_children mtime target exclude_tmp ((name, _) # entries) =
     bind_p (io_at target (fs_call fs_next_entry)) (\<lambda>_.
     if exclude_tmp \<and> name = ''.tmp'' then collect_children mtime target exclude_tmp entries
     else let p = target @ [name] in
       bind_p (io_at p (fs_call (fs_stat p))) (\<lambda>md.
       bind_p (collect_children mtime target exclude_tmp entries) (\<lambda>rest.
       ret ((case md of
               DirNode \<Rightarrow> \<lparr>de_name = name, de_kind = EntryDirectory, de_size_bytes = None, de_mtime = mtime p\<rparr>
             | FileNode b \<Rightarrow> \<lparr>de_name = name, de_kind = EntryFile, de_size_bytes = Some (length b), de_mtime = mtime p\<rparr>) # rest))))"

definition paged :: "nat \<Rightarrow> nat \<Rightarrow> dataset_entry list \<Rightarrow> dataset_listing" where
  "paged offset limit all =
     (let lim = min limit max_dataset_list_limit in
      \<lparr>dl_entries = take lim (drop offset all), dl_total = length all, dl_offset = offset, dl_limit = lim\<rparr>)"

definition list_workspace_children ::
  "(path \<Rightarrow> string) \<Rightarrow> workspace_id \<Rightarrow> asset_path option \<Rightarrow> nat \<Rightarrow> nat \<Rightarrow> (manager, file_error, dataset_listing) prog"
where
  "list_workspace_children mtime ws relative offset limit w =
     (let workspace_dir = manager_workspace_dir w ws in
      bind_p (fs_test (fs_exists (workspace_core_path workspace_dir))) (\<lambda>present.
      if \<not> present then fail (FileNotFound ws)
      else let target = (case relative of Some p \<Rightarrow> workspace_asset_path_join workspace_dir p | None \<Rightarrow> workspace_dir) in
        if (case relative of None \<Rightarrow> False | Some p \<Rightarrow> hd (asset_path_components p) = ''.tmp'')
        then fail (InvalidName (NameFormat ''internal staging path is not externally addressable''
               [case relative of None \<Rightarrow> [] | Some p \<Rightarrow> asset_path_as_str p]))
        else bind_p (fs_test (fs_exists target)) (\<lambda>there.
          if \<not> there then ret (paged offset limit [])
          else bind_p (io_at target (fs_call (fs_stat target))) (\<lambda>md.
            if md \<noteq> DirNode then fail (io_err target IoInvalidInput)
            else bind_p (io_at target (fs_call (fs_read_dir target))) (\<lambda>entries.
              bind_p (collect_children mtime target (relative = None) entries) (\<lambda>all.
              ret (paged offset limit (sort_by (\<lambda>a b. str_less (de_name a) (de_name b)) all))))))) w)"

section \<open>Uploads\<close>

record dataset_upload_receipt =
  du_path :: asset_path
  du_sha256 :: string
  du_size_bytes :: nat
  du_workspace_revision_id :: nat

text \<open>\<open>cache_cell_for_dataset\<close> has the same body as the lookup of the head operations.\<close>

definition cache_cell_for_dataset :: "serde \<Rightarrow> workspace_id \<Rightarrow> (manager, file_error, workspace_cache_cell) prog" where
  "cache_cell_for_dataset sj ws w =
     (case cell_at w ws of
        Some c \<Rightarrow> (Ok c, w)
      | None \<Rightarrow> bind_p (cache_load_from_disk sj (manager_workspace_dir w ws)) (\<lambda>c w'. (Ok c, set_cell ws c w')) w)"

fun check_siblings :: "path \<Rightarrow> string \<Rightarrow> (string \<times> bool) list \<Rightarrow> ('z, unit) file_prog" where
  "check_siblings parent target_name [] = ret ()"
| "check_siblings parent target_name ((name, _) # entries) =
     bind_p (io_at parent (fs_call fs_next_entry)) (\<lambda>_.
     if eq_ignore_ascii_case name target_name \<and> name \<noteq> target_name
     then fail (NameConflict (NameFormat ''workspace upload collides case-insensitively'' [target_name, name]))
     else check_siblings parent target_name entries)"

definition sibling_check :: "path \<Rightarrow> ('z, unit) file_prog" where
  "sibling_check final_path =
     (let parent = butlast final_path in
      bind_p (fs_test (fs_exists parent)) (\<lambda>present.
      if \<not> present then ret ()
      else bind_p (io_at parent (fs_call (fs_read_dir parent))) (\<lambda>entries.
        check_siblings parent (last final_path) entries)))"

text \<open>Steps 3 to 5: the revision, then the bytes, then the cache.\<close>

definition commit_upload ::
  "serde \<Rightarrow> workspace_id \<Rightarrow> path \<Rightarrow> path \<Rightarrow> path \<Rightarrow> workspace_core \<Rightarrow> (manager, file_error, unit) prog"
where
  "commit_upload sj ws workspace_dir src_tmpfile final_path next_core =
     (let parent = butlast final_path in
      bind_p (write_workspace_core sj workspace_dir next_core) (\<lambda>_.
      bind_p (io_at parent (fs_call (fs_create_dir_all parent))) (\<lambda>_.
      bind_p (io_at final_path (fs_call (fs_rename src_tmpfile final_path))) (\<lambda>_.
      bind_p (io_at parent (fsync_dir parent)) (\<lambda>_.
      modify (publish_core ws next_core))))))"

definition upload_body ::
  "serde \<Rightarrow> string \<Rightarrow> workspace_id \<Rightarrow> asset_path \<Rightarrow> path \<Rightarrow> string \<Rightarrow> nat \<Rightarrow> (manager, file_error, dataset_upload_receipt) prog"
where
  "upload_body sj now ws p src_tmpfile observed_sha256 observed_size w =
     (let workspace_dir = manager_workspace_dir w ws; final_path = workspace_asset_path_join workspace_dir p in
      bind_p (fs_test (fs_exists (workspace_core_path workspace_dir))) (\<lambda>present.
      if \<not> present then fail (FileNotFound ws)
      else bind_p (sibling_check final_path) (\<lambda>_.
        bind_p (cache_cell_for_dataset sj ws) (\<lambda>cell.
        let (next_revision_id, next_core) = bump_workspace_revision now (cc_core cell) in
        bind_p (commit_upload sj ws workspace_dir src_tmpfile final_path next_core) (\<lambda>_.
        ret \<lparr>du_path = p, du_sha256 = observed_sha256, du_size_bytes = observed_size,
             du_workspace_revision_id = next_revision_id\<rparr>)))) w)"

definition upload_workspace_file ::
  "serde \<Rightarrow> string \<Rightarrow> workspace_id \<Rightarrow> asset_path \<Rightarrow> path \<Rightarrow> string \<Rightarrow> nat \<Rightarrow> (manager, file_error, dataset_upload_receipt) prog"
where
  "upload_workspace_file sj now ws p src_tmpfile observed_sha256 observed_size =
     (case parse_mutable_path p of
        Inl e \<Rightarrow> fail e
      | Inr (tree, sub) \<Rightarrow>
          if \<not> accepts_uploads tree
          then fail (InvalidName (NameFormat ''uploads are reserved for the daemon producer'' [tree_dir_name tree]))
          else (case sub of
              None \<Rightarrow> fail (InvalidName (NameFormat ''upload path requires at least one child component'' [tree_dir_name tree, asset_path_as_str p]))
            | Some _ \<Rightarrow>
                (case validate_dataset_upload_depth tree p of
                   Inl e \<Rightarrow> fail e
                 | Inr _ \<Rightarrow> with_workspace_lease ws (upload_body sj now ws p src_tmpfile observed_sha256 observed_size))))"

section \<open>Deletes\<close>

text \<open>The drain: until done without a bound, or at most so many batches.\<close>

partial_function (option) drain_forever ::
  "staged_delete \<Rightarrow> 'z disk_scheme \<Rightarrow> ((file_error, unit) result \<times> 'z disk_scheme) option"
where
  "drain_forever staged w =
     (case drain_staged_payload staged default_delete_batch_entries w of
        (Inl e, w') \<Rightarrow> Some (Err e, w')
      | (Inr res, w') \<Rightarrow> if res = DrainDone then Some (Ok (), w') else drain_forever staged w')"

fun drain_at_most :: "staged_delete \<Rightarrow> nat \<Rightarrow> ('z, unit) file_prog" where
  "drain_at_most staged n =
     (if n = 0 then ret ()
      else bind_p (drain_staged_payload staged default_delete_batch_entries) (\<lambda>r.
        case r of DrainDone \<Rightarrow> ret () | DrainMore \<Rightarrow> drain_at_most staged (n - 1)))"

declare drain_at_most.simps [simp del]

definition drain_until ::
  "staged_delete \<Rightarrow> nat option \<Rightarrow> 'z disk_scheme \<Rightarrow> ((file_error, unit) result \<times> 'z disk_scheme) option"
where
  "drain_until staged max_iters w =
     (case max_iters of None \<Rightarrow> drain_forever staged w | Some m \<Rightarrow> Some (drain_at_most staged m w))"

definition on_jobs :: "(unit job_registry \<Rightarrow> unit job_registry) \<Rightarrow> manager \<Rightarrow> manager" where
  "on_jobs f w = w\<lparr>mg_jobs := f (mg_jobs w)\<rparr>"

definition drain_to_completion ::
  "(file_error \<Rightarrow> string) \<Rightarrow> string \<Rightarrow> staged_delete \<Rightarrow> job_handle \<Rightarrow> nat option \<Rightarrow> manager \<Rightarrow> manager option"
where
  "drain_to_completion describe now staged h max_iters w =
     (case drain_until staged max_iters w of
        None \<Rightarrow> None
      | Some (Inl e, w') \<Rightarrow> Some (on_jobs (handle_fail now h (''asset delete drain failed: '' @ describe e)) w')
      | Some (Inr _, w') \<Rightarrow>
          (case finalize_staged_delete staged w' of
             (Inl e, w'') \<Rightarrow> Some (on_jobs (handle_fail now h (''asset delete finalize failed: '' @ describe e)) w'')
           | (Inr _, w'') \<Rightarrow> Some (on_jobs (handle_succeed now h None) w'')))"

text \<open>
  With a runtime the drain is handed to the blocking pool, to run at any later time; the result shows what was
  handed over.  Without one it runs here, for at most a million batches.
\<close>

definition spawn_asset_drain ::
  "bool \<Rightarrow> (file_error \<Rightarrow> string) \<Rightarrow> string \<Rightarrow> staged_delete \<Rightarrow> job_handle \<Rightarrow> (manager, file_error, (staged_delete \<times> job_handle) option) prog"
where
  "spawn_asset_drain runtime describe now staged h w =
     (if runtime then (Ok (Some (staged, h)), w)
      else case drain_to_completion describe now staged h (Some 1000000) w of
          None \<Rightarrow> (Ok None, w)
        | Some w' \<Rightarrow> (Ok None, w'))"

definition admit_job ::
  "job_id \<Rightarrow> string \<Rightarrow> job_type \<Rightarrow> workspace_id \<Rightarrow> asset_path option \<Rightarrow> (manager, file_error, job_handle) prog"
where
  "admit_job fresh now t ws target w =
     (case try_acquire fresh now t [RefWorkspace ws] target (mg_jobs w) of
        (Inl c, jobs) \<Rightarrow> (Err (conflict_to_file_error c), w\<lparr>mg_jobs := jobs\<rparr>)
      | (Inr j, jobs) \<Rightarrow> (Ok \<lparr>jh_job_id = j, jh_terminated = False\<rparr>, w\<lparr>mg_jobs := jobs\<rparr>))"

text \<open>An early return drops the handle, which fails the job.\<close>

definition holding_job :: "string \<Rightarrow> job_handle \<Rightarrow> (manager, file_error, 'a) prog \<Rightarrow> (manager, file_error, 'a) prog" where
  "holding_job now h body w =
     (case body w of
        (Inl e, w') \<Rightarrow> (Inl e, on_jobs (handle_drop now h) w')
      | (Inr x, w') \<Rightarrow> (Inr x, w'))"

definition recreate_tree :: "path \<Rightarrow> path \<Rightarrow> asset_path option \<Rightarrow> ('z, unit) file_prog" where
  "recreate_tree workspace_dir target sub =
     (if sub \<noteq> None then ret ()
      else bind_p (io_at target (fs_call (fs_create_dir_all target))) (\<lambda>_.
        io_at workspace_dir (fsync_dir workspace_dir)))"

text \<open>The part of a tree delete under the workspace's mutex.\<close>

definition stage_tree_delete ::
  "serde \<Rightarrow> tombstone_serde \<Rightarrow> string \<Rightarrow> workspace_id \<Rightarrow> path \<Rightarrow> asset_tree \<Rightarrow> asset_path option \<Rightarrow> job_id \<Rightarrow>
     (manager, file_error, staged_delete) prog"
where
  "stage_tree_delete sj tj now ws workspace_dir tree sub job_id =
     (let target = build_delete_target workspace_dir tree sub in
      bind_p (cache_cell_for_dataset sj ws) (\<lambda>cell.
      let (next_revision_id, next_core) = bump_workspace_revision now (cc_core cell);
          tombstone = (if tree = Datasets then TombDataset job_id ws sub next_revision_id now
                       else TombConverter job_id ws sub next_revision_id now) in
      bind_p (write_tombstone tj (workspace_dir @ [''.tmp'']) tombstone) (\<lambda>staged.
      bind_p (write_workspace_core sj workspace_dir next_core) (\<lambda>_.
      bind_p (stage_payload target staged) (\<lambda>_.
      bind_p (recreate_tree workspace_dir target sub) (\<lambda>_.
      bind_p (modify (publish_core ws next_core)) (\<lambda>_.
      ret staged)))))))"

definition stage_log_delete ::
  "tombstone_serde \<Rightarrow> string \<Rightarrow> workspace_id \<Rightarrow> path \<Rightarrow> asset_tree \<Rightarrow> asset_path option \<Rightarrow> job_id \<Rightarrow>
     (manager, file_error, staged_delete) prog"
where
  "stage_log_delete tj now ws workspace_dir tree sub job_id =
     (let target = build_delete_target workspace_dir tree sub;
          tombstone = (if tree = TrainingLogs then TombTrainingLogs job_id ws sub now else TombConverterLogs job_id ws sub now) in
      bind_p (write_tombstone tj (workspace_dir @ [''.tmp'']) tombstone) (\<lambda>staged.
      bind_p (stage_payload target staged) (\<lambda>_.
      bind_p (recreate_tree workspace_dir target sub) (\<lambda>_.
      ret staged))))"

text \<open>Both branches: the target must exist, the job is admitted, the delete staged, the drain spawned.\<close>

definition start_staged_delete ::
  "bool \<Rightarrow> (file_error \<Rightarrow> string) \<Rightarrow> job_id \<Rightarrow> string \<Rightarrow> workspace_id \<Rightarrow> path \<Rightarrow> asset_tree \<Rightarrow> asset_path option \<Rightarrow>
     (job_id \<Rightarrow> (manager, file_error, staged_delete) prog) \<Rightarrow> (manager, file_error, job_id \<times> (staged_delete \<times> job_handle) option) prog"
where
  "start_staged_delete runtime describe fresh now ws workspace_dir tree sub stage =
     (let target = build_delete_target workspace_dir tree sub in
      bind_p (io_at target (fs_call (fs_stat target))) (\<lambda>_.
      bind_p (admit_job fresh now (async_delete_job_type tree) ws (build_display_path tree sub)) (\<lambda>h.
      bind_p (holding_job now h (stage (jh_job_id h))) (\<lambda>staged.
      bind_p (spawn_asset_drain runtime describe now staged h) (\<lambda>pending.
      ret (jh_job_id h, pending))))))"

definition start_async_tree_delete ::
  "serde \<Rightarrow> tombstone_serde \<Rightarrow> bool \<Rightarrow> (file_error \<Rightarrow> string) \<Rightarrow> job_id \<Rightarrow> string \<Rightarrow> workspace_id \<Rightarrow> path \<Rightarrow> asset_tree \<Rightarrow>
     asset_path option \<Rightarrow> (manager, file_error, job_id \<times> (staged_delete \<times> job_handle) option) prog"
where
  "start_async_tree_delete sj tj runtime describe fresh now ws workspace_dir tree sub =
     start_staged_delete runtime describe fresh now ws workspace_dir tree sub
       (stage_tree_delete sj tj now ws workspace_dir tree sub)"

definition start_async_log_delete ::
  "tombstone_serde \<Rightarrow> bool \<Rightarrow> (file_error \<Rightarrow> string) \<Rightarrow> job_id \<Rightarrow> string \<Rightarrow> workspace_id \<Rightarrow> path \<Rightarrow> asset_tree \<Rightarrow>
     asset_path option \<Rightarrow> (manager, file_error, job_id \<times> (staged_delete \<times> job_handle) option) prog"
where
  "start_async_log_delete tj runtime describe fresh now ws workspace_dir tree sub =
     (case (case sub of None \<Rightarrow> Ok () | Some rel \<Rightarrow> validate_log_subpath rel) of
        Inl e \<Rightarrow> fail e
      | Inr _ \<Rightarrow>
          bind_p (gets (\<lambda>w. (if tree = TrainingLogs then has_active_train_for else has_active_convert_for) ws (mg_jobs w))) (\<lambda>producer_active.
          if producer_active
          then fail (FileJobConflict (tree_dir_name tree @ '' cannot be cleared while a '' @
                 (if tree = TrainingLogs then ''train'' else ''convert'') @ '' job for '' @ ws @ '' is active''))
          else start_staged_delete runtime describe fresh now ws workspace_dir tree sub
                 (stage_log_delete tj now ws workspace_dir tree sub)))"

definition start_workspace_asset_delete ::
  "serde \<Rightarrow> tombstone_serde \<Rightarrow> bool \<Rightarrow> (file_error \<Rightarrow> string) \<Rightarrow> job_id \<Rightarrow> string \<Rightarrow> workspace_id \<Rightarrow> asset_path \<Rightarrow>
     (manager, file_error, job_id \<times> (staged_delete \<times> job_handle) option) prog"
where
  "start_workspace_asset_delete sj tj runtime describe fresh now ws p w =
     (case parse_mutable_path p of
        Inl e \<Rightarrow> fail e w
      | Inr (tree, sub) \<Rightarrow>
          let workspace_dir = manager_workspace_dir w ws in
          bind_p (fs_test (fs_exists (workspace_core_path workspace_dir))) (\<lambda>present.
          if \<not> present then fail (FileNotFound ws)
          else if tree \<in> {Datasets, Converters}
          then start_async_tree_delete sj tj runtime describe fresh now ws workspace_dir tree sub
          else start_async_log_delete tj runtime describe fresh now ws workspace_dir tree sub) w)"

section \<open>Job references\<close>

definition register_workspace_delete :: "job_id \<Rightarrow> string \<Rightarrow> workspace_id \<Rightarrow> (manager, file_error, job_handle) prog" where
  "register_workspace_delete fresh now ws = admit_job fresh now WorkspaceDelete ws None"

definition register_convert_job :: "job_id \<Rightarrow> string \<Rightarrow> workspace_id \<Rightarrow> (manager, file_error, job_handle) prog" where
  "register_convert_job fresh now ws = admit_job fresh now Convert ws None"

definition register_train_job :: "job_id \<Rightarrow> string \<Rightarrow> workspace_id \<Rightarrow> (manager, file_error, job_handle) prog" where
  "register_train_job fresh now ws = admit_job fresh now Train ws None"

datatype job_ref_handle = RefLease lease_guard | RefJob job_handle

definition register_job_reference :: "job_reference \<Rightarrow> (manager, file_error, job_ref_handle) prog" where
  "register_job_reference reference w =
     (case try_acquire_lease [reference] (mg_jobs w) of
        (Inl c, jobs) \<Rightarrow> (Err (conflict_to_file_error c), w\<lparr>mg_jobs := jobs\<rparr>)
      | (Inr lease, jobs) \<Rightarrow> (Ok (RefLease \<lparr>lg_lease_id = lease, lg_released = False\<rparr>), w\<lparr>mg_jobs := jobs\<rparr>))"

definition from_job_handle :: "job_handle \<Rightarrow> job_ref_handle" where
  "from_job_handle h = RefJob h"

end
