(* ===== verification/Workspaces.thy ===== *)
theory Workspaces
  imports Assets
begin

text \<open>
  \<^verbatim>\<open>file_mgr/registry.rs\<close>: creating, renaming, deleting and listing workspaces.  Creates and renames hold the
  registry mutex from the uniqueness scan to the commit, so each is one program.  The lower-casing of texts
  is Unicode's and appears as a parameter; fresh identifiers and times are arguments.
\<close>

section \<open>Names and tags\<close>

text \<open>The code points of a text.\<close>

fun code_points :: "string \<Rightarrow> nat list" where
  "code_points [] = []"
| "code_points (a # s) =
     (let n = of_char a :: nat; cont = (\<lambda>c. (of_char c :: nat) mod 64) in
      if n < 128 then n # code_points s
      else case s of
          [] \<Rightarrow> [n]
        | b # s1 \<Rightarrow>
            if n < 224 then ((n mod 32) * 64 + cont b) # code_points s1
            else (case s1 of
                [] \<Rightarrow> [n]
              | c # s2 \<Rightarrow>
                  if n < 240 then ((n mod 16) * 4096 + cont b * 64 + cont c) # code_points s2
                  else (case s2 of
                      [] \<Rightarrow> [n]
                    | d # s3 \<Rightarrow> ((n mod 8) * 262144 + cont b * 4096 + cont c * 64 + cont d) # code_points s3)))"

definition is_whitespace :: "nat \<Rightarrow> bool" where
  "is_whitespace c \<longleftrightarrow>
     9 \<le> c \<and> c \<le> 13 \<or> 0x2000 \<le> c \<and> c \<le> 0x200A \<or>
     c \<in> {0x20, 0x85, 0xA0, 0x1680, 0x2028, 0x2029, 0x202F, 0x205F, 0x3000}"

definition is_control :: "nat \<Rightarrow> bool" where
  "is_control c \<longleftrightarrow> c < 0x20 \<or> 0x7F \<le> c \<and> c \<le> 0x9F"

definition is_ascii_whitespace :: "char \<Rightarrow> bool" where
  "is_ascii_whitespace c \<longleftrightarrow> (of_char c :: nat) \<in> {0x20, 9, 10, 12, 13}"

definition has_separator :: "string \<Rightarrow> bool" where
  "has_separator s \<longleftrightarrow> char_of (0 :: nat) \<in> set s \<or> CHR ''/'' \<in> set s \<or> char_of (92 :: nat) \<in> set s"

definition validate_workspace_name :: "string \<Rightarrow> (file_error, unit) result" where
  "validate_workspace_name name =
     (let bad = Err (InvalidName (NameText name)); cs = code_points name in
      if name = [] then bad
      else if length name > 128 then bad
      else if has_separator name then bad
      else if is_whitespace (hd cs) then bad
      else if is_whitespace (last cs) then bad
      else if list_ex is_control cs then bad
      else Ok ())"

definition max_workspace_tags :: nat where "max_workspace_tags = 32"
definition max_tag_bytes :: nat where "max_tag_bytes = 64"

definition trim_ascii :: "string \<Rightarrow> string" where
  "trim_ascii s = rev (dropWhile is_ascii_whitespace (rev (dropWhile is_ascii_whitespace s)))"

fun check_tags :: "(string \<Rightarrow> string) \<Rightarrow> string set \<Rightarrow> string list \<Rightarrow> (file_error, string list) result" where
  "check_tags lower seen [] = Ok []"
| "check_tags lower seen (raw # tags) =
     (let trimmed = trim_ascii raw in
      if trimmed = [] then Err (InvalidName (NameFormat ''tag empty after ASCII whitespace trim'' [raw]))
      else if length trimmed > max_tag_bytes then Err (InvalidName (NameFormat ''tag exceeds 64 bytes'' [trimmed]))
      else if has_separator trimmed then Err (InvalidName (NameFormat ''tag contains NUL or path separator'' [trimmed]))
      else if list_ex is_control (code_points trimmed) then Err (InvalidName (NameFormat ''tag contains control character'' [trimmed]))
      else if lower trimmed \<in> seen then Err (InvalidName (NameFormat ''duplicate tag (case-insensitive)'' [trimmed]))
      else case check_tags lower (insert (lower trimmed) seen) tags of
          Inl e \<Rightarrow> Err e
        | Inr rest \<Rightarrow> Ok (trimmed # rest))"

definition validate_workspace_tags :: "(string \<Rightarrow> string) \<Rightarrow> string list \<Rightarrow> (file_error, string list) result" where
  "validate_workspace_tags lower tags =
     (if length tags > max_workspace_tags then Err (InvalidName (NameFormat ''tags exceed max 32'' []))
      else check_tags lower {} tags)"

section \<open>Lookup\<close>

definition ensure_root_layout :: "(manager, file_error, unit) prog" where
  "ensure_root_layout w = io_at (mg_root w) (fs_call (fs_create_dir_all (mg_root w))) w"

definition cache_cell :: "serde \<Rightarrow> workspace_id \<Rightarrow> (manager, file_error, workspace_cache_cell) prog" where
  "cache_cell sj ws w =
     (case cell_at w ws of
        Some c \<Rightarrow> (Ok c, w)
      | None \<Rightarrow> bind_p (cache_load_from_disk sj (manager_workspace_dir w ws)) (\<lambda>c w'. (Ok c, set_cell ws c w')) w)"

definition read_cached_core :: "serde \<Rightarrow> workspace_id \<Rightarrow> (manager, file_error, workspace_core) prog" where
  "read_cached_core sj ws = bind_p (cache_cell sj ws) (\<lambda>c. ret (cc_core c))"

record workspace_summary =
  ws_core :: workspace_core
  ws_heads :: head_index
  ws_head_statuses :: "head_status list"

definition summary :: "serde \<Rightarrow> workspace_id \<Rightarrow> (manager, file_error, workspace_summary) prog" where
  "summary sj ws =
     bind_p (cache_cell sj ws) (\<lambda>cell.
     ret \<lparr>ws_core = cc_core cell, ws_heads = cc_heads cell,
          ws_head_statuses = map (\<lambda>h. head_status_from_revisions (hr_workspace_revision h) (wc_workspace_revision (cc_core cell)))
            (hi_heads (cc_heads cell))\<rparr>)"

text \<open>Entries that cannot be read, are no directories, or have no valid name or no \<open>workspace.json\<close> are skipped.\<close>

fun collect_workspaces :: "path \<Rightarrow> (string \<times> bool) list \<Rightarrow> ('z, workspace_id list) file_prog" where
  "collect_workspaces workspaces_root [] = ret []"
| "collect_workspaces workspaces_root ((name, is_dir) # entries) =
     bind_p (attempt (fs_call fs_next_entry)) (\<lambda>entry.
     bind_p (attempt (fs_call fs_next_entry)) (\<lambda>file_type.
     if (case entry of Inl _ \<Rightarrow> True | Inr _ \<Rightarrow> (case file_type of Inl _ \<Rightarrow> True | Inr _ \<Rightarrow> \<not> is_dir))
     then collect_workspaces workspaces_root entries
     else case validate_uuid_v4_str name of
         Inl _ \<Rightarrow> collect_workspaces workspaces_root entries
       | Inr _ \<Rightarrow>
           bind_p (fs_test (fs_exists (workspace_core_path (workspaces_root @ [name])))) (\<lambda>present.
           bind_p (collect_workspaces workspaces_root entries) (\<lambda>rest.
           ret (if present then name # rest else rest)))))"

definition list_workspaces :: "(manager, file_error, workspace_id list) prog" where
  "list_workspaces w =
     (let workspaces_root = workspaces_dir (mg_root w) in
      bind_p (fs_test (fs_exists workspaces_root)) (\<lambda>present.
      if \<not> present then ret []
      else bind_p (io_at workspaces_root (fs_call (fs_read_dir workspaces_root))) (\<lambda>entries.
        collect_workspaces workspaces_root entries)) w)"

definition is_not_found :: "file_error \<Rightarrow> bool" where
  "is_not_found e = (case e of FileIo _ k \<Rightarrow> k = IoNotFound | _ \<Rightarrow> False)"

fun check_names ::
  "serde \<Rightarrow> (string \<Rightarrow> string) \<Rightarrow> string \<Rightarrow> workspace_id option \<Rightarrow> workspace_id list \<Rightarrow> (manager, file_error, unit) prog"
where
  "check_names sj lower name except [] = ret ()"
| "check_names sj lower name except (existing # ids) =
     (if except = Some existing then check_names sj lower name except ids
      else bind_p (attempt (read_cached_core sj existing)) (\<lambda>r.
        case r of
          Inr core \<Rightarrow> if lower (wc_name core) = lower name then fail (NameConflict (NameText name)) else check_names sj lower name except ids
        | Inl e \<Rightarrow> if is_not_found e then check_names sj lower name except ids else fail e))"

definition ensure_workspace_name_available ::
  "serde \<Rightarrow> (string \<Rightarrow> string) \<Rightarrow> string \<Rightarrow> workspace_id option \<Rightarrow> (manager, file_error, unit) prog"
where
  "ensure_workspace_name_available sj lower name except =
     bind_p list_workspaces (\<lambda>ids. check_names sj lower name except ids)"

section \<open>Create and patch\<close>

definition fsync_if_present :: "path \<Rightarrow> ('z, unit) file_prog" where
  "fsync_if_present p = bind_p (fs_test (fs_exists p)) (\<lambda>present. if present then io_at p (fsync_dir p) else ret ())"

definition create_body :: "serde \<Rightarrow> workspace_id \<Rightarrow> string \<Rightarrow> string \<Rightarrow> string list \<Rightarrow> (manager, file_error, workspace_id) prog" where
  "create_body sj wid now name tags w =
     (let root = mg_root w; workspaces_root = workspaces_dir root; ws = manager_workspace_dir w wid;
          core = \<lparr>wc_id = wid, wc_name = name, wc_tags = tags, wc_created_at = now,
                  wc_workspace_revision = \<lparr>rev_id = 0, rev_at = now\<rparr>, wc_head_count = 0\<rparr> in
      bind_p (io_at workspaces_root (fs_call (fs_create_dir_all workspaces_root))) (\<lambda>_.
      bind_p (io_at ws (fs_call (fs_create_dir_all ws))) (\<lambda>_.
      bind_p (write_head_index sj ws \<lparr>hi_heads = []\<rparr>) (\<lambda>_.
      bind_p (write_workspace_core sj ws core) (\<lambda>_.
      bind_p (fsync_if_present workspaces_root) (\<lambda>_.
      bind_p (fsync_if_present root) (\<lambda>_.
      bind_p (modify (set_cell wid \<lparr>cc_core = core, cc_heads = \<lparr>hi_heads = []\<rparr>\<rparr>)) (\<lambda>_.
      ret wid))))))) w)"

definition create_with_tags ::
  "serde \<Rightarrow> (string \<Rightarrow> string) \<Rightarrow> workspace_id \<Rightarrow> string \<Rightarrow> string \<Rightarrow> string list \<Rightarrow> (manager, file_error, workspace_id) prog"
where
  "create_with_tags sj lower wid now name tags =
     (case validate_workspace_name name of
        Inl e \<Rightarrow> fail e
      | Inr _ \<Rightarrow>
          (case validate_workspace_tags lower tags of
             Inl e \<Rightarrow> fail e
           | Inr normalized_tags \<Rightarrow>
               bind_p (ensure_workspace_name_available sj lower name None) (\<lambda>_.
               create_body sj wid now name normalized_tags)))"

definition create :: "serde \<Rightarrow> (string \<Rightarrow> string) \<Rightarrow> workspace_id \<Rightarrow> string \<Rightarrow> string \<Rightarrow> (manager, file_error, workspace_id) prog" where
  "create sj lower wid now name = create_with_tags sj lower wid now name []"

definition patch_body ::
  "serde \<Rightarrow> workspace_id \<Rightarrow> string option \<Rightarrow> string list option \<Rightarrow> (manager, file_error, workspace_core) prog"
where
  "patch_body sj wid name tags w =
     (let workspace_dir = manager_workspace_dir w wid in
      bind_p (fs_test (fs_exists (workspace_core_path workspace_dir))) (\<lambda>present.
      if \<not> present then fail (FileNotFound wid)
      else bind_p (cache_cell sj wid) (\<lambda>cell.
        let prev_core = cc_core cell;
            renamed = (case name of None \<Rightarrow> prev_core | Some n \<Rightarrow> prev_core\<lparr>wc_name := n\<rparr>);
            next_core = (case tags of None \<Rightarrow> renamed | Some t \<Rightarrow> renamed\<lparr>wc_tags := t\<rparr>) in
        bind_p (write_workspace_core sj workspace_dir next_core) (\<lambda>_.
        bind_p (modify (publish_core wid next_core)) (\<lambda>_.
        ret next_core)))) w)"

definition patch_workspace ::
  "serde \<Rightarrow> (string \<Rightarrow> string) \<Rightarrow> workspace_id \<Rightarrow> string option \<Rightarrow> string list option \<Rightarrow> (manager, file_error, workspace_core) prog"
where
  "patch_workspace sj lower wid name tags =
     (if name = None \<and> tags = None
      then fail (InvalidName (NameText ''patch_workspace requires at least one of `name` or `tags`''))
      else case (case name of None \<Rightarrow> Ok () | Some n \<Rightarrow> validate_workspace_name n) of
          Inl e \<Rightarrow> fail e
        | Inr _ \<Rightarrow>
            (case (case tags of None \<Rightarrow> Ok None | Some t \<Rightarrow> (case validate_workspace_tags lower t of Inl e \<Rightarrow> Err e | Inr t' \<Rightarrow> Ok (Some t'))) of
               Inl e \<Rightarrow> fail e
             | Inr normalized_tags \<Rightarrow>
                 bind_p (case name of None \<Rightarrow> ret () | Some n \<Rightarrow> ensure_workspace_name_available sj lower n (Some wid)) (\<lambda>_.
                 patch_body sj wid name normalized_tags)))"

section \<open>Delete\<close>

definition start_delete_workspace_inner_with_id ::
  "tombstone_serde \<Rightarrow> string \<Rightarrow> workspace_id \<Rightarrow> job_id \<Rightarrow> (manager, file_error, staged_delete) prog"
where
  "start_delete_workspace_inner_with_id tj now wid job_id w =
     (let ws = manager_workspace_dir w wid in
      bind_p (fs_test (fs_exists (workspace_core_path ws))) (\<lambda>present.
      if \<not> present then fail (FileNotFound wid)
      else bind_p (write_tombstone tj (root_tmp_dir (mg_root w)) (TombWorkspace job_id wid now)) (\<lambda>staged.
        bind_p (stage_payload ws staged) (\<lambda>_.
        bind_p (modify (\<lambda>w. w\<lparr>mg_caches := AList.delete wid (mg_caches w)\<rparr>)) (\<lambda>_.
        ret staged)))) w)"

text \<open>The synchronous delete drains without a bound.\<close>

definition delete_workspace :: "tombstone_serde \<Rightarrow> string \<Rightarrow> workspace_id \<Rightarrow> job_id \<Rightarrow> manager \<Rightarrow> ((file_error, unit) result \<times> manager) option" where
  "delete_workspace tj now wid job_id w =
     (case start_delete_workspace_inner_with_id tj now wid job_id w of
        (Inl e, w') \<Rightarrow> Some (Err e, w')
      | (Inr staged, w') \<Rightarrow>
          (case drain_forever staged w' of
             None \<Rightarrow> None
           | Some (Inl e, w'') \<Rightarrow> Some (Err e, w'')
           | Some (Inr _, w'') \<Rightarrow> Some (finalize_staged_delete staged w'')))"

definition workspace_delete_result :: job_result where
  "workspace_delete_result = ResultWorkspaceDelete False"

definition drain_workspace ::
  "(file_error \<Rightarrow> string) \<Rightarrow> string \<Rightarrow> staged_delete \<Rightarrow> job_handle \<Rightarrow> manager \<Rightarrow> manager option"
where
  "drain_workspace describe now staged h w =
     (case drain_forever staged w of
        None \<Rightarrow> None
      | Some (Inl e, w') \<Rightarrow> Some (on_jobs (handle_fail now h (''workspace delete drain failed: '' @ describe e)) w')
      | Some (Inr _, w') \<Rightarrow>
          (case finalize_staged_delete staged w' of
             (Inl e, w'') \<Rightarrow> Some (on_jobs (handle_fail now h (''workspace delete finalize failed: '' @ describe e)) w'')
           | (Inr _, w'') \<Rightarrow> Some (on_jobs (handle_succeed now h (Some workspace_delete_result)) w'')))"

definition start_delete_workspace ::
  "tombstone_serde \<Rightarrow> bool \<Rightarrow> job_id \<Rightarrow> string \<Rightarrow> workspace_id \<Rightarrow> (manager, file_error, job_id \<times> (staged_delete \<times> job_handle) option) prog"
where
  "start_delete_workspace tj runtime fresh now wid w =
     (bind_p (fs_test (fs_exists (workspace_core_path (manager_workspace_dir w wid)))) (\<lambda>present.
      if \<not> present then fail (FileNotFound wid)
      else bind_p (register_workspace_delete fresh now wid) (\<lambda>h.
        bind_p (holding_job now h (start_delete_workspace_inner_with_id tj now wid (jh_job_id h))) (\<lambda>staged.
        if runtime then ret (jh_job_id h, Some (staged, h))
        else bind_p (holding_job now h
            (bind_p (drain_at_most staged 1000000) (\<lambda>_. finalize_staged_delete staged))) (\<lambda>_.
          bind_p (modify (on_jobs (handle_succeed now h (Some workspace_delete_result)))) (\<lambda>_.
          ret (jh_job_id h, None)))))) w)"

end
