(* ===== verification/Recovery.thy ===== *)
theory Recovery
  imports Staging Active_Head Head_Rotation
begin

text \<open>
  \<^verbatim>\<open>file_mgr/recovery.rs\<close>: the sweeps that run once at boot.  Pending workspace deletes are finished first,
  then every workspace is repaired, then the active generation is verified, replaced by an older one, or
  by the bundled default.  The modification times of directories, the fresh activation id and the current
  time are arguments; log output is left out.
\<close>

section \<open>Reports\<close>

datatype recovery_error =
    RecoveryFile file_error
  | RecoveryActivation activation_error
  | RecoveryValidation active_head_validation_error

definition recovery_error_kind :: "recovery_error \<Rightarrow> error_kind" where
  "recovery_error_kind e = Internal"

text \<open>The reason keeps the error whose text the source formats.\<close>

datatype unhealthy =
    DefaultNotConfigured
  | DefaultActivationFailed activation_error
  | DefaultPublishFailed activation_error

datatype recovery_active_result =
    RecoveredCurrent string active_head_manifest
  | PromotedPrevious string active_head_manifest
  | DefaultedFromBundle string active_head_manifest
  | Unhealthy unhealthy

definition unhealthy_reason :: "recovery_active_result \<Rightarrow> unhealthy option" where
  "unhealthy_reason r = (case r of Unhealthy reason \<Rightarrow> Some reason | _ \<Rightarrow> None)"

text \<open>Completed tombstones and orphans, per tree.\<close>

record sweep_counts =
  sw_completed :: nat
  sw_orphans :: nat

record per_workspace_counts =
  pw_head_orphans_swept :: nat
  pw_head_count_repaired :: nat
  pw_dataset :: sweep_counts
  pw_converter :: sweep_counts
  pw_training_logs :: sweep_counts
  pw_converter_logs :: sweep_counts

record recovery_workspace_report =
  rw_workspaces_scanned :: nat
  rw_counts :: per_workspace_counts
  rw_incomplete_creates_removed :: nat
  rw_workspace_recovery_failures :: nat

definition no_sweeps :: sweep_counts where
  "no_sweeps = \<lparr>sw_completed = 0, sw_orphans = 0\<rparr>"

definition per_workspace_default :: per_workspace_counts where
  "per_workspace_default =
     \<lparr>pw_head_orphans_swept = 0, pw_head_count_repaired = 0, pw_dataset = no_sweeps, pw_converter = no_sweeps,
      pw_training_logs = no_sweeps, pw_converter_logs = no_sweeps\<rparr>"

definition workspace_report_default :: recovery_workspace_report where
  "workspace_report_default =
     \<lparr>rw_workspaces_scanned = 0, rw_counts = per_workspace_default, rw_incomplete_creates_removed = 0,
      rw_workspace_recovery_failures = 0\<rparr>"

definition add_sweeps :: "sweep_counts \<Rightarrow> sweep_counts \<Rightarrow> sweep_counts" where
  "add_sweeps a b = \<lparr>sw_completed = sw_completed a + sw_completed b, sw_orphans = sw_orphans a + sw_orphans b\<rparr>"

definition add_counts :: "per_workspace_counts \<Rightarrow> per_workspace_counts \<Rightarrow> per_workspace_counts" where
  "add_counts a b =
     \<lparr>pw_head_orphans_swept = pw_head_orphans_swept a + pw_head_orphans_swept b,
      pw_head_count_repaired = pw_head_count_repaired a + pw_head_count_repaired b,
      pw_dataset = add_sweeps (pw_dataset a) (pw_dataset b), pw_converter = add_sweeps (pw_converter a) (pw_converter b),
      pw_training_logs = add_sweeps (pw_training_logs a) (pw_training_logs b),
      pw_converter_logs = add_sweeps (pw_converter_logs a) (pw_converter_logs b)\<rparr>"

record recovery_report =
  rp_active :: recovery_active_result
  rp_workspaces :: recovery_workspace_report
  rp_root_staging :: sweep_counts

section \<open>Staging directories\<close>

text \<open>
  One listing splits into tombstone files and stage directories; an entry whose type cannot be read is
  skipped.
\<close>

fun classify_staging ::
  "path \<Rightarrow> string \<Rightarrow> (string \<times> bool) list \<Rightarrow> ('z, string list \<times> string list) file_prog"
where
  "classify_staging staging_dir pre [] = ret ([], [])"
| "classify_staging staging_dir pre ((name, is_dir) # entries) =
     bind_p (io_at staging_dir (fs_call fs_next_entry)) (\<lambda>_.
     bind_p (attempt (fs_call fs_next_entry)) (\<lambda>file_type.
     bind_p (classify_staging staging_dir pre entries) (\<lambda>(tombs, stages).
     ret (case file_type of
         Inl _ \<Rightarrow> (tombs, stages)
       | Inr _ \<Rightarrow>
           if \<not> is_dir then (if starts_with pre name \<and> ends_with ''.json'' name then (name # tombs, stages) else (tombs, stages))
           else if starts_with pre name then (tombs, name # stages) else (tombs, stages)))))"

definition max_drain_iterations :: nat where
  "max_drain_iterations = 1000000"

text \<open>At most a million batches; the result says whether the payload is gone.\<close>

fun drain_loop :: "staged_delete \<Rightarrow> nat \<Rightarrow> ('z disk_scheme, file_error, bool) prog" where
  "drain_loop staged n =
     (if n = 0 then ret False
      else bind_p (attempt (drain_staged_payload staged default_delete_batch_entries)) (\<lambda>r.
        case r of Inl _ \<Rightarrow> ret False | Inr DrainDone \<Rightarrow> ret True | Inr DrainMore \<Rightarrow> drain_loop staged (n - 1)))"

declare drain_loop.simps [simp del]

text \<open>
  One tombstone: a corrupt one is unlinked; otherwise drain and finalize.  Gives the stage directory that
  is thereby accounted for and whether the delete completed.
\<close>

definition resume_delete ::
  "tombstone_serde \<Rightarrow> path \<Rightarrow> (workspace_id \<Rightarrow> 'z disk_scheme \<Rightarrow> 'z disk_scheme) \<Rightarrow> string \<Rightarrow> ('z, string option \<times> bool) file_prog"
where
  "resume_delete tj staging_dir evict name =
     (let tombstone_path = staging_dir @ [name] in
      bind_p (attempt (read_tombstone tj tombstone_path)) (\<lambda>r.
      case r of
        Inl _ \<Rightarrow> bind_p (attempt (fs_call (fs_remove_file tombstone_path))) (\<lambda>_. ret (None, False))
      | Inr tombstone \<Rightarrow>
          let staged = for_tombstone staging_dir tombstone; paired = Some (stage_dir_name tombstone) in
          bind_p (drain_loop staged max_drain_iterations) (\<lambda>drain_ok.
          if \<not> drain_ok then ret (paired, False)
          else bind_p (attempt (finalize_staged_delete staged)) (\<lambda>f.
            case f of
              Inl _ \<Rightarrow> ret (paired, False)
            | Inr _ \<Rightarrow> bind_p (modify (evict (tombstone_workspace_id tombstone))) (\<lambda>_. ret (paired, True))))))"

fun resume_deletes ::
  "tombstone_serde \<Rightarrow> path \<Rightarrow> (workspace_id \<Rightarrow> 'z disk_scheme \<Rightarrow> 'z disk_scheme) \<Rightarrow> string list \<Rightarrow> string list \<Rightarrow>
     ('z, nat \<times> string list) file_prog"
where
  "resume_deletes tj staging_dir evict [] stages = ret (0, stages)"
| "resume_deletes tj staging_dir evict (name # names) stages =
     bind_p (resume_delete tj staging_dir evict name) (\<lambda>(paired, completed).
     bind_p (resume_deletes tj staging_dir evict names
        (case paired of None \<Rightarrow> stages | Some s \<Rightarrow> removeAll s stages)) (\<lambda>(n, rest).
     ret (if completed then Suc n else n, rest)))"

text \<open>The map of stage directories is walked in an unspecified order; the model takes the listing's.\<close>

fun sweep_orphan_stages :: "path \<Rightarrow> string list \<Rightarrow> ('z, nat) file_prog" where
  "sweep_orphan_stages staging_dir [] = ret 0"
| "sweep_orphan_stages staging_dir (name # names) =
     bind_p (attempt (fs_call (fs_remove_dir_all (staging_dir @ [name])))) (\<lambda>r.
     bind_p (sweep_orphan_stages staging_dir names) (\<lambda>n.
     ret (case r of Inl _ \<Rightarrow> n | Inr _ \<Rightarrow> Suc n)))"

definition walk_staging ::
  "tombstone_serde \<Rightarrow> path \<Rightarrow> string \<Rightarrow> (workspace_id \<Rightarrow> 'z disk_scheme \<Rightarrow> 'z disk_scheme) \<Rightarrow> ('z, sweep_counts) file_prog"
where
  "walk_staging tj staging_dir pre evict =
     bind_p (io_at staging_dir (fs_call (fs_read_dir staging_dir))) (\<lambda>entries.
     bind_p (classify_staging staging_dir pre entries) (\<lambda>(tombs, stages).
     bind_p (resume_deletes tj staging_dir evict tombs stages) (\<lambda>(completed, rest).
     bind_p (sweep_orphan_stages staging_dir rest) (\<lambda>orphan_swept.
     bind_p (if completed > 0 \<or> orphan_swept > 0 then attempt (fsync_dir staging_dir) else ret (Ok ())) (\<lambda>_.
     ret \<lparr>sw_completed = completed, sw_orphans = orphan_swept\<rparr>)))))"

datatype staging_scope = ScopeDataset | ScopeConverter | ScopeTrainingLogs | ScopeConverterLogs

fun scope_prefix :: "staging_scope \<Rightarrow> string" where
  "scope_prefix ScopeDataset = dataset_tombstone_prefix"
| "scope_prefix ScopeConverter = converter_tombstone_prefix"
| "scope_prefix ScopeTrainingLogs = training_logs_tombstone_prefix"
| "scope_prefix ScopeConverterLogs = converter_logs_tombstone_prefix"

definition drain_staging_dir :: "tombstone_serde \<Rightarrow> path \<Rightarrow> staging_scope \<Rightarrow> ('z, sweep_counts) file_prog" where
  "drain_staging_dir tj staging_dir scope = walk_staging tj staging_dir (scope_prefix scope) (\<lambda>_ w. w)"

definition drain_workspace_staging_dir ::
  "tombstone_serde \<Rightarrow> path \<Rightarrow> (workspace_id \<Rightarrow> 'z disk_scheme \<Rightarrow> 'z disk_scheme) \<Rightarrow> ('z, sweep_counts) file_prog"
where
  "drain_workspace_staging_dir tj staging_dir evict = walk_staging tj staging_dir workspace_tombstone_prefix evict"

definition evict_cache :: "workspace_id \<Rightarrow> manager \<Rightarrow> manager" where
  "evict_cache ws w = w\<lparr>mg_caches := AList.delete ws (mg_caches w)\<rparr>"

definition recover_root_staging :: "tombstone_serde \<Rightarrow> path \<Rightarrow> (manager, recovery_error, sweep_counts) prog" where
  "recover_root_staging tj root =
     (let staging_dir = root_tmp_dir root in
      bind_p (fs_test (fs_is_dir staging_dir)) (\<lambda>present.
      if \<not> present then ret no_sweeps
      else map_err RecoveryFile (drain_workspace_staging_dir tj staging_dir evict_cache)))"

section \<open>Workspaces\<close>

text \<open>\<open>rsplit_once\<close>: the parts before and after the last separator.\<close>

definition rsplit_once :: "char \<Rightarrow> string \<Rightarrow> (string \<times> string) option" where
  "rsplit_once c s =
     (if c \<in> set s
      then Some (rev (tl (dropWhile (\<lambda>x. x \<noteq> c) (rev s))), rev (takeWhile (\<lambda>x. x \<noteq> c) (rev s)))
      else None)"

text \<open>The head whose file a name is: a UUID with one of the two extensions.\<close>

definition head_file_of :: "string \<Rightarrow> head_id option" where
  "head_file_of name =
     (case rsplit_once (CHR ''.'') name of
        None \<Rightarrow> None
      | Some (stem, ext) \<Rightarrow>
          if ext \<notin> {''mpk'', ''json''} then None
          else case validate_uuid_v4_str stem of Inl _ \<Rightarrow> None | Inr _ \<Rightarrow> Some stem)"

fun sweep_head_entries :: "path \<Rightarrow> head_id list \<Rightarrow> (string \<times> bool) list \<Rightarrow> ('z, nat) file_prog" where
  "sweep_head_entries dir known [] = ret 0"
| "sweep_head_entries dir known ((name, is_dir) # entries) =
     bind_p (io_at dir (fs_call fs_next_entry)) (\<lambda>_.
     bind_p (attempt (fs_call fs_next_entry)) (\<lambda>file_type.
     bind_p (if (case file_type of Inl _ \<Rightarrow> True | Inr _ \<Rightarrow> is_dir) then ret 0
        else case head_file_of name of
            None \<Rightarrow> ret 0
          | Some i \<Rightarrow>
              if i \<in> set known then ret 0
              else bind_p (attempt (fs_call (fs_remove_file (dir @ [name])))) (\<lambda>r.
                ret (case r of Inl _ \<Rightarrow> 0 | Inr _ \<Rightarrow> 1))) (\<lambda>removed.
     bind_p (sweep_head_entries dir known entries) (\<lambda>n. ret (removed + n)))))"

definition sweep_head_orphans :: "path \<Rightarrow> head_index \<Rightarrow> ('z, nat) file_prog" where
  "sweep_head_orphans workspace_dir heads =
     (let dir = heads_dir workspace_dir; known = map hr_head_id (hi_heads heads) in
      bind_p (fs_test (fs_is_dir dir)) (\<lambda>present.
      if \<not> present then ret 0
      else bind_p (io_at dir (fs_call (fs_read_dir dir))) (\<lambda>entries.
        bind_p (sweep_head_entries dir known entries) (\<lambda>removed.
        bind_p (if removed > 0 then attempt (fsync_dir dir) else ret (Ok ())) (\<lambda>_. ret removed)))))"

definition repair_head_count :: "serde \<Rightarrow> path \<Rightarrow> head_index \<Rightarrow> ('z, nat) file_prog" where
  "repair_head_count sj workspace_dir heads =
     bind_p (attempt (read_workspace_core sj workspace_dir)) (\<lambda>r.
     case r of
       Inl _ \<Rightarrow> ret 0
     | Inr core \<Rightarrow>
         let expected = (if length (hi_heads heads) < 256 then length (hi_heads heads) else 255) in
         if wc_head_count core = expected then ret 0
         else bind_p (write_workspace_core sj workspace_dir (core\<lparr>wc_head_count := expected\<rparr>)) (\<lambda>_. ret 1))"

definition read_or_repair_index :: "serde \<Rightarrow> path \<Rightarrow> ('z, head_index) file_prog" where
  "read_or_repair_index sj workspace_dir =
     bind_p (attempt (read_head_index sj workspace_dir)) (\<lambda>r.
     case r of
       Inr idx \<Rightarrow> ret idx
     | Inl (FileIo _ IoNotFound) \<Rightarrow>
         bind_p (write_head_index sj workspace_dir \<lparr>hi_heads = []\<rparr>) (\<lambda>_. ret \<lparr>hi_heads = []\<rparr>)
     | Inl e \<Rightarrow> fail e)"

definition recover_one_workspace :: "serde \<Rightarrow> tombstone_serde \<Rightarrow> path \<Rightarrow> ('z, per_workspace_counts) file_prog" where
  "recover_one_workspace sj tj workspace_dir =
     bind_p (read_or_repair_index sj workspace_dir) (\<lambda>heads.
     bind_p (sweep_head_orphans workspace_dir heads) (\<lambda>head_orphans_swept.
     bind_p (repair_head_count sj workspace_dir heads) (\<lambda>head_count_repaired.
     let counts = per_workspace_default\<lparr>pw_head_orphans_swept := head_orphans_swept,
           pw_head_count_repaired := head_count_repaired\<rparr>;
         staging_dir = workspace_dir @ [''.tmp''] in
     bind_p (fs_test (fs_is_dir staging_dir)) (\<lambda>present.
     if \<not> present then ret counts
     else bind_p (drain_staging_dir tj staging_dir ScopeDataset) (\<lambda>dataset.
       bind_p (drain_staging_dir tj staging_dir ScopeConverter) (\<lambda>converter.
       bind_p (drain_staging_dir tj staging_dir ScopeTrainingLogs) (\<lambda>training_logs.
       bind_p (drain_staging_dir tj staging_dir ScopeConverterLogs) (\<lambda>converter_logs.
       ret (counts\<lparr>pw_dataset := dataset, pw_converter := converter, pw_training_logs := training_logs,
              pw_converter_logs := converter_logs\<rparr>)))))))))"

fun recover_entries ::
  "serde \<Rightarrow> tombstone_serde \<Rightarrow> path \<Rightarrow> (string \<times> bool) list \<Rightarrow> recovery_workspace_report \<Rightarrow>
     ('z, recovery_workspace_report \<times> path list) file_prog"
where
  "recover_entries sj tj workspaces_root [] report = ret (report, [])"
| "recover_entries sj tj workspaces_root ((name, is_dir) # entries) report =
     (let p = workspaces_root @ [name] in
      bind_p (io_at workspaces_root (fs_call fs_next_entry)) (\<lambda>_.
      bind_p (attempt (fs_call fs_next_entry)) (\<lambda>file_type.
      if (case file_type of Inl _ \<Rightarrow> True | Inr _ \<Rightarrow> \<not> is_dir) then recover_entries sj tj workspaces_root entries report
      else bind_p (fs_test (fs_exists (workspace_core_path p))) (\<lambda>present.
        if \<not> present
        then bind_p (recover_entries sj tj workspaces_root entries report) (\<lambda>(rep, incomplete). ret (rep, p # incomplete))
        else bind_p (attempt (recover_one_workspace sj tj p)) (\<lambda>r.
          recover_entries sj tj workspaces_root entries
            (case r of
               Inr per \<Rightarrow> report\<lparr>rw_workspaces_scanned := Suc (rw_workspaces_scanned report),
                                rw_counts := add_counts (rw_counts report) per\<rparr>
             | Inl _ \<Rightarrow> report\<lparr>rw_workspace_recovery_failures := Suc (rw_workspace_recovery_failures report)\<rparr>))))))"

fun remove_incomplete :: "path list \<Rightarrow> ('z, nat) file_prog" where
  "remove_incomplete [] = ret 0"
| "remove_incomplete (p # ps) =
     bind_p (attempt (fs_call (fs_remove_dir_all p))) (\<lambda>r.
     bind_p (remove_incomplete ps) (\<lambda>n. ret (case r of Inl _ \<Rightarrow> n | Inr _ \<Rightarrow> Suc n)))"

definition recover_workspaces :: "serde \<Rightarrow> tombstone_serde \<Rightarrow> path \<Rightarrow> ('z disk_scheme, recovery_error, recovery_workspace_report) prog" where
  "recover_workspaces sj tj root =
     (let workspaces_root = workspaces_dir root in
      map_err RecoveryFile (bind_p (fs_test (fs_is_dir workspaces_root)) (\<lambda>present.
      if \<not> present then ret workspace_report_default
      else bind_p (io_at workspaces_root (fs_call (fs_read_dir workspaces_root))) (\<lambda>entries.
        bind_p (recover_entries sj tj workspaces_root entries workspace_report_default) (\<lambda>(report, incomplete).
        bind_p (remove_incomplete incomplete) (\<lambda>removed.
        bind_p (if removed > 0 then attempt (fsync_dir workspaces_root) else ret (Ok ())) (\<lambda>_.
        ret (report\<lparr>rw_incomplete_creates_removed := removed\<rparr>))))))))"

section \<open>The active generation\<close>

definition stream_hash_chunk :: nat where
  "stream_hash_chunk = 32 * 1024"

fun read_rounds :: "path \<Rightarrow> bytes list \<Rightarrow> ('z, unit) file_prog" where
  "read_rounds p [] = io_at p (fs_call fs_sync)"
| "read_rounds p (c # cs) = bind_p (io_at p (fs_call fs_sync)) (\<lambda>_. read_rounds p cs)"

definition sha256_stream :: "(bytes \<Rightarrow> bytes) \<Rightarrow> path \<Rightarrow> ('z, string) file_prog" where
  "sha256_stream digest p =
     bind_p (io_at p (fs_call (fs_read p))) (\<lambda>bs.
     bind_p (read_rounds p (chunks stream_hash_chunk bs)) (\<lambda>_.
     ret (hex_lowercase (digest bs))))"

fun label_bytes_from :: "nat \<Rightarrow> string list \<Rightarrow> bytes" where
  "label_bytes_from i [] = []"
| "label_bytes_from i (label # labels) =
     (if i > 0 then [0x0A] else []) @ as_bytes label @ label_bytes_from (Suc i) labels"

definition regenerate_labels_from_manifest :: "path \<Rightarrow> active_head_manifest \<Rightarrow> ('z, unit) file_prog" where
  "regenerate_labels_from_manifest labels_path manifest = put_atomic labels_path (label_bytes_from 0 (am_labels manifest))"

type_synonym ('z, 'a) rec_prog = "('z disk_scheme, recovery_error, 'a) prog"

text \<open>The manifest when the generation verifies, none when it does not.\<close>

definition verify_generation ::
  "serde \<Rightarrow> (bytes \<Rightarrow> bytes) \<Rightarrow> path \<Rightarrow> string \<Rightarrow> ('z, active_head_manifest option) rec_prog"
where
  "verify_generation sj digest root activation_id =
     bind_p (attempt (read_active_manifest sj root activation_id)) (\<lambda>r.
     case r of
       Inl _ \<Rightarrow> ret None
     | Inr manifest \<Rightarrow>
         (case active_head_manifest_validate manifest of
            Inl _ \<Rightarrow> ret None
          | Inr _ \<Rightarrow>
              let gen_dir = active_generation_dir root activation_id; labels_path = gen_dir @ [active_labels_filename] in
              bind_p (attempt (sha256_stream digest (gen_dir @ [active_head_filename]))) (\<lambda>h.
              if h \<noteq> Ok (am_sha256 manifest) then ret None
              else bind_p (attempt (sha256_stream digest labels_path)) (\<lambda>l.
                bind_p (if l = Ok (am_labels_sha256 manifest) then ret ()
                        else map_err RecoveryFile (regenerate_labels_from_manifest labels_path manifest)) (\<lambda>_.
                ret (Some manifest))))))"

definition activate_bundled_default ::
  "serde \<Rightarrow> (bytes \<Rightarrow> bytes) \<Rightarrow> (fs \<Rightarrow> path \<Rightarrow> path \<Rightarrow> head_id \<Rightarrow> (string, 'c) result) \<Rightarrow> string \<Rightarrow> string \<Rightarrow> path \<Rightarrow>
     default_head_source option \<Rightarrow> ('z, recovery_active_result) rec_prog"
where
  "activate_bundled_default sj digest loader activation_id now root default_head =
     (case default_head of
        None \<Rightarrow> ret (Unhealthy DefaultNotConfigured)
      | Some source \<Rightarrow>
          bind_p (attempt (stage_and_validate_activation sj digest loader activation_id
              \<lparr>pa_root = root, pa_origin_input = DefaultInput source, pa_now_rfc3339 = now\<rparr>)) (\<lambda>r.
          case r of
            Inl e \<Rightarrow> ret (Unhealthy (DefaultActivationFailed e))
          | Inr result \<Rightarrow>
              bind_p (attempt (publish_active_generation sj root (staging_path_for root (ar_activation_id result))
                  (ar_activation_id result))) (\<lambda>p.
              case p of
                Inl e \<Rightarrow> ret (Unhealthy (DefaultPublishFailed e))
              | Inr _ \<Rightarrow> ret (DefaultedFromBundle (ar_activation_id result) (ar_manifest result)))))"

text \<open>Newest first: by recorded activation time, then modification time, then name; texts compare by bytes.\<close>

definition newer_candidate :: "string \<times> nat \<times> string \<Rightarrow> string \<times> nat \<times> string \<Rightarrow> bool" where
  "newer_candidate a b =
     (case (a, b) of ((at1, m1, n1), (at2, m2, n2)) \<Rightarrow>
        str_less at2 at1 \<or> at1 = at2 \<and> (m2 < m1 \<or> m1 = m2 \<and> str_less n1 n2))"

fun collect_candidates ::
  "serde \<Rightarrow> (path \<Rightarrow> nat) \<Rightarrow> path \<Rightarrow> string option \<Rightarrow> (string \<times> bool) list \<Rightarrow> ('z, (string \<times> nat \<times> string) list) rec_prog"
where
  "collect_candidates sj mtime root current_id [] = ret []"
| "collect_candidates sj mtime root current_id ((name, is_dir) # entries) =
     (let generations_root = active_generations_dir root in
      bind_p (map_err RecoveryFile (io_at generations_root (fs_call fs_next_entry))) (\<lambda>_.
      if Some name = current_id then collect_candidates sj mtime root current_id entries
      else bind_p (attempt (fs_call fs_next_entry)) (\<lambda>metadata.
        if (case metadata of Inl _ \<Rightarrow> True | Inr _ \<Rightarrow> \<not> is_dir) then collect_candidates sj mtime root current_id entries
        else bind_p (attempt (read_active_manifest sj root name)) (\<lambda>m.
          bind_p (collect_candidates sj mtime root current_id entries) (\<lambda>rest.
          ret ((case m of Inl _ \<Rightarrow> [] | Inr manifest \<Rightarrow> am_activated_at manifest, mtime (generations_root @ [name]), name) # rest))))))"

fun promote_first ::
  "serde \<Rightarrow> (bytes \<Rightarrow> bytes) \<Rightarrow> path \<Rightarrow> string list \<Rightarrow> ('z, recovery_active_result option) rec_prog"
where
  "promote_first sj digest root [] = ret None"
| "promote_first sj digest root (candidate_id # ids) =
     bind_p (verify_generation sj digest root candidate_id) (\<lambda>v.
     case v of
       None \<Rightarrow> promote_first sj digest root ids
     | Some manifest \<Rightarrow>
         bind_p (map_err RecoveryFile (write_active_current sj root \<lparr>ap_activation_id = candidate_id\<rparr>)) (\<lambda>_.
         bind_p (attempt (fsync_dir (active_dir root))) (\<lambda>_.
         ret (Some (PromotedPrevious candidate_id manifest)))))"

definition promote_or_default ::
  "serde \<Rightarrow> (bytes \<Rightarrow> bytes) \<Rightarrow> (fs \<Rightarrow> path \<Rightarrow> path \<Rightarrow> head_id \<Rightarrow> (string, 'c) result) \<Rightarrow> (path \<Rightarrow> nat) \<Rightarrow> string \<Rightarrow> string \<Rightarrow>
     path \<Rightarrow> string option \<Rightarrow> default_head_source option \<Rightarrow> ('z, recovery_active_result) rec_prog"
where
  "promote_or_default sj digest loader mtime activation_id now root current_id default_head =
     (let generations_root = active_generations_dir root in
      bind_p (fs_test (fs_is_dir generations_root)) (\<lambda>present.
      if \<not> present then activate_bundled_default sj digest loader activation_id now root default_head
      else bind_p (map_err RecoveryFile (io_at generations_root (fs_call (fs_read_dir generations_root)))) (\<lambda>entries.
        bind_p (collect_candidates sj mtime root current_id entries) (\<lambda>candidates.
        bind_p (promote_first sj digest root (map (\<lambda>(_, _, n). n) (sort_by newer_candidate candidates))) (\<lambda>promoted.
        case promoted of
          Some r \<Rightarrow> ret r
        | None \<Rightarrow> activate_bundled_default sj digest loader activation_id now root default_head)))))"

definition recover_active_head ::
  "serde \<Rightarrow> (bytes \<Rightarrow> bytes) \<Rightarrow> (fs \<Rightarrow> path \<Rightarrow> path \<Rightarrow> head_id \<Rightarrow> (string, 'c) result) \<Rightarrow> (path \<Rightarrow> nat) \<Rightarrow> string \<Rightarrow> string \<Rightarrow>
     path \<Rightarrow> default_head_source option \<Rightarrow> ('z, recovery_active_result) rec_prog"
where
  "recover_active_head sj digest loader mtime activation_id now root default_head =
     bind_p (fs_test (fs_exists (active_current_path root))) (\<lambda>present.
     if \<not> present then activate_bundled_default sj digest loader activation_id now root default_head
     else bind_p (attempt (read_active_current sj root)) (\<lambda>r.
       case r of
         Inl _ \<Rightarrow> promote_or_default sj digest loader mtime activation_id now root None default_head
       | Inr pointer \<Rightarrow>
           bind_p (verify_generation sj digest root (ap_activation_id pointer)) (\<lambda>v.
           case v of
             Some manifest \<Rightarrow> ret (RecoveredCurrent (ap_activation_id pointer) manifest)
           | None \<Rightarrow> promote_or_default sj digest loader mtime activation_id now root (Some (ap_activation_id pointer)) default_head)))"

definition recover_all ::
  "serde \<Rightarrow> tombstone_serde \<Rightarrow> (bytes \<Rightarrow> bytes) \<Rightarrow> (fs \<Rightarrow> path \<Rightarrow> path \<Rightarrow> head_id \<Rightarrow> (string, 'c) result) \<Rightarrow> (path \<Rightarrow> nat) \<Rightarrow>
     string \<Rightarrow> string \<Rightarrow> path \<Rightarrow> default_head_source option \<Rightarrow> (manager, recovery_error, recovery_report) prog"
where
  "recover_all sj tj digest loader mtime activation_id now root default_head =
     bind_p (recover_root_staging tj root) (\<lambda>root_staging.
     bind_p (recover_workspaces sj tj root) (\<lambda>workspaces.
     bind_p (recover_active_head sj digest loader mtime activation_id now root default_head) (\<lambda>active.
     ret \<lparr>rp_active = active, rp_workspaces = workspaces, rp_root_staging = root_staging\<rparr>)))"

end
