(* ===== verification/Disk_Wf.thy ===== *)
theory Disk_Wf
  imports Fs_Atomic
begin

text \<open>
  Well-formed trees: every entry lies in a directory.  Every call keeps a tree well-formed at each of its
  states, and so does every program built from calls.
\<close>

text \<open>Every entry lies in a directory.\<close>

definition fs_wf :: "fs \<Rightarrow> bool" where
  "fs_wf t \<longleftrightarrow> (\<forall>q. q \<noteq> [] \<longrightarrow> node_at t q \<noteq> None \<longrightarrow> node_at t (butlast q) = Some DirNode)"

lemma fs_wf_parent: "fs_wf t \<Longrightarrow> node_at t (d @ [x]) \<noteq> None \<Longrightarrow> node_at t d = Some DirNode"
  unfolding fs_wf_def by (metis butlast_snoc snoc_eq_iff_butlast)

lemma fs_wf_ancestor:
  assumes "fs_wf t" and "node_at t (d @ xs) \<noteq> None" and "xs \<noteq> []"
  shows "node_at t d = Some DirNode"
  using assms(2,3)
proof (induction xs rule: rev_induct)
  case (snoc x xs)
  then have "node_at t (d @ xs) = Some DirNode" using fs_wf_parent [OF assms(1), of "d @ xs" x] by simp
  then show ?case using snoc.IH by (cases "xs = []") auto
qed simp

lemma below_child:
  assumes "fs_wf t" and "strict_prefix d q" and "node_at t q \<noteq> None"
  obtains x where "prefix (d @ [x]) q" "node_at t (d @ [x]) \<noteq> None"
proof -
  obtain zs where "q = d @ zs" "zs \<noteq> []" using assms(2) by (auto simp: strict_prefix_def prefix_def)
  then obtain x xs where q: "q = d @ x # xs" by (cases zs) auto
  then have "node_at t (d @ [x]) \<noteq> None"
    using fs_wf_ancestor [OF assms(1), of "d @ [x]" xs] assms(3) by (cases "xs = []") auto
  then show ?thesis using that q by auto
qed

lemma fs_wf_delete: "fs_wf t \<Longrightarrow> \<not> has_below t p \<Longrightarrow> fs_wf (AList.delete p t)"
proof -
  assume t: "fs_wf t" "\<not> has_below t p"
  have "butlast q \<noteq> p" if "q \<noteq> []" "node_at t q \<noteq> None" for q
  proof
    assume "butlast q = p"
    then have "strict_prefix p q" using that(1) by (metis append_butlast_last_id strict_prefixI')
    then show False using t(2) that(2) by (auto simp: has_below_iff)
  qed
  then show ?thesis using t(1) unfolding fs_wf_def by (metis node_at_delete)
qed

lemma file_no_below: "fs_wf t \<Longrightarrow> node_at t p = Some (FileNode b) \<Longrightarrow> \<not> has_below t p"
  using fs_wf_ancestor [of t p] by (fastforce simp: has_below_iff strict_prefix_def prefix_def)

lemma absent_no_below: "fs_wf t \<Longrightarrow> node_at t p = None \<Longrightarrow> \<not> has_below t p"
  using fs_wf_ancestor [of t p] by (fastforce simp: has_below_iff strict_prefix_def prefix_def)

section \<open>The calls\<close>

definition op_wf :: "'a fs_op \<Rightarrow> bool" where
  "op_wf op \<longleftrightarrow> (\<forall>t x ts. fs_wf t \<longrightarrow> op t = Ok (x, ts) \<longrightarrow> (\<forall>s \<in> set ts. fs_wf s))"

lemma op_wfI: "(\<And>t x ts s. fs_wf t \<Longrightarrow> op t = Ok (x, ts) \<Longrightarrow> s \<in> set ts \<Longrightarrow> fs_wf s) \<Longrightarrow> op_wf op"
  by (auto simp: op_wf_def)

named_theorems wf_rules \<open>calls and programs that keep trees well-formed\<close>

lemma op_wf_reads [wf_rules]:
  "op_wf (fs_read p)" "op_wf (fs_exists p)" "op_wf (fs_is_file p)" "op_wf (fs_is_dir p)" "op_wf (fs_stat p)"
  "op_wf (fs_read_dir p)" "op_wf fs_sync" "op_wf (fs_open_dir p)"
  by (auto simp: op_wf_def fs_read_def fs_exists_def fs_is_file_def fs_is_dir_def fs_stat_def fs_read_dir_def fs_sync_def
    fs_open_dir_def split: option.splits node.splits if_splits)

lemma fs_wf_put_file:
  assumes "fs_wf t" and "p \<noteq> []" and "node_at t (butlast p) = Some DirNode" and "node_at t p \<noteq> Some DirNode"
  shows "fs_wf (AList.update p (FileNode b) t)"
  unfolding fs_wf_def
proof (intro allI impI)
  fix q assume q: "q \<noteq> []" "node_at (AList.update p (FileNode b) t) q \<noteq> None"
  have "butlast p \<noteq> p" using assms(2) by (metis append_butlast_last_id append_self_conv list.discI)
  moreover have "node_at t (butlast q) = Some DirNode" using q assms by (cases "q = p") (auto simp: fs_wf_def)
  ultimately show "node_at (AList.update p (FileNode b) t) (butlast q) = Some DirNode" using assms(4) by auto
qed

lemma op_wf_create [wf_rules]: "op_wf (fs_create_new p)" "op_wf (fs_create p)"
  by (auto simp: op_wf_def fs_create_new_def fs_create_def intro!: fs_wf_put_file split: if_splits)

lemma op_wf_write_all [wf_rules]: "op_wf (fs_write_all p bs)"
proof (rule op_wfI)
  fix t x ts s assume t: "fs_wf t" "fs_write_all p bs t = Ok (x, ts)" "s \<in> set ts"
  then obtain b c where b: "node_at t p = Some (FileNode b)" "s = AList.update p (FileNode c) t"
    by (auto simp: fs_write_all_def split: option.splits node.splits)
  show "fs_wf s"
  proof (cases "p = []")
    case True
    have "node_at t q = None" if "q \<noteq> []" for q
      using that fs_wf_ancestor [OF t(1), of "[]" q] b(1) True by (cases "node_at t q") auto
    then show ?thesis using True b(2) by (simp add: fs_wf_def)
  next
    case False
    then have "node_at t (butlast p) = Some DirNode" using t(1) b(1) unfolding fs_wf_def by (metis option.distinct(1))
    then show ?thesis unfolding b(2) using t(1) b(1) False by (intro fs_wf_put_file) auto
  qed
qed

lemma op_wf_remove [wf_rules]: "op_wf (fs_remove_file p)" "op_wf (fs_remove_dir p)"
  by (auto simp: op_wf_def fs_remove_file_def fs_remove_dir_def intro!: fs_wf_delete dest: file_no_below
    split: option.splits node.splits if_splits)

lemma delete_steps_wf:
  assumes "fs_wf t" and "sorted_wrt (\<lambda>a b. length b \<le> length a) qs"
    and "\<And>q r. q \<in> set qs \<Longrightarrow> strict_prefix q r \<Longrightarrow> node_at t r \<noteq> None \<Longrightarrow> r \<in> set qs"
  shows "\<forall>s \<in> set (delete_steps qs t). fs_wf s"
  using assms
proof (induction qs arbitrary: t)
  case (Cons q qs)
  have "\<not> has_below t q"
  proof
    assume "has_below t q"
    then obtain r where r: "strict_prefix q r" "node_at t r \<noteq> None" by (auto simp: has_below_iff)
    then have "r \<in> set (q # qs)" using Cons.prems(3) by auto
    then have "length r \<le> length q" using Cons.prems(2) by auto
    then show False using r(1) by (meson prefix_length_less not_le)
  qed
  then have wf: "fs_wf (AList.delete q t)" using Cons.prems(1) by (rule fs_wf_delete [rotated])
  have "\<forall>s \<in> set (delete_steps qs (AList.delete q t)). fs_wf s"
  proof (rule Cons.IH [OF wf])
    show "sorted_wrt (\<lambda>a b. length b \<le> length a) qs" using Cons.prems(2) by simp
    show "r \<in> set qs" if "p \<in> set qs" "strict_prefix p r" "node_at (AList.delete q t) r \<noteq> None" for p r
      using Cons.prems(3) [of p r] that by (auto split: if_splits)
  qed
  then show ?case using wf by simp
qed simp

lemma op_wf_remove_dir_all [wf_rules]: "op_wf (fs_remove_dir_all p)"
proof (rule op_wfI)
  fix t x ts s assume t: "fs_wf t" "fs_remove_dir_all p t = Ok (x, ts)" "s \<in> set ts"
  let ?qs = "rev (sort_key length (filter (prefix p) (remdups (map fst t))))"
  have "sorted_wrt (\<lambda>a b. length b \<le> length a) ?qs"
    using sorted_sort_key [of length "filter (prefix p) (remdups (map fst t))"] by (simp add: sorted_wrt_rev sorted_map)
  moreover have "r \<in> set ?qs" if "q \<in> set ?qs" "strict_prefix q r" "node_at t r \<noteq> None" for q r
    using that by (auto simp: node_at_def map_of_eq_None_iff dest: prefix_order.less_imp_le prefix_order.trans)
  ultimately have "\<forall>s \<in> set (delete_steps ?qs t). fs_wf s" by (intro delete_steps_wf [OF t(1)]) blast+
  then show "fs_wf s" using t(2,3) by (auto simp: fs_remove_dir_all_def split: option.splits node.splits)
qed

lemma mkdir_steps_append: "mkdir_steps (as @ bs) t = mkdir_steps as t @ mkdir_steps bs (last (t # mkdir_steps as t))"
proof (induction as arbitrary: t)
  case (Cons a as)
  then show ?case by (cases "node_at t a") (auto simp del: last.simps simp: last_ConsR)
qed simp

lemma fs_wf_put_dir:
  assumes "fs_wf t" and "node_at t p = None" and "p \<noteq> [] \<Longrightarrow> node_at t (butlast p) = Some DirNode"
  shows "fs_wf (AList.update p DirNode t)"
  unfolding fs_wf_def
proof (intro allI impI)
  fix q assume "q \<noteq> []" "node_at (AList.update p DirNode t) q \<noteq> None"
  then show "node_at (AList.update p DirNode t) (butlast q) = Some DirNode"
    using assms by (cases "q = p") (auto simp: fs_wf_def)
qed

lemma mkdir_steps_wf:
  assumes "fs_wf t" and "\<forall>q. prefix q p \<longrightarrow> node_at t q \<in> {None, Some DirNode}"
  shows "\<forall>s \<in> set (mkdir_steps (prefixes p) t). fs_wf s"
  using assms(2)
proof (induction p rule: rev_induct)
  case Nil
  show ?case using assms(1) fs_wf_put_dir [OF assms(1), of "[]"] by simp
next
  case (snoc x p)
  let ?ss = "mkdir_steps (prefixes p) t"
  let ?t = "last (t # ?ss)"
  have IH: "\<forall>s \<in> set ?ss. fs_wf s" using snoc.IH snoc.prems by (meson prefix_snoc)
  then have wf: "fs_wf ?t" using assms(1) by auto
  have "node_at t p \<in> {None, Some DirNode}" using snoc.prems by (meson prefix_order.eq_iff prefix_snoc)
  then have "node_at ?t p = Some DirNode" using mkdir_steps_final [of t "prefixes p" p] by auto
  then have "fs_wf (AList.update (p @ [x]) DirNode ?t)" if "node_at ?t (p @ [x]) = None"
    using fs_wf_put_dir [OF wf that] by simp
  then show ?case using IH by (auto simp: mkdir_steps_append)
qed

lemma op_wf_create_dir_all [wf_rules]: "op_wf (fs_create_dir_all p)"
proof (rule op_wfI)
  fix t x ts s assume t: "fs_wf t" "fs_create_dir_all p t = Ok (x, ts)" "s \<in> set ts"
  then have "\<forall>s \<in> set (mkdir_steps (prefixes p) t). fs_wf s"
    by (intro mkdir_steps_wf) (auto simp: fs_create_dir_all_def list_ex_iff split: if_splits)
  then show "fs_wf s" using t(2,3) by (auto simp: fs_create_dir_all_def split: if_splits)
qed

lemma move_tree_wf:
  assumes "fs_wf t" and "node_at t src = Some DirNode" and "node_at t (butlast dst) = Some DirNode" and "\<not> prefix src dst"
    and "\<not> has_below t dst"
  shows "fs_wf (move_tree src dst t)"
  unfolding fs_wf_def
proof (intro allI impI)
  note node = node_at_move_tree [OF assms(5,4)]
  fix q assume q: "q \<noteq> []" "node_at (move_tree src dst t) q \<noteq> None"
  have "dst \<noteq> []"
  proof
    assume "dst = []"
    then have "strict_prefix dst src" using assms(4) by (cases src) auto
    then show False using assms(2,5) by (auto simp: has_below_iff)
  qed
  show "node_at (move_tree src dst t) (butlast q) = Some DirNode"
  proof (cases "prefix dst q")
    case True
    then obtain z where z: "q = dst @ z" by (auto simp: prefix_def)
    show ?thesis
    proof (cases z rule: rev_cases)
      case Nil
      then have "butlast q = butlast dst" using z by simp
      moreover have "\<not> prefix dst (butlast dst)" using prefix_length_le [of dst "butlast dst"] \<open>dst \<noteq> []\<close> by (cases dst) auto
      moreover have "\<not> prefix src (butlast dst)" using assms(4) by (metis append_butlast_last_id \<open>dst \<noteq> []\<close> prefix_prefix)
      ultimately show ?thesis using node assms(3) by simp
    next
      case (snoc zs y)
      then have "node_at t (src @ zs @ [y]) \<noteq> None" using q(2) z node by simp
      then have "node_at t (src @ zs) = Some DirNode" using fs_wf_parent [OF assms(1), of "src @ zs" y] by simp
      then show ?thesis using z snoc node by (simp add: butlast_append)
    qed
  next
    case False
    then have "\<not> prefix src q" "node_at t q \<noteq> None" using q(2) node by (auto split: if_splits)
    then have "node_at t (butlast q) = Some DirNode" using assms(1) q(1) unfolding fs_wf_def by blast
    moreover have "\<not> prefix src (butlast q)" "\<not> prefix dst (butlast q)"
      using False \<open>\<not> prefix src q\<close> q(1) by (metis append_butlast_last_id prefix_prefix)+
    ultimately show ?thesis using node by simp
  qed
qed

lemma op_wf_rename [wf_rules]: "op_wf (fs_rename src dst)"
proof (rule op_wfI)
  fix t x ts s assume t: "fs_wf t" "fs_rename src dst t = Ok (x, ts)" "s \<in> set ts"
  then consider (same) "s = t"
    | (one) b where "node_at t src = Some (FileNode b)" "node_at t (butlast dst) = Some DirNode" "node_at t dst \<noteq> Some DirNode"
        "s = AList.update dst (FileNode b) (AList.delete src t)"
    | (tree) "node_at t src = Some DirNode" "node_at t (butlast dst) = Some DirNode" "\<not> prefix src dst" "\<not> has_below t dst"
        "s = move_tree src dst t"
    by (auto simp: fs_rename_def split: option.splits node.splits if_splits)
  then show "fs_wf s"
  proof cases
    case one
    have wf: "fs_wf (AList.delete src t)" using fs_wf_delete [OF t(1) file_no_below [OF t(1) one(1)]] .
    have "butlast dst \<noteq> src" using one(1,2) by auto
    moreover have "dst \<noteq> []" using one(2,3) by auto
    ultimately show ?thesis unfolding one(4) using wf one(2,3) by (intro fs_wf_put_file) auto
  qed (use t(1) move_tree_wf in auto)
qed

section \<open>Programs\<close>

definition wf_prog :: "('z disk_scheme, 'e, 'a) prog \<Rightarrow> bool" where
  "wf_prog m \<longleftrightarrow> (\<forall>w. fs_wf (dk_fs w) \<longrightarrow> run_ok fs_wf m w (\<lambda>r w'. True))"

lemma wf_progD: "wf_prog m \<Longrightarrow> fs_wf (dk_fs w) \<Longrightarrow> run_ok fs_wf m w (\<lambda>r w'. fs_wf (dk_fs w'))"
  unfolding wf_prog_def run_ok_def using passes_final by fastforce

lemma wf_prog_call [wf_rules]: "op_wf op \<Longrightarrow> wf_prog (fs_call op)"
  unfolding wf_prog_def by (intro allI impI run_ok_call) (auto simp: op_wf_def)

lemma wf_prog_ret [wf_rules]: "wf_prog (ret x)" and wf_prog_fail [wf_rules]: "wf_prog (fail e)"
  and wf_prog_lift [wf_rules]: "wf_prog (lift_result r)"
  by (auto simp: wf_prog_def intro: run_ok_ret run_ok_fail run_ok_lift)

lemma wf_prog_bind [wf_rules]:
  fixes m :: "('z disk_scheme, 'e, 'a) prog" and f :: "'a \<Rightarrow> ('z disk_scheme, 'e, 'b) prog"
  assumes "wf_prog m" and "\<And>x. wf_prog (f x)"
  shows "wf_prog (bind_p m f)"
  unfolding wf_prog_def
proof (intro allI impI run_ok_seq [OF wf_progD [OF assms(1)]])
  fix w w' :: "'z disk_scheme" and x assume "fs_wf (dk_fs w')"
  then show "run_ok fs_wf (f x) w' (\<lambda>r w'. True)" using assms(2) by (simp add: wf_prog_def)
qed auto

lemma wf_prog_map_err [wf_rules]: "wf_prog m \<Longrightarrow> wf_prog (map_err g m)"
  unfolding wf_prog_def by (intro allI impI run_ok_map_err) (auto elim: run_ok_post split: sum.splits)

lemma wf_prog_attempt [wf_rules]: "wf_prog m \<Longrightarrow> wf_prog (attempt m)"
  unfolding wf_prog_def by (intro allI impI run_ok_attempt) auto

lemma wf_prog_io_at [wf_rules]: "wf_prog m \<Longrightarrow> wf_prog (io_at p m)"
  unfolding io_at_def by (rule wf_prog_map_err)

lemma wf_prog_test [wf_rules]: "op_wf op \<Longrightarrow> wf_prog (fs_test op)"
  unfolding fs_test_def by (intro wf_rules)

lemma wf_prog_if [wf_rules]: "(b \<Longrightarrow> wf_prog m) \<Longrightarrow> (\<not> b \<Longrightarrow> wf_prog n) \<Longrightarrow> wf_prog (if b then m else n)"
  by simp

lemma wf_prog_sum [wf_rules]: "(\<And>e. wf_prog (f e)) \<Longrightarrow> (\<And>x. wf_prog (g x)) \<Longrightarrow> wf_prog (case r of Inl e \<Rightarrow> f e | Inr x \<Rightarrow> g x)"
  by (cases r) simp_all

lemma wf_prog_fsync_dir [wf_rules]: "wf_prog (fsync_dir p)"
  unfolding fsync_dir_def by (intro wf_rules)

lemma wf_prog_temp_new_in [wf_rules]: "wf_prog (temp_new_in d :: ('z disk_scheme, io_error, path) prog)"
proof -
  have "wf_prog (bind_p (fs_call (fs_create_new p)) (\<lambda>_. ret p) :: ('z disk_scheme, io_error, path) prog)" for p
    by (intro wf_rules)
  then show ?thesis by (simp add: wf_prog_def temp_new_in_def run_ok_def Let_def)
qed

lemma wf_prog_put_atomic [wf_rules]: "wf_prog (put_atomic p bs)"
  unfolding put_atomic_def or_drop_def temp_drop_def Let_def by (intro wf_rules)

end
