(* ===== verification/Staging_Properties.thy ===== *)
theory Staging_Properties
  imports Staging Active_Staging Disk_Wf
begin

text \<open>
  What the steps of a delete do to the tree, whatever calls fail: the target is complete in its place or
  complete below the staging directory with its tombstone written; draining removes entries of the payload
  only and, without failures, ends with an empty payload after boundedly many batches.
\<close>

section \<open>Removals\<close>

text \<open>\<open>shrinks X t s\<close>: from \<open>t\<close> to \<open>s\<close> only entries in \<open>X\<close> have gone and nothing else has changed.\<close>

definition shrinks :: "path set \<Rightarrow> fs \<Rightarrow> fs \<Rightarrow> bool" where
  "shrinks X t s \<longleftrightarrow> (\<forall>q. node_at s q = node_at t q \<or> q \<in> X \<and> node_at s q = None)"

lemma shrinks_refl [simp]: "shrinks X t t"
  by (simp add: shrinks_def)

lemma shrinks_trans: "shrinks X t s \<Longrightarrow> shrinks X s u \<Longrightarrow> shrinks X t u"
  unfolding shrinks_def by metis

lemma shrinks_mono: "shrinks X t s \<Longrightarrow> X \<subseteq> Y \<Longrightarrow> shrinks Y t s"
  unfolding shrinks_def by blast

lemma shrinks_only: "shrinks X t s \<Longrightarrow> only X t s"
  unfolding shrinks_def only_def by metis

lemma shrinks_node: "shrinks X t s \<Longrightarrow> p \<notin> X \<Longrightarrow> node_at s p = node_at t p"
  unfolding shrinks_def by metis

lemma shrinks_gone: "shrinks X t s \<Longrightarrow> node_at t q = None \<Longrightarrow> node_at s q = None"
  unfolding shrinks_def by metis

lemma shrinks_present: "shrinks X t s \<Longrightarrow> node_at s q \<noteq> None \<Longrightarrow> node_at t q \<noteq> None"
  using shrinks_gone [of X t s q] by argo

lemma shrinks_has_below: "shrinks X t s \<Longrightarrow> \<not> has_below t d \<Longrightarrow> \<not> has_below s d"
  using shrinks_gone by (fastforce simp: has_below_iff)

abbreviation under :: "path \<Rightarrow> path set" where
  "under d \<equiv> {q. strict_prefix d q}"

text \<open>The entries that went.\<close>

definition lost :: "fs \<Rightarrow> fs \<Rightarrow> path set" where
  "lost t s = {q. node_at t q \<noteq> None \<and> node_at s q = None}"

lemma finite_nodes: "finite {q. node_at t q \<noteq> None}"
proof (rule finite_subset)
  show "{q. node_at t q \<noteq> None} \<subseteq> fst ` set t" by (force simp: node_at_def dest: map_of_SomeD)
qed simp

lemma finite_lost [simp]: "finite (lost t s)"
  by (rule finite_subset [OF _ finite_nodes [of t]]) (auto simp: lost_def)

lemma lost_refl [simp]: "lost t t = {}"
  by (auto simp: lost_def)

lemma card_lost_trans:
  assumes "shrinks X t s" and "shrinks Y s u"
  shows "card (lost t u) = card (lost t s) + card (lost s u)"
proof -
  have step: "(node_at s q = node_at t q \<or> node_at s q = None) \<and> (node_at u q = node_at s q \<or> node_at u q = None)" for q
    using assms unfolding shrinks_def by metis
  have "q \<in> lost t u \<longleftrightarrow> q \<in> lost t s \<union> lost s u" for q
    using step [of q] unfolding lost_def by (cases "node_at t q"; cases "node_at s q") auto
  then have "lost t u = lost t s \<union> lost s u" by blast
  moreover have "lost t s \<inter> lost s u = {}" by (auto simp: lost_def)
  ultimately show ?thesis by (simp add: card_Un_disjoint)
qed

lemma lost_delete [simp]: "node_at t p \<noteq> None \<Longrightarrow> lost t (AList.delete p t) = {p}"
  by (auto simp: lost_def)

lemma shrinks_delete: "p \<in> X \<Longrightarrow> shrinks X t (AList.delete p t)"
  by (simp add: shrinks_def)

section \<open>Calls that can only fail by a fault\<close>

definition same_world :: "'z disk_scheme \<Rightarrow> 'z disk_scheme \<Rightarrow> bool" where
  "same_world w w' \<longleftrightarrow> disk.more w' = disk.more w \<and> dk_fault w' = dk_fault w"

lemma same_world_refl [simp]: "same_world w w"
  by (simp add: same_world_def)

lemma same_world_trans: "same_world u v \<Longrightarrow> same_world v w \<Longrightarrow> same_world u w"
  by (simp add: same_world_def)

lemma unchanged_same: "unchanged w w' \<longleftrightarrow> same_world w w' \<and> dk_fs w' = dk_fs w"
  by (auto simp: unchanged_def same_world_def)

definition faulty :: "'z disk_scheme \<Rightarrow> bool" where
  "faulty w \<longleftrightarrow> (\<exists>i. dk_fault w i \<noteq> None)"

lemma faulty_same: "same_world w w' \<Longrightarrow> faulty w' = faulty w"
  by (simp add: same_world_def faulty_def)

lemma faulty_unchanged: "unchanged w w' \<Longrightarrow> faulty w' = faulty w"
  by (simp add: unchanged_same faulty_same)

lemma run_ok_sure:
  assumes "op (dk_fs w) = Ok (x, ts)" and "length ts \<le> 1" and "\<forall>t \<in> set ts. I t"
    and "\<And>e w'. faulty w \<Longrightarrow> unchanged w w' \<Longrightarrow> Q (Err (g e)) w'"
    and "\<And>w'. same_world w w' \<Longrightarrow> dk_fs w' = last (dk_fs w # ts) \<Longrightarrow> run_ok I (f x) w' Q"
  shows "run_ok I (bind_p (map_err g (fs_call op)) f) w Q"
proof (rule run_ok_seq_err [OF call_spec])
  show "Q (Inl (g e)) w'" if "call_post op w (Inl e) w'" for e w'
  proof (rule assms(4))
    show "faulty w" using that assms(1) by (auto simp: call_post_def faulty_def)
    have "butlast ts = []" using assms(2) by (cases ts) auto
    then show "unchanged w w'" using that assms(1) by (auto simp: call_post_def unchanged_def)
  qed
  show "run_ok I (f y) w' Q" if "call_post op w (Inr y) w'" for y w'
    using that assms(1) assms(5) [of w'] by (auto simp: call_post_def same_world_def)
qed (use assms in auto)

lemma run_ok_entry:
  assumes "\<And>e w'. faulty w \<Longrightarrow> unchanged w w' \<Longrightarrow> Q (Err (g e)) w'"
    and "\<And>w'. unchanged w w' \<Longrightarrow> run_ok I (f ()) w' Q"
  shows "run_ok I (bind_p (map_err g (fs_call fs_next_entry)) f) w Q"
  by (rule run_ok_sure [of fs_next_entry _ "()" "[]"]) (use assms in \<open>auto simp: fs_next_entry_def unchanged_same\<close>)

section \<open>Listings\<close>

text \<open>What a listing promises about a tree.\<close>

definition lists_dir :: "fs \<Rightarrow> path \<Rightarrow> (string \<times> bool) list \<Rightarrow> bool" where
  "lists_dir t dir es \<longleftrightarrow>
     distinct (map fst es) \<and> (\<forall>x b. (x, b) \<in> set es \<longrightarrow> node_at t (dir @ [x]) \<noteq> None \<and> b = is_dir_at t (dir @ [x]))"

definition lists_all :: "fs \<Rightarrow> path \<Rightarrow> (string \<times> bool) list \<Rightarrow> bool" where
  "lists_all t dir es \<longleftrightarrow> (\<forall>x. node_at t (dir @ [x]) \<noteq> None \<longrightarrow> x \<in> fst ` set es)"

lemma fs_read_dir_lists:
  assumes "node_at t dir = Some DirNode"
  obtains es where "fs_read_dir dir t = Ok (es, [])" "lists_dir t dir es" "lists_all t dir es"
proof -
  let ?qs = "filter (\<lambda>q. q \<noteq> [] \<and> butlast q = dir) (remdups (map fst t))"
  let ?es = "map (\<lambda>q. (last q, is_dir_at t q)) ?qs"
  have q: "q = dir @ [last q] \<and> node_at t q \<noteq> None" if "q \<in> set ?qs" for q
    using that by (auto simp: node_at_def map_of_eq_None_iff append_butlast_last_id)
  have "inj_on last (set ?qs)" using q by (metis (no_types, lifting) inj_onI)
  then have "distinct (map fst ?es)" by (simp add: distinct_map comp_def)
  moreover have "node_at t (dir @ [x]) \<noteq> None \<and> b = is_dir_at t (dir @ [x])" if "(x, b) \<in> set ?es" for x b
    using that q by fastforce
  moreover have "x \<in> fst ` set ?es" if "node_at t (dir @ [x]) \<noteq> None" for x
  proof -
    have "dir @ [x] \<in> set ?qs" using that by (simp add: node_at_def map_of_eq_None_iff)
    then show ?thesis by (force simp: image_iff)
  qed
  ultimately have "lists_dir t dir ?es" "lists_all t dir ?es" by (auto simp: lists_dir_def lists_all_def)
  moreover have "fs_read_dir dir t = Ok (?es, [])" using assms by (simp add: fs_read_dir_def)
  ultimately show ?thesis using that by blast
qed

section \<open>Draining\<close>

text \<open>
  Draining a directory removes entries below it only, each costing one unit of the budget; done means that
  nothing is left below, more means that the budget is used up, and an error needs a fault.
\<close>

definition drain_states :: "path \<Rightarrow> fs \<Rightarrow> fs \<Rightarrow> bool" where
  "drain_states dir t s \<longleftrightarrow> shrinks (under dir) t s \<and> fs_wf s"

definition drain_post ::
  "path \<Rightarrow> nat \<Rightarrow> nat \<Rightarrow> 'z disk_scheme \<Rightarrow> (file_error, drain_result \<times> nat) result \<Rightarrow> 'z disk_scheme \<Rightarrow> bool"
where
  "drain_post dir budget removed w r w' \<longleftrightarrow>
     same_world w w' \<and> drain_states dir (dk_fs w) (dk_fs w') \<and>
     (case r of
        Inl e \<Rightarrow> faulty w
      | Inr (res, k) \<Rightarrow>
          removed \<le> k \<and> k \<le> budget \<and> card (lost (dk_fs w) (dk_fs w')) = k - removed \<and>
          (case res of DrainDone \<Rightarrow> \<not> has_below (dk_fs w') dir | DrainMore \<Rightarrow> k = budget))"

lemma drain_states_refl [simp]: "drain_states dir t t = fs_wf t"
  by (simp add: drain_states_def)

lemma drain_states_trans: "drain_states dir t s \<Longrightarrow> drain_states dir s u \<Longrightarrow> drain_states dir t u"
  by (auto simp: drain_states_def intro: shrinks_trans)

lemma under_child: "under (dir @ [x]) \<subseteq> under dir" "dir @ [x] \<in> under dir"
  by (auto simp: strict_prefix_def prefix_def)

lemma drain_states_child: "drain_states (dir @ [x]) t s \<Longrightarrow> drain_states dir t s"
  unfolding drain_states_def using shrinks_mono under_child(1) by blast

lemma drain_states_delete:
  assumes "fs_wf t" and "\<not> has_below t (dir @ [x])"
  shows "drain_states dir t (AList.delete (dir @ [x]) t)"
  using assms fs_wf_delete shrinks_delete [OF under_child(2)] by (simp add: drain_states_def)

lemma drain_post_after:
  assumes "drain_post dir budget k v r w'" and "same_world w v" and "drain_states dir (dk_fs w) (dk_fs v)"
    and "card (lost (dk_fs w) (dk_fs v)) = k - removed" and "removed \<le> k"
  shows "drain_post dir budget removed w r w'"
proof -
  have "same_world w w'" using assms(1,2) same_world_trans by (auto simp: drain_post_def)
  moreover have "drain_states dir (dk_fs w) (dk_fs w')" using assms(1,3) drain_states_trans by (auto simp: drain_post_def)
  moreover have "faulty w = faulty v" using faulty_same [OF assms(2)] by simp
  moreover have "card (lost (dk_fs w) (dk_fs w')) = card (lost (dk_fs w) (dk_fs v)) + card (lost (dk_fs v) (dk_fs w'))"
    by (rule card_lost_trans [of "under dir" _ _ "under dir"]) (use assms(1,3) in \<open>auto simp: drain_post_def drain_states_def\<close>)
  ultimately show ?thesis
    using assms by (auto simp: drain_post_def split: sum.splits prod.splits drain_result.splits)
qed

text \<open>The rest of a listing after its first entry has gone.\<close>

lemma lists_dir_tail:
  assumes "lists_dir t dir ((x, b) # es)" and "shrinks (insert (dir @ [x]) (under (dir @ [x]))) t s"
  shows "lists_dir s dir es"
proof -
  have "node_at s (dir @ [y]) = node_at t (dir @ [y])" if "y \<noteq> x" for y
    by (rule shrinks_node [OF assms(2)]) (use that in \<open>auto simp: strict_prefix_def prefix_def\<close>)
  note same = this
  have "distinct (map fst es)" "x \<notin> fst ` set es" using assms(1) by (auto simp: lists_dir_def)
  moreover have "node_at s (dir @ [y]) \<noteq> None \<and> c = is_dir_at s (dir @ [y])" if "(y, c) \<in> set es" for y c
  proof -
    have "y \<noteq> x" using that \<open>x \<notin> fst ` set es\<close> by force
    moreover have "node_at t (dir @ [y]) \<noteq> None \<and> c = is_dir_at t (dir @ [y])"
      using assms(1) that unfolding lists_dir_def by (meson list.set_intros(2))
    ultimately show ?thesis using same [of y] by (simp add: is_dir_at_def)
  qed
  ultimately show ?thesis unfolding lists_dir_def by blast
qed

lemma lists_all_tail:
  assumes "lists_all t dir ((x, b) # es)" and "shrinks X t s" and "node_at s (dir @ [x]) = None"
  shows "lists_all s dir es"
  unfolding lists_all_def
proof (intro allI impI)
  fix y
  assume y: "node_at s (dir @ [y]) \<noteq> None"
  then have "node_at t (dir @ [y]) \<noteq> None" by (rule shrinks_present [OF assms(2)])
  then have "y \<in> fst ` set ((x, b) # es)" using assms(1) by (simp add: lists_all_def)
  moreover have "y \<noteq> x" using y assms(3) by auto
  ultimately show "y \<in> fst ` set es" by simp
qed

lemma lists_none: "fs_wf t \<Longrightarrow> lists_all t dir [] \<Longrightarrow> \<not> has_below t dir"
proof
  assume "fs_wf t" "lists_all t dir []" "has_below t dir"
  then obtain q where "strict_prefix dir q" "node_at t q \<noteq> None" by (auto simp: has_below_iff)
  with \<open>fs_wf t\<close> obtain x where "node_at t (dir @ [x]) \<noteq> None" by (rule below_child)
  with \<open>lists_all t dir []\<close> show False unfolding lists_all_def by simp
qed

definition depth_below :: "fs \<Rightarrow> path \<Rightarrow> nat \<Rightarrow> bool" where
  "depth_below t dir n \<longleftrightarrow> (\<forall>q. prefix dir q \<longrightarrow> node_at t q \<noteq> None \<longrightarrow> length q < length dir + n)"

lemma depth_below_shrinks: "depth_below t dir n \<Longrightarrow> shrinks X t s \<Longrightarrow> depth_below s dir n"
  unfolding depth_below_def by (intro allI impI) (metis shrinks_present)

lemma depth_below_child: "depth_below t dir (Suc n) \<Longrightarrow> depth_below t (dir @ [x]) n"
  by (fastforce simp: depth_below_def dest: append_prefixD)

lemma drain_file_step:
  assumes "node_at t p = Some (FileNode b)"
  shows "fs_remove_file p t = Ok ((), [AList.delete p t])"
  using assms by (simp add: fs_remove_file_def)

lemma drain_dir_step:
  assumes "node_at t p = Some DirNode" and "\<not> has_below t p"
  shows "fs_remove_dir p t = Ok ((), [AList.delete p t])"
  using assms by (simp add: fs_remove_dir_def)

text \<open>
  What the rest of a listing does once its first entry has gone: \<open>m\<close> drains the listing \<open>es\<close> with \<open>k\<close> units used.
\<close>

definition drains ::
  "path \<Rightarrow> nat \<Rightarrow> nat \<Rightarrow> (string \<times> bool) list \<Rightarrow> nat \<Rightarrow> ('z, drain_result \<times> nat) file_prog \<Rightarrow> bool"
where
  "drains dir budget n es k m \<longleftrightarrow>
     (\<forall>v. fs_wf (dk_fs v) \<longrightarrow> k \<le> budget \<longrightarrow> depth_below (dk_fs v) dir (Suc n) \<longrightarrow> lists_dir (dk_fs v) dir es \<longrightarrow>
        lists_all (dk_fs v) dir es \<longrightarrow> run_ok (drain_states dir (dk_fs v)) m v (drain_post dir budget k v))"

lemma drainsD:
  "drains dir budget n es k m \<Longrightarrow> fs_wf (dk_fs v) \<Longrightarrow> k \<le> budget \<Longrightarrow> depth_below (dk_fs v) dir (Suc n) \<Longrightarrow>
     lists_dir (dk_fs v) dir es \<Longrightarrow> lists_all (dk_fs v) dir es \<Longrightarrow>
     run_ok (drain_states dir (dk_fs v)) m v (drain_post dir budget k v)"
  by (simp add: drains_def)

definition at_entry :: "path \<Rightarrow> nat \<Rightarrow> string \<Rightarrow> bool \<Rightarrow> (string \<times> bool) list \<Rightarrow> nat \<Rightarrow> nat \<Rightarrow> 'z disk_scheme \<Rightarrow> bool" where
  "at_entry dir n x b es budget removed w \<longleftrightarrow>
     fs_wf (dk_fs w) \<and> removed < budget \<and> depth_below (dk_fs w) dir (Suc n) \<and>
     lists_dir (dk_fs w) dir ((x, b) # es) \<and> lists_all (dk_fs w) dir ((x, b) # es)"

lemma at_entry_node:
  "at_entry dir n x b es budget removed w \<Longrightarrow>
     node_at (dk_fs w) (dir @ [x]) \<noteq> None \<and> b = is_dir_at (dk_fs w) (dir @ [x])"
  by (auto simp: at_entry_def lists_dir_def)

lemma at_entry_unchanged: "at_entry dir n x b es budget removed w \<Longrightarrow> unchanged w v \<Longrightarrow> at_entry dir n x b es budget removed v"
  by (simp add: at_entry_def unchanged_def)

lemma drain_rest:
  assumes w: "at_entry dir n x b es budget removed w" and m: "drains dir budget n es (Suc k) m"
    and v: "same_world w v" "shrinks (insert (dir @ [x]) (under (dir @ [x]))) (dk_fs w) (dk_fs v)" "fs_wf (dk_fs v)"
      "node_at (dk_fs v) (dir @ [x]) = None" "card (lost (dk_fs w) (dk_fs v)) = Suc k - removed" "removed \<le> k" "k < budget"
  shows "run_ok (drain_states dir (dk_fs w)) m v (drain_post dir budget removed w)"
proof -
  have "insert (dir @ [x]) (under (dir @ [x])) \<subseteq> under dir" using under_child [of dir x] by blast
  then have st: "drain_states dir (dk_fs w) (dk_fs v)" using v(3) shrinks_mono [OF v(2)] by (simp add: drain_states_def)
  have "depth_below (dk_fs v) dir (Suc n)" "lists_dir (dk_fs v) dir es" "lists_all (dk_fs v) dir es"
    using w depth_below_shrinks [OF _ v(2)] lists_dir_tail [OF _ v(2)] lists_all_tail [OF _ v(2,4)] by (auto simp: at_entry_def)
  then have "run_ok (drain_states dir (dk_fs v)) m v (drain_post dir budget (Suc k) v)"
    using m v(3,7) by (simp add: drains_def)
  then show ?thesis
    by (rule run_ok_weaken) (use st v in \<open>auto intro: drain_states_trans drain_post_after\<close>)
qed

lemma drain_post_error:
  "fs_wf (dk_fs w) \<Longrightarrow> faulty v \<Longrightarrow> unchanged v u \<Longrightarrow> same_world w v \<Longrightarrow> drain_states dir (dk_fs w) (dk_fs v) \<Longrightarrow>
     drain_post dir budget removed w (Err e) u"
  using same_world_trans by (auto simp: drain_post_def unchanged_same faulty_same)

lemma drain_entry_file:
  assumes w: "at_entry dir n x False es budget removed w" and m: "drains dir budget n es (Suc removed) m"
  shows "run_ok (drain_states dir (dk_fs w)) (bind_p (io_at (dir @ [x]) (fs_call (fs_remove_file (dir @ [x])))) (\<lambda>_. m)) w
     (drain_post dir budget removed w)"
proof -
  let ?p = "dir @ [x]" and ?t = "dk_fs w"
  have wf: "fs_wf ?t" using w by (simp add: at_entry_def)
  obtain bs where bs: "node_at ?t ?p = Some (FileNode bs)"
    using at_entry_node [OF w] by (cases "node_at ?t ?p"; cases "the (node_at ?t ?p)") (auto simp: is_dir_at_def)
  have nb: "\<not> has_below ?t ?p" by (rule file_no_below [OF wf bs])
  show ?thesis
    unfolding io_at_def
  proof (rule run_ok_sure [where op = "fs_remove_file ?p" and w = w, OF drain_file_step [OF bs]])
    fix v assume v: "same_world w v" "dk_fs v = last (?t # [AList.delete ?p ?t])"
    show "run_ok (drain_states dir ?t) m v (drain_post dir budget removed w)"
      by (rule drain_rest [OF w m]) (use v bs nb wf w in \<open>auto simp: at_entry_def intro: shrinks_delete fs_wf_delete\<close>)
  qed (use wf drain_states_delete [OF wf nb] in \<open>auto intro: drain_post_error\<close>)
qed

lemma drain_entry_emptied:
  assumes w: "at_entry dir n x True es budget removed w" and m: "drains dir budget n es (Suc k) m"
    and v: "same_world w v" "shrinks (under (dir @ [x])) (dk_fs w) (dk_fs v)" "fs_wf (dk_fs v)" "removed \<le> k" "k < budget"
      "card (lost (dk_fs w) (dk_fs v)) = k - removed" "\<not> has_below (dk_fs v) (dir @ [x])"
  shows "run_ok (drain_states dir (dk_fs w)) (bind_p (io_at (dir @ [x]) (fs_call (fs_remove_dir (dir @ [x])))) (\<lambda>_. m)) v
     (drain_post dir budget removed w)"
proof -
  let ?p = "dir @ [x]" and ?t = "dk_fs w" and ?s = "AList.delete (dir @ [x]) (dk_fs v)"
  have wf: "fs_wf ?t" using w by (simp add: at_entry_def)
  have dn: "node_at (dk_fs v) ?p = Some DirNode"
    using shrinks_node [OF v(2), of ?p] at_entry_node [OF w] by (simp add: is_dir_at_def)
  have st: "drain_states dir ?t (dk_fs v)"
    using v(2,3) drain_states_child [of dir x] by (simp add: drain_states_def)
  have sh: "shrinks (insert ?p (under ?p)) ?t (dk_fs v)" "shrinks (insert ?p (under ?p)) (dk_fs v) ?s"
    using shrinks_mono [OF v(2)] by (auto intro: shrinks_delete)
  have card: "card (lost ?t ?s) = Suc k - removed" using card_lost_trans [OF sh] v(4,6) dn by simp
  show ?thesis
    unfolding io_at_def
  proof (rule run_ok_sure [where op = "fs_remove_dir ?p" and w = v, OF drain_dir_step [OF dn v(7)]])
    fix u assume u: "same_world v u" "dk_fs u = last (dk_fs v # [?s])"
    show "run_ok (drain_states dir ?t) m u (drain_post dir budget removed w)"
      by (rule drain_rest [OF w m])
        (use u v card sh in \<open>auto intro: same_world_trans shrinks_trans fs_wf_delete\<close>)
  qed (use wf v st drain_states_trans [OF st drain_states_delete [OF v(3,7)]] in \<open>auto intro: drain_post_error\<close>)
qed

lemma drain_entry_dir:
  assumes w: "at_entry dir n x True es budget removed w" and m: "\<And>k. drains dir budget n es (Suc k) (m k)"
    and sub: "run_ok (drain_states (dir @ [x]) (dk_fs w)) sub w (drain_post (dir @ [x]) budget removed w)"
  shows "run_ok (drain_states dir (dk_fs w)) (bind_p sub (\<lambda>(result, removed').
       case result of
         DrainMore \<Rightarrow> ret (DrainMore, removed')
       | DrainDone \<Rightarrow>
           if removed' \<ge> budget then ret (DrainMore, removed')
           else bind_p (io_at (dir @ [x]) (fs_call (fs_remove_dir (dir @ [x])))) (\<lambda>_. m removed'))) w
     (drain_post dir budget removed w)" (is "run_ok ?I _ w ?Q")
  using sub
proof (rule run_ok_step)
  show "?I s" if "drain_states (dir @ [x]) (dk_fs w) s" for s using that by (rule drain_states_child)
  show "?Q (Inl e) v" if "drain_post (dir @ [x]) budget removed w (Inl e) v" for e v
    using that drain_states_child by (auto simp: drain_post_def)
  fix rk v assume P: "drain_post (dir @ [x]) budget removed w (Inr rk) v"
  obtain res k where rk: "rk = (res, k)" by (cases rk)
  have st: "same_world w v" "shrinks (under (dir @ [x])) (dk_fs w) (dk_fs v)" "fs_wf (dk_fs v)" "removed \<le> k" "k \<le> budget"
    "card (lost (dk_fs w) (dk_fs v)) = k - removed" "res = DrainDone \<Longrightarrow> \<not> has_below (dk_fs v) (dir @ [x])" "res = DrainMore \<Longrightarrow> k = budget"
    using P rk by (auto simp: drain_post_def drain_states_def)
  have more: "?Q (Ok (DrainMore, k)) v" if "k = budget"
    using st that drain_states_child [of dir x "dk_fs w" "dk_fs v"] by (simp add: drain_post_def drain_states_def)
  show "run_ok ?I (case rk of (result, removed') \<Rightarrow>
       case result of
         DrainMore \<Rightarrow> ret (DrainMore, removed')
       | DrainDone \<Rightarrow>
           if removed' \<ge> budget then ret (DrainMore, removed')
           else bind_p (io_at (dir @ [x]) (fs_call (fs_remove_dir (dir @ [x])))) (\<lambda>_. m removed')) v ?Q"
    using more st rk drain_entry_emptied [OF w m [of k] st(1-4)] by (cases res) (auto intro!: run_ok_ret)
qed

lemma drain_spec:
  fixes w :: "'z disk_scheme"
  shows "fs_wf (dk_fs w) \<Longrightarrow> node_at (dk_fs w) dir = Some DirNode \<Longrightarrow> removed \<le> budget \<Longrightarrow>
      depth_below (dk_fs w) dir n \<Longrightarrow>
      run_ok (drain_states dir (dk_fs w)) (drain_dir n dir budget removed) w (drain_post dir budget removed w)"
    and "drains dir budget n es removed (drain_entries n dir es budget removed :: ('z, drain_result \<times> nat) file_prog)"
proof (induction n dir budget removed and n dir es budget removed arbitrary: w and rule: drain_dir_drain_entries.induct)
  case (1 dir budget removed)
  then show ?case by (auto simp: depth_below_def)
next
  case (2 n dir budget removed)
  obtain es where es: "fs_read_dir dir (dk_fs w) = Ok (es, [])" "lists_dir (dk_fs w) dir es" "lists_all (dk_fs w) dir es"
    using fs_read_dir_lists [OF 2(3)] by blast
  show ?case
    unfolding drain_dir.simps io_at_def
  proof (rule run_ok_sure [where op = "fs_read_dir dir" and w = w, OF es(1)])
    fix w' assume w': "same_world w w'" "dk_fs w' = last (dk_fs w # [])"
    have "run_ok (drain_states dir (dk_fs w')) (drain_entries n dir es budget removed) w' (drain_post dir budget removed w')"
      by (rule drainsD [OF 2(1)]) (use 2 es w' in simp_all)
    then show "run_ok (drain_states dir (dk_fs w)) (drain_entries n dir es budget removed) w' (drain_post dir budget removed w)"
      by (rule run_ok_weaken) (use 2 w' in \<open>auto intro: drain_post_after\<close>)
  qed (use 2 in \<open>auto simp: drain_post_def unchanged_same\<close>)
next
  case (3 n dir budget removed)
  then show ?case by (auto intro!: run_ok_ret simp: drains_def drain_post_def dest: lists_none)
next
  case (4 n dir x b es budget removed)
  let ?p = "dir @ [x]"
  have "run_ok (drain_states dir (dk_fs w)) (drain_entries n dir ((x, b) # es) budget removed) w (drain_post dir budget removed w)"
    if w: "fs_wf (dk_fs w)" "removed \<le> budget" "depth_below (dk_fs w) dir (Suc n)" "lists_dir (dk_fs w) dir ((x, b) # es)"
      "lists_all (dk_fs w) dir ((x, b) # es)" for w :: "'z disk_scheme"
  proof (cases "budget \<le> removed")
    case True
    then show ?thesis using w by (auto intro!: run_ok_ret simp: drain_post_def)
  next
    case room: False
    have entry: "at_entry dir n x b es budget removed v" if "unchanged w v" for v
      by (rule at_entry_unchanged [OF _ that]) (use w room in \<open>simp add: at_entry_def\<close>)
    have same: "drain_states dir (dk_fs w) = drain_states dir (dk_fs v)" "drain_post dir budget removed w = drain_post dir budget removed v"
      if "unchanged w v" for v
      using that faulty_unchanged [OF that] by (intro ext; simp add: drain_post_def unchanged_def same_world_def split: sum.split prod.split)+
    have rest: "run_ok (drain_states dir (dk_fs v)) (if b
        then bind_p (drain_dir n ?p budget removed) (\<lambda>(result, removed').
          case result of
            DrainMore \<Rightarrow> ret (DrainMore, removed')
          | DrainDone \<Rightarrow>
              if removed' \<ge> budget then ret (DrainMore, removed')
              else bind_p (io_at ?p (fs_call (fs_remove_dir ?p))) (\<lambda>_. drain_entries n dir es budget (Suc removed')))
        else bind_p (io_at ?p (fs_call (fs_remove_file ?p))) (\<lambda>_. drain_entries n dir es budget (Suc removed))) v
        (drain_post dir budget removed v)" if "unchanged w v" for v
    proof (cases b)
      case True
      have e: "at_entry dir n x True es budget removed v" using entry [OF that] True by simp
      have "run_ok (drain_states ?p (dk_fs v)) (drain_dir n ?p budget removed) v (drain_post ?p budget removed v)"
        by (rule 4(1)) (use True room e at_entry_node [OF e] depth_below_child in \<open>auto simp: at_entry_def is_dir_at_def\<close>)
      then show ?thesis
        using drain_entry_dir [OF e] 4(2) [OF room refl True] True by (simp add: drains_def)
    next
      case False
      then show ?thesis using drain_entry_file [of dir n x es] entry [OF that] 4(3) [OF room refl] by simp
    qed
    show ?thesis
      unfolding drain_entries.simps Let_def io_at_def [of dir] io_at_def [of ?p "fs_call fs_next_entry"]
    proof (rule run_ok_if; (intro run_ok_entry)?)
      show "drain_post dir budget removed w (Err e) v" if "faulty w" "unchanged w v" for e v
        using drain_post_error [OF w(1) that] w(1) by simp
      show "drain_post dir budget removed w (Err e) v" if "unchanged w u" "faulty u" "unchanged u v" for e u v
        using drain_post_error [OF w(1) that(2,3)] that(1) w(1) by (simp add: unchanged_same)
    next
      fix u v assume "unchanged w u" "unchanged u v"
      then have "unchanged w v" by (rule unchanged_trans)
      from rest [OF this] same [OF this] show "run_ok (drain_states dir (dk_fs w)) (if b
        then bind_p (drain_dir n ?p budget removed) (\<lambda>(result, removed').
          case result of
            DrainMore \<Rightarrow> ret (DrainMore, removed')
          | DrainDone \<Rightarrow>
              if removed' \<ge> budget then ret (DrainMore, removed')
              else bind_p (io_at ?p (fs_call (fs_remove_dir ?p))) (\<lambda>_. drain_entries n dir es budget (Suc removed')))
        else bind_p (io_at ?p (fs_call (fs_remove_file ?p))) (\<lambda>_. drain_entries n dir es budget (Suc removed))) v
        (drain_post dir budget removed w)" by simp
    qed (use room in simp)
  qed
  then show ?case by (simp add: drains_def)
qed

section \<open>One batch, all batches\<close>

definition prunes :: "path set \<Rightarrow> fs \<Rightarrow> fs \<Rightarrow> bool" where
  "prunes X t s \<longleftrightarrow> shrinks X t s \<and> fs_wf s"

lemma prunes_refl [simp]: "prunes X t t = fs_wf t"
  by (simp add: prunes_def)

lemma prunes_trans: "prunes X t s \<Longrightarrow> prunes X s u \<Longrightarrow> prunes X t u"
  by (auto simp: prunes_def intro: shrinks_trans)

lemma prunes_mono: "prunes X t s \<Longrightarrow> X \<subseteq> Y \<Longrightarrow> prunes Y t s"
  by (auto simp: prunes_def intro: shrinks_mono)

definition same_faults :: "'z disk_scheme \<Rightarrow> 'z disk_scheme \<Rightarrow> bool" where
  "same_faults w w' \<longleftrightarrow> dk_fault w' = dk_fault w"

lemma same_faults_refl [simp]: "same_faults w w"
  by (simp add: same_faults_def)

lemma same_faults_trans: "same_faults u v \<Longrightarrow> same_faults v w \<Longrightarrow> same_faults u w"
  by (simp add: same_faults_def)

lemma faulty_faults: "same_faults w w' \<Longrightarrow> faulty w' = faulty w"
  by (simp add: same_faults_def faulty_def)

text \<open>\<open>pruned X m w Q\<close>: the program removes entries of \<open>X\<close> only, at every state, and ends as \<open>Q\<close> says.\<close>

definition pruned ::
  "path set \<Rightarrow> ('z disk_scheme, 'e, 'a) prog \<Rightarrow> 'z disk_scheme \<Rightarrow> (('e, 'a) result \<Rightarrow> fs \<Rightarrow> bool) \<Rightarrow> bool"
where
  "pruned X m w Q \<longleftrightarrow>
     run_ok (prunes X (dk_fs w)) m w (\<lambda>r w'. same_faults w w' \<and> prunes X (dk_fs w) (dk_fs w') \<and> Q r (dk_fs w'))"

lemma prunedI:
  "run_ok (prunes X (dk_fs w)) m w (\<lambda>r w'. same_faults w w' \<and> prunes X (dk_fs w) (dk_fs w') \<and> Q r (dk_fs w')) \<Longrightarrow> pruned X m w Q"
  by (simp add: pruned_def)

lemma pruned_ret: "fs_wf (dk_fs w) \<Longrightarrow> Q (Ok x) (dk_fs w) \<Longrightarrow> pruned X (ret x) w Q"
  unfolding pruned_def by (rule run_ok_ret) simp

lemma pruned_fail: "fs_wf (dk_fs w) \<Longrightarrow> Q (Err e) (dk_fs w) \<Longrightarrow> pruned X (fail e) w Q"
  unfolding pruned_def by (rule run_ok_fail) simp

lemma pruned_weaken:
  assumes "pruned X m w Q" and "X \<subseteq> Y" and "\<And>r t. prunes X (dk_fs w) t \<Longrightarrow> Q r t \<Longrightarrow> R r t"
  shows "pruned Y m w R"
  using assms(1) unfolding pruned_def
  by (rule run_ok_weaken) (use assms(2,3) prunes_mono [OF _ assms(2)] in auto)

lemma pruned_bind:
  assumes "pruned X m w Q"
    and "\<And>e t. prunes X (dk_fs w) t \<Longrightarrow> Q (Inl e) t \<Longrightarrow> R (Inl e) t"
    and "\<And>x v. same_faults w v \<Longrightarrow> prunes X (dk_fs w) (dk_fs v) \<Longrightarrow> Q (Inr x) (dk_fs v) \<Longrightarrow> pruned X (f x) v R"
  shows "pruned X (bind_p m f) w R"
  unfolding pruned_def
proof (rule run_ok_seq [OF assms(1) [unfolded pruned_def]])
  fix x v assume v: "same_faults w v \<and> prunes X (dk_fs w) (dk_fs v) \<and> Q (Inr x) (dk_fs v)"
  then have "run_ok (prunes X (dk_fs v)) (f x) v (\<lambda>r w'. same_faults v w' \<and> prunes X (dk_fs v) (dk_fs w') \<and> R r (dk_fs w'))"
    using assms(3) [of v x] by (simp add: pruned_def)
  then show "run_ok (prunes X (dk_fs w)) (f x) v (\<lambda>r w'. same_faults w w' \<and> prunes X (dk_fs w) (dk_fs w') \<and> R r (dk_fs w'))"
    by (rule run_ok_weaken) (use v in \<open>auto intro: prunes_trans same_faults_trans\<close>)
qed (use assms(2) in auto)

lemma pruned_map_err:
  assumes "pruned X m w (\<lambda>r t. case r of Inl e \<Rightarrow> Q (Inl (g e)) t | Inr x \<Rightarrow> Q (Inr x) t)"
  shows "pruned X (map_err g m) w Q"
  using assms unfolding pruned_def
  by (intro run_ok_map_err, elim run_ok_post) (auto split: sum.splits)

lemma pruned_bind_err:
  assumes "pruned X m w Q"
    and "\<And>e t. prunes X (dk_fs w) t \<Longrightarrow> Q (Inl e) t \<Longrightarrow> R (Inl (g e)) t"
    and "\<And>x v. same_faults w v \<Longrightarrow> prunes X (dk_fs w) (dk_fs v) \<Longrightarrow> Q (Inr x) (dk_fs v) \<Longrightarrow> pruned X (f x) v R"
  shows "pruned X (bind_p (map_err g m) f) w R"
proof (rule pruned_bind [where Q = "\<lambda>r t. case r of Inl e \<Rightarrow> R (Inl e) t | Inr x \<Rightarrow> Q (Inr x) t"])
  show "pruned X (map_err g m) w (\<lambda>r t. case r of Inl e \<Rightarrow> R (Inl e) t | Inr x \<Rightarrow> Q (Inr x) t)"
    by (rule pruned_map_err, rule pruned_weaken [OF assms(1)]) (use assms(2) in \<open>auto split: sum.splits\<close>)
qed (use assms(3) in auto)

lemma pruned_attempt: "pruned X m w (\<lambda>r t. Q (Ok r) t) \<Longrightarrow> pruned X (attempt m) w Q"
  unfolding pruned_def by (rule run_ok_attempt)

lemma pruned_bind_attempt:
  assumes "pruned X m w Q"
    and "\<And>r v. same_faults w v \<Longrightarrow> prunes X (dk_fs w) (dk_fs v) \<Longrightarrow> Q r (dk_fs v) \<Longrightarrow> pruned X (f r) v R"
  shows "pruned X (bind_p (attempt m) f) w R"
  by (rule pruned_bind [OF pruned_attempt, of X m w "\<lambda>r t. case r of Inl _ \<Rightarrow> False | Inr q \<Rightarrow> Q q t"])
    (use assms in \<open>auto simp: pruned_def\<close>)

text \<open>The calls: reading ones change nothing, the two removals take one entry.  An error is the call's own or a fault.\<close>

definition call_result :: "'a fs_op \<Rightarrow> 'z disk_scheme \<Rightarrow> (io_error, 'a) result \<Rightarrow> fs \<Rightarrow> bool" where
  "call_result op w r t \<longleftrightarrow>
     (case r of Inr x \<Rightarrow> (\<exists>ts. op (dk_fs w) = Ok (x, ts) \<and> t = last (dk_fs w # ts))
      | Inl e \<Rightarrow> t = dk_fs w \<and> (faulty w \<or> op (dk_fs w) = Err e))"

lemma pruned_call:
  assumes "fs_wf (dk_fs w)" and "\<And>x ts. op (dk_fs w) = Ok (x, ts) \<Longrightarrow> length ts \<le> 1 \<and> (\<forall>t \<in> set ts. prunes X (dk_fs w) t)"
  shows "pruned X (fs_call op) w (call_result op w)"
  unfolding pruned_def
proof (rule run_ok_post [OF call_spec])
  show "\<forall>t \<in> set ts. prunes X (dk_fs w) t" if "op (dk_fs w) = Ok (x, ts)" for x ts using assms(2) [OF that] by blast
  fix r w' assume cp: "call_post op w r w'"
  have short: "butlast ts = []" if "op (dk_fs w) = Ok (x, ts)" for x ts using assms(2) [OF that] by (cases ts) auto
  have "call_result op w r (dk_fs w')"
    using cp short by (fastforce simp: call_result_def call_post_def faulty_def split: sum.splits)
  moreover have "prunes X (dk_fs w) (dk_fs w')"
    using cp short assms by (fastforce simp: call_post_def split: sum.splits)
  ultimately show "same_faults w w' \<and> prunes X (dk_fs w) (dk_fs w') \<and> call_result op w r (dk_fs w')"
    using cp by (simp add: call_post_def same_faults_def)
qed

lemma pruned_pure:
  assumes "fs_wf (dk_fs w)" and "\<And>t x ts. op t = Ok (x, ts) \<Longrightarrow> ts = []"
  shows "pruned X (fs_call op) w (call_result op w)"
  by (rule pruned_call [OF assms(1)]) (drule assms(2), simp)

lemma remove_prunes:
  assumes "fs_wf t" and "fs_remove_file p t = Ok (x, ts) \<or> fs_remove_dir p t = Ok (x, ts)"
  shows "ts = [AList.delete p t]" "prunes {p} t (AList.delete p t)"
proof -
  have nb: "\<not> has_below t p" "ts = [AList.delete p t]"
    using assms file_no_below by (auto simp: fs_remove_file_def fs_remove_dir_def split: option.splits node.splits if_splits)
  then show "ts = [AList.delete p t]" "prunes {p} t (AList.delete p t)"
    using fs_wf_delete [OF assms(1)] shrinks_delete by (auto simp: prunes_def)
qed

lemma pruned_remove:
  assumes "fs_wf (dk_fs w)" and "p \<in> X"
  shows "pruned X (fs_call (fs_remove_file p)) w (call_result (fs_remove_file p) w)"
    and "pruned X (fs_call (fs_remove_dir p)) w (call_result (fs_remove_dir p) w)"
  by (rule pruned_call; use remove_prunes [OF assms(1), of p] assms prunes_mono [of "{p}" _ _ X] in force)+

lemma fs_depth_bound: "node_at t q \<noteq> None \<Longrightarrow> length q \<le> fs_depth t"
proof -
  have "d \<le> fold (\<lambda>(p, _) d. max (length p) d) t d" for d :: nat and t :: fs
  proof (induction t arbitrary: d)
    case (Cons x t)
    from Cons.IH [of "max (length (fst x)) d"] show ?case by (simp add: case_prod_unfold)
  qed simp
  note mono = this
  have "(q, n) \<in> set t \<Longrightarrow> length q \<le> fold (\<lambda>(p, _) d. max (length p) d) t d" for d n and t :: fs
  proof (induction t arbitrary: d)
    case (Cons x t)
    show ?case
    proof (cases "x = (q, n)")
      case True
      then show ?thesis using mono [of "max (length q) d" t] by simp
    next
      case False
      then show ?thesis using Cons by (auto simp: case_prod_unfold)
    qed
  qed simp
  then show "node_at t q \<noteq> None \<Longrightarrow> length q \<le> fs_depth t"
    by (auto simp: node_at_def fs_depth_def dest!: map_of_SomeD)
qed

lemma depth_below_depth: "depth_below t dir (Suc (fs_depth t))"
  unfolding depth_below_def by (intro allI impI) (metis fs_depth_bound le_imp_less_Suc add_Suc_right trans_less_add2)

abbreviation at_or_under :: "path \<Rightarrow> path set" where
  "at_or_under p \<equiv> insert p (under p)"

text \<open>What a batch leaves, when nothing fails.\<close>

definition emptied :: "path \<Rightarrow> fs \<Rightarrow> bool" where
  "emptied p t \<longleftrightarrow> \<not> has_below t p \<and> \<not> is_file_at t p"

definition batch_result :: "path \<Rightarrow> nat \<Rightarrow> fs \<Rightarrow> (file_error, drain_result) result \<Rightarrow> fs \<Rightarrow> bool" where
  "batch_result payload budget t r t' \<longleftrightarrow>
     (case r of
        Inl e \<Rightarrow> False
      | Inr DrainDone \<Rightarrow> emptied payload t'
      | Inr DrainMore \<Rightarrow> shrinks (under payload) t t' \<and> card (lost t t') = budget)"

lemma drain_dir_pruned:
  assumes "fs_wf (dk_fs w)" and "node_at (dk_fs w) payload = Some DirNode"
  shows "pruned (at_or_under payload) (bind_p (drain_tree payload budget) (\<lambda>(result, _). ret result)) w
     (\<lambda>r t. (\<not> faulty w \<longrightarrow> batch_result payload budget (dk_fs w) r t) \<and> (r = Ok DrainMore \<longrightarrow> card (lost (dk_fs w) t) = budget))"
proof -
  have "run_ok (drain_states payload (dk_fs w)) (drain_tree payload budget) w (drain_post payload budget 0 w)"
    using drain_spec(1) [OF assms _ depth_below_depth, of 0 budget] by (simp add: run_ok_def drain_tree_def)
  then have "pruned (at_or_under payload) (drain_tree payload budget) w
      (\<lambda>r t. shrinks (under payload) (dk_fs w) t \<and> (case r of
        Inl e \<Rightarrow> faulty w
      | Inr (res, k) \<Rightarrow> card (lost (dk_fs w) t) = k \<and> (case res of DrainDone \<Rightarrow> \<not> has_below t payload | DrainMore \<Rightarrow> k = budget)))"
    unfolding pruned_def
    by (rule run_ok_weaken)
      (auto simp: drain_states_def drain_post_def prunes_def same_world_def same_faults_def intro: shrinks_mono split: sum.splits prod.splits)
  then show ?thesis
  proof (rule pruned_bind)
    fix x v assume v: "prunes (at_or_under payload) (dk_fs w) (dk_fs v)"
      "shrinks (under payload) (dk_fs w) (dk_fs v) \<and> (case Inr x of Inl e \<Rightarrow> faulty w
      | Inr (res, k) \<Rightarrow> card (lost (dk_fs w) (dk_fs v)) = k \<and>
          (case res of DrainDone \<Rightarrow> \<not> has_below (dk_fs v) payload | DrainMore \<Rightarrow> k = budget))"
    have "\<not> is_file_at (dk_fs v) payload"
      using shrinks_node [of "under payload" _ _ payload] v(2) assms(2) by (fastforce simp: is_file_at_iff)
    then show "pruned (at_or_under payload) (case x of (result, _) \<Rightarrow> ret result) v
        (\<lambda>r t. (\<not> faulty w \<longrightarrow> batch_result payload budget (dk_fs w) r t) \<and> (r = Ok DrainMore \<longrightarrow> card (lost (dk_fs w) t) = budget))"
      using v by (auto simp: batch_result_def emptied_def prunes_def split: prod.splits drain_result.splits intro!: pruned_ret)
  qed auto
qed

lemma drain_staged_payload_spec:
  assumes wf: "fs_wf (dk_fs w)"
  shows "pruned (at_or_under (sd_payload staged)) (drain_staged_payload staged budget) w
     (\<lambda>r t. (\<not> faulty w \<longrightarrow> batch_result (sd_payload staged) budget (dk_fs w) r t) \<and> (r = Ok DrainMore \<longrightarrow> card (lost (dk_fs w) t) = budget))"
    (is "pruned ?X _ w ?Q")
proof -
  let ?p = "sd_payload staged"
  have one: "pruned ?X (bind_p (io_at ?p (fs_call (fs_remove_file ?p))) (\<lambda>_. ret DrainDone)) v ?Q"
    if v: "same_faults w v" "dk_fs v = dk_fs w" "node_at (dk_fs w) ?p = Some (FileNode b)" for v b
  proof -
    have nb: "\<not> has_below (dk_fs w) ?p" by (rule file_no_below [OF wf v(3)])
    show ?thesis
      unfolding io_at_def
      by (rule pruned_bind_err [OF pruned_remove(1)])
        (use v wf nb faulty_faults [OF v(1)] in \<open>auto simp: call_result_def fs_remove_file_def batch_result_def emptied_def
           is_file_at_def prunes_def has_below_iff intro!: pruned_ret\<close>)
  qed
  show ?thesis
    unfolding drain_staged_payload_def Let_def
  proof (rule pruned_bind_attempt [OF pruned_pure [OF wf stat_pure]], assumption)
    fix r v assume v: "same_faults w v" "prunes ?X (dk_fs w) (dk_fs v)" "call_result (fs_stat ?p) w r (dk_fs v)"
    show "pruned ?X (case r of
          Inl e \<Rightarrow> if e = IoNotFound then ret DrainDone else fail (io_err ?p e)
        | Inr (FileNode _) \<Rightarrow> bind_p (io_at ?p (fs_call (fs_remove_file ?p))) (\<lambda>_. ret DrainDone)
        | Inr DirNode \<Rightarrow> bind_p (drain_tree ?p budget) (\<lambda>(result, _). ret result)) v ?Q"
    proof (cases r)
      case (Inl e)
      have none: "emptied ?p (dk_fs w)" if "node_at (dk_fs w) ?p = None"
        using that fs_wf_ancestor [OF wf, of ?p] by (fastforce simp: emptied_def has_below_iff is_file_at_iff strict_prefix_def prefix_def)
      show ?thesis
        using v Inl wf none
        by (auto simp: call_result_def fs_stat_def batch_result_def split: option.splits intro!: pruned_ret pruned_fail)
    next
      case (Inr n)
      then have n: "dk_fs v = dk_fs w" "node_at (dk_fs w) ?p = Some n"
        using v(3) by (auto simp: call_result_def fs_stat_def split: option.splits)
      have "pruned ?X (bind_p (drain_tree ?p budget) (\<lambda>(result, _). ret result)) v ?Q" if "n = DirNode"
        using drain_dir_pruned [of v ?p budget] n that wf faulty_faults [OF v(1)] by simp
      then show ?thesis using Inr one [OF v(1) n(1)] n(2) by (auto split: node.splits)
    qed
  qed
qed

section \<open>Finalizing\<close>

lemma pruned_fsync_dir:
  assumes "fs_wf (dk_fs w)"
  shows "pruned X (fsync_dir p) w (\<lambda>r t. t = dk_fs w \<and> (\<not> faulty w \<longrightarrow> node_at t p \<noteq> None \<longrightarrow> r = Ok ()))"
proof -
  have "pruned X (fs_call fs_sync) v (\<lambda>r t. t = dk_fs v \<and> (\<not> faulty v \<longrightarrow> r = Ok ()))" if "fs_wf (dk_fs v)" for v :: "'a disk_scheme"
    by (rule pruned_weaken [OF pruned_pure [OF that]])
      (auto simp: fs_sync_def call_result_def split: sum.splits)
  note sync = this
  show ?thesis
    unfolding fsync_dir_def
  proof (rule pruned_bind [OF pruned_pure [OF assms]])
    show "ts = []" if "fs_open_dir p t = Ok (x, ts)" for t x ts using that by (auto simp: fs_open_dir_def split: if_splits)
    fix x v assume "same_faults w v" "call_result (fs_open_dir p) w (Inr x) (dk_fs v)"
    then show "pruned X (fs_call fs_sync) v (\<lambda>r t. t = dk_fs w \<and> (\<not> faulty w \<longrightarrow> node_at t p \<noteq> None \<longrightarrow> r = Ok ()))"
      using sync [of v] assms by (auto simp: call_result_def fs_open_dir_def faulty_faults split: if_splits intro: pruned_weaken)
  qed (auto simp: call_result_def fs_open_dir_def split: if_splits)
qed

lemma pruned_test:
  assumes "fs_wf (dk_fs w)" and "\<And>t x ts. op t = Ok (x, ts) \<Longrightarrow> ts = []"
    and "\<And>b v. same_faults w v \<Longrightarrow> dk_fs v = dk_fs w \<Longrightarrow> (\<not> faulty w \<Longrightarrow> b = (op (dk_fs w) = Ok (True, []))) \<Longrightarrow> pruned X (f b) v R"
  shows "pruned X (bind_p (fs_test op) f) w R"
proof (rule pruned_bind [where Q = "\<lambda>r t. t = dk_fs w \<and> (\<exists>b. r = Ok b \<and> (\<not> faulty w \<longrightarrow> b = (op (dk_fs w) = Ok (True, []))))"])
  show "pruned X (fs_test op) w (\<lambda>r t. t = dk_fs w \<and> (\<exists>b. r = Ok b \<and> (\<not> faulty w \<longrightarrow> b = (op (dk_fs w) = Ok (True, [])))))"
    unfolding fs_test_def
  proof (rule pruned_bind_attempt [OF pruned_pure [OF assms(1,2)]], assumption)
    fix r v assume v: "call_result op w r (dk_fs v)"
    have "dk_fs v = dk_fs w" using v assms(2) by (fastforce simp: call_result_def split: sum.splits)
    moreover have "(case r of Inl _ \<Rightarrow> False | Inr b \<Rightarrow> b) = (op (dk_fs w) = Ok (True, []))" if "\<not> faulty w"
      using v that assms(2) by (fastforce simp: call_result_def split: sum.splits)
    ultimately show "pruned X (ret (case r of Inl _ \<Rightarrow> False | Inr b \<Rightarrow> b)) v
        (\<lambda>r t. t = dk_fs w \<and> (\<exists>b. r = Ok b \<and> (\<not> faulty w \<longrightarrow> b = (op (dk_fs w) = Ok (True, [])))))"
      using assms(1) by (intro pruned_ret) auto
  qed
qed (use assms(3) in auto)

lemma remove_ignored:
  assumes wf: "fs_wf (dk_fs w)" and "p \<in> X" and op: "op = fs_remove_file p \<or> op = fs_remove_dir p"
  shows "pruned X (ignore_not_found p (fs_call op)) w
     (\<lambda>r t. (t = dk_fs w \<or> t = AList.delete p (dk_fs w)) \<and>
        (\<not> faulty w \<longrightarrow> node_at (dk_fs w) p = None \<or> (\<exists>ts. op (dk_fs w) = Ok ((), ts)) \<longrightarrow> r = Ok () \<and> node_at t p = None))"
    (is "pruned X _ w ?Q")
proof -
  have call: "pruned X (fs_call op) w (call_result op w)" using pruned_remove [OF wf assms(2)] op by blast
  have missing: "op (dk_fs w) = Err IoNotFound" if "node_at (dk_fs w) p = None"
    using op that by (auto simp: fs_remove_file_def fs_remove_dir_def)
  have present: "node_at (dk_fs w) p \<noteq> None" if "op (dk_fs w) = Err e" "e \<noteq> IoNotFound" for e
    using op that by (auto simp: fs_remove_file_def fs_remove_dir_def split: option.splits)
  have absent: "node_at (dk_fs w) p = None" if "op (dk_fs w) = Err IoNotFound"
    using op that by (auto simp: fs_remove_file_def fs_remove_dir_def split: option.splits node.splits if_splits)
  have step: "ts = [AList.delete p (dk_fs w)]" if "op (dk_fs w) = Ok (x, ts)" for x ts
    using remove_prunes(1) [OF wf, of p x ts] op that by blast
  show ?thesis
    unfolding ignore_not_found_def
  proof (rule pruned_bind_attempt [OF call])
    fix r v assume v: "prunes X (dk_fs w) (dk_fs v)" "call_result op w r (dk_fs v)"
    show "pruned X (case r of Inl e \<Rightarrow> if e = IoNotFound then ret () else fail (io_err p e) | Inr _ \<Rightarrow> ret ()) v ?Q"
      using v step missing absent present
      by (cases r) (fastforce simp: call_result_def prunes_def intro!: pruned_ret pruned_fail)+
  qed
qed

text \<open>The stage directory holds nothing but the payload, and what the paths name is of the right kind.\<close>

definition stage_ready :: "staged_delete \<Rightarrow> fs \<Rightarrow> bool" where
  "stage_ready staged t \<longleftrightarrow>
     (\<forall>q. strict_prefix (sd_stage_dir staged) q \<longrightarrow> node_at t q \<noteq> None \<longrightarrow> prefix (sd_payload staged) q) \<and>
     \<not> is_file_at t (sd_stage_dir staged) \<and> \<not> is_dir_at t (sd_tombstone staged)"

definition staged_paths :: "staged_delete \<Rightarrow> path set" where
  "staged_paths staged = {sd_payload staged, sd_stage_dir staged, sd_tombstone staged}"

definition staged_wf :: "staged_delete \<Rightarrow> bool" where
  "staged_wf staged \<longleftrightarrow>
     (\<exists>d x y z. sd_stage_dir staged = d @ [x] \<and> sd_payload staged = d @ [x, z] \<and> sd_tombstone staged = d @ [y] \<and> x \<noteq> y)"

lemma for_tombstone_wf: "staged_wf (for_tombstone d t)"
  by (auto simp: staged_wf_def for_tombstone_def Let_def stage_dir_name_def tombstone_filename_def)

lemma shrinks_ready: "shrinks X t s \<Longrightarrow> stage_ready staged t \<Longrightarrow> stage_ready staged s"
  unfolding stage_ready_def is_file_at_iff is_dir_at_def shrinks_def by (metis option.distinct(1))

lemma shrinks_emptied: "shrinks X t s \<Longrightarrow> emptied p t \<Longrightarrow> emptied p s"
proof -
  assume "shrinks X t s" "emptied p t"
  moreover from this have "\<not> is_file_at s p" unfolding shrinks_def emptied_def is_file_at_iff by (metis option.distinct(1))
  ultimately show ?thesis using shrinks_has_below by (simp add: emptied_def)
qed

lemma clear_payload_spec:
  assumes wf: "fs_wf (dk_fs w)" and "sd_payload staged \<in> X"
  shows "pruned X (bind_p (attempt (fs_call (fs_stat (sd_payload staged)))) (\<lambda>metadata.
      case metadata of
          Inr DirNode \<Rightarrow> io_at (sd_payload staged) (fs_call (fs_remove_dir (sd_payload staged)))
        | Inr (FileNode _) \<Rightarrow> io_at (sd_payload staged) (fs_call (fs_remove_file (sd_payload staged)))
        | Inl e \<Rightarrow> if e = IoNotFound then ret () else fail (io_err (sd_payload staged) e))) w
     (\<lambda>r t. \<not> faulty w \<longrightarrow> emptied (sd_payload staged) (dk_fs w) \<longrightarrow> r = Ok () \<and> node_at t (sd_payload staged) = None)"
    (is "pruned X _ w ?Q")
proof (rule pruned_bind_attempt [OF pruned_pure [OF wf stat_pure]], assumption)
  let ?p = "sd_payload staged"
  fix r v assume v: "same_faults w v" "call_result (fs_stat ?p) w r (dk_fs v)"
  have fsv: "dk_fs v = dk_fs w" using v(2) by (auto simp: call_result_def fs_stat_def split: sum.splits option.splits)
  have dir: "pruned X (io_at ?p (fs_call (fs_remove_dir ?p))) v ?Q" if "node_at (dk_fs w) ?p = Some DirNode"
    unfolding io_at_def
    by (rule pruned_map_err, rule pruned_weaken [OF pruned_remove(2), of v ?p X])
      (use that wf assms(2) fsv faulty_faults [OF v(1)] in
        \<open>auto simp: call_result_def fs_remove_dir_def emptied_def split: sum.splits if_splits\<close>)
  have one: "pruned X (io_at ?p (fs_call (fs_remove_file ?p))) v ?Q" if "node_at (dk_fs w) ?p = Some (FileNode b)" for b
    unfolding io_at_def
    by (rule pruned_map_err, rule pruned_weaken [OF pruned_remove(1), of v ?p X])
      (use that wf assms(2) fsv in \<open>auto simp: call_result_def emptied_def is_file_at_iff split: sum.splits\<close>)
  show "pruned X (case r of
          Inr DirNode \<Rightarrow> io_at ?p (fs_call (fs_remove_dir ?p))
        | Inr (FileNode _) \<Rightarrow> io_at ?p (fs_call (fs_remove_file ?p))
        | Inl e \<Rightarrow> if e = IoNotFound then ret () else fail (io_err ?p e)) v ?Q"
    using v fsv wf dir one
    by (auto simp: call_result_def fs_stat_def split: sum.splits option.splits node.splits intro!: pruned_ret pruned_fail)
qed

lemma bind_nested: "bind_p m (\<lambda>x. bind_p (f x) g) = bind_p (bind_p m f) g"
  by (auto simp: bind_p_def fun_eq_iff split: prod.splits sum.splits)

lemma remove_ignored_then:
  assumes "fs_wf (dk_fs w)" and "p \<in> X" and "op = fs_remove_file p \<or> op = fs_remove_dir p"
    and "ok \<Longrightarrow> \<not> faulty w \<and> (node_at (dk_fs w) p = None \<or> (\<exists>ts. op (dk_fs w) = Ok ((), ts)))"
    and "\<And>e t. \<not> ok \<Longrightarrow> R (Inl e) t"
    and "\<And>v. same_faults w v \<Longrightarrow> prunes X (dk_fs w) (dk_fs v) \<Longrightarrow> (ok \<Longrightarrow> node_at (dk_fs v) p = None) \<Longrightarrow> pruned X m v R"
  shows "pruned X (bind_p (ignore_not_found p (fs_call op)) (\<lambda>_. m)) w R"
  by (rule pruned_bind [OF remove_ignored [OF assms(1-3)]]; cases ok) (use assms(4-6) in auto)

lemma remove_dir_ready:
  assumes "emptied (sd_payload staged) t" "stage_ready staged t" "node_at t (sd_payload staged) = None"
  shows "node_at t (sd_stage_dir staged) = None \<or> (\<exists>ts. fs_remove_dir (sd_stage_dir staged) t = Ok ((), ts))"
proof -
  have "\<not> has_below t (sd_stage_dir staged)"
  proof
    assume "has_below t (sd_stage_dir staged)"
    then obtain q where q: "strict_prefix (sd_stage_dir staged) q" "node_at t q \<noteq> None" by (auto simp: has_below_iff)
    then have "prefix (sd_payload staged) q" using assms(2) unfolding stage_ready_def by blast
    moreover have "q \<noteq> sd_payload staged" using q(2) assms(3) by auto
    ultimately show False using assms(1) q(2) by (auto simp: emptied_def has_below_iff strict_prefix_def)
  qed
  then show ?thesis
    using assms(2) by (auto simp: stage_ready_def is_file_at_iff fs_remove_dir_def split: option.splits node.splits)
qed

lemma remove_tombstone_ready:
  "stage_ready staged t \<Longrightarrow>
     node_at t (sd_tombstone staged) = None \<or> (\<exists>ts. fs_remove_file (sd_tombstone staged) t = Ok ((), ts))"
  by (auto simp: stage_ready_def is_dir_at_def fs_remove_file_def split: option.splits node.splits)

lemma sync_if_present:
  assumes "fs_wf (dk_fs w)" and "ok \<Longrightarrow> \<not> faulty w" and "\<And>e t. \<not> ok \<Longrightarrow> R (Inl e) t" and "R (Ok ()) (dk_fs w)"
  shows "pruned X (bind_p (fs_test (fs_exists d)) (\<lambda>present. if present then io_at d (fsync_dir d) else ret ())) w R"
proof (rule pruned_test [OF assms(1)])
  fix b u assume u: "same_faults w u" "dk_fs u = dk_fs w" "\<not> faulty w \<Longrightarrow> b = (fs_exists d (dk_fs w) = Ok (True, []))"
  have "pruned X (io_at d (fsync_dir d)) u R" if b
    unfolding io_at_def
  proof (rule pruned_map_err, rule pruned_weaken [OF pruned_fsync_dir subset_refl])
    fix r :: "(io_error, unit) result" and t
    assume "t = dk_fs u \<and> (\<not> faulty u \<longrightarrow> node_at t d \<noteq> None \<longrightarrow> r = Ok ())"
    then show "case r of Inl e \<Rightarrow> R (Inl (io_err d e)) t | Inr x \<Rightarrow> R (Inr x) t"
      using that u assms(2-4) faulty_faults [OF u(1)] by (cases ok; cases r) (auto simp: fs_exists_def)
  qed (use assms(1) u(2) in simp)
  then show "pruned X (if b then io_at d (fsync_dir d) else ret ()) u R"
    using assms(1,4) u(2) by (auto intro: pruned_ret)
qed (rule exists_pure)

lemma finalize_spec:
  assumes wf: "fs_wf (dk_fs w)" and sw: "staged_wf staged"
  shows "pruned (staged_paths staged) (finalize_staged_delete staged) w
     (\<lambda>r t. \<not> faulty w \<longrightarrow> emptied (sd_payload staged) (dk_fs w) \<longrightarrow> stage_ready staged (dk_fs w) \<longrightarrow>
        r = Ok () \<and> (\<forall>p \<in> staged_paths staged. node_at t p = None))"
    (is "pruned ?X _ w ?Q")
proof -
  let ?p = "sd_payload staged" and ?d = "sd_stage_dir staged" and ?m = "sd_tombstone staged" and ?t = "dk_fs w"
  let ?sync = "bind_p (fs_test (fs_exists (butlast ?m))) (\<lambda>present. if present then io_at (butlast ?m) (fsync_dir (butlast ?m)) else ret ())"
  have X: "?p \<in> ?X" "?d \<in> ?X" "?m \<in> ?X" by (auto simp: staged_paths_def)
  define ok where "ok = (\<not> faulty w \<and> emptied ?p ?t \<and> stage_ready staged ?t)"
  have bad: "?Q (Inl e) t" if "\<not> ok" for e t using that unfolding ok_def by blast
  have keep: "\<not> faulty v \<and> emptied ?p (dk_fs v) \<and> stage_ready staged (dk_fs v)"
    if "same_faults w v" "prunes ?X ?t (dk_fs v)" ok for v
    using that shrinks_ready shrinks_emptied faulty_faults [of w v] by (auto simp: prunes_def ok_def)
  have stays: "node_at (dk_fs u) q = None" if "prunes ?X (dk_fs v) (dk_fs u)" "node_at (dk_fs v) q = None" for u v :: "'a disk_scheme" and q
    using that shrinks_gone by (auto simp: prunes_def)
  have tomb: "pruned ?X (bind_p (ignore_not_found ?m (fs_call (fs_remove_file ?m))) (\<lambda>_. ?sync)) v ?Q"
    if v: "same_faults w v" "prunes ?X ?t (dk_fs v)" "ok \<Longrightarrow> node_at (dk_fs v) ?p = None \<and> node_at (dk_fs v) ?d = None" for v
  proof (rule remove_ignored_then [OF _ X(3), of v "fs_remove_file ?m" ok])
    fix u assume u: "same_faults v u" "prunes ?X (dk_fs v) (dk_fs u)" "ok \<Longrightarrow> node_at (dk_fs u) ?m = None"
    show "pruned ?X ?sync u ?Q"
    proof (rule sync_if_present [of u ok])
      show "?Q (Ok ()) (dk_fs u)" using u v stays [OF u(2)] by (auto simp: ok_def staged_paths_def)
      show "\<not> faulty u" if ok using keep [OF v(1,2) that] faulty_faults [OF u(1)] by simp
    qed (use u bad in \<open>auto simp: prunes_def\<close>)
  qed (use v keep [OF v(1,2)] remove_tombstone_ready bad in \<open>auto simp: prunes_def\<close>)
  have stage: "pruned ?X (bind_p (ignore_not_found ?d (fs_call (fs_remove_dir ?d))) (\<lambda>_.
      bind_p (ignore_not_found ?m (fs_call (fs_remove_file ?m))) (\<lambda>_. ?sync))) v ?Q"
    if v: "same_faults w v" "prunes ?X ?t (dk_fs v)" "ok \<Longrightarrow> node_at (dk_fs v) ?p = None" for v
  proof (rule remove_ignored_then [OF _ X(2), of v "fs_remove_dir ?d" ok])
    fix u assume u: "same_faults v u" "prunes ?X (dk_fs v) (dk_fs u)" "ok \<Longrightarrow> node_at (dk_fs u) ?d = None"
    show "pruned ?X (bind_p (ignore_not_found ?m (fs_call (fs_remove_file ?m))) (\<lambda>_. ?sync)) u ?Q"
      by (rule tomb) (use u v stays [OF u(2)] prunes_trans same_faults_trans in auto)
  qed (use v keep [OF v(1,2)] remove_dir_ready bad in \<open>auto simp: prunes_def\<close>)
  have "?m \<noteq> []" using sw by (auto simp: staged_wf_def)
  then show ?thesis
    unfolding finalize_staged_delete_def Let_def bind_nested [of "attempt (fs_call (fs_stat ?p))"]
    by (simp only: if_False) (rule pruned_bind [OF clear_payload_spec [OF wf X(1)]]; use stage in \<open>auto simp: ok_def\<close>)
qed

end
