(* ===== verification/Staging_Crash.thy ===== *)
theory Staging_Crash
  imports Staging_Properties
begin

text \<open>
  Starting a delete: from the tombstone to the rename.  At every state, whatever fails and wherever the process
  is killed, the target is complete in its place, or complete below the staging directory with its
  tombstone written.
\<close>

abbreviation tomb_path :: "path \<Rightarrow> delete_tombstone \<Rightarrow> path" where
  "tomb_path d tomb \<equiv> d @ [tombstone_filename tomb]"

abbreviation stage_path :: "path \<Rightarrow> delete_tombstone \<Rightarrow> path" where
  "stage_path d tomb \<equiv> d @ [stage_dir_name tomb]"

abbreviation payload_path :: "path \<Rightarrow> delete_tombstone \<Rightarrow> path" where
  "payload_path d tomb \<equiv> d @ [stage_dir_name tomb, staged_payload_name]"

lemma for_tombstone_paths [simp]:
  "sd_tombstone (for_tombstone d tomb) = tomb_path d tomb" "sd_stage_dir (for_tombstone d tomb) = stage_path d tomb"
  "sd_payload (for_tombstone d tomb) = payload_path d tomb"
  by (simp_all add: for_tombstone_def Let_def)

lemma tomb_not_stage [simp]: "tombstone_filename tomb \<noteq> stage_dir_name tomb" "stage_dir_name tomb \<noteq> tombstone_filename tomb"
  by (simp_all add: tombstone_filename_def stage_dir_name_def)

lemma tomb_not_temp [simp]: "\<not> is_temp_in d (tomb_path d tomb)" "\<not> is_temp_in d (stage_path d tomb)"
proof -
  have "hd (tombstone_prefix tomb) = CHR ''d''" "tombstone_prefix tomb \<noteq> []"
    by (cases tomb; simp add: dataset_tombstone_prefix_def converter_tombstone_prefix_def training_logs_tombstone_prefix_def
      converter_logs_tombstone_prefix_def workspace_tombstone_prefix_def)+
  then have "hd (tombstone_filename tomb) = CHR ''d''" "hd (stage_dir_name tomb) = CHR ''d''"
    by (simp_all add: tombstone_filename_def stage_dir_name_def)
  then show "\<not> is_temp_in d (tomb_path d tomb)" "\<not> is_temp_in d (stage_path d tomb)"
    by (auto simp: is_temp_in_def temp_path_def)
qed

section \<open>The states of a delete\<close>

text \<open>
  The setting: a target off the staging directory \<open>d\<close> of a well-formed tree, and a tombstone no trace of which is
  on disk.  \<open>K\<close> are the paths that may change for other reasons.
\<close>

definition delete_setup :: "path \<Rightarrow> delete_tombstone \<Rightarrow> path \<Rightarrow> path set \<Rightarrow> fs \<Rightarrow> bool" where
  "delete_setup d tomb target K t \<longleftrightarrow>
     fs_wf t \<and> node_at t target \<noteq> None \<and> \<not> prefix target d \<and> \<not> prefix d target \<and>
     node_at t (tomb_path d tomb) = None \<and> node_at t (stage_path d tomb) = None \<and>
     (\<forall>q \<in> K. \<not> prefix target q \<and> \<not> prefix d q \<and> \<not> prefix q d)"

definition elsewhere_same :: "path \<Rightarrow> delete_tombstone \<Rightarrow> path \<Rightarrow> path set \<Rightarrow> fs \<Rightarrow> fs \<Rightarrow> bool" where
  "elsewhere_same d tomb target K t s \<longleftrightarrow>
     (\<forall>q. \<not> prefix target q \<longrightarrow> \<not> prefix (stage_path d tomb) q \<longrightarrow> q \<noteq> tomb_path d tomb \<longrightarrow> q \<notin> K \<longrightarrow>
        node_at s q = node_at t q \<or>
        node_at t q = None \<and> (prefix q d \<and> node_at s q = Some DirNode \<or> is_temp_in d q))"

definition intact :: "tombstone_serde \<Rightarrow> path \<Rightarrow> delete_tombstone \<Rightarrow> path \<Rightarrow> path set \<Rightarrow> fs \<Rightarrow> fs \<Rightarrow> bool" where
  "intact tj d tomb target K t s \<longleftrightarrow>
     elsewhere_same d tomb target K t s \<and>
     (node_at s (tomb_path d tomb) = None \<or> file_value (tj_from_slice tj) s (tomb_path d tomb) = Some tomb) \<and>
     (\<forall>z. node_at s (target @ z) = node_at t (target @ z)) \<and>
     node_at s (stage_path d tomb) \<in> {None, Some DirNode} \<and> \<not> has_below s (stage_path d tomb)"

definition moved :: "tombstone_serde \<Rightarrow> path \<Rightarrow> delete_tombstone \<Rightarrow> path \<Rightarrow> path set \<Rightarrow> fs \<Rightarrow> fs \<Rightarrow> bool" where
  "moved tj d tomb target K t s \<longleftrightarrow>
     elsewhere_same d tomb target K t s \<and>
     file_value (tj_from_slice tj) s (tomb_path d tomb) = Some tomb \<and>
     node_at s target \<in> {None, Some DirNode} \<and> \<not> has_below s target \<and>
     node_at s (stage_path d tomb) = Some DirNode \<and>
     (\<forall>q. strict_prefix (stage_path d tomb) q \<longrightarrow> node_at s q \<noteq> None \<longrightarrow> prefix (payload_path d tomb) q) \<and>
     (\<forall>z. node_at s (payload_path d tomb @ z) = node_at t (target @ z))"

definition deleting :: "tombstone_serde \<Rightarrow> path \<Rightarrow> delete_tombstone \<Rightarrow> path \<Rightarrow> path set \<Rightarrow> fs \<Rightarrow> fs \<Rightarrow> bool" where
  "deleting tj d tomb target K t s \<longleftrightarrow> intact tj d tomb target K t s \<or> moved tj d tomb target K t s"

lemma setup_fresh: "delete_setup d tomb target K t \<Longrightarrow> \<not> has_below t (stage_path d tomb)"
  by (simp add: delete_setup_def absent_no_below)

lemma intact_refl: "delete_setup d tomb target K t \<Longrightarrow> intact tj d tomb target K t t"
  using setup_fresh [of d tomb target K t] by (auto simp: intact_def elsewhere_same_def delete_setup_def)

lemma target_off_stage:
  assumes "delete_setup d tomb target K t"
  shows "\<not> prefix target (stage_path d tomb)" "\<not> prefix (stage_path d tomb) target"
    "\<not> prefix target (tomb_path d tomb)" "\<not> prefix target (payload_path d tomb)" "\<not> prefix (payload_path d tomb) target"
  using assms append_prefixD [of d _ target] by (auto simp: delete_setup_def prefix_snoc prefix_append)

text \<open>Creating directories down to the staging or stage directory.\<close>

lemma intact_mkdir:
  assumes "delete_setup d tomb target K t" and "intact tj d tomb target K t s" and "p = d \<or> p = stage_path d tomb"
    and "\<And>q. node_at u q = node_at s q \<or> prefix q p \<and> node_at s q = None \<and> node_at u q = Some DirNode"
  shows "intact tj d tomb target K t u"
proof -
  have tomb: "node_at u (tomb_path d tomb) = node_at s (tomb_path d tomb)" using assms(3) assms(4) [of "tomb_path d tomb"] by auto
  have tgt: "node_at u (target @ z) = node_at s (target @ z)" for z
    using assms(3) assms(4) [of "target @ z"] target_off_stage(1) [OF assms(1)] assms(1)
    by (auto simp: delete_setup_def dest: append_prefixD)
  have stage: "node_at u (stage_path d tomb) \<in> {None, Some DirNode}" using assms(2) assms(4) [of "stage_path d tomb"] by (auto simp: intact_def)
  have below: "\<not> has_below u (stage_path d tomb)"
  proof
    assume "has_below u (stage_path d tomb)"
    then obtain q where q: "strict_prefix (stage_path d tomb) q" "node_at u q \<noteq> None" by (auto simp: has_below_iff)
    then have "\<not> prefix q p" using assms(3) by (auto simp: strict_prefix_def prefix_def)
    then have "node_at s q \<noteq> None" using q(2) assms(4) [of q] by auto
    then show False using q(1) assms(2) by (auto simp: intact_def has_below_iff)
  qed
  have "elsewhere_same d tomb target K t u"
    unfolding elsewhere_same_def
  proof (intro allI impI)
    fix q assume q: "\<not> prefix target q" "\<not> prefix (stage_path d tomb) q" "q \<noteq> tomb_path d tomb" "q \<notin> K"
    have "prefix q p \<Longrightarrow> prefix q d" using assms(3) q(2) by (auto simp: prefix_snoc)
    moreover have "node_at s q = node_at t q \<or> node_at t q = None \<and> (prefix q d \<and> node_at s q = Some DirNode \<or> is_temp_in d q)"
      using assms(2) q by (simp add: intact_def elsewhere_same_def)
    ultimately show "node_at u q = node_at t q \<or> node_at t q = None \<and> (prefix q d \<and> node_at u q = Some DirNode \<or> is_temp_in d q)"
      using assms(4) [of q] by auto
  qed
  then show ?thesis using assms(2) tomb tgt stage below by (auto simp: intact_def file_value_def)
qed

text \<open>Writing the tombstone.\<close>

lemma intact_tombstone:
  assumes "delete_setup d tomb target K t" and "intact tj d tomb target K t s" and "put_states (tomb_path d tomb) bs s u"
    and "tj_from_slice tj bs = Ok tomb"
  shows "intact tj d tomb target K t u"
proof -
  have node: "node_at u q = node_at s q \<or> q = tomb_path d tomb \<and> node_at u q = Some (FileNode bs) \<or> is_temp_in d q \<and> node_at s q = None" for q
    using assms(3) unfolding put_states_def by auto
  have off: "\<not> is_temp_in d (target @ z)" "target @ z \<noteq> tomb_path d tomb" for z
    using assms(1) target_off_stage(3) [OF assms(1)] by (auto simp: is_temp_in_def temp_path_def delete_setup_def)
      (metis prefixI prefix_snoc)+
  have under: "\<not> is_temp_in d q" "q \<noteq> tomb_path d tomb" if "prefix (stage_path d tomb) q" for q
    using that tomb_not_temp(2) [of d tomb] by (auto simp: is_temp_in_def temp_path_def prefix_def)
  have "elsewhere_same d tomb target K t u"
    unfolding elsewhere_same_def
  proof (intro allI impI)
    fix q assume q: "\<not> prefix target q" "\<not> prefix (stage_path d tomb) q" "q \<noteq> tomb_path d tomb" "q \<notin> K"
    then have "node_at s q = node_at t q \<or> node_at t q = None \<and> (prefix q d \<and> node_at s q = Some DirNode \<or> is_temp_in d q)"
      using assms(2) by (simp add: intact_def elsewhere_same_def)
    then show "node_at u q = node_at t q \<or> node_at t q = None \<and> (prefix q d \<and> node_at u q = Some DirNode \<or> is_temp_in d q)"
      using node [of q] q(3) by auto
  qed
  moreover have "node_at u (tomb_path d tomb) = None \<or> file_value (tj_from_slice tj) u (tomb_path d tomb) = Some tomb"
    using node [of "tomb_path d tomb"] assms(2,4) by (auto simp: intact_def file_value_def)
  moreover have "node_at u (target @ z) = node_at s (target @ z)" for z using node [of "target @ z"] off by auto
  moreover have "node_at u q = node_at s q" if "prefix (stage_path d tomb) q" for q using node [of q] under [OF that] by auto
  moreover from this have "\<not> has_below u (stage_path d tomb)" using assms(2) by (auto simp: intact_def has_below_iff strict_prefix_def)
  ultimately show ?thesis using assms(2) by (simp add: intact_def)
qed

text \<open>Other writes, to the paths in \<open>K\<close>.\<close>

lemma intact_only:
  assumes "delete_setup d tomb target K t" and "intact tj d tomb target K t s" and "only K s u"
  shows "intact tj d tomb target K t u"
proof -
  have node: "node_at u q = node_at s q" if "q \<notin> K" for q using assms(3) that by (simp add: only_def)
  have K: "tomb_path d tomb \<notin> K" "target @ z \<notin> K" "\<And>q. prefix (stage_path d tomb) q \<Longrightarrow> q \<notin> K" for z
    using assms(1) append_prefixD [of d] by (auto simp: delete_setup_def)
  show ?thesis
    using assms(2) node K
    by (auto simp: intact_def elsewhere_same_def file_value_def has_below_iff strict_prefix_def)
qed

text \<open>The rename.\<close>

lemma intact_rename:
  assumes su: "delete_setup d tomb target K t" and s: "intact tj d tomb target K t s"
    and "file_value (tj_from_slice tj) s (tomb_path d tomb) = Some tomb" and "node_at s (stage_path d tomb) = Some DirNode"
    and "fs_rename target (payload_path d tomb) s = Ok (x, ts)" and "u \<in> set ts"
  shows "moved tj d tomb target K t u"
proof -
  let ?p = "payload_path d tomb"
  have here: "node_at s (target @ z) = node_at t (target @ z)" for z using s by (simp add: intact_def)
  have nb: "\<not> has_below s (stage_path d tomb)" using s by (simp add: intact_def)
  have none: "node_at s (?p @ z) = None" for z
  proof -
    have "strict_prefix (stage_path d tomb) (?p @ z)" by (simp add: strict_prefix_def prefix_def)
    then show ?thesis using nb unfolding has_below_iff by blast
  qed
  have node: "node_at u q = (if prefix ?p q then node_at s (target @ drop (length ?p) q)
      else if prefix target q then None else node_at s q)" for q
  proof (cases "node_at s target")
    case None
    then show ?thesis using assms(5) by (simp add: fs_rename_def)
  next
    case (Some n)
    show ?thesis
    proof (cases n)
      case DirNode
      have "ts = [move_tree target ?p s]"
        using assms(5) Some DirNode target_off_stage(4,5) [OF su] none [of "[]"]
        by (auto simp: fs_rename_def split: if_splits)
      moreover have "\<not> has_below s ?p" using none by (auto simp: has_below_iff strict_prefix_def prefix_def)
      ultimately show ?thesis using assms(6) node_at_move_tree target_off_stage(4) [OF su] by simp
    next
      case (FileNode b)
      have u: "u = AList.update ?p (FileNode b) (AList.delete target s)"
        using assms(5,6) Some FileNode by (auto simp: fs_rename_def split: if_splits)
      have root: "node_at t target = Some (FileNode b)" "fs_wf t"
        using here [of "[]"] Some FileNode su by (simp_all add: delete_setup_def)
      have "node_at t (target @ z) = None" if "z \<noteq> []" for z
        using fs_wf_ancestor [OF root(2) _ that, of target] root(1) by fastforce
      then have "node_at s (target @ z) = (if z = [] then Some (FileNode b) else None)" for z
        using here [of z] root(1) by simp
      then show ?thesis using u Some FileNode none by (auto simp: prefix_def)
    qed
  qed
  have "elsewhere_same d tomb target K t u"
    using s node append_prefixD [of "stage_path d tomb" "[staged_payload_name]"] by (auto simp: intact_def elsewhere_same_def)
  moreover have "file_value (tj_from_slice tj) u (tomb_path d tomb) = Some tomb"
    using assms(3) node [of "tomb_path d tomb"] target_off_stage(3) [OF su] by (auto simp: file_value_def)
  moreover have "node_at u (target @ z) = None" for z
  proof -
    have "\<not> prefix ?p (target @ z)"
      using prefix_same_cases [of ?p "target @ z" target] target_off_stage(4,5) [OF su] by auto
    then show ?thesis using node [of "target @ z"] by simp
  qed
  moreover from this have "node_at u target = None" "\<not> has_below u target"
    by (metis append_Nil2) (auto simp: has_below_iff strict_prefix_def prefix_def \<open>\<And>z. node_at u (target @ z) = None\<close>)
  moreover have "node_at u (stage_path d tomb) = Some DirNode"
    using assms(4) node [of "stage_path d tomb"] target_off_stage(1) [OF su] by (auto dest: prefix_length_le)
  moreover have "prefix ?p q" if "strict_prefix (stage_path d tomb) q" "node_at u q \<noteq> None" for q
    using that node [of q] nb by (auto simp: has_below_iff split: if_splits)
  moreover have "node_at u (?p @ z) = node_at t (target @ z)" for z using node [of "?p @ z"] here by simp
  ultimately show ?thesis by (auto simp: moved_def)
qed

section \<open>The programs\<close>

lemma mkdir_intact:
  assumes su: "delete_setup d tomb target K t" and s: "intact tj d tomb target K t (dk_fs w)" and p: "p = d \<or> p = stage_path d tomb"
  shows "run_ok (intact tj d tomb target K t) (fs_call (fs_create_dir_all p)) w
     (\<lambda>r v. same_world w v \<and> intact tj d tomb target K t (dk_fs v) \<and>
        node_at (dk_fs v) (tomb_path d tomb) = node_at (dk_fs w) (tomb_path d tomb) \<and> (r = Ok () \<longrightarrow> node_at (dk_fs v) p = Some DirNode))"
    (is "run_ok ?I _ w ?Q")
proof -
  have step: "node_at u q = node_at (dk_fs w) q \<or> prefix q p \<and> node_at (dk_fs w) q = None \<and> node_at u q = Some DirNode"
    if "fs_create_dir_all p (dk_fs w) = Ok (x, ts)" "u \<in> set (dk_fs w # ts)" for x ts u q
    using that mkdir_steps_only [of u "prefixes p" "dk_fs w" q] by (auto simp: fs_create_dir_all_def split: if_splits)
  have ok: "?I u" if "fs_create_dir_all p (dk_fs w) = Ok (x, ts)" "u \<in> set (dk_fs w # ts)" for x ts u
    by (rule intact_mkdir [OF su s p step [OF that]])
  have fin: "node_at (last (dk_fs w # ts)) p = Some DirNode" if "fs_create_dir_all p (dk_fs w) = Ok (x, ts)" for x ts
  proof -
    have "ts = mkdir_steps (prefixes p) (dk_fs w)" "node_at (dk_fs w) p \<in> {None, Some DirNode}"
      using that by (auto simp: fs_create_dir_all_def list_ex_iff split: if_splits)
    then show ?thesis using mkdir_steps_final [of "dk_fs w" "prefixes p" p] by (auto simp del: last.simps)
  qed
  have tomb: "node_at u (tomb_path d tomb) = node_at (dk_fs w) (tomb_path d tomb)"
    if "fs_create_dir_all p (dk_fs w) = Ok (x, ts)" "u \<in> set (dk_fs w # ts)" for x ts u
    using step [OF that, of "tomb_path d tomb"] p by auto
  show ?thesis
  proof (rule run_ok_post [OF call_spec])
    show "\<forall>u \<in> set ts. ?I u" if "fs_create_dir_all p (dk_fs w) = Ok (x, ts)" for x ts using ok [OF that] by simp
    fix r v assume cp: "call_post (fs_create_dir_all p) w r v"
    show "?Q r v"
    proof (cases r)
      case (Inl e)
      then have "dk_fs v = dk_fs w \<or> (\<exists>x ts. fs_create_dir_all p (dk_fs w) = Ok (x, ts) \<and> dk_fs v \<in> set (dk_fs w # ts))"
        using cp by (auto simp: call_post_def dest: in_set_butlastD)
      then show ?thesis using cp Inl ok tomb s by (auto simp: call_post_def same_world_def simp del: list.set)
    next
      case (Inr x)
      then obtain ts where ts: "fs_create_dir_all p (dk_fs w) = Ok (x, ts)" "dk_fs v = last (dk_fs w # ts)"
        using cp by (auto simp: call_post_def simp del: last.simps)
      then have "dk_fs v \<in> set (dk_fs w # ts)" by (metis last_in_set list.discI)
      then show ?thesis using cp Inr ts ok [OF ts(1)] tomb [OF ts(1)] fin [OF ts(1)]
        by (simp add: call_post_def same_world_def del: list.set last.simps)
    qed
  qed
qed

lemma write_tombstone_spec:
  assumes "tombstones_ok tj" and su: "delete_setup d tomb target K (dk_fs w)"
  shows "run_ok (intact tj d tomb target K (dk_fs w)) (write_tombstone tj d tomb) w
     (\<lambda>r v. same_world w v \<and> intact tj d tomb target K (dk_fs w) (dk_fs v) \<and>
        (\<forall>staged. r = Ok staged \<longrightarrow> staged = for_tombstone d tomb \<and>
           file_value (tj_from_slice tj) (dk_fs v) (tomb_path d tomb) = Some tomb))"
    (is "run_ok ?I _ w ?Q")
proof -
  have put: "run_ok ?I (bind_p (to_vec (tj_to_vec tj) tomb) (\<lambda>bs. bind_p (put_atomic (tomb_path d tomb) bs) (\<lambda>_. ret (for_tombstone d tomb)))) v ?Q"
    if v: "same_world w v" "?I (dk_fs v)" for v
  proof (cases "tj_to_vec tj tomb")
    case (Inl e)
    then show ?thesis unfolding to_vec_def by (intro run_ok_bind run_ok_lift) (use v in simp)
  next
    case (Inr bs)
    then have dec: "tj_from_slice tj bs = Ok tomb" using assms(1) by (simp add: codec_ok_def)
    have "run_ok ?I (bind_p (put_atomic (tomb_path d tomb) bs) (\<lambda>_. ret (for_tombstone d tomb))) v ?Q"
      by (rule run_ok_step [OF put_atomic_spec])
        (use v intact_tombstone [OF su _ _ dec] same_world_trans dec in
          \<open>auto simp: same_world_def file_value_Some intro!: run_ok_ret\<close>)
    then show ?thesis unfolding to_vec_def by (intro run_ok_bind run_ok_lift) (simp add: Inr)
  qed
  show ?thesis
    unfolding write_tombstone_def Let_def io_at_def for_tombstone_paths
    by (rule run_ok_seq_err [OF mkdir_intact [OF su intact_refl [OF su]]]) (use put in auto)
qed

lemma stage_payload_spec:
  assumes su: "delete_setup d tomb target K t" and s: "intact tj d tomb target K t (dk_fs w)"
    and tomb: "file_value (tj_from_slice tj) (dk_fs w) (tomb_path d tomb) = Some tomb"
  shows "run_ok (deleting tj d tomb target K t) (stage_payload target (for_tombstone d tomb)) w
     (\<lambda>r v. same_world w v \<and> deleting tj d tomb target K t (dk_fs v) \<and> (r = Ok () \<longrightarrow> moved tj d tomb target K t (dk_fs v)))"
    (is "run_ok ?I _ w ?Q")
proof -
  let ?d = "stage_path d tomb" and ?p = "payload_path d tomb"
  have II: "?I u" if "intact tj d tomb target K t u \<or> moved tj d tomb target K t u" for u using that by (simp add: deleting_def)
  have sync: "run_ok ?I (bind_p (io_at (butlast target) (fsync_dir (butlast target))) (\<lambda>_. io_at ?d (fsync_dir ?d))) v ?Q"
    if "same_world w v" "moved tj d tomb target K t (dk_fs v)" for v
    unfolding io_at_def
    by (rule run_ok_seq_err [OF fsync_dir_spec])
      (use that II in \<open>auto simp: same_world_def intro!: run_ok_map_err run_ok_post [OF fsync_dir_spec] split: sum.splits\<close>)
  have ren: "run_ok ?I (bind_p (io_at target (fs_call (fs_rename target ?p))) (\<lambda>_.
      bind_p (io_at (butlast target) (fsync_dir (butlast target))) (\<lambda>_. io_at ?d (fsync_dir ?d)))) v ?Q"
    if v: "same_world w v" "intact tj d tomb target K t (dk_fs v)" "file_value (tj_from_slice tj) (dk_fs v) (tomb_path d tomb) = Some tomb"
      "node_at (dk_fs v) ?d = Some DirNode" for v
  proof -
    have mv: "moved tj d tomb target K t u" if "fs_rename target ?p (dk_fs v) = Ok (x, ts)" "u \<in> set ts" for x ts u
      by (rule intact_rename [OF su v(2,3,4) that])
    have one: "ts \<noteq> [] \<and> butlast ts = []" if "fs_rename target ?p (dk_fs v) = Ok (x, ts)" for x ts
      using that by (auto simp: fs_rename_def split: option.splits node.splits if_splits)
    show ?thesis
      unfolding io_at_def [of target]
    proof (rule run_ok_seq_err [OF call_spec])
      show "\<forall>u \<in> set ts. ?I u" if "fs_rename target ?p (dk_fs v) = Ok (x, ts)" for x ts using mv [OF that] II by blast
      show "?Q (Inl (io_err target e)) v'" if "call_post (fs_rename target ?p) v (Inl e) v'" for e v'
        using that v II one by (auto simp: call_post_def same_world_def)
      show "run_ok ?I (bind_p (io_at (butlast target) (fsync_dir (butlast target))) (\<lambda>_. io_at ?d (fsync_dir ?d))) v' ?Q"
        if "call_post (fs_rename target ?p) v (Inr x) v'" for x v'
        by (rule sync) (use that v(1) mv one in \<open>auto simp: call_post_def same_world_def\<close>)
    qed
  qed
  have presync: "run_ok ?I (bind_p (io_at (butlast ?d) (fsync_dir (butlast ?d))) (\<lambda>_. bind_p (io_at target (fs_call (fs_rename target ?p))) (\<lambda>_.
      bind_p (io_at (butlast target) (fsync_dir (butlast target))) (\<lambda>_. io_at ?d (fsync_dir ?d))))) v ?Q"
    if v: "same_world w v" "intact tj d tomb target K t (dk_fs v)" "file_value (tj_from_slice tj) (dk_fs v) (tomb_path d tomb) = Some tomb"
      "node_at (dk_fs v) ?d = Some DirNode" for v
    unfolding io_at_def [of "butlast ?d"]
    by (rule run_ok_seq_err [OF fsync_dir_spec]) (use v II ren in \<open>auto simp: same_world_def\<close>)
  have "target \<noteq> []" using su by (auto simp: delete_setup_def)
  then show ?thesis
    unfolding stage_payload_def Let_def for_tombstone_paths io_at_def [of ?d "fs_call (fs_create_dir_all ?d)"]
    by (simp only: if_False) (rule run_ok_step_err [OF mkdir_intact [OF su s]];
      use II presync tomb in \<open>auto simp: file_value_def\<close>)
qed

end
