(* ===== verification/Recovery_Staging.thy ===== *)
theory Recovery_Staging
  imports Recovery Staging_Crash Rotation_Properties
begin

text \<open>
  The staging sweep at boot.  Whatever fails, it removes entries below the staging directory only; when nothing
  fails, it finishes every announced delete and leaves neither tombstones nor stage directories behind.
\<close>

section \<open>Removing trees and draining payloads\<close>

lemma delete_steps_prunes:
  assumes "fs_wf t" and "node_at t p = Some DirNode" and "fs_remove_dir_all p t = Ok (x, ts)"
  shows "s \<in> set ts \<Longrightarrow> prunes (at_or_under p) t s"
    and "node_at (last (t # ts)) p = None" "\<not> has_below (last (t # ts)) p" "ts \<noteq> []"
proof -
  let ?qs = "rev (sort_key length (filter (prefix p) (remdups (map fst t))))"
  have ts: "ts = delete_steps ?qs t" using assms(2,3) by (simp add: fs_remove_dir_all_def)
  have qs: "set ?qs = {q. prefix p q \<and> node_at t q \<noteq> None}" by (auto simp: node_at_def map_of_eq_None_iff)
  show "prunes (at_or_under p) t s" if "s \<in> set ts"
  proof -
    have "fs_wf s" using op_wf_remove_dir_all assms(1,3) that by (auto simp: op_wf_def)
    moreover have "shrinks (at_or_under p) t s"
      using that delete_steps_only [of s ?qs t] ts qs by (auto simp: shrinks_def strict_prefix_def)
    ultimately show ?thesis by (simp add: prunes_def)
  qed
  have fin: "node_at (last (t # ts)) q = None" if "prefix p q" for q
    using node_at_deletes [of t ?qs q] ts qs that by (auto simp del: last.simps)
  then show "node_at (last (t # ts)) p = None" "\<not> has_below (last (t # ts)) p"
    by (auto simp: has_below_iff strict_prefix_def simp del: last.simps)
  show "ts \<noteq> []"
  proof
    assume "ts = []"
    then show False using fin [of p] assms(2) by simp
  qed
qed

lemma pruned_remove_all:
  assumes "fs_wf (dk_fs w)" and "at_or_under p \<subseteq> X"
  shows "pruned X (fs_call (fs_remove_dir_all p)) w
     (\<lambda>r t. \<not> faulty w \<longrightarrow> \<not> is_file_at (dk_fs w) p \<longrightarrow> node_at t p = None)"
    (is "pruned X _ w ?Q")
  unfolding pruned_def
proof (rule run_ok_post [OF call_spec])
  let ?op = "fs_remove_dir_all p"
  have dir: "node_at (dk_fs w) p = Some DirNode" if "?op (dk_fs w) = Ok (x, ts)" for x ts
    using that by (auto simp: fs_remove_dir_all_def split: option.splits node.splits)
  have st: "prunes X (dk_fs w) s" if "?op (dk_fs w) = Ok (x, ts)" "s \<in> set ts" for x ts s
    using delete_steps_prunes(1) [OF assms(1) dir [OF that(1)] that] prunes_mono [OF _ assms(2)] by blast
  show "\<forall>s \<in> set ts. prunes X (dk_fs w) s" if "?op (dk_fs w) = Ok (x, ts)" for x ts using st [OF that] by blast
  fix r v assume cp: "call_post ?op w r v"
  show "same_faults w v \<and> prunes X (dk_fs w) (dk_fs v) \<and> ?Q r (dk_fs v)"
  proof (cases r)
    case (Inl e)
    have "prunes X (dk_fs w) (dk_fs v)"
      using cp Inl st assms(1) by (auto simp: call_post_def dest: in_set_butlastD)
    moreover have "node_at (dk_fs v) p = None" if "\<not> faulty w" "\<not> is_file_at (dk_fs w) p"
      using cp Inl that by (auto simp: call_post_def faulty_def fs_remove_dir_all_def is_file_at_def split: option.splits node.splits)
    ultimately show ?thesis using cp by (auto simp: call_post_def same_faults_def)
  next
    case (Inr x)
    then obtain ts where ts: "?op (dk_fs w) = Ok (x, ts)" "dk_fs v = last (dk_fs w # ts)"
      using cp by (auto simp: call_post_def simp del: last.simps)
    have "ts \<noteq> []" by (rule delete_steps_prunes(4) [OF assms(1) dir [OF ts(1)] ts(1)])
    then have "dk_fs v \<in> set ts" using ts(2) by simp
    then show ?thesis using cp st [OF ts(1)] delete_steps_prunes(2) [OF assms(1) dir [OF ts(1)] ts(1)] ts(2)
      by (simp add: call_post_def same_faults_def del: last.simps)
  qed
qed

abbreviation node_count :: "fs \<Rightarrow> nat" where
  "node_count t \<equiv> card {q. node_at t q \<noteq> None}"

lemma node_count_lost:
  assumes "shrinks X t s"
  shows "node_count t = node_count s + card (lost t s)"
proof -
  have "{q. node_at t q \<noteq> None} = {q. node_at s q \<noteq> None} \<union> lost t s"
    using assms shrinks_present [OF assms] by (auto simp: lost_def)
  moreover have "{q. node_at s q \<noteq> None} \<inter> lost t s = {}" by (auto simp: lost_def)
  ultimately show ?thesis using finite_nodes [of s] by (simp add: card_Un_disjoint)
qed

text \<open>A million batches are enough for a quarter of a billion entries.\<close>

lemma drain_loop_spec:
  assumes "fs_wf (dk_fs w)"
  shows "pruned (at_or_under (sd_payload staged)) (drain_loop staged n) w
     (\<lambda>r t. (\<exists>b. r = Ok b) \<and> (\<not> faulty w \<longrightarrow> node_count (dk_fs w) < default_delete_batch_entries * n \<longrightarrow>
        r = Ok True \<and> emptied (sd_payload staged) t))"
  using assms
proof (induction n arbitrary: w)
  case 0
  then show ?case by (subst drain_loop.simps) (auto intro!: pruned_ret)
next
  case (Suc n)
  let ?X = "at_or_under (sd_payload staged)" and ?b = default_delete_batch_entries
  show ?case
    unfolding drain_loop.simps [of staged "Suc n"] diff_Suc_1 if_not_P [OF nat.distinct(2)]
  proof (rule pruned_bind_attempt [OF drain_staged_payload_spec [OF Suc.prems]])
    fix r v assume v: "same_faults w v" "prunes ?X (dk_fs w) (dk_fs v)"
      "(\<not> faulty w \<longrightarrow> batch_result (sd_payload staged) ?b (dk_fs w) r (dk_fs v)) \<and>
        (r = Ok DrainMore \<longrightarrow> card (lost (dk_fs w) (dk_fs v)) = ?b)"
    have wf: "fs_wf (dk_fs v)" using v(2) by (simp add: prunes_def)
    have more: "node_count (dk_fs v) < ?b * n" if "\<not> faulty w" "r = Ok DrainMore" "node_count (dk_fs w) < ?b * Suc n"
      using v(3) that node_count_lost [of "under (sd_payload staged)" "dk_fs w" "dk_fs v"] by (simp add: batch_result_def)
    show "pruned ?X (case r of Inl _ \<Rightarrow> ret False | Inr DrainDone \<Rightarrow> ret True | Inr DrainMore \<Rightarrow> drain_loop staged n) v
        (\<lambda>r t. (\<exists>b. r = Ok b) \<and> (\<not> faulty w \<longrightarrow> node_count (dk_fs w) < ?b * Suc n \<longrightarrow> r = Ok True \<and> emptied (sd_payload staged) t))"
    proof (cases "r = Ok DrainMore")
      case True
      then show ?thesis
        using pruned_weaken [OF Suc.IH [OF wf] subset_refl] more faulty_faults [OF v(1)] by auto
    next
      case False
      then show ?thesis
        using v wf by (auto simp: batch_result_def split: sum.splits drain_result.splits intro!: pruned_ret)
    qed
  qed
qed

definition few_nodes :: "fs \<Rightarrow> bool" where
  "few_nodes t \<longleftrightarrow> node_count t < default_delete_batch_entries * max_drain_iterations"

lemma few_nodes_shrinks: "shrinks X t s \<Longrightarrow> few_nodes t \<Longrightarrow> few_nodes s"
  using node_count_lost [of X t s] by (simp add: few_nodes_def)

section \<open>One tombstone\<close>

definition harmless :: "(workspace_id \<Rightarrow> 'z disk_scheme \<Rightarrow> 'z disk_scheme) \<Rightarrow> bool" where
  "harmless evict \<longleftrightarrow>
     (\<forall>ws w. dk_fs (evict ws w) = dk_fs w \<and> dk_trace (evict ws w) = dk_trace w \<and> dk_fault (evict ws w) = dk_fault w \<and>
        dk_rand (evict ws w) = dk_rand w)"

lemma pruned_modify:
  assumes "harmless evict" and "fs_wf (dk_fs w)" and "Q (Ok ()) (dk_fs w)"
  shows "pruned X (modify (evict ws)) w Q"
  using assms unfolding pruned_def harmless_def by (intro run_ok_modify) (auto simp: same_faults_def)

definition tomb_at :: "tombstone_serde \<Rightarrow> path \<Rightarrow> fs \<Rightarrow> string \<Rightarrow> delete_tombstone option" where
  "tomb_at tj d t name = file_value (tj_from_slice tj) t (d @ [name])"

text \<open>
  A readable tombstone is the one its file name says, and its stage directory is as the delete left it.
\<close>

definition tomb_ready :: "tombstone_serde \<Rightarrow> path \<Rightarrow> fs \<Rightarrow> string \<Rightarrow> bool" where
  "tomb_ready tj d t name \<longleftrightarrow>
     (\<forall>tomb. tomb_at tj d t name = Some tomb \<longrightarrow>
        tombstone_filename tomb = name \<and> stage_ready (for_tombstone d tomb) t)"

definition own_paths :: "tombstone_serde \<Rightarrow> path \<Rightarrow> fs \<Rightarrow> string \<Rightarrow> path set" where
  "own_paths tj d t name =
     insert (d @ [name]) {q. \<exists>tomb. tomb_at tj d t name = Some tomb \<and> prefix (stage_path d tomb) q}"

definition resumed :: "tombstone_serde \<Rightarrow> path \<Rightarrow> fs \<Rightarrow> string \<Rightarrow> string option \<times> bool \<Rightarrow> fs \<Rightarrow> bool" where
  "resumed tj d t name r t' \<longleftrightarrow>
     node_at t' (d @ [name]) = None \<and> shrinks (own_paths tj d t name) t t' \<and>
     (case tomb_at tj d t name of
        None \<Rightarrow> r = (None, False)
      | Some tomb \<Rightarrow> r = (Some (stage_dir_name tomb), True) \<and> node_at t' (stage_path d tomb) = None)"

lemma read_tombstone_spec:
  assumes "fs_wf (dk_fs w)"
  shows "pruned X (read_tombstone tj (d @ [name])) w
     (\<lambda>r t. t = dk_fs w \<and> (\<forall>tomb. r = Ok tomb \<longrightarrow> tomb_at tj d t name = Some tomb) \<and>
        (\<not> faulty w \<longrightarrow> (\<forall>e. r = Err e \<longrightarrow> tomb_at tj d t name = None)))"
  unfolding read_tombstone_def io_at_def from_slice_def
proof (rule pruned_bind_err [OF pruned_pure [OF assms read_pure]], assumption)
  fix bs v assume v: "prunes X (dk_fs w) (dk_fs v)" "call_result (fs_read (d @ [name])) w (Inr bs) (dk_fs v)"
  then have "dk_fs v = dk_fs w" "node_at (dk_fs w) (d @ [name]) = Some (FileNode bs)"
    by (auto simp: call_result_def fs_read_def split: option.splits node.splits)
  then show "pruned X (lift_result (case tj_from_slice tj bs of Inl e \<Rightarrow> Err (metadata_parse_err (d @ [name]) e) | Inr x \<Rightarrow> Ok x)) v
      (\<lambda>r t. t = dk_fs w \<and> (\<forall>tomb. r = Ok tomb \<longrightarrow> tomb_at tj d t name = Some tomb) \<and>
        (\<not> faulty w \<longrightarrow> (\<forall>e. r = Err e \<longrightarrow> tomb_at tj d t name = None)))"
    using assms unfolding pruned_def by (intro run_ok_lift) (auto simp: tomb_at_def file_value_def split: sum.splits)
qed (auto simp: call_result_def fs_read_def tomb_at_def file_value_def split: option.splits node.splits)

lemma under_dir: "d @ x # xs \<in> under d" "at_or_under (d @ x # xs) \<subseteq> under d"
  by (auto simp: strict_prefix_def prefix_def)

lemma resume_paired:
  fixes w :: "'z disk_scheme"
  assumes wf: "fs_wf (dk_fs w)" and "harmless evict" and tomb: "tomb_at tj d (dk_fs w) name = Some tomb"
    and good: "good \<Longrightarrow> \<not> faulty w \<and> tomb_ready tj d (dk_fs w) name \<and> few_nodes (dk_fs w)"
  shows "pruned (under d) (bind_p (drain_loop (for_tombstone d tomb) max_drain_iterations) (\<lambda>drain_ok.
          if \<not> drain_ok then ret (Some (stage_dir_name tomb), False)
          else bind_p (attempt (finalize_staged_delete (for_tombstone d tomb))) (\<lambda>f.
            case f of
              Inl _ \<Rightarrow> ret (Some (stage_dir_name tomb), False)
            | Inr _ \<Rightarrow> bind_p (modify (evict (tombstone_workspace_id tomb))) (\<lambda>_. ret (Some (stage_dir_name tomb), True))))) w
     (\<lambda>r t. (\<exists>p. r = Ok p) \<and> (good \<longrightarrow> (\<exists>p. r = Ok p \<and> resumed tj d (dk_fs w) name p t)))"
    (is "pruned ?X ?m w ?Q")
proof -
  let ?st = "for_tombstone d tomb" and ?t = "dk_fs w"
  have name: "tombstone_filename tomb = name" "stage_ready ?st ?t" if good using tomb good that by (auto simp: tomb_ready_def)
  have X: "at_or_under (sd_payload ?st) \<subseteq> ?X" "staged_paths ?st \<subseteq> ?X"
    by (auto simp: staged_paths_def strict_prefix_def prefix_def)
  have own: "at_or_under (sd_payload ?st) \<subseteq> own_paths tj d ?t name" "staged_paths ?st \<subseteq> own_paths tj d ?t name" if good
    using tomb name that by (auto simp: own_paths_def staged_paths_def strict_prefix_def prefix_def)
  have drain: "pruned ?X (drain_loop ?st max_drain_iterations) w (\<lambda>r t. (\<exists>b. r = Ok b) \<and>
      (good \<longrightarrow> shrinks (own_paths tj d ?t name) ?t t \<and> r = Ok True \<and> emptied (sd_payload ?st) t))"
    by (rule pruned_weaken [OF drain_loop_spec [OF wf] X(1)]) (use good shrinks_mono [OF _ own(1)] in \<open>auto simp: prunes_def few_nodes_def\<close>)
  have fin: "pruned ?X (attempt (finalize_staged_delete ?st)) v (\<lambda>r t. \<exists>f. r = Ok f \<and>
      (good \<longrightarrow> shrinks (own_paths tj d ?t name) ?t t \<and> f = Ok () \<and> node_at t (stage_path d tomb) = None \<and> node_at t (d @ [name]) = None))"
    if v: "same_faults w v" "prunes ?X ?t (dk_fs v)" "good \<longrightarrow> shrinks (own_paths tj d ?t name) ?t (dk_fs v) \<and> emptied (sd_payload ?st) (dk_fs v)" for v
  proof (rule pruned_attempt, rule pruned_weaken [OF finalize_spec [OF _ for_tombstone_wf] X(2)])
    show "fs_wf (dk_fs v)" using v(2) by (simp add: prunes_def)
    fix r t assume t: "prunes (staged_paths ?st) (dk_fs v) t"
      "\<not> faulty v \<longrightarrow> emptied (sd_payload ?st) (dk_fs v) \<longrightarrow> stage_ready ?st (dk_fs v) \<longrightarrow> r = Ok () \<and> (\<forall>p \<in> staged_paths ?st. node_at t p = None)"
    have "shrinks (own_paths tj d ?t name) ?t t" if good
      using shrinks_trans [of _ _ "dk_fs v"] v(3) shrinks_mono [OF _ own(2)] t(1) that by (auto simp: prunes_def)
    moreover have "r = Ok () \<and> node_at t (stage_path d tomb) = None \<and> node_at t (d @ [name]) = None" if good
      using t(2) v faulty_faults [OF v(1)] shrinks_ready [OF _ name(2) [OF that]] name(1) [OF that] good that by (auto simp: staged_paths_def)
    ultimately show "\<exists>f. Ok r = Ok f \<and> (good \<longrightarrow> shrinks (own_paths tj d ?t name) ?t t \<and> f = Ok () \<and>
        node_at t (stage_path d tomb) = None \<and> node_at t (d @ [name]) = None)" by simp
  qed
  have done_ok: "resumed tj d ?t name (Some (stage_dir_name tomb), True) t"
    if "shrinks (own_paths tj d ?t name) ?t t" "node_at t (stage_path d tomb) = None" "node_at t (d @ [name]) = None" for t
    using that tomb by (simp add: resumed_def)
  show ?thesis
  proof (rule pruned_bind [OF drain])
    fix b v assume v: "same_faults w v" "prunes ?X ?t (dk_fs v)" "(\<exists>c. Inr b = Ok c) \<and>
      (good \<longrightarrow> shrinks (own_paths tj d ?t name) ?t (dk_fs v) \<and> Inr b = Ok True \<and> emptied (sd_payload ?st) (dk_fs v))"
    have wfv: "fs_wf (dk_fs v)" using v(2) by (simp add: prunes_def)
    show "pruned ?X (if \<not> b then ret (Some (stage_dir_name tomb), False)
          else bind_p (attempt (finalize_staged_delete ?st)) (\<lambda>f.
            case f of
              Inl _ \<Rightarrow> ret (Some (stage_dir_name tomb), False)
            | Inr _ \<Rightarrow> bind_p (modify (evict (tombstone_workspace_id tomb))) (\<lambda>_. ret (Some (stage_dir_name tomb), True)))) v ?Q"
    proof (cases b)
      case False
      then show ?thesis using v wfv by (auto intro!: pruned_ret)
    next
      case True
      have "pruned ?X (bind_p (attempt (finalize_staged_delete ?st)) (\<lambda>f.
            case f of
              Inl _ \<Rightarrow> ret (Some (stage_dir_name tomb), False)
            | Inr _ \<Rightarrow> bind_p (modify (evict (tombstone_workspace_id tomb))) (\<lambda>_. ret (Some (stage_dir_name tomb), True)))) v ?Q"
      proof (rule pruned_bind [OF fin])
        fix f and u :: "'z disk_scheme" assume u: "prunes ?X (dk_fs v) (dk_fs u)" "\<exists>g. Inr f = Ok g \<and>
          (good \<longrightarrow> shrinks (own_paths tj d ?t name) ?t (dk_fs u) \<and> g = Ok () \<and> node_at (dk_fs u) (stage_path d tomb) = None \<and> node_at (dk_fs u) (d @ [name]) = None)"
        have "pruned ?X (bind_p (modify (evict (tombstone_workspace_id tomb))) (\<lambda>_. ret (Some (stage_dir_name tomb), True))) u ?Q"
          if "good \<longrightarrow> resumed tj d ?t name (Some (stage_dir_name tomb), True) (dk_fs u)"
          by (rule pruned_bind [OF pruned_modify [OF assms(2), where Q = "\<lambda>r t. r = Ok () \<and> t = dk_fs u"]])
            (use u that in \<open>auto simp: prunes_def intro!: pruned_ret\<close>)
        then show "pruned ?X (case f of
              Inl _ \<Rightarrow> ret (Some (stage_dir_name tomb), False)
            | Inr _ \<Rightarrow> bind_p (modify (evict (tombstone_workspace_id tomb))) (\<lambda>_. ret (Some (stage_dir_name tomb), True))) u ?Q"
          using u done_ok by (auto simp: prunes_def split: sum.splits intro!: pruned_ret)
      qed (use v in auto)
      then show ?thesis using True by simp
    qed
  qed auto
qed

lemma tomb_ready_shrinks: "shrinks X t s \<Longrightarrow> tomb_ready tj d t name \<Longrightarrow> tomb_ready tj d s name"
proof -
  assume sh: "shrinks X t s" and ready: "tomb_ready tj d t name"
  have "tomb_at tj d t name = Some tomb" if "tomb_at tj d s name = Some tomb" for tomb
  proof -
    have "node_at s (d @ [name]) \<noteq> None" using that by (cases "node_at s (d @ [name])") (auto simp: tomb_at_def file_value_def)
    then have "node_at s (d @ [name]) = node_at t (d @ [name])" using sh unfolding shrinks_def by metis
    then show ?thesis using that by (simp add: tomb_at_def file_value_def)
  qed
  then show ?thesis using ready shrinks_ready [OF sh] by (simp add: tomb_ready_def)
qed

text \<open>What a sweep without failures needs of a tree: nothing fails, the tree is not gigantic, the tombstones are in order.\<close>

definition sweepable :: "tombstone_serde \<Rightarrow> path \<Rightarrow> string list \<Rightarrow> fs \<Rightarrow> bool" where
  "sweepable tj d names t \<longleftrightarrow> few_nodes t \<and> (\<forall>name \<in> set names. tomb_ready tj d t name \<and> \<not> is_dir_at t (d @ [name]))"

lemma sweepable_shrinks: "shrinks X t s \<Longrightarrow> sweepable tj d names t \<Longrightarrow> sweepable tj d names s"
  unfolding sweepable_def using few_nodes_shrinks tomb_ready_shrinks unfolding shrinks_def is_dir_at_def
  by (metis option.distinct(1))

lemma resume_delete_spec:
  fixes w :: "'z disk_scheme"
  assumes wf: "fs_wf (dk_fs w)" and "harmless evict" and good: "good \<Longrightarrow> \<not> faulty w \<and> sweepable tj d [name] (dk_fs w)"
  shows "pruned (under d) (resume_delete tj d evict name) w
     (\<lambda>r t. \<exists>p. r = Ok p \<and> (good \<longrightarrow> node_at t (d @ [name]) = None \<and> (\<forall>s. fst p = Some s \<longrightarrow> node_at t (d @ [s]) = None)))"
    (is "pruned ?X _ w ?Q")
  unfolding resume_delete_def Let_def
proof (rule pruned_bind_attempt [OF read_tombstone_spec [OF wf]])
  let ?p = "d @ [name]"
  fix r and v :: "'z disk_scheme"
  assume v: "same_faults w v" "dk_fs v = dk_fs w \<and> (\<forall>tomb. r = Ok tomb \<longrightarrow> tomb_at tj d (dk_fs v) name = Some tomb) \<and>
    (\<not> faulty w \<longrightarrow> (\<forall>e. r = Err e \<longrightarrow> tomb_at tj d (dk_fs v) name = None))"
  have wfv: "fs_wf (dk_fs v)" using v(2) wf by simp
  have goodv: "\<not> faulty v \<and> sweepable tj d [name] (dk_fs v)" if good using good [OF that] v faulty_faults [OF v(1)] by simp
  show "pruned ?X (case r of
        Inl _ \<Rightarrow> bind_p (attempt (fs_call (fs_remove_file ?p))) (\<lambda>_. ret (None, False))
      | Inr tombstone \<Rightarrow> bind_p (drain_loop (for_tombstone d tombstone) max_drain_iterations) (\<lambda>drain_ok.
          if \<not> drain_ok then ret (Some (stage_dir_name tombstone), False)
          else bind_p (attempt (finalize_staged_delete (for_tombstone d tombstone))) (\<lambda>f.
            case f of
              Inl _ \<Rightarrow> ret (Some (stage_dir_name tombstone), False)
            | Inr _ \<Rightarrow> bind_p (modify (evict (tombstone_workspace_id tombstone))) (\<lambda>_. ret (Some (stage_dir_name tombstone), True))))) v ?Q"
  proof (cases r)
    case (Inl e)
    have "pruned ?X (bind_p (attempt (fs_call (fs_remove_file ?p))) (\<lambda>_. ret (None, False))) v ?Q"
    proof (rule pruned_bind_attempt [OF pruned_remove(1) [OF wfv]])
      fix q and u :: "'z disk_scheme"
      assume u: "prunes ?X (dk_fs v) (dk_fs u)" "call_result (fs_remove_file ?p) v q (dk_fs u)"
      have "node_at (dk_fs u) ?p = None" if good
        using u(2) goodv [OF that]
        by (auto simp: call_result_def fs_remove_file_def faulty_def sweepable_def is_dir_at_def split: sum.splits option.splits node.splits)
      then show "pruned ?X (ret (None, False)) u ?Q" using u by (intro pruned_ret) (auto simp: prunes_def)
    qed (simp add: under_dir [simplified])
    then show ?thesis by (simp add: Inl)
  next
    case (Inr tomb)
    then have tomb: "tomb_at tj d (dk_fs v) name = Some tomb" using v by blast
    then show ?thesis
      unfolding Inr sum.case
      by (rule pruned_weaken [OF resume_paired [OF wfv assms(2) _, of tj d name tomb good] subset_refl])
        (use goodv in \<open>auto simp: sweepable_def resumed_def tomb\<close>)
  qed
qed

section \<open>The whole directory\<close>

lemma resume_deletes_spec:
  fixes w :: "'z disk_scheme"
  assumes "fs_wf (dk_fs w)" and "harmless evict" and "good \<Longrightarrow> \<not> faulty w \<and> sweepable tj d names (dk_fs w)"
  shows "pruned (under d) (resume_deletes tj d evict names stages) w
     (\<lambda>r t. \<exists>k rest. r = Ok (k, rest) \<and> set rest \<subseteq> set stages \<and> (good \<longrightarrow>
        (\<forall>n \<in> set names. node_at t (d @ [n]) = None) \<and> (\<forall>s \<in> set stages. s \<in> set rest \<or> node_at t (d @ [s]) = None)))"
  using assms
proof (induction names arbitrary: w stages)
  case Nil
  then show ?case by (auto intro!: pruned_ret)
next
  case (Cons name names)
  let ?X = "under d"
  have one: "sweepable tj d [name] (dk_fs w)" "sweepable tj d names (dk_fs w)" if good
    using Cons.prems(3) [OF that] by (simp_all add: sweepable_def)
  show ?case
    unfolding resume_deletes.simps
  proof (rule pruned_bind [OF resume_delete_spec [OF Cons.prems(1,2), of good]])
    fix p :: "string option \<times> bool" and v :: "'z disk_scheme"
    assume v: "same_faults w v" "prunes ?X (dk_fs w) (dk_fs v)" "\<exists>q. Inr p = Ok q \<and> (good \<longrightarrow> node_at (dk_fs v) (d @ [name]) = None \<and>
      (\<forall>s. fst q = Some s \<longrightarrow> node_at (dk_fs v) (d @ [s]) = None))"
    let ?rest = "case fst p of None \<Rightarrow> stages | Some s \<Rightarrow> removeAll s stages"
    have goodv: "\<not> faulty v \<and> sweepable tj d names (dk_fs v)" if good
      using Cons.prems(3) one(2) that v faulty_faults [OF v(1)] sweepable_shrinks by (auto simp: prunes_def)
    have "pruned ?X (bind_p (resume_deletes tj d evict names ?rest) (\<lambda>(n, rest). ret (if snd p then Suc n else n, rest))) v
      (\<lambda>r t. \<exists>k rest. r = Ok (k, rest) \<and> set rest \<subseteq> set stages \<and> (good \<longrightarrow>
        (\<forall>n \<in> set (name # names). node_at t (d @ [n]) = None) \<and> (\<forall>s \<in> set stages. s \<in> set rest \<or> node_at t (d @ [s]) = None)))"
    proof (rule pruned_bind [OF Cons.IH [OF _ Cons.prems(2) goodv]])
      fix x :: "nat \<times> string list" and u :: "'z disk_scheme"
      assume u: "prunes ?X (dk_fs v) (dk_fs u)" "\<exists>k rest. Inr x = Ok (k, rest) \<and> set rest \<subseteq> set ?rest \<and> (good \<longrightarrow>
        (\<forall>n \<in> set names. node_at (dk_fs u) (d @ [n]) = None) \<and> (\<forall>s \<in> set ?rest. s \<in> set rest \<or> node_at (dk_fs u) (d @ [s]) = None))"
      have keep: "node_at (dk_fs u) q = None" if "node_at (dk_fs v) q = None" for q
        using u(1) shrinks_gone [of ?X "dk_fs v" "dk_fs u" q] that by (simp add: prunes_def)
      have "set (snd x) \<subseteq> set stages" using u(2) by (auto split: option.splits)
      moreover have "s \<in> set (snd x) \<or> node_at (dk_fs u) (d @ [s]) = None" if good "s \<in> set stages" for s
        using u(2) v(3) that keep [of "d @ [s]"] by (cases "fst p = Some s") (auto split: option.splits)
      moreover have "node_at (dk_fs u) (d @ [n]) = None" if good "n \<in> set (name # names)" for n
        using u(2) v(3) that keep [of "d @ [n]"] by auto
      ultimately show "pruned ?X (case x of (n, rest) \<Rightarrow> ret (if snd p then Suc n else n, rest)) u
        (\<lambda>r t. \<exists>k rest. r = Ok (k, rest) \<and> set rest \<subseteq> set stages \<and> (good \<longrightarrow>
          (\<forall>n \<in> set (name # names). node_at t (d @ [n]) = None) \<and> (\<forall>s \<in> set stages. s \<in> set rest \<or> node_at t (d @ [s]) = None)))"
        using u(1) by (cases x) (auto simp: prunes_def intro!: pruned_ret)
    qed (use v in \<open>auto simp: prunes_def\<close>)
    then show "pruned ?X (case p of (paired, completed) \<Rightarrow>
        bind_p (resume_deletes tj d evict names (case paired of None \<Rightarrow> stages | Some s \<Rightarrow> removeAll s stages)) (\<lambda>(n, rest).
        ret (if completed then Suc n else n, rest))) v
      (\<lambda>r t. \<exists>k rest. r = Ok (k, rest) \<and> set rest \<subseteq> set stages \<and> (good \<longrightarrow>
        (\<forall>n \<in> set (name # names). node_at t (d @ [n]) = None) \<and> (\<forall>s \<in> set stages. s \<in> set rest \<or> node_at t (d @ [s]) = None)))"
      by (simp add: split_beta)
  qed (use one Cons.prems in auto)
qed

definition tomb_names :: "string \<Rightarrow> (string \<times> bool) list \<Rightarrow> string list" where
  "tomb_names pre es = [name. (name, is_dir) \<leftarrow> es, \<not> is_dir \<and> starts_with pre name \<and> ends_with ''.json'' name]"

definition stage_names :: "string \<Rightarrow> (string \<times> bool) list \<Rightarrow> string list" where
  "stage_names pre es = [name. (name, is_dir) \<leftarrow> es, is_dir \<and> starts_with pre name]"

lemma pruned_entry:
  assumes "fs_wf (dk_fs w)"
  shows "pruned X (fs_call fs_next_entry) w (\<lambda>r t. t = dk_fs w \<and> (\<not> faulty w \<longrightarrow> r = Ok ()))"
  by (rule pruned_weaken [OF pruned_pure [OF assms]]) (auto simp: fs_next_entry_def call_result_def split: sum.splits)

lemma classify_staging_spec:
  fixes w :: "'z disk_scheme"
  assumes "fs_wf (dk_fs w)"
  shows "pruned X (classify_staging d pre es) w
     (\<lambda>r t. t = dk_fs w \<and> (\<not> faulty w \<longrightarrow> r = Ok (tomb_names pre es, stage_names pre es)))"
  using assms
proof (induction es arbitrary: w)
  case Nil
  then show ?case by (auto simp: tomb_names_def stage_names_def intro!: pruned_ret)
next
  case (Cons e es)
  obtain name is_dir where e: "e = (name, is_dir)" by (cases e)
  show ?case
    unfolding e classify_staging.simps io_at_def
  proof (rule pruned_bind_err [OF pruned_entry [OF Cons.prems]])
    fix u v :: "'z disk_scheme" and x assume v: "same_faults w v" "dk_fs v = dk_fs w \<and> (\<not> faulty w \<longrightarrow> Inr x = Ok ())"
    have wfv: "fs_wf (dk_fs v)" using v Cons.prems by simp
    show "pruned X (bind_p (attempt (fs_call fs_next_entry)) (\<lambda>file_type. bind_p (classify_staging d pre es) (\<lambda>(tombs, stages). ret (case file_type of
         Inl _ \<Rightarrow> (tombs, stages)
       | Inr _ \<Rightarrow>
           if \<not> is_dir then (if starts_with pre name \<and> ends_with ''.json'' name then (name # tombs, stages) else (tombs, stages))
           else if starts_with pre name then (tombs, name # stages) else (tombs, stages))))) v
      (\<lambda>r t. t = dk_fs w \<and> (\<not> faulty w \<longrightarrow> r = Ok (tomb_names pre ((name, is_dir) # es), stage_names pre ((name, is_dir) # es))))"
    proof (rule pruned_bind_attempt [OF pruned_entry [OF wfv]], rule pruned_bind [OF Cons.IH])
      fix y r and u u' :: "'z disk_scheme"
      assume u: "same_faults v u" "dk_fs u = dk_fs v \<and> (\<not> faulty v \<longrightarrow> y = Ok ())"
        "dk_fs u' = dk_fs u \<and> (\<not> faulty u \<longrightarrow> Inr r = Ok (tomb_names pre es, stage_names pre es))"
      then show "pruned X (case r of (tombs, stages) \<Rightarrow> ret (case y of
         Inl _ \<Rightarrow> (tombs, stages)
       | Inr _ \<Rightarrow>
           if \<not> is_dir then (if starts_with pre name \<and> ends_with ''.json'' name then (name # tombs, stages) else (tombs, stages))
           else if starts_with pre name then (tombs, name # stages) else (tombs, stages))) u'
        (\<lambda>r t. t = dk_fs w \<and> (\<not> faulty w \<longrightarrow> r = Ok (tomb_names pre ((name, is_dir) # es), stage_names pre ((name, is_dir) # es))))"
        using v wfv faulty_faults [OF v(1)] faulty_faults [OF u(1)]
        by (cases r) (auto simp: tomb_names_def stage_names_def intro!: pruned_ret)
    qed (use v wfv in \<open>auto simp: faulty_faults\<close>)
  qed auto
qed

lemma sweep_orphan_stages_spec:
  fixes w :: "'z disk_scheme"
  assumes "fs_wf (dk_fs w)" and "good \<Longrightarrow> \<not> faulty w \<and> (\<forall>n \<in> set names. \<not> is_file_at (dk_fs w) (d @ [n]))"
  shows "pruned (under d) (sweep_orphan_stages d names) w
     (\<lambda>r t. (\<exists>k. r = Ok k) \<and> (good \<longrightarrow> (\<forall>n \<in> set names. node_at t (d @ [n]) = None)))"
  using assms
proof (induction names arbitrary: w)
  case Nil
  then show ?case by (auto intro!: pruned_ret)
next
  case (Cons name names)
  let ?X = "under d"
  show ?case
    unfolding sweep_orphan_stages.simps
  proof (rule pruned_bind_attempt [OF pruned_remove_all [OF Cons.prems(1) under_dir(2)]])
    fix r and v :: "'z disk_scheme"
    assume v: "same_faults w v" "prunes ?X (dk_fs w) (dk_fs v)"
      "\<not> faulty w \<longrightarrow> \<not> is_file_at (dk_fs w) (d @ [name]) \<longrightarrow> node_at (dk_fs v) (d @ [name]) = None"
    have goodv: "\<not> faulty v \<and> (\<forall>n \<in> set names. \<not> is_file_at (dk_fs v) (d @ [n]))" if good
      using Cons.prems(2) [OF that] v faulty_faults [OF v(1)] unfolding prunes_def shrinks_def is_file_at_iff
      by (metis list.set_intros(2) option.distinct(1))
    show "pruned ?X (bind_p (sweep_orphan_stages d names) (\<lambda>n. ret (case r of Inl _ \<Rightarrow> n | Inr _ \<Rightarrow> Suc n))) v
      (\<lambda>r t. (\<exists>k. r = Ok k) \<and> (good \<longrightarrow> (\<forall>n \<in> set (name # names). node_at t (d @ [n]) = None)))"
    proof (rule pruned_bind [OF Cons.IH [OF _ goodv]])
      fix k :: nat and u :: "'z disk_scheme"
      assume u: "prunes ?X (dk_fs v) (dk_fs u)" "(\<exists>j. Inr k = Ok j) \<and> (good \<longrightarrow> (\<forall>n \<in> set names. node_at (dk_fs u) (d @ [n]) = None))"
      have "node_at (dk_fs u) (d @ [name]) = None" if good
        using Cons.prems(2) [OF that] v(3) u(1) shrinks_gone [of ?X "dk_fs v" "dk_fs u" "d @ [name]"] by (simp add: prunes_def)
      then show "pruned ?X (ret (case r of Inl _ \<Rightarrow> k | Inr _ \<Rightarrow> Suc k)) u
        (\<lambda>r t. (\<exists>k. r = Ok k) \<and> (good \<longrightarrow> (\<forall>n \<in> set (name # names). node_at t (d @ [n]) = None)))"
        using u by (intro pruned_ret) (auto simp: prunes_def)
    qed (use v in \<open>auto simp: prunes_def\<close>)
  qed
qed

text \<open>Nothing of a finished delete is left in a staging directory.\<close>

definition swept :: "path \<Rightarrow> string \<Rightarrow> fs \<Rightarrow> bool" where
  "swept d pre t \<longleftrightarrow>
     (\<forall>name. starts_with pre name \<longrightarrow> \<not> is_dir_at t (d @ [name]) \<and> (ends_with ''.json'' name \<longrightarrow> node_at t (d @ [name]) = None))"

definition tombs_in_order :: "tombstone_serde \<Rightarrow> path \<Rightarrow> string \<Rightarrow> fs \<Rightarrow> bool" where
  "tombs_in_order tj d pre t \<longleftrightarrow> (\<forall>name. starts_with pre name \<longrightarrow> tomb_ready tj d t name)"

definition sweep_ready :: "tombstone_serde \<Rightarrow> path \<Rightarrow> string \<Rightarrow> fs \<Rightarrow> bool" where
  "sweep_ready tj d pre t \<longleftrightarrow> few_nodes t \<and> tombs_in_order tj d pre t"

lemma sweep_ready_listing:
  assumes "sweep_ready tj d pre t" and "lists_dir t d es"
  shows "sweepable tj d (tomb_names pre es) t"
  using assms by (auto simp: sweep_ready_def tombs_in_order_def sweepable_def tomb_names_def lists_dir_def)

lemma swept_from_listing:
  assumes "lists_dir t d es" "lists_all t d es" "prunes X t s"
    and "\<And>n. n \<in> set (tomb_names pre es) \<union> set (stage_names pre es) \<Longrightarrow> node_at s (d @ [n]) = None"
  shows "swept d pre s"
  unfolding swept_def
proof (intro allI impI conjI)
  fix name assume pre: "starts_with pre name"
  have listed: "(name, is_dir_at t (d @ [name])) \<in> set es \<and> node_at s (d @ [name]) = node_at t (d @ [name])" if "node_at s (d @ [name]) \<noteq> None"
  proof
    have "node_at t (d @ [name]) \<noteq> None" using that shrinks_present [of X t s] assms(3) by (simp add: prunes_def)
    then have "name \<in> fst ` set es" using assms(2) by (simp add: lists_all_def)
    then show "(name, is_dir_at t (d @ [name])) \<in> set es" using assms(1) by (auto simp: lists_dir_def)
    show "node_at s (d @ [name]) = node_at t (d @ [name])" using assms(3) that unfolding prunes_def shrinks_def by metis
  qed
  show dir: "\<not> is_dir_at s (d @ [name])"
  proof
    assume s: "is_dir_at s (d @ [name])"
    then have "(name, True) \<in> set es" using listed by (auto simp: is_dir_at_def)
    then have "name \<in> set (stage_names pre es)" using pre by (auto simp: stage_names_def)
    then show False using assms(4) [of name] s by (simp add: is_dir_at_def)
  qed
  assume json: "ends_with ''.json'' name"
  show "node_at s (d @ [name]) = None"
  proof (rule ccontr)
    assume s: "node_at s (d @ [name]) \<noteq> None"
    then have "(name, False) \<in> set es" using listed [OF s] dir by (auto simp: is_dir_at_def)
    then have "name \<in> set (tomb_names pre es)" using pre json by (auto simp: tomb_names_def)
    then show False using assms(4) [of name] s by simp
  qed
qed

lemma stage_names_dirs: "lists_dir t d es \<Longrightarrow> n \<in> set (stage_names pre es) \<Longrightarrow> is_dir_at t (d @ [n])"
  by (auto simp: stage_names_def lists_dir_def)

text \<open>Everything after the listing.\<close>

lemma sweep_listing_spec:
  fixes w :: "'z disk_scheme"
  assumes wf: "fs_wf (dk_fs w)" and hl: "harmless evict"
    and good: "good \<Longrightarrow> \<not> faulty w \<and> sweep_ready tj d pre (dk_fs w) \<and> lists_dir (dk_fs w) d es \<and> lists_all (dk_fs w) d es \<and>
      tombs = tomb_names pre es \<and> stages = stage_names pre es"
  shows "pruned (under d) (bind_p (resume_deletes tj d evict tombs stages) (\<lambda>(completed, rest).
       bind_p (sweep_orphan_stages d rest) (\<lambda>orphan_swept.
       bind_p (if completed > 0 \<or> orphan_swept > 0 then attempt (fsync_dir d) else ret (Ok ())) (\<lambda>_.
       ret \<lparr>sw_completed = completed, sw_orphans = orphan_swept\<rparr>)))) w
     (\<lambda>r t. (\<exists>c. r = Ok c) \<and> (good \<longrightarrow> swept d pre t))"
    (is "pruned ?X _ w ?Q")
proof (rule pruned_bind [OF resume_deletes_spec [OF wf hl, of good]])
  show "\<not> faulty w \<and> sweepable tj d tombs (dk_fs w)" if good using good [OF that] sweep_ready_listing by blast
  fix x :: "nat \<times> string list" and v :: "'z disk_scheme"
  assume v: "same_faults w v" "prunes ?X (dk_fs w) (dk_fs v)" "\<exists>k rest. Inr x = Ok (k, rest) \<and> set rest \<subseteq> set stages \<and> (good \<longrightarrow>
    (\<forall>n \<in> set tombs. node_at (dk_fs v) (d @ [n]) = None) \<and> (\<forall>s \<in> set stages. s \<in> set rest \<or> node_at (dk_fs v) (d @ [s]) = None))"
  then obtain k rest where x: "x = (k, rest)" "set rest \<subseteq> set stages"
    and gone: "good \<longrightarrow> (\<forall>n \<in> set tombs. node_at (dk_fs v) (d @ [n]) = None) \<and> (\<forall>s \<in> set stages. s \<in> set rest \<or> node_at (dk_fs v) (d @ [s]) = None)"
    by auto
  have notfile: "\<not> is_file_at (dk_fs v) (d @ [n])" if good "n \<in> set rest" for n
  proof -
    have "is_dir_at (dk_fs w) (d @ [n])" using good that x(2) stage_names_dirs by blast
    then show ?thesis using v(2) unfolding prunes_def shrinks_def is_dir_at_def is_file_at_iff by (metis node.distinct(1) option.inject option.distinct(1))
  qed
  show "pruned ?X (case x of (completed, rest) \<Rightarrow> bind_p (sweep_orphan_stages d rest) (\<lambda>orphan_swept.
       bind_p (if completed > 0 \<or> orphan_swept > 0 then attempt (fsync_dir d) else ret (Ok ())) (\<lambda>_.
       ret \<lparr>sw_completed = completed, sw_orphans = orphan_swept\<rparr>))) v ?Q"
    unfolding x prod.case
  proof (rule pruned_bind [OF sweep_orphan_stages_spec [of v good]])
    fix n :: nat and u :: "'z disk_scheme"
    assume u: "prunes ?X (dk_fs v) (dk_fs u)" "(\<exists>j. Inr n = Ok j) \<and> (good \<longrightarrow> (\<forall>m \<in> set rest. node_at (dk_fs u) (d @ [m]) = None))"
    have wfu: "fs_wf (dk_fs u)" using u by (simp add: prunes_def)
    have "node_at (dk_fs u) (d @ [m]) = None" if good "m \<in> set tombs \<union> set stages" for m
      using u gone that shrinks_gone [of ?X "dk_fs v" "dk_fs u" "d @ [m]"] by (auto simp: prunes_def)
    then have sw: "swept d pre (dk_fs u)" if good
      using swept_from_listing [of "dk_fs w" d es ?X "dk_fs u" pre] good that prunes_trans [OF v(2) u(1)] by simp
    show "pruned ?X (bind_p (if k > 0 \<or> n > 0 then attempt (fsync_dir d) else ret (Ok ())) (\<lambda>_. ret \<lparr>sw_completed = k, sw_orphans = n\<rparr>)) u ?Q"
      by (rule pruned_bind [where Q = "\<lambda>r t. (\<exists>y. r = Ok y) \<and> t = dk_fs u"])
        (use sw wfu in \<open>auto intro!: pruned_ret pruned_attempt pruned_weaken [OF pruned_fsync_dir]\<close>)
  qed (use v notfile good faulty_faults [OF v(1)] in \<open>auto simp: prunes_def\<close>)
qed auto

lemma walk_staging_spec:
  fixes w :: "'z disk_scheme"
  assumes wf: "fs_wf (dk_fs w)" and hl: "harmless evict"
  shows "pruned (under d) (walk_staging tj d pre evict) w
     (\<lambda>r t. \<not> faulty w \<longrightarrow> is_dir_at (dk_fs w) d \<longrightarrow> sweep_ready tj d pre (dk_fs w) \<longrightarrow> (\<exists>c. r = Ok c) \<and> swept d pre t)"
    (is "pruned ?X _ w ?Q")
proof -
  define good where "good \<longleftrightarrow> \<not> faulty w \<and> is_dir_at (dk_fs w) d \<and> sweep_ready tj d pre (dk_fs w)"
  have "pruned ?X (walk_staging tj d pre evict) w (\<lambda>r t. good \<longrightarrow> (\<exists>c. r = Ok c) \<and> swept d pre t)"
    unfolding walk_staging_def io_at_def
  proof (rule pruned_bind_err [OF pruned_pure [OF wf]])
    show "ts = []" if "fs_read_dir d t = Ok (x, ts)" for t x ts
      using that by (auto simp: fs_read_dir_def split: option.splits node.splits)
    show "good \<longrightarrow> (\<exists>c. Inl (io_err d e) = Ok c) \<and> swept d pre t" if "call_result (fs_read_dir d) w (Inl e) t" for e t
      using that by (auto simp: good_def call_result_def fs_read_dir_def is_dir_at_def)
    fix es and v :: "'z disk_scheme"
    assume v: "same_faults w v" "call_result (fs_read_dir d) w (Inr es) (dk_fs v)"
    then have same: "dk_fs v = dk_fs w" and es: "fs_read_dir d (dk_fs w) = Ok (es, [])"
      by (auto simp: call_result_def fs_read_dir_def split: option.splits node.splits)
    have wfv: "fs_wf (dk_fs v)" using wf same by simp
    have ls: "lists_dir (dk_fs w) d es \<and> lists_all (dk_fs w) d es" if good
      using fs_read_dir_lists [of "dk_fs w" d] that es by (auto simp: good_def is_dir_at_def)
    show "pruned ?X (bind_p (classify_staging d pre es) (\<lambda>(tombs, stages).
       bind_p (resume_deletes tj d evict tombs stages) (\<lambda>(completed, rest).
       bind_p (sweep_orphan_stages d rest) (\<lambda>orphan_swept.
       bind_p (if completed > 0 \<or> orphan_swept > 0 then attempt (fsync_dir d) else ret (Ok ())) (\<lambda>_.
       ret \<lparr>sw_completed = completed, sw_orphans = orphan_swept\<rparr>))))) v (\<lambda>r t. good \<longrightarrow> (\<exists>c. r = Ok c) \<and> swept d pre t)"
    proof (rule pruned_bind [OF classify_staging_spec [OF wfv]])
      fix c :: "string list \<times> string list" and u :: "'z disk_scheme"
      assume u: "same_faults v u" "dk_fs u = dk_fs v \<and> (\<not> faulty v \<longrightarrow> Inr c = Ok (tomb_names pre es, stage_names pre es))"
      have fu: "faulty u = faulty w" "faulty v = faulty w" using faulty_faults u(1) v(1) by blast+
      show "pruned ?X (case c of (tombs, stages) \<Rightarrow> bind_p (resume_deletes tj d evict tombs stages) (\<lambda>(completed, rest).
       bind_p (sweep_orphan_stages d rest) (\<lambda>orphan_swept.
       bind_p (if completed > 0 \<or> orphan_swept > 0 then attempt (fsync_dir d) else ret (Ok ())) (\<lambda>_.
       ret \<lparr>sw_completed = completed, sw_orphans = orphan_swept\<rparr>)))) u (\<lambda>r t. good \<longrightarrow> (\<exists>c. r = Ok c) \<and> swept d pre t)"
        unfolding case_prod_beta [of _ c]
        by (rule pruned_weaken [OF sweep_listing_spec [OF _ hl, of u good tj d pre es "fst c" "snd c"] subset_refl])
          (use u wf same ls fu in \<open>auto simp: good_def\<close>)
    qed (use faulty_faults [OF v(1)] in \<open>auto simp: good_def\<close>)
  qed
  then show ?thesis by (rule pruned_weaken) (auto simp: good_def)
qed

end
