(* ===== verification/Delete_Properties.thy ===== *)
theory Delete_Properties
  imports Workspaces Recovery_Staging
begin

text \<open>
  Deletes across a crash: a delete that is killed at any point, whatever failed before, and the boot sweep after it
  leave the target either as it was or gone, with no trace in the staging directory.
\<close>

section \<open>The sweep after an interrupted delete\<close>

text \<open>A tombstone that parses carries a valid job identifier.\<close>

definition ids_checked :: "tombstone_serde \<Rightarrow> bool" where
  "ids_checked tj \<longleftrightarrow>
     (\<forall>bs tomb. tj_from_slice tj bs = Ok tomb \<longrightarrow> validate_uuid_v4_str (tombstone_job_id tomb) = Ok ())"

lemma prefix_no_dot: "CHR ''.'' \<notin> set (tombstone_prefix tomb)" "hd (tombstone_prefix tomb) = CHR ''d''" "tombstone_prefix tomb \<noteq> []"
  by (cases tomb; simp add: dataset_tombstone_prefix_def converter_tombstone_prefix_def training_logs_tombstone_prefix_def
    converter_logs_tombstone_prefix_def workspace_tombstone_prefix_def)+

lemma stage_name_no_dot:
  assumes "validate_uuid_v4_str (tombstone_job_id tomb) = Ok ()"
  shows "CHR ''.'' \<notin> set (stage_dir_name tomb)"
proof -
  have "CHR ''.'' \<notin> set (tombstone_job_id tomb)" using validate_uuid_chars [OF assms, of "CHR ''.''"] by (auto simp: is_lower_hex_def is_ascii_digit_def)
  then show ?thesis using prefix_no_dot(1) [of tomb] by (simp add: stage_dir_name_def)
qed

lemma filename_stage: "tombstone_filename tomb = stage_dir_name tomb @ ''.json''"
  by (simp add: tombstone_filename_def stage_dir_name_def)

lemma stage_name_off:
  assumes "validate_uuid_v4_str (tombstone_job_id tomb') = Ok ()"
  shows "stage_dir_name tomb' \<noteq> tombstone_filename tomb"
  using stage_name_no_dot [OF assms] by (auto simp: filename_stage)

lemma named_not_temp: "starts_with (tombstone_prefix tomb) name \<Longrightarrow> \<not> is_temp_in d (d @ [name])"
proof -
  assume "starts_with (tombstone_prefix tomb) name"
  then have "hd name = CHR ''d''" using prefix_no_dot(2,3) [of tomb] by (auto simp: starts_with_def prefix_def)
  then show ?thesis by (auto simp: is_temp_in_def temp_path_def)
qed

lemma deleting_keeps:
  assumes su: "delete_setup d tomb target K t" and del: "deleting tj d tomb target K t s"
    and q: "prefix (d @ [name]) q" "name \<noteq> stage_dir_name tomb" "q \<noteq> tomb_path d tomb" "\<not> is_temp_in d q"
  shows "node_at s q = node_at t q"
proof -
  have d: "prefix d q" using q(1) append_prefixD by blast
  have "\<not> prefix target q"
  proof
    assume "prefix target q"
    then have "prefix target d \<or> prefix d target" using d prefix_same_cases by blast
    then show False using su by (simp add: delete_setup_def)
  qed
  moreover have "\<not> prefix (stage_path d tomb) q" using q(1,2) by (auto simp: prefix_def)
  moreover have "q \<notin> K" using su d by (auto simp: delete_setup_def)
  moreover have "\<not> prefix q d" using prefix_length_le [OF q(1)] by (auto dest!: prefix_length_le [of q d])
  ultimately show ?thesis using del q(3,4) by (auto simp: deleting_def intact_def moved_def elsewhere_same_def)
qed

lemma tomb_at_own:
  assumes "deleting tj d tomb target K t s" and "tomb_at tj d s (tombstone_filename tomb) = Some tomb'"
  shows "tomb' = tomb"
  using assms by (auto simp: deleting_def intact_def moved_def tomb_at_def file_value_def split: option.splits node.splits sum.splits)

lemma stage_ready_own:
  assumes "deleting tj d tomb target K t s"
  shows "stage_ready (for_tombstone d tomb) s"
  using assms
  by (auto simp: deleting_def intact_def moved_def stage_ready_def has_below_iff is_file_at_def is_dir_at_def file_value_def
    split: option.splits node.splits)

lemma deleting_in_order:
  assumes su: "delete_setup d tomb target K t" and del: "deleting tj d tomb target K t s"
    and ids: "ids_checked tj" and order: "tombs_in_order tj d (tombstone_prefix tomb) t"
  shows "tombs_in_order tj d (tombstone_prefix tomb) s"
  unfolding tombs_in_order_def tomb_ready_def
proof (intro allI impI)
  fix name tomb'
  assume pre: "starts_with (tombstone_prefix tomb) name" and tomb': "tomb_at tj d s name = Some tomb'"
  show "tombstone_filename tomb' = name \<and> stage_ready (for_tombstone d tomb') s"
  proof (cases "name = tombstone_filename tomb")
    case True
    then show ?thesis using tomb_at_own [OF del] stage_ready_own [OF del] tomb' by auto
  next
    case False
    have notstage: "name \<noteq> stage_dir_name tomb"
      using tomb' del by (auto simp: deleting_def intact_def moved_def tomb_at_def file_value_def)
    have "node_at s (d @ [name]) = node_at t (d @ [name])"
      by (rule deleting_keeps [OF su del, of name]) (use False notstage named_not_temp [OF pre] in auto)
    then have "tomb_at tj d t name = Some tomb'" using tomb' by (simp add: tomb_at_def file_value_def)
    then have name: "tombstone_filename tomb' = name" and ready: "stage_ready (for_tombstone d tomb') t"
      using order pre by (auto simp: tombs_in_order_def tomb_ready_def)
    have id: "validate_uuid_v4_str (tombstone_job_id tomb') = Ok ()"
      using ids tomb' by (auto simp: ids_checked_def tomb_at_def file_value_def split: option.splits node.splits sum.splits)
    have other: "stage_dir_name tomb' \<noteq> stage_dir_name tomb" using False name by (auto simp: filename_stage)
    have same: "node_at s q = node_at t q" if "prefix (stage_path d tomb') q" for q
    proof (rule deleting_keeps [OF su del that other])
      show "q \<noteq> tomb_path d tomb" using that stage_name_off [OF id, of tomb] by (auto simp: prefix_def)
      show "\<not> is_temp_in d q"
        using that tomb_not_temp(2) [of d tomb'] by (auto simp: prefix_def is_temp_in_def temp_path_def)
    qed
    have "\<not> is_dir_at s (tomb_path d tomb')"
      using tomb' name by (auto simp: is_dir_at_def tomb_at_def file_value_def)
    then have "stage_ready (for_tombstone d tomb') s"
      using ready same by (auto simp: stage_ready_def is_file_at_def strict_prefix_def)
    then show ?thesis using name by simp
  qed
qed

text \<open>The target as it was or emptied, and nothing else touched but the directories down to the staging directory.\<close>

definition settled :: "path \<Rightarrow> path \<Rightarrow> path set \<Rightarrow> fs \<Rightarrow> fs \<Rightarrow> bool" where
  "settled d target K t s \<longleftrightarrow>
     ((\<forall>z. node_at s (target @ z) = node_at t (target @ z)) \<or> emptied target s) \<and>
     (\<forall>q. \<not> prefix d q \<longrightarrow> \<not> prefix target q \<longrightarrow> q \<notin> K \<longrightarrow>
        node_at s q = node_at t q \<or> node_at t q = None \<and> prefix q d \<and> node_at s q = Some DirNode)"

lemma deleting_settled:
  assumes "deleting tj d tomb target K t s"
  shows "settled d target K t s" "moved tj d tomb target K t s \<Longrightarrow> emptied target s"
proof -
  have mv: "emptied target s" if "moved tj d tomb target K t s"
    using that by (auto simp: moved_def emptied_def is_file_at_def)
  have els: "elsewhere_same d tomb target K t s" using assms by (auto simp: deleting_def intact_def moved_def)
  have "node_at s q = node_at t q \<or> node_at t q = None \<and> prefix q d \<and> node_at s q = Some DirNode"
    if "\<not> prefix d q" "\<not> prefix target q" "q \<notin> K" for q
  proof -
    have "\<not> prefix (stage_path d tomb) q" "q \<noteq> tomb_path d tomb" "\<not> is_temp_in d q"
      using that(1) append_prefixD [of d] by (auto simp: is_temp_in_def temp_path_def)
    then show ?thesis using els that by (auto simp: elsewhere_same_def)
  qed
  then show "settled d target K t s" using assms mv by (auto simp: settled_def deleting_def intact_def)
  show "moved tj d tomb target K t s \<Longrightarrow> emptied target s" by (rule mv)
qed

lemma settled_shrinks:
  assumes "settled d target K t s" and "shrinks (under d) s u" and "\<not> prefix target d" "\<not> prefix d target"
  shows "settled d target K t u" "emptied target s \<Longrightarrow> emptied target u"
proof -
  have off: "\<not> strict_prefix d (target @ z)" for z
    using assms(3,4) prefix_same_cases [of d "target @ z" target] by (auto simp: strict_prefix_def)
  have same: "node_at u (target @ z) = node_at s (target @ z)" for z
    by (rule shrinks_node [OF assms(2)]) (simp add: off)
  moreover have "node_at u q = node_at s q" if "\<not> prefix d q" for q
    by (rule shrinks_node [OF assms(2)]) (use that in \<open>simp add: strict_prefix_def\<close>)
  ultimately show "settled d target K t u" using assms(1) shrinks_emptied [OF assms(2)] by (auto simp: settled_def)
  show "emptied target s \<Longrightarrow> emptied target u" by (rule shrinks_emptied [OF assms(2)])
qed

text \<open>Removals below the staging directory, as the drain and the last step make them, keep the tombstones in order.\<close>

lemma tombs_in_order_shrinks:
  assumes "tombs_in_order tj d pre m" and "shrinks X m s"
  shows "tombs_in_order tj d pre s"
  unfolding tombs_in_order_def tomb_ready_def
proof (intro allI impI)
  fix name tomb assume name: "starts_with pre name" "tomb_at tj d s name = Some tomb"
  then have "node_at s (d @ [name]) \<noteq> None" by (cases "node_at s (d @ [name])") (simp_all add: tomb_at_def file_value_def)
  then have "node_at s (d @ [name]) = node_at m (d @ [name])" using assms(2) unfolding shrinks_def by metis
  then have "tomb_at tj d m name = Some tomb" using name(2) by (simp add: tomb_at_def file_value_def)
  then show "tombstone_filename tomb = name \<and> stage_ready (for_tombstone d tomb) s"
    using assms name(1) shrinks_ready [OF assms(2)] by (auto simp: tombs_in_order_def tomb_ready_def)
qed

lemma sweep_after_delete:
  fixes v :: "'z disk_scheme"
  assumes su: "delete_setup d tomb target K t" and del: "deleting tj d tomb target K t m" and cut: "prunes (under d) m (dk_fs v)"
    and ids: "ids_checked tj" and order: "tombs_in_order tj d (tombstone_prefix tomb) t" and few: "few_nodes (dk_fs v)"
    and hl: "harmless evict" and calm: "\<not> faulty v" and dir: "is_dir_at (dk_fs v) d"
    and run: "walk_staging tj d (tombstone_prefix tomb) evict v = (r, v')"
  shows "(\<exists>c. r = Ok c) \<and> swept d (tombstone_prefix tomb) (dk_fs v') \<and> settled d target K t (dk_fs v') \<and>
     (moved tj d tomb target K t m \<longrightarrow> emptied target (dk_fs v'))"
proof -
  have wf: "fs_wf (dk_fs v)" and sh: "shrinks (under d) m (dk_fs v)" using cut by (simp_all add: prunes_def)
  have ready: "sweep_ready tj d (tombstone_prefix tomb) (dk_fs v)"
    using tombs_in_order_shrinks [OF deleting_in_order [OF su del ids order] sh] few by (simp add: sweep_ready_def)
  have "prunes (under d) (dk_fs v) (dk_fs v') \<and> (\<exists>c. r = Ok c) \<and> swept d (tombstone_prefix tomb) (dk_fs v')"
    using run_okD(2) [OF walk_staging_spec [OF wf hl, of d tj "tombstone_prefix tomb", unfolded pruned_def] run] calm dir ready
    by blast
  moreover from this have "shrinks (under d) m (dk_fs v')" using sh shrinks_trans by (auto simp: prunes_def)
  moreover have "\<not> prefix target d" "\<not> prefix d target" using su by (simp_all add: delete_setup_def)
  ultimately show ?thesis
    using settled_shrinks [OF deleting_settled(1) [OF del], of "dk_fs v'"] deleting_settled(2) [OF del] by simp
qed

section \<open>Workspace deletes\<close>

lemma manager_evicts: "harmless evict_cache"
  by (simp add: harmless_def evict_cache_def)

lemma workspace_delete_setup:
  assumes "fs_wf t" and "node_at t (workspace_core_path (workspace_dir_for root ws)) \<noteq> None"
    and "node_at t (tomb_path (root_tmp_dir root) tomb) = None" "node_at t (stage_path (root_tmp_dir root) tomb) = None"
  shows "delete_setup (root_tmp_dir root) tomb (workspace_dir_for root ws) {} t"
proof -
  have "node_at t (workspace_dir_for root ws) = Some DirNode"
    using fs_wf_ancestor [OF assms(1), of "workspace_dir_for root ws" "[''workspace.json'']"] assms(2)
    by (simp add: workspace_core_path_def)
  then show ?thesis using assms by (auto simp: delete_setup_def layout_defs)
qed

lemma write_tombstone_wf [wf_rules]: "wf_prog (write_tombstone tj d tomb)"
  unfolding write_tombstone_def Let_def to_vec_def by (intro wf_rules)

lemma stage_payload_wf [wf_rules]: "wf_prog (stage_payload target staged)"
  unfolding stage_payload_def Let_def by (intro wf_rules)

lemma start_delete_spec:
  assumes tj: "tombstones_ok tj" and wf: "fs_wf (dk_fs w)"
    and d: "d = root_tmp_dir (mg_root w)" and target: "target = manager_workspace_dir w ws" and tomb: "tomb = TombWorkspace j ws now"
    and fresh: "node_at (dk_fs w) (tomb_path d tomb) = None" "node_at (dk_fs w) (stage_path d tomb) = None"
  shows "run_ok (\<lambda>s. deleting tj d tomb target {} (dk_fs w) s \<and> fs_wf s) (start_delete_workspace_inner_with_id tj now ws j) w
     (\<lambda>r v. \<forall>staged. r = Ok staged \<longrightarrow> staged = for_tombstone d tomb \<and> moved tj d tomb target {} (dk_fs w) (dk_fs v))"
    (is "run_ok ?I _ w ?Q")
proof -
  let ?body = "\<lambda>present. if \<not> present then fail (FileNotFound ws)
      else bind_p (write_tombstone tj d tomb) (\<lambda>staged. bind_p (stage_payload target staged) (\<lambda>_.
        bind_p (modify (\<lambda>w. w\<lparr>mg_caches := AList.delete ws (mg_caches w)\<rparr>)) (\<lambda>_. ret staged)))"
  have stage: "run_ok ?I (bind_p (stage_payload target staged) (\<lambda>_.
        bind_p (modify (\<lambda>w. w\<lparr>mg_caches := AList.delete ws (mg_caches w)\<rparr>)) (\<lambda>_. ret staged))) u ?Q"
    if su: "delete_setup d tomb target {} (dk_fs w)" and u: "intact tj d tomb target {} (dk_fs w) (dk_fs u)" "fs_wf (dk_fs u)"
      "staged = for_tombstone d tomb" "file_value (tj_from_slice tj) (dk_fs u) (tomb_path d tomb) = Some tomb" for u staged
    unfolding u(3)
    by (rule run_ok_step [OF run_ok_conj [OF stage_payload_spec [OF su u(1,4)] wf_progD [OF stage_payload_wf u(2)]]])
      (auto intro!: run_ok_bind run_ok_modify run_ok_ret)
  have "run_ok ?I (bind_p (fs_test (fs_exists (workspace_core_path target))) ?body) w ?Q"
  proof (rule run_ok_test)
    fix b v assume v: "unchanged w v" "b \<Longrightarrow> fs_exists (workspace_core_path target) (dk_fs w) = Ok (True, [])"
    show "run_ok ?I (?body b) v ?Q"
    proof (cases b)
      case False
      then show ?thesis using v by (auto simp: unchanged_same intro!: run_ok_fail)
    next
      case True
      then have core: "node_at (dk_fs w) (workspace_core_path target) \<noteq> None" using v(2) by (simp add: fs_exists_def)
      then have su: "delete_setup d tomb target {} (dk_fs w)"
        using workspace_delete_setup [OF wf _, of "mg_root w" ws tomb] fresh by (simp add: d target manager_workspace_dir_def)
      have same: "dk_fs v = dk_fs w" using v(1) by (simp add: unchanged_same)
      have "run_ok ?I (bind_p (write_tombstone tj d tomb) (\<lambda>staged. bind_p (stage_payload target staged) (\<lambda>_.
          bind_p (modify (\<lambda>w. w\<lparr>mg_caches := AList.delete ws (mg_caches w)\<rparr>)) (\<lambda>_. ret staged)))) v ?Q"
        by (rule run_ok_step [OF run_ok_conj [OF write_tombstone_spec [OF tj, of d tomb target "{}"] wf_progD [OF write_tombstone_wf]]])
          (use su wf same stage [OF su] in \<open>auto simp: deleting_def\<close>)
      then show ?thesis using True by simp
    qed
  qed (auto simp: fs_exists_def)
  then show ?thesis unfolding d target tomb by (simp add: run_ok_def start_delete_workspace_inner_with_id_def Let_def)
qed

lemma absent_swept: "fs_wf t \<Longrightarrow> \<not> is_dir_at t d \<Longrightarrow> swept d pre t"
proof -
  assume wf: "fs_wf t" and d: "\<not> is_dir_at t d"
  have "node_at t (d @ [name]) = None" for name
    by (rule ccontr) (use fs_wf_ancestor [OF wf, of d "[name]"] d in \<open>simp add: is_dir_at_def\<close>)
  then show ?thesis by (simp add: swept_def is_dir_at_def)
qed

lemma calm_test: "\<not> faulty v \<Longrightarrow> fs_test (fs_is_dir d) v = (Ok (is_dir_at (dk_fs v) d), tick v)"
proof -
  assume "\<not> faulty v"
  then have "dk_fault v (dk_clock v) = None" unfolding faulty_def by blast
  then show ?thesis by (simp add: run_defs is_dir_at_def)
qed

text \<open>The sweep of the staging directory at the root, whether or not the directory is there.\<close>

lemma root_sweep_after_delete:
  assumes su: "delete_setup d tomb target K t" and del: "deleting tj d tomb target K t m" and cut: "prunes (under d) m (dk_fs v)"
    and ids: "ids_checked tj" and order: "tombs_in_order tj d (tombstone_prefix tomb) t" and few: "few_nodes (dk_fs v)"
    and calm: "\<not> faulty v" and d: "d = root_tmp_dir root" "tombstone_prefix tomb = workspace_tombstone_prefix"
    and run: "recover_root_staging tj root v = (r, v')"
  shows "(\<exists>c. r = Ok c) \<and> swept d (tombstone_prefix tomb) (dk_fs v') \<and> settled d target K t (dk_fs v') \<and>
     (moved tj d tomb target K t m \<longrightarrow> emptied target (dk_fs v'))"
proof -
  have wf: "fs_wf (dk_fs v)" and sh: "shrinks (under d) m (dk_fs v)" using cut by (simp_all add: prunes_def)
  have off: "\<not> prefix target d" "\<not> prefix d target" using su by (simp_all add: delete_setup_def)
  have tick: "dk_fs (tick v) = dk_fs v" "\<not> faulty (tick v)" using calm by (simp_all add: tick_def faulty_def)
  show ?thesis
  proof (cases "is_dir_at (dk_fs v) d")
    case False
    then have "r = Ok no_sweeps" "v' = tick v"
      using run by (simp_all add: recover_root_staging_def Let_def bind_p_def ret_def d calm_test [OF calm])
    then show ?thesis
      using absent_swept [OF wf False] settled_shrinks [OF deleting_settled(1) [OF del] sh off] deleting_settled(2) [OF del] tick by simp
  next
    case True
    obtain q u where u: "walk_staging tj d (tombstone_prefix tomb) evict_cache (tick v) = (q, u)" by fastforce
    have "r = map_sum RecoveryFile (\<lambda>x. x) q" "v' = u"
      using run True u
      by (auto simp: recover_root_staging_def Let_def bind_p_def map_err_def drain_workspace_staging_dir_def d calm_test [OF calm] split: sum.splits)
    then show ?thesis
      using sweep_after_delete [OF su del _ ids order _ manager_evicts _ _ u] cut few True tick by auto
  qed
qed

section \<open>Draining and finishing\<close>

text \<open>Each batch that asks for another has removed its full budget, so a tree of \<open>n\<close> entries needs at most \<open>n div 256 + 1\<close>.\<close>

lemma drain_forever_spec:
  fixes w :: "'z disk_scheme"
  assumes "fs_wf (dk_fs w)"
  shows "\<exists>r w'. drain_forever staged w = Some (r, w') \<and> same_faults w w' \<and> prunes (at_or_under (sd_payload staged)) (dk_fs w) (dk_fs w') \<and>
     passes (prunes (at_or_under (sd_payload staged)) (dk_fs w)) w w' \<and>
     (\<not> faulty w \<longrightarrow> r = Ok () \<and> emptied (sd_payload staged) (dk_fs w'))"
  using assms
proof (induction "node_count (dk_fs w)" arbitrary: w rule: less_induct)
  case less
  let ?X = "at_or_under (sd_payload staged)" and ?b = default_delete_batch_entries
  obtain r v where run: "drain_staged_payload staged ?b w = (r, v)" by fastforce
  have v: "same_faults w v" "prunes ?X (dk_fs w) (dk_fs v)" "\<not> faulty w \<longrightarrow> batch_result (sd_payload staged) ?b (dk_fs w) r (dk_fs v)"
    "r = Ok DrainMore \<longrightarrow> card (lost (dk_fs w) (dk_fs v)) = ?b"
    using run_okD(2) [OF drain_staged_payload_spec [OF less.prems, unfolded pruned_def] run] by auto
  have pv: "passes (prunes ?X (dk_fs w)) w v" by (rule run_okD(1) [OF drain_staged_payload_spec [OF less.prems, unfolded pruned_def] run])
  show ?case
  proof (cases "r = Ok DrainMore")
    case True
    have "node_count (dk_fs v) < node_count (dk_fs w)"
      using v True node_count_lost [of ?X "dk_fs w" "dk_fs v"] by (simp add: prunes_def default_delete_batch_entries_def)
    then obtain q u where u: "drain_forever staged v = Some (q, u)" "same_faults v u" "prunes ?X (dk_fs v) (dk_fs u)"
      "passes (prunes ?X (dk_fs v)) v u" "\<not> faulty v \<longrightarrow> q = Ok () \<and> emptied (sd_payload staged) (dk_fs u)"
      using less.hyps [of v] v(2) by (auto simp: prunes_def)
    have "drain_forever staged w = Some (q, u)" using run True u(1) by (subst drain_forever.simps) simp
    moreover have "passes (prunes ?X (dk_fs w)) w u"
      by (rule passes_trans [OF pv passes_mono [OF u(4)]]) (use v(2) prunes_trans in blast)
    ultimately show ?thesis using u v prunes_trans [OF v(2) u(3)] same_faults_trans [OF v(1) u(2)] faulty_faults [OF v(1)] by auto
  next
    case False
    have "drain_forever staged w = Some (map_sum (\<lambda>e. e) (\<lambda>_. ()) r, v)"
      using run False by (subst drain_forever.simps) (auto split: sum.splits intro: drain_result.exhaust)
    then show ?thesis using v pv False by (auto simp: batch_result_def split: sum.splits drain_result.splits)
  qed
qed

text \<open>The rest of a delete, drain and last step, at every state it visits.\<close>

lemma delete_rest_passes:
  fixes w :: "'z disk_scheme"
  assumes "fs_wf (dk_fs w)" and "staged = for_tombstone d tomb" and "drain_forever staged w = Some (r, v)"
  shows "passes (prunes (under d) (dk_fs w)) w v" and "passes (prunes (under d) (dk_fs w)) w (snd (finalize_staged_delete staged v))"
proof -
  have X: "at_or_under (sd_payload staged) \<subseteq> under d" "staged_paths staged \<subseteq> under d"
    by (auto simp: assms(2) staged_paths_def strict_prefix_def prefix_def)
  have v: "prunes (at_or_under (sd_payload staged)) (dk_fs w) (dk_fs v)" "passes (prunes (at_or_under (sd_payload staged)) (dk_fs w)) w v"
    using drain_forever_spec [OF assms(1), of staged] assms(3) by auto
  show pv: "passes (prunes (under d) (dk_fs w)) w v" by (rule passes_mono [OF v(2)]) (rule prunes_mono [OF _ X(1)])
  have wf: "fs_wf (dk_fs v)" using v(1) by (simp add: prunes_def)
  obtain q u where u: "finalize_staged_delete staged v = (q, u)" by fastforce
  have "passes (prunes (staged_paths staged) (dk_fs v)) v u"
    by (rule run_okD(1) [OF finalize_spec [OF wf, of staged, unfolded pruned_def] u]) (simp add: assms(2) for_tombstone_wf)
  then have "passes (prunes (under d) (dk_fs w)) v u"
    by (rule passes_mono) (use prunes_mono [OF _ X(2)] prunes_mono [OF v(1) X(1)] prunes_trans in blast)
  then show "passes (prunes (under d) (dk_fs w)) w (snd (finalize_staged_delete staged v))" using passes_trans [OF pv] u by simp
qed

text \<open>
  A whole workspace delete from \<open>w\<close> to \<open>w'\<close>: the synchronous one, which stops where its start or its drain fails,
  or the start of the job followed by its task.
\<close>

definition workspace_delete_run :: "tombstone_serde \<Rightarrow> string \<Rightarrow> workspace_id \<Rightarrow> job_id \<Rightarrow> manager \<Rightarrow> manager \<Rightarrow> bool" where
  "workspace_delete_run tj now ws j w w' \<longleftrightarrow>
     (\<exists>r. delete_workspace tj now ws j w = Some (r, w')) \<or>
     (\<exists>staged w1 describe later h. start_delete_workspace_inner_with_id tj now ws j w = (Ok staged, w1) \<and>
        drain_workspace describe later staged h w1 = Some w')"

lemma passes_jobs [simp]: "passes I w (on_jobs f v) = passes I w v"
  by (simp add: passes_def on_jobs_def)

lemma delete_run_rest:
  assumes "workspace_delete_run tj now ws j w w'" and "start_delete_workspace_inner_with_id tj now ws j w = (r, w1)"
  shows "(\<exists>e. r = Err e) \<and> w' = w1 \<or>
    (\<exists>staged. r = Ok staged \<and> (fs_wf (dk_fs w1) \<longrightarrow> staged = for_tombstone d tomb \<longrightarrow> passes (prunes (under d) (dk_fs w1)) w1 w'))"
proof (cases r)
  case (Inl e)
  then show ?thesis using assms by (auto simp: workspace_delete_run_def delete_workspace_def)
next
  case (Inr staged)
  have "passes (prunes (under d) (dk_fs w1)) w1 w'" if wf: "fs_wf (dk_fs w1)" and st: "staged = for_tombstone d tomb"
  proof -
    obtain q v where v: "drain_forever staged w1 = Some (q, v)" using drain_forever_spec [OF wf, of staged] by auto
    obtain x u where u: "finalize_staged_delete staged v = (x, u)" by fastforce
    have "passes (prunes (under d) (dk_fs w1)) w1 v" "passes (prunes (under d) (dk_fs w1)) w1 u"
      using delete_rest_passes [OF wf st v] u by simp_all
    then show ?thesis
      using assms Inr v u by (cases q; cases x) (auto simp: workspace_delete_run_def delete_workspace_def drain_workspace_def)
  qed
  then show ?thesis using Inr by blast
qed

text \<open>
  C10. A workspace delete that is killed at any state on disk from its first step to its last (tombstone, rename, every
  entry the drain removes, the removal of the payload, of the stage directory and of the tombstone), after any failures,
  followed by the boot sweep: the sweep succeeds, leaves no tombstone and no stage directory, the workspace is complete
  or gone, and nothing else has changed; from the moment its start has answered, the workspace is gone.
\<close>

theorem workspace_delete_recovers:
  assumes "tombstones_ok tj" and "ids_checked tj" and "fs_wf (dk_fs w)"
    and "d = root_tmp_dir (mg_root w)" and "target = manager_workspace_dir w ws"
    and "node_at (dk_fs w) (workspace_core_path target) \<noteq> None" and "tombs_in_order tj d workspace_tombstone_prefix (dk_fs w)"
    and "node_at (dk_fs w) (d @ [workspace_tombstone_prefix @ j @ ''.json'']) = None"
    and "node_at (dk_fs w) (d @ [workspace_tombstone_prefix @ j]) = None"
    and "workspace_delete_run tj now ws j w w'"
    and "dk_trace w' = dk_trace w @ ts" and "dk_fs v \<in> set (dk_fs w # ts)"
    and "\<not> faulty v" and "few_nodes (dk_fs v)" and "recover_root_staging tj (mg_root w) v = (r', v')"
  shows "(\<exists>c. r' = Ok c) \<and> swept d workspace_tombstone_prefix (dk_fs v') \<and> settled d target {} (dk_fs w) (dk_fs v') \<and>
    (\<forall>staged w1 us. start_delete_workspace_inner_with_id tj now ws j w = (Ok staged, w1) \<longrightarrow> dk_trace w' = dk_trace w1 @ us \<longrightarrow>
       dk_fs v \<in> set (dk_fs w1 # us) \<longrightarrow> emptied target (dk_fs v'))"
proof -
  let ?tomb = "TombWorkspace j ws now" and ?t = "dk_fs w"
  let ?del = "deleting tj d ?tomb target {} ?t" and ?mv = "moved tj d ?tomb target {} ?t"
  have fresh: "node_at ?t (tomb_path d ?tomb) = None" "node_at ?t (stage_path d ?tomb) = None"
    using assms(8,9) by (simp_all add: tombstone_filename_def stage_dir_name_def)
  have su: "delete_setup d ?tomb target {} ?t"
    using workspace_delete_setup [OF assms(3) _, of "mg_root w" ws ?tomb] assms(6) fresh by (simp add: assms(4,5) manager_workspace_dir_def)
  obtain r w1 where start: "start_delete_workspace_inner_with_id tj now ws j w = (r, w1)" by fastforce
  note spec = start_delete_spec [OF assms(1,3,4,5) refl fresh]
  have first: "passes (\<lambda>s. ?del s \<and> fs_wf s) w w1" "\<And>staged. r = Ok staged \<Longrightarrow> staged = for_tombstone d ?tomb \<and> ?mv (dk_fs w1)"
    using run_okD [OF spec start] by auto
  obtain ts1 where ts1: "dk_trace w1 = dk_trace w @ ts1" "\<forall>s \<in> set ts1. ?del s \<and> fs_wf s" using first(1) by (auto simp: passes_def)
  have t: "?del ?t \<and> fs_wf ?t" using intact_refl [OF su] assms(3) by (simp add: deleting_def)
  have wf1: "fs_wf (dk_fs w1)" using passes_final [OF first(1) t] by simp
  have rest: "r = Ok staged \<Longrightarrow> passes (prunes (under d) (dk_fs w1)) w1 w'" for staged
    using delete_run_rest [OF assms(10) start, of d ?tomb] wf1 first(2) by auto
  have after: "?mv (dk_fs w1) \<and> prunes (under d) (dk_fs w1) s"
    if "r = Ok staged" "dk_trace w' = dk_trace w1 @ us" "s \<in> set (dk_fs w1 # us)" for staged us s
    using first(2) [OF that(1)] rest [OF that(1)] that(2,3) wf1 by (auto simp: passes_def)
  have "\<exists>m. ?del m \<and> prunes (under d) m (dk_fs v)"
  proof (cases "dk_fs v \<in> set (?t # ts1)")
    case True
    then have "?del (dk_fs v) \<and> prunes (under d) (dk_fs v) (dk_fs v)" using ts1(2) t by auto
    then show ?thesis by blast
  next
    case False
    then obtain staged where ok: "r = Ok staged"
      using delete_run_rest [OF assms(10) start, of d ?tomb] assms(11,12) ts1(1) by auto
    obtain us where us: "dk_trace w' = dk_trace w1 @ us" using rest [OF ok] by (auto simp: passes_def)
    then have "dk_fs v \<in> set us" using False assms(11,12) ts1(1) by auto
    then show ?thesis using after [OF ok us, of "dk_fs v"] by (auto simp: deleting_def)
  qed
  then obtain m where m: "?del m" "prunes (under d) m (dk_fs v)" by blast
  have main: "(\<exists>c. r' = Ok c) \<and> swept d workspace_tombstone_prefix (dk_fs v') \<and> settled d target {} ?t (dk_fs v') \<and>
      (?mv n \<longrightarrow> emptied target (dk_fs v'))" if "?del n" "prunes (under d) n (dk_fs v)" for n
    using root_sweep_after_delete [OF su that assms(2) _ assms(14,13,4) _ assms(15)] assms(7) by simp
  have "emptied target (dk_fs v')"
    if "start_delete_workspace_inner_with_id tj now ws j w = (Ok staged, u1)" "dk_trace w' = dk_trace u1 @ us" "dk_fs v \<in> set (dk_fs u1 # us)"
    for staged u1 us
    using main [of "dk_fs w1"] after [of staged us "dk_fs v"] that start by (auto simp: deleting_def)
  then show ?thesis using main [OF m] by blast
qed

definition demo_tomb :: delete_tombstone where
  "demo_tomb = TombWorkspace default_runtime_head_id_str ''w'' ''now''"

definition demo_tomb_serde :: tombstone_serde where
  "demo_tomb_serde = \<lparr>tj_to_vec = book_enc [(demo_tomb, [7])], tj_from_slice = book_dec [(demo_tomb, [7])]\<rparr>"

lemma demo_tombs_ok: "tombstones_ok demo_tomb_serde"
  by (simp add: demo_tomb_serde_def book_codec_ok)

lemma demo_ids: "ids_checked demo_tomb_serde"
proof -
  have "validate_uuid_v4_str default_runtime_head_id_str = Inr ()" by code_simp
  then show ?thesis
    by (auto simp: ids_checked_def demo_tomb_serde_def book_dec_def demo_tomb_def split: option.splits if_splits)
qed

lemma few_list: "length t < 256000000 \<Longrightarrow> few_nodes t"
proof -
  assume "length t < 256000000"
  moreover have "{q. node_at t q \<noteq> None} \<subseteq> fst ` set t" by (force simp: node_at_def dest: map_of_SomeD)
  then have "node_count t \<le> card (set (map fst t))" by (simp add: card_mono)
  moreover have "card (set (map fst t)) \<le> length (map fst t)" by (rule card_length)
  ultimately show ?thesis by (simp add: few_nodes_def default_delete_batch_entries_def max_drain_iterations_def)
qed

text \<open>The start of a delete on the demonstration tree.\<close>

abbreviation demo_delete :: "(file_error, staged_delete) result \<times> manager" where
  "demo_delete \<equiv> start_delete_workspace_inner_with_id demo_tomb_serde ''now'' ''w'' default_runtime_head_id_str demo_manager"


lemma demo_names [simp]: "tombstone_filename tomb \<noteq> CHR ''.'' # xs" "stage_dir_name tomb \<noteq> CHR ''.'' # xs"
proof -
  have "hd (tombstone_filename tomb) = CHR ''d''" "hd (stage_dir_name tomb) = CHR ''d''"
    using prefix_no_dot(2,3) [of tomb] by (simp_all add: tombstone_filename_def stage_dir_name_def)
  then show "tombstone_filename tomb \<noteq> CHR ''.'' # xs" "stage_dir_name tomb \<noteq> CHR ''.'' # xs" by auto
qed

lemma demo_delete_runs:
  "fst demo_delete = Ok (for_tombstone [''.tmp''] demo_tomb) \<and> length (dk_fs (snd demo_delete)) < 256000000 \<and>
   dk_fs (snd demo_delete) \<in> set (dk_trace (snd demo_delete))"
  unfolding start_delete_workspace_inner_with_id_def demo_tomb_def [symmetric]
  by (simp add: run_defs demo_defs manager_workspace_dir_def layout_defs demo_tomb_serde_def
    write_tombstone_def stage_payload_def for_tombstone_paths staged_payload_name_def move_tree_def moved_path_def
    has_below_def strict_prefix_def)

text \<open>The delete is killed when its drain has emptied the payload and the last step has not begun.\<close>

theorem workspace_delete_recovers_witness:
  "\<exists>u c v. drain_forever (for_tombstone [''.tmp''] demo_tomb) (snd demo_delete) = Some (Ok (), u) \<and>
     emptied (payload_path [''.tmp''] demo_tomb) (dk_fs u) \<and>
     recover_root_staging demo_tomb_serde [] (demo_manager\<lparr>dk_fs := dk_fs u\<rparr>) = (Ok c, v) \<and>
     emptied [''workspaces'', ''w''] (dk_fs v) \<and> swept [''.tmp''] workspace_tombstone_prefix (dk_fs v)"
proof -
  let ?w = demo_manager and ?w1 = "snd demo_delete" and ?st = "for_tombstone [''.tmp''] demo_tomb"
  have start: "demo_delete = (Ok ?st, ?w1)" using demo_delete_runs by (metis prod.collapse)
  have wf: "fs_wf (dk_fs ?w)" by (simp add: fs_wf_def demo_manager_def node_at_def)
  have dirs: "root_tmp_dir (mg_root ?w) = [''.tmp'']" "mg_root ?w = []" "manager_workspace_dir ?w ''w'' = [''workspaces'', ''w'']"
    by (simp_all add: manager_workspace_dir_def layout_defs demo_manager_def)
  have none: "node_at (dk_fs ?w) [''.tmp'', x] = None" for x by (simp add: demo_manager_def node_at_def)
  have core: "node_at (dk_fs ?w) (workspace_core_path [''workspaces'', ''w'']) \<noteq> None"
    by (simp add: demo_manager_def node_at_def workspace_core_path_def)
  have order: "tombs_in_order demo_tomb_serde [''.tmp''] workspace_tombstone_prefix (dk_fs ?w)"
    by (simp add: tombs_in_order_def tomb_ready_def tomb_at_def file_value_def none)
  have fresh: "node_at (dk_fs ?w) (tomb_path [''.tmp''] demo_tomb) = None" "node_at (dk_fs ?w) (stage_path [''.tmp''] demo_tomb) = None"
    using none by simp_all
  have first: "passes fs_wf ?w ?w1"
    by (rule passes_mono [OF run_okD(1) [OF start_delete_spec [OF demo_tombs_ok wf dirs(1) [symmetric] dirs(3) [symmetric] demo_tomb_def fresh] start]]) simp
  have wf1: "fs_wf (dk_fs ?w1)" by (rule passes_final [OF first wf])
  have "\<not> faulty ?w1" using first by (simp add: passes_def faulty_def demo_manager_def)
  then obtain u where u: "drain_forever ?st ?w1 = Some (Ok (), u)" "emptied (sd_payload ?st) (dk_fs u)"
      "prunes (at_or_under (sd_payload ?st)) (dk_fs ?w1) (dk_fs u)"
    using drain_forever_spec [OF wf1, of ?st] by auto
  obtain q w' where fin: "finalize_staged_delete ?st u = (q, w')" by fastforce
  have "delete_workspace demo_tomb_serde ''now'' ''w'' default_runtime_head_id_str ?w = Some (q, w')"
    unfolding delete_workspace_def by (subst start) (simp add: u(1) fin)
  then have whole: "workspace_delete_run demo_tomb_serde ''now'' ''w'' default_runtime_head_id_str ?w w'"
    unfolding workspace_delete_run_def by blast
  obtain ts1 where ts1: "dk_trace ?w1 = dk_trace ?w @ ts1" using first by (auto simp: passes_def)
  obtain as where as: "dk_trace u = dk_trace ?w1 @ as" "dk_fs u = last (dk_fs ?w1 # as)"
    using delete_rest_passes(1) [OF wf1 refl u(1)] by (auto simp: passes_def)
  have "fs_wf (dk_fs u)" using u(3) by (simp add: prunes_def)
  from run_okD(1) [OF finalize_spec [OF this for_tombstone_wf, unfolded pruned_def] fin]
  obtain bs where bs: "dk_trace w' = dk_trace u @ bs" by (auto simp: passes_def)
  have here: "dk_fs u \<in> set (dk_fs ?w1 # as @ bs)" unfolding as(2) by (cases as) auto
  have tr: "dk_trace w' = dk_trace ?w @ (ts1 @ as @ bs)" "dk_trace w' = dk_trace ?w1 @ (as @ bs)" using ts1 as(1) bs by simp_all
  have "dk_fs ?w1 \<in> set (dk_fs ?w # ts1)" using first ts1 by (cases ts1) (auto simp: passes_def)
  then have seen: "dk_fs u \<in> set (dk_fs ?w # ts1 @ as @ bs)" using here by auto
  let ?v = "demo_manager\<lparr>dk_fs := dk_fs u\<rparr>"
  have crash: "dk_fs ?v \<in> set (dk_fs ?w # ts1 @ as @ bs)" "\<not> faulty ?v" "few_nodes (dk_fs ?v)"
    using seen few_nodes_shrinks [of _ "dk_fs ?w1" "dk_fs u"] u(3) demo_delete_runs few_list [of "dk_fs ?w1"]
    by (auto simp: faulty_def demo_manager_def prunes_def)
  obtain r v where rec: "recover_root_staging demo_tomb_serde (mg_root ?w) ?v = (r, v)" by fastforce
  have names: "node_at (dk_fs ?w) ([''.tmp''] @ [workspace_tombstone_prefix @ default_runtime_head_id_str @ ''.json'']) = None"
    "node_at (dk_fs ?w) ([''.tmp''] @ [workspace_tombstone_prefix @ default_runtime_head_id_str]) = None" using none by simp_all
  note all = workspace_delete_recovers [OF demo_tombs_ok demo_ids wf dirs(1,3) [symmetric] core order names whole tr(1) crash rec]
  have "emptied [''workspaces'', ''w''] (dk_fs v)"
    by (rule all [THEN conjunct2, THEN conjunct2, THEN conjunct2, rule_format, OF start tr(2)]) (use here in simp)
  then have "(\<exists>c. r = Ok c) \<and> swept [''.tmp''] workspace_tombstone_prefix (dk_fs v) \<and> emptied [''workspaces'', ''w''] (dk_fs v)"
    using all by blast
  then show ?thesis using rec dirs(2) u by auto
qed



end
