(* ===== verification/Asset_Properties.thy ===== *)
theory Asset_Properties
  imports Delete_Properties "HOL-Library.Code_Target_Nat"
begin

text \<open>
  The publish order of the asset trees: whatever fails and wherever the process is killed, bytes of a tree have
  changed on disk only after the bumped revision is on disk.
\<close>

section \<open>Frames\<close>

lemma run_ok_keeping_call:
  assumes "P (dk_fs w)" and "\<And>x ts s. op (dk_fs w) = Ok (x, ts) \<Longrightarrow> s \<in> set ts \<Longrightarrow> P s"
  shows "run_ok P (fs_call op) w (\<lambda>r w'. same_world w w' \<and> P (dk_fs w'))"
proof (rule run_ok_post [OF call_spec])
  fix r w' assume "passes P w w'" "call_post op w r w'"
  then show "same_world w w' \<and> P (dk_fs w')" using passes_final assms(1) by (auto simp: call_post_def same_world_def)
qed (use assms(2) in blast)

lemma mkdir_keeps_node: "fs_create_dir_all p t = Ok (x, ts) \<Longrightarrow> s \<in> set ts \<Longrightarrow> node_at t q \<noteq> None \<Longrightarrow> node_at s q = node_at t q"
  using mkdir_steps_only [of s "prefixes p" t q] by (auto simp: fs_create_dir_all_def split: if_splits)

lemma rename_keeps_node:
  assumes "fs_rename src dst t = Ok (x, ts)" and "s \<in> set ts" and "\<not> prefix src q" "\<not> prefix dst q"
  shows "node_at s q = node_at t q"
  using assms node_at_move_tree [of t dst src q]
  by (auto simp: fs_rename_def split: option.splits node.splits if_splits)

lemma fsync_keeps: "P (dk_fs w) \<Longrightarrow> run_ok P (fsync_dir p) w (\<lambda>r w'. same_world w w' \<and> dk_fs w' = dk_fs w)"
  by (rule run_ok_post [OF fsync_dir_spec]) (auto simp: same_world_def)

section \<open>Writing the core\<close>

definition core_written :: "serde \<Rightarrow> path \<Rightarrow> workspace_core \<Rightarrow> fs \<Rightarrow> fs \<Rightarrow> bool" where
  "core_written sj wd core t s \<longleftrightarrow>
     core_on_disk sj wd s = Some core \<and>
     (\<forall>q. q \<noteq> workspace_core_path wd \<longrightarrow> node_at s q = node_at t q \<or> is_temp_in wd q \<and> node_at t q = None)"

lemma core_path_facts [simp]: "\<not> is_temp_in wd (workspace_core_path wd)" "butlast (workspace_core_path wd) = wd"
  by (auto simp: workspace_core_path_def is_temp_in_def temp_path_def)

lemma put_core_states:
  assumes "put_states (workspace_core_path wd) bs t s" and "sj_core_from_slice sj bs = Ok core"
  shows "temps_only wd t s \<or> core_written sj wd core t s"
proof (cases "node_at s (workspace_core_path wd) = node_at t (workspace_core_path wd)")
  case True
  have "node_at s q = node_at t q \<or> is_temp_in wd q \<and> node_at t q = None" for q
    using assms(1) True unfolding put_states_def core_path_facts by (cases "q = workspace_core_path wd") auto
  then show ?thesis by (simp add: temps_only_def)
next
  case False
  then have "node_at s (workspace_core_path wd) = Some (FileNode bs)"
    using assms(1) unfolding put_states_def by (metis core_path_facts)
  then have "core_on_disk sj wd s = Some core" using assms(2) by (simp add: file_value_Some)
  then show ?thesis using assms(1) unfolding core_written_def put_states_def core_path_facts by blast
qed

lemma write_core_states:
  assumes "serde_ok sj"
  shows "run_ok (\<lambda>s. temps_only wd (dk_fs w) s \<or> core_written sj wd core (dk_fs w) s) (write_workspace_core sj wd core) w
     (\<lambda>r w'. same_world w w' \<and> (temps_only wd (dk_fs w) (dk_fs w') \<or> core_written sj wd core (dk_fs w) (dk_fs w')) \<and>
        (r = Ok () \<longrightarrow> core_written sj wd core (dk_fs w) (dk_fs w')))"
    (is "run_ok ?I _ w ?Q")
proof (cases "sj_core_to_vec sj core")
  case (Inl e)
  then show ?thesis unfolding write_workspace_core_def to_vec_def Let_def by (intro run_ok_bind run_ok_lift) simp
next
  case (Inr bs)
  then have dec: "sj_core_from_slice sj bs = Ok core" using assms by (simp add: serde_ok_def codec_ok_def)
  have "run_ok ?I (put_atomic (workspace_core_path wd) bs) w ?Q"
  proof (rule run_ok_weaken [OF put_atomic_spec])
    fix r w' assume p: "disk.more w' = disk.more w \<and> dk_fault w' = dk_fault w \<and> put_states (workspace_core_path wd) bs (dk_fs w) (dk_fs w') \<and>
      (r = Ok () \<longrightarrow> node_at (dk_fs w') (workspace_core_path wd) = Some (FileNode bs)) \<and>
      ((\<exists>e. r = Err (FileIo (workspace_core_path wd) e) \<or> r = Err (Persist e)) \<longrightarrow> temps_only (butlast (workspace_core_path wd)) (dk_fs w) (dk_fs w'))"
    moreover have "core_written sj wd core (dk_fs w) (dk_fs w')" if "r = Ok ()"
      using p that dec unfolding core_written_def put_states_def core_path_facts file_value_Some by blast
    ultimately show "?Q r w'" using put_core_states [OF _ dec] by (auto simp: same_world_def)
  qed (use put_core_states [OF _ dec] in blast)
  then show ?thesis
    unfolding write_workspace_core_def to_vec_def Let_def by (intro run_ok_bind run_ok_lift) (auto simp: Inr intro!: run_ok_fail)
qed

section \<open>Uploads\<close>

text \<open>At every state of an upload: nothing but temporary files is new, or the bumped core is on disk.\<close>

definition bumped_first :: "serde \<Rightarrow> path \<Rightarrow> workspace_core \<Rightarrow> fs \<Rightarrow> fs \<Rightarrow> bool" where
  "bumped_first sj wd next_core t s \<longleftrightarrow> temps_only wd t s \<or> core_on_disk sj wd s = Some next_core"

lemma commit_upload_spec:
  assumes "serde_ok sj" and "cell_at w ws = Some c" and src: "node_at (dk_fs w) src = Some (FileNode b)" "src \<noteq> workspace_core_path wd"
    and final: "\<not> prefix final (workspace_core_path wd)" "src \<noteq> final" "\<not> prefix src (workspace_core_path wd)"
  shows "run_ok (bumped_first sj wd next_core (dk_fs w)) (commit_upload sj ws wd src final next_core) w
     (\<lambda>r w'. r = Ok () \<longrightarrow> cell_at w' ws = Some (c\<lparr>cc_core := next_core\<rparr>) \<and> core_on_disk sj wd (dk_fs w') = Some next_core \<and>
        node_at (dk_fs w') final = Some (FileNode b))"
    (is "run_ok ?I _ w ?Q")
proof -
  let ?done = "\<lambda>t. core_on_disk sj wd t = Some next_core \<and> node_at t src = Some (FileNode b)"
  let ?P = "\<lambda>t. core_on_disk sj wd t = Some next_core"
  have PI: "?I t" if "?P t" for t using that by (simp add: bumped_first_def)
  have publish: "run_ok ?I (bind_p (io_at (butlast final) (fsync_dir (butlast final))) (\<lambda>_. modify (publish_core ws next_core))) v ?Q"
    if v: "same_world w v" "?P (dk_fs v)" "node_at (dk_fs v) final = Some (FileNode b)" for v
    unfolding io_at_def
  proof (rule run_ok_step_err [OF fsync_keeps [where P = ?P and w = v]])
    fix x u assume u: "same_world v u \<and> dk_fs u = dk_fs v"
    have "disk.more u = disk.more w" using u v(1) by (simp add: same_world_def)
    then have "cell_at u ws = Some c" using assms(2) manager_same(5) by metis
    then show "run_ok ?I (modify (publish_core ws next_core)) u ?Q"
      by (intro run_ok_modify) (use u v in \<open>auto simp: publish_core_def\<close>)
  qed (use v PI in auto)
  have ren: "run_ok ?I (bind_p (io_at final (fs_call (fs_rename src final))) (\<lambda>_.
      bind_p (io_at (butlast final) (fsync_dir (butlast final))) (\<lambda>_. modify (publish_core ws next_core)))) v ?Q"
    if v: "same_world w v" "?done (dk_fs v)" for v
  proof -
    have st: "?P s \<and> node_at s final = Some (FileNode b) \<and> ts = [s]" if "fs_rename src final (dk_fs v) = Ok (x, ts)" "s \<in> set ts" for x ts s
      using that v(2) rename_keeps_node [OF that final(3,1)] by (auto simp: fs_rename_def file_value_def split: if_splits)
    show ?thesis
      unfolding io_at_def [of final]
    proof (rule run_ok_seq_err [OF call_spec])
      show "\<forall>s \<in> set ts. ?I s" if "fs_rename src final (dk_fs v) = Ok (x, ts)" for x ts using st [OF that] PI by blast
      show "run_ok ?I (bind_p (io_at (butlast final) (fsync_dir (butlast final))) (\<lambda>_. modify (publish_core ws next_core))) v' ?Q"
        if cp: "call_post (fs_rename src final) v (Inr x) v'" for x v'
      proof -
        obtain ts where ts: "fs_rename src final (dk_fs v) = Ok (x, ts)" "dk_fs v' = last (dk_fs v # ts)"
          using cp by (auto simp: call_post_def simp del: last.simps)
        moreover have "ts \<noteq> []" using ts(1) v(2) by (auto simp: fs_rename_def split: if_splits)
        ultimately have "dk_fs v' \<in> set ts" by simp
        then show ?thesis by (intro publish) (use cp v(1) st [OF ts(1)] in \<open>auto simp: call_post_def same_world_def\<close>)
      qed
    qed simp
  qed
  have mk: "run_ok ?I (bind_p (io_at (butlast final) (fs_call (fs_create_dir_all (butlast final)))) (\<lambda>_.
      bind_p (io_at final (fs_call (fs_rename src final))) (\<lambda>_.
      bind_p (io_at (butlast final) (fsync_dir (butlast final))) (\<lambda>_. modify (publish_core ws next_core))))) v ?Q"
    if v: "same_world w v" "?done (dk_fs v)" for v
  proof -
    have kp: "?done s" if "fs_create_dir_all (butlast final) (dk_fs v) = Ok (x, ts)" "s \<in> set ts" for x ts s
      using v(2) mkdir_keeps_node [OF that, of src] mkdir_keeps_node [OF that, of "workspace_core_path wd"] by (auto simp: file_value_Some)
    show ?thesis
      unfolding io_at_def [of "butlast final" "fs_call _"]
      by (rule run_ok_step_err [OF run_ok_keeping_call [where P = ?done]]) (use v kp PI ren [OF same_world_trans [OF v(1)]] in auto)
  qed
  show ?thesis
    unfolding commit_upload_def Let_def
  proof (rule run_ok_step [OF write_core_states [OF assms(1), of wd]])
    fix x :: unit and v assume v: "same_world w v \<and> (temps_only wd (dk_fs w) (dk_fs v) \<or> core_written sj wd next_core (dk_fs w) (dk_fs v)) \<and>
      (Inr x = Ok () \<longrightarrow> core_written sj wd next_core (dk_fs w) (dk_fs v))"
    then have "?done (dk_fs v)" using src unfolding core_written_def by (metis option.distinct(1) unit.exhaust)
    then show "run_ok ?I (bind_p (io_at (butlast final) (fs_call (fs_create_dir_all (butlast final)))) (\<lambda>_.
      bind_p (io_at final (fs_call (fs_rename src final))) (\<lambda>_.
      bind_p (io_at (butlast final) (fsync_dir (butlast final))) (\<lambda>_. modify (publish_core ws next_core))))) v ?Q"
      using mk v by blast
  qed (auto simp: bumped_first_def core_written_def)
qed

lemma check_siblings_spec: "run_ok I (check_siblings parent name es) w (\<lambda>r w'. unchanged w w')"
proof (induction es arbitrary: w)
  case Nil
  show ?case by (simp add: run_ok_ret)
next
  case (Cons e es)
  obtain x b where e: "e = (x, b)" by (cases e)
  have rest: "run_ok I (check_siblings parent name es) v (\<lambda>r w'. unchanged w w')" if "unchanged w v" for v
    by (rule run_ok_post [OF Cons.IH]) (use that unchanged_trans in blast)
  show ?case
    unfolding e check_siblings.simps io_at_def
    by (rule run_ok_entry) (auto intro!: run_ok_fail rest)
qed

lemma sibling_check_spec: "run_ok I (sibling_check p) w (\<lambda>r w'. unchanged w w')"
proof -
  have read: "run_ok I (bind_p (io_at d (fs_call (fs_read_dir d))) (\<lambda>es. check_siblings d n es)) v (\<lambda>r w'. unchanged w w')"
    if "unchanged w v" for v d n
    unfolding io_at_def
  proof (rule run_ok_seq_err [OF call_spec])
    show "\<forall>t \<in> set ts. I t" if "fs_read_dir d (dk_fs v) = Ok (x, ts)" for x ts using read_dir_pure [OF that] by simp
    show "unchanged w u" if "call_post (fs_read_dir d) v (Inl e) u" for e u
      using that \<open>unchanged w v\<close> read_dir_pure by (fastforce simp: call_post_def unchanged_def)
    show "run_ok I (check_siblings d n es) u (\<lambda>r w'. unchanged w w')" if "call_post (fs_read_dir d) v (Inr es) u" for es u
    proof (rule run_ok_post [OF check_siblings_spec])
      have "unchanged v u" using that read_dir_pure by (fastforce simp: call_post_def unchanged_def)
      then show "unchanged w w'" if "unchanged u w'" for w' using \<open>unchanged w v\<close> that unchanged_trans by blast
    qed
  qed
  show ?thesis
    unfolding sibling_check_def Let_def
    by (rule run_ok_test) (auto simp: fs_exists_def intro!: run_ok_ret read)
qed

lemma cell_resident: "cell_at w ws = Some c \<Longrightarrow> cache_cell_for_dataset sj ws w = (Ok c, w)"
  by (simp add: cache_cell_for_dataset_def)

definition upload_done :: "serde \<Rightarrow> workspace_id \<Rightarrow> path \<Rightarrow> asset_path \<Rightarrow> workspace_cache_cell \<Rightarrow> nat \<times> workspace_core \<Rightarrow> bytes \<Rightarrow>
    dataset_upload_receipt \<Rightarrow> manager \<Rightarrow> bool"
where
  "upload_done sj ws wd p c next b rc w' \<longleftrightarrow>
     cell_at w' ws = Some (c\<lparr>cc_core := snd next\<rparr>) \<and> core_on_disk sj wd (dk_fs w') = Some (snd next) \<and>
     node_at (dk_fs w') (workspace_asset_path_join wd p) = Some (FileNode b) \<and> du_workspace_revision_id rc = fst next"

lemma upload_body_spec:
  assumes "serde_ok sj" and c: "cell_at w ws = Some c" and wd: "wd = manager_workspace_dir w ws"
    and src: "node_at (dk_fs w) src = Some (FileNode b)" "prefix (wd @ [''.tmp'']) src"
    and first: "hd (asset_path_components p) \<notin> {''.tmp'', ''workspace.json''}"
  shows "run_ok (bumped_first sj wd (snd (bump_workspace_revision now (cc_core c))) (dk_fs w)) (upload_body sj now ws p src sha nbytes) w
     (\<lambda>r w'. \<forall>rc. r = Ok rc \<longrightarrow> upload_done sj ws wd p c (bump_workspace_revision now (cc_core c)) b rc w')"
    (is "run_ok ?I _ w ?Q")
proof -
  let ?final = "workspace_asset_path_join wd p" and ?next = "snd (bump_workspace_revision now (cc_core c))"
  obtain x xs where comps: "asset_path_components p = x # xs"
    by (metis asset_path_components_def list.exhaust split_on_not_Nil)
  have paths: "src \<noteq> workspace_core_path wd" "\<not> prefix ?final (workspace_core_path wd)" "src \<noteq> ?final" "\<not> prefix src (workspace_core_path wd)"
    using src(2) first comps by (auto simp: workspace_asset_path_join_def workspace_core_path_def prefix_def append_eq_append_conv2)
  let ?rest = "bind_p (cache_cell_for_dataset sj ws) (\<lambda>cell.
        let (next_revision_id, next_core) = bump_workspace_revision now (cc_core cell) in
        bind_p (commit_upload sj ws wd src ?final next_core) (\<lambda>_.
        ret \<lparr>du_path = p, du_sha256 = sha, du_size_bytes = nbytes, du_workspace_revision_id = next_revision_id\<rparr>))"
  have rest: "run_ok ?I ?rest v ?Q" if v: "unchanged w v" for v
  proof -
    have cv: "cell_at v ws = Some c" and fs: "dk_fs v = dk_fs w"
      using v c manager_same(5) [of v w] by (simp_all add: unchanged_def)
    have "run_ok ?I (bind_p (commit_upload sj ws wd src ?final ?next) (\<lambda>_.
        ret \<lparr>du_path = p, du_sha256 = sha, du_size_bytes = nbytes, du_workspace_revision_id = fst (bump_workspace_revision now (cc_core c))\<rparr>)) v ?Q"
      by (rule run_ok_seq [OF commit_upload_spec [OF assms(1) cv, of src b wd ?final ?next, unfolded fs]])
        (use src paths in \<open>auto simp: upload_done_def intro!: run_ok_ret\<close>)
    then show ?thesis using cell_resident [OF cv] by (simp add: run_ok_def bind_p_def split_beta Let_def)
  qed
  have sib: "run_ok ?I (bind_p (sibling_check ?final) (\<lambda>_. ?rest)) v ?Q" if "unchanged w v" for v
    by (rule run_ok_seq [OF sibling_check_spec]) (use rest unchanged_trans [OF that] in auto)
  have "run_ok ?I (bind_p (fs_test (fs_exists (workspace_core_path wd))) (\<lambda>present.
      if \<not> present then fail (FileNotFound ws) else bind_p (sibling_check ?final) (\<lambda>_. ?rest))) w ?Q"
    by (rule run_ok_test) (use sib in \<open>auto simp: fs_exists_def intro!: run_ok_fail\<close>)
  then show ?thesis by (simp add: run_ok_def upload_body_def Let_def wd [symmetric])
qed

lemma upload_first:
  assumes "parse_mutable_path p = Ok (tree, sub)" and "accepts_uploads tree"
  shows "hd (asset_path_components p) \<notin> {''.tmp'', ''workspace.json''}"
  using assms
  by (auto simp: parse_mutable_path_def tree_of_name_def accepts_uploads_def datasets_dir_name_def converters_dir_name_def
    training_logs_dir_name_def converter_logs_dir_name_def split: list.splits option.splits if_splits)

text \<open>
  C11. At every state on disk of an upload, whatever fails, either nothing but temporary files of the atomic write is
  new or the core with the bumped revision is on disk; a successful upload leaves the bumped core on disk and in
  the cache, the uploaded bytes in place, and returns the new revision.
\<close>

theorem upload_revision_before_bytes:
  assumes "serde_ok sj" and "cell_at w ws = Some c" and "wd = manager_workspace_dir w ws"
    and "node_at (dk_fs w) src = Some (FileNode b)" and "prefix (wd @ [''.tmp'']) src"
    and "next = bump_workspace_revision now (cc_core c)"
    and "upload_workspace_file sj now ws p src sha nbytes w = (r, w')"
  shows "(\<exists>ts. dk_trace w' = dk_trace w @ ts \<and> list_all (bumped_first sj wd (snd next) (dk_fs w)) ts) \<and>
     (\<forall>rc. r = Ok rc \<longrightarrow> upload_done sj ws wd p c next b rc w')"
proof -
  let ?I = "bumped_first sj wd (snd next) (dk_fs w)" and ?Q = "\<lambda>r w'. \<forall>rc. r = Ok rc \<longrightarrow> upload_done sj ws wd p c next b rc w'"
  have lease: "run_ok ?I (with_workspace_lease ws (upload_body sj now ws p src sha nbytes)) w ?Q"
    if "hd (asset_path_components p) \<notin> {''.tmp'', ''workspace.json''}"
  proof (rule run_ok_lease)
    fix jobs
    have "run_ok ?I (upload_body sj now ws p src sha nbytes) (w\<lparr>mg_jobs := jobs\<rparr>) ?Q"
      using upload_body_spec [OF assms(1) _ _ _ assms(5) that, of "w\<lparr>mg_jobs := jobs\<rparr>" ws c b now sha nbytes] assms
      by (simp add: cell_at_def manager_workspace_dir_def)
    then show "run_ok ?I (upload_body sj now ws p src sha nbytes) (w\<lparr>mg_jobs := jobs\<rparr>) (\<lambda>r w'. \<forall>j. ?Q r (w'\<lparr>mg_jobs := j\<rparr>))"
      by (rule run_ok_post) (simp add: upload_done_def cell_at_def)
  qed simp
  have "run_ok ?I (upload_workspace_file sj now ws p src sha nbytes) w ?Q"
    unfolding upload_workspace_file_def
    using lease [OF upload_first] by (auto split: sum.splits option.splits intro!: run_ok_fail)
  note run = this
  show ?thesis using run_okD(1) [OF run assms(7)] run_okD(2) [OF run assms(7)] by (fastforce simp: passes_def list_all_iff)
qed

text \<open>A workspace with one head, trained at the current revision, and a clip to upload; the \<open>k\<close>-th call to the file system fails.\<close>

definition demo_bumped :: workspace_core where
  "demo_bumped = snd (bump_workspace_revision ''now'' (demo_core 1))"

definition demo_asset_serde :: serde where
  "demo_asset_serde = demo_serde\<lparr>
     sj_core_to_vec := book_enc [(demo_core 1, [0]), (demo_bumped, [2])],
     sj_core_from_slice := book_dec [(demo_core 1, [0]), (demo_bumped, [2])]\<rparr>"

definition demo_clip :: asset_path where
  "demo_clip = AssetPath ''datasets/dog/a.wav''"

definition demo_assets :: "nat \<Rightarrow> manager" where
  "demo_assets k = demo_manager\<lparr>mg_caches := [(''w'', \<lparr>cc_core = demo_core 1, cc_heads = demo_index\<rparr>)],
     dk_fault := (\<lambda>n. if n = k then Some (IoOther 5, 0) else None)\<rparr>"

abbreviation demo_upload :: "nat \<Rightarrow> (file_error, dataset_upload_receipt) result \<times> manager" where
  "demo_upload k \<equiv> upload_workspace_file demo_asset_serde ''now'' ''w'' demo_clip [''workspaces'', ''w'', ''.tmp'', ''x''] ''s'' 1 (demo_assets k)"

lemma demo_asset_serde_ok: "serde_ok demo_asset_serde"
  using demo_serde_ok by (simp add: serde_ok_def demo_asset_serde_def book_codec_ok demo_bumped_def bump_workspace_revision_def Let_def demo_core_def)

theorem upload_revision_before_bytes_witness:
  "core_on_disk demo_asset_serde [''workspaces'', ''w''] (dk_fs (snd (demo_upload 20))) = Some demo_bumped \<and>
   node_at (dk_fs (snd (demo_upload 20))) [''workspaces'', ''w'', ''datasets'', ''dog'', ''a.wav''] = Some (FileNode [7])"
proof -
  let ?w = "demo_assets 20" and ?c = "\<lparr>cc_core = demo_core 1, cc_heads = demo_index\<rparr>"
  have cell: "cell_at ?w ''w'' = Some ?c" and dir: "[''workspaces'', ''w''] = manager_workspace_dir ?w ''w''"
    using demo_dir by (simp_all add: cell_at_def demo_assets_def manager_workspace_dir_def)
  have src: "node_at (dk_fs ?w) [''workspaces'', ''w'', ''.tmp'', ''x''] = Some (FileNode [7])"
    and below: "prefix ([''workspaces'', ''w''] @ [''.tmp'']) [''workspaces'', ''w'', ''.tmp'', ''x'']"
    and join: "workspace_asset_path_join [''workspaces'', ''w''] demo_clip = [''workspaces'', ''w'', ''datasets'', ''dog'', ''a.wav'']"
    by code_simp+
  have ok: "\<not> isl (fst (demo_upload 20))" by code_simp
  then obtain rc where "fst (demo_upload 20) = Ok rc" by (cases "fst (demo_upload 20)") auto
  with upload_revision_before_bytes [OF demo_asset_serde_ok cell dir src below refl surjective_pairing]
  have "upload_done demo_asset_serde ''w'' [''workspaces'', ''w''] demo_clip ?c (bump_workspace_revision ''now'' (cc_core ?c)) [7] rc (snd (demo_upload 20))"
    by blast
  then show ?thesis by (simp add: upload_done_def join demo_bumped_def)
qed

text \<open>
  C40. An upload whose last step, the sync of the directory of the new file, fails answers with an error although the new
  bytes are in place and the bumped revision is on disk; the cached core is the old one, so the summary of the
  workspace still shows its head as current.
\<close>

theorem failed_upload_keeps_head_current:
  "\<exists>w :: manager. \<exists>e u v w'. upload_workspace_file demo_asset_serde ''now'' ''w'' demo_clip [''workspaces'', ''w'', ''.tmp'', ''x''] ''s'' 1 w = (Err e, w') \<and>
     core_on_disk demo_asset_serde [''workspaces'', ''w''] (dk_fs w') = Some demo_bumped \<and>
     node_at (dk_fs w) [''workspaces'', ''w'', ''datasets'', ''dog'', ''a.wav''] = None \<and>
     node_at (dk_fs w') [''workspaces'', ''w'', ''datasets'', ''dog'', ''a.wav''] = Some (FileNode [7]) \<and>
     summary demo_asset_serde ''w'' w' = (Ok u, v) \<and> ws_head_statuses u = [Current]"
proof -
  let ?w' = "snd (demo_upload 11)" and ?u = "summary demo_asset_serde ''w'' (snd (demo_upload 11))"
  have "isl (fst (demo_upload 11))" by code_simp
  then obtain e where "demo_upload 11 = (Err e, ?w')" by (cases "demo_upload 11") (auto simp: isl_def)
  moreover have "core_on_disk demo_asset_serde [''workspaces'', ''w''] (dk_fs ?w') = Some demo_bumped" by code_simp
  moreover have "node_at (dk_fs (demo_assets 11)) [''workspaces'', ''w'', ''datasets'', ''dog'', ''a.wav''] = None" by code_simp
  moreover have "node_at (dk_fs ?w') [''workspaces'', ''w'', ''datasets'', ''dog'', ''a.wav''] = Some (FileNode [7])" by code_simp
  moreover have "\<not> isl (fst ?u) \<and> ws_head_statuses (projr (fst ?u)) = [Current]" by code_simp
  then obtain u v where "?u = (Ok u, v)" "ws_head_statuses u = [Current]" by (cases ?u; cases "fst ?u") auto
  ultimately show ?thesis by blast
qed

end
