(* ===== verification/Config_Store.thy ===== *)
theory Config_Store
  imports Active_Head Mic_Types Versioned_Swap
begin

text \<open>
  \<^verbatim>\<open>config.rs\<close>, \<^verbatim>\<open>config/watcher.rs\<close>, \<^verbatim>\<open>config/mic_settings.rs\<close>, \<^verbatim>\<open>config/error.rs\<close> and the two handlers and the
  reload callback that write through them: the user configuration as a TOML file, a snapshot in memory and two live cells, the
  microphone settings and the inference cadence.  The mutate lock makes every operation one transition of the
  state; the thread-local flag that refuses a nested mutation is part of it.  The TOML codec is a parameter.
  An error keeps the structured value whose text the source formats into the message.
\<close>

section \<open>Data\<close>

record inference_cfg =
  ic_hop_samples :: nat
  ic_top_k :: nat

text \<open>\<open>MIN_HOP_SAMPLES\<close> is evaluated by the compiler as 44100 * (1 - 0.75), which is exact in \<open>f32\<close>.\<close>

definition sample_rate_hz :: nat where "sample_rate_hz = 44100"
definition min_hop_samples :: nat where "min_hop_samples = sample_rate_hz - sample_rate_hz * 3 div 4"
definition max_hop_samples :: nat where "max_hop_samples = sample_rate_hz"
definition max_top_k :: nat where "max_top_k = 64"

definition inference_cfg_default :: inference_cfg where
  "inference_cfg_default = \<lparr>ic_hop_samples = min_hop_samples, ic_top_k = 3\<rparr>"

text \<open>A message is its fixed text and the numbers put into it.\<close>

datatype config_message = Message string "nat list"

definition inference_cfg_validate :: "inference_cfg \<Rightarrow> (config_message, unit) result" where
  "inference_cfg_validate c =
     (if ic_hop_samples c < min_hop_samples \<or> ic_hop_samples c > max_hop_samples
      then Err (Message ''hop_samples must be'' [min_hop_samples, max_hop_samples, ic_hop_samples c])
      else if ic_top_k c = 0 \<or> ic_top_k c > max_top_k
      then Err (Message ''top_k must be'' [1, max_top_k, ic_top_k c])
      else Ok ())"

record config =
  cfg_mic :: mic_policy
  cfg_inference :: inference_cfg

definition config_default_for :: config where
  "config_default_for =
     \<lparr>cfg_mic = \<lparr>mp_mic = FirstAvailable, mp_channel = AutoChannel\<rparr>, cfg_inference = inference_cfg_default\<rparr>"

datatype config_error =
    ConfigRead path io_error
  | ConfigWrite path io_error
  | ConfigParse path string
  | ConfigSerialize string
  | ConfigWatcher string
  | ConfigPersist io_error
  | ConfigInvalid path invalid_reason
  | ReentrantMutate
  | ThreadSpawn path io_error
and invalid_reason =
    InvalidSection config_validation_error
  | InvalidPolicy policy_validation_error
  | InvalidLaunch string config_message
and config_validation_error =
    InvalidInference config_message
  | CallbackRejected mic_error
and mic_error =
    PolicyRejected config_error
  | PolicyPersist config_error

fun config_error_kind :: "config_error \<Rightarrow> error_kind" where
  "config_error_kind ReentrantMutate = Internal"
| "config_error_kind (ConfigParse _ _) = UserInput"
| "config_error_kind (ConfigInvalid _ _) = UserInput"
| "config_error_kind (ConfigRead _ _) = Internal"
| "config_error_kind (ConfigWrite _ _) = Internal"
| "config_error_kind (ConfigSerialize _) = Internal"
| "config_error_kind (ConfigWatcher _) = Internal"
| "config_error_kind (ConfigPersist _) = Internal"
| "config_error_kind (ThreadSpawn _ _) = Internal"

fun mic_error_kind :: "mic_error \<Rightarrow> error_kind" where
  "mic_error_kind (PolicyRejected _) = UserInput"
| "mic_error_kind (PolicyPersist e) = config_error_kind e"

definition config_validate :: "config \<Rightarrow> (config_validation_error, unit) result" where
  "config_validate c =
     (case inference_cfg_validate (cfg_inference c) of Inl m \<Rightarrow> Err (InvalidInference m) | Inr _ \<Rightarrow> Ok ())"

definition validate_policy_against_catalogue :: "mic_policy \<Rightarrow> mic_catalogue \<Rightarrow> path \<Rightarrow> (config_error, unit) result" where
  "validate_policy_against_catalogue policy catalogue path_for_diag =
     (case policy_validate_against policy catalogue of
        Inl e \<Rightarrow> Err (ConfigInvalid path_for_diag (InvalidPolicy e))
      | Inr _ \<Rightarrow> Ok ())"

section \<open>The codec and the state\<close>

record toml_codec =
  tm_to_string_pretty :: "config \<Rightarrow> (string, string) result"
  tm_from_str :: "string \<Rightarrow> (string, config) result"

text \<open>What is relied on: the text written for a configuration is a string and parses back to it.\<close>

definition toml_ok :: "toml_codec \<Rightarrow> bool" where
  "toml_ok tm \<longleftrightarrow>
     (\<forall>c s. tm_to_string_pretty tm c = Ok s \<longrightarrow> utf8_check s \<and> tm_from_str tm s = Ok c)"

record config_cell = disk +
  cw_path :: path
  cw_inner :: config
  cw_reload_count :: nat
  cw_in_mutate :: bool

record config_world = config_cell +
  cw_catalogue :: mic_catalogue
  cw_mic :: "mic_settings versioned_swap"
  cw_inference :: inference_cfg

type_synonym ('z, 'a) config_prog = "('z config_cell_scheme, config_error, 'a) prog"

section \<open>Reading and writing the file\<close>

definition fs_read_to_string :: "path \<Rightarrow> ('z disk_scheme, io_error, string) prog" where
  "fs_read_to_string p =
     bind_p (fs_call (fs_read p)) (\<lambda>b. if utf8_check (bytes_text b) then ret (bytes_text b) else fail IoInvalidData)"

fun file_to_config_err :: "file_error \<Rightarrow> config_error" where
  "file_to_config_err (FileIo p source) = ConfigWrite p source"
| "file_to_config_err (Persist e) = ConfigPersist e"
| "file_to_config_err other = ConfigWrite [] (IoOther 0)"

definition write_toml_atomically :: "toml_codec \<Rightarrow> path \<Rightarrow> config \<Rightarrow> ('z disk_scheme, config_error, unit) prog" where
  "write_toml_atomically tm p cfg =
     (case tm_to_string_pretty tm cfg of
        Inl e \<Rightarrow> fail (ConfigSerialize e)
      | Inr text \<Rightarrow>
          let dir = butlast p in
          bind_p (fs_test (fs_exists dir)) (\<lambda>present.
          bind_p (if present then ret () else map_err (ConfigWrite dir) (fs_call (fs_create_dir_all dir))) (\<lambda>_.
          map_err file_to_config_err (put_atomic p (as_bytes text)))))"

definition parse_config :: "toml_codec \<Rightarrow> path \<Rightarrow> string \<Rightarrow> (config_error, config) result" where
  "parse_config tm p text = (case tm_from_str tm text of Inl e \<Rightarrow> Err (ConfigParse p e) | Inr c \<Rightarrow> Ok c)"

definition check_config :: "path \<Rightarrow> config \<Rightarrow> (config_error, unit) result" where
  "check_config p c = (case config_validate c of Inl e \<Rightarrow> Err (ConfigInvalid p (InvalidSection e)) | Inr _ \<Rightarrow> Ok ())"

text \<open>The value a new cell is made of: the snapshot; the counter starts at 0 and the lock is free.\<close>

definition config_load :: "toml_codec \<Rightarrow> path \<Rightarrow> ('z disk_scheme, config_error, config) prog" where
  "config_load tm p =
     bind_p (map_err (ConfigRead p) (fs_read_to_string p)) (\<lambda>text.
     bind_p (lift_result (parse_config tm p text)) (\<lambda>cfg.
     bind_p (lift_result (check_config p cfg)) (\<lambda>_. ret cfg)))"

definition config_from_value :: "config \<Rightarrow> path \<Rightarrow> ('z disk_scheme, config_error, config) prog" where
  "config_from_value cfg p = bind_p (lift_result (check_config p cfg)) (\<lambda>_. ret cfg)"

definition load_or_init_config :: "toml_codec \<Rightarrow> path \<Rightarrow> ('z disk_scheme, config_error, config) prog" where
  "load_or_init_config tm p =
     bind_p (fs_test (fs_exists p)) (\<lambda>present.
     if present then config_load tm p
     else bind_p (fs_test (fs_exists (butlast p))) (\<lambda>parent_there.
       bind_p (if butlast p = [] \<or> parent_there then ret ()
               else map_err (ConfigWrite (butlast p)) (fs_call (fs_create_dir_all (butlast p)))) (\<lambda>_.
       bind_p (config_from_value config_default_for p) (\<lambda>cfg.
       bind_p (write_toml_atomically tm p cfg) (\<lambda>_. ret cfg)))))"

section \<open>Mutations\<close>

definition config_snapshot :: "'z config_cell_scheme \<Rightarrow> config" where
  "config_snapshot w = cw_inner w"

definition config_persist :: "toml_codec \<Rightarrow> ('z, unit) config_prog" where
  "config_persist tm w = write_toml_atomically tm (cw_path w) (config_snapshot w) w"

text \<open>The flag of the calling thread is cleared however the body ends.\<close>

definition reset_on_drop :: "('z, 'a) config_prog \<Rightarrow> ('z, 'a) config_prog" where
  "reset_on_drop m w = (case m w of (r, w') \<Rightarrow> (r, w'\<lparr>cw_in_mutate := False\<rparr>))"

definition enter_mutate :: "('z, unit) config_prog" where
  "enter_mutate w = (if cw_in_mutate w then (Err ReentrantMutate, w) else (Ok (), w\<lparr>cw_in_mutate := True\<rparr>))"

text \<open>Validate, write, publish, run the hook; what the hook leaves in its captures is its result.\<close>

definition commit_config ::
  "toml_codec \<Rightarrow> config \<Rightarrow> (config \<Rightarrow> 'z config_cell_scheme \<Rightarrow> 'b \<times> 'z config_cell_scheme) \<Rightarrow> ('z, 'b) config_prog"
where
  "commit_config tm cfg after w =
     bind_p (lift_result (check_config (cw_path w) cfg)) (\<lambda>_.
     bind_p (write_toml_atomically tm (cw_path w) cfg) (\<lambda>_ v.
     case after cfg (v\<lparr>cw_inner := cfg\<rparr>) of (x, v') \<Rightarrow> (Ok x, v'))) w"

definition mutate_then ::
  "toml_codec \<Rightarrow> (config \<Rightarrow> config \<times> 'r) \<Rightarrow> (config \<Rightarrow> 'z config_cell_scheme \<Rightarrow> 'b \<times> 'z config_cell_scheme) \<Rightarrow>
     ('z, 'r \<times> 'b) config_prog"
where
  "mutate_then tm mutator after =
     bind_p enter_mutate (\<lambda>_.
     reset_on_drop (\<lambda>w. case mutator (config_snapshot w) of
       (cfg, result) \<Rightarrow> bind_p (commit_config tm cfg after) (\<lambda>x. ret (result, x)) w))"

definition mutate :: "toml_codec \<Rightarrow> (config \<Rightarrow> config) \<Rightarrow> ('z, unit) config_prog" where
  "mutate tm f = bind_p (mutate_then tm (\<lambda>c. (f c, ())) (\<lambda>_ w. ((), w))) (\<lambda>_. ret ())"

text \<open>The guard of \<open>ConfigHandle\<close>: the cloned snapshot is its only content.\<close>

definition open_mutation :: "('z, config) config_prog" where
  "open_mutation = bind_p enter_mutate (\<lambda>_ w. (Ok (config_snapshot w), w))"

definition guard_commit ::
  "toml_codec \<Rightarrow> config \<Rightarrow> (config \<Rightarrow> 'z config_cell_scheme \<Rightarrow> 'b \<times> 'z config_cell_scheme) \<Rightarrow> ('z, 'b) config_prog"
where
  "guard_commit tm cfg after = reset_on_drop (commit_config tm cfg after)"

definition guard_rollback :: "('z, unit) config_prog" where
  "guard_rollback = reset_on_drop (ret ())"

section \<open>Reloading\<close>

definition try_reload ::
  "toml_codec \<Rightarrow> (config \<Rightarrow> 'z config_cell_scheme \<Rightarrow> (config_validation_error, unit) result run \<times> 'z config_cell_scheme) \<Rightarrow>
     'z config_cell_scheme \<Rightarrow> 'z config_cell_scheme"
where
  "try_reload tm on_reload w =
     (case fs_read_to_string (cw_path w) w of
        (Inl _, w1) \<Rightarrow> w1
      | (Inr text, w1) \<Rightarrow>
          (case tm_from_str tm text of
             Inl _ \<Rightarrow> w1
           | Inr cfg \<Rightarrow>
               (case config_validate cfg of
                  Inl _ \<Rightarrow> w1
                | Inr _ \<Rightarrow>
                    if cw_inner w1 = cfg then w1
                    else (case on_reload cfg w1 of
                        (Done (Inr _), w2) \<Rightarrow> w2\<lparr>cw_inner := cfg, cw_reload_count := wrapping_add64 (cw_reload_count w2) 1\<rparr>
                      | (Done (Inl _), w2) \<Rightarrow> w2
                      | (Panic, w2) \<Rightarrow> w2))))"

text \<open>
  The debounce worker over what its channel reports: a kick, a quiet window of 100 ms, or that all senders are
  gone.  The flag says whether a burst is open; while it is not, the receive has no timeout.
\<close>

datatype kick = Kick | QuietWindow | Disconnected

fun debounce_reload_worker :: "('w \<Rightarrow> 'w) \<Rightarrow> bool \<Rightarrow> kick list \<Rightarrow> 'w \<Rightarrow> 'w" where
  "debounce_reload_worker reload burst [] w = w"
| "debounce_reload_worker reload burst (Disconnected # _) w = w"
| "debounce_reload_worker reload burst (Kick # ks) w = debounce_reload_worker reload True ks w"
| "debounce_reload_worker reload burst (QuietWindow # ks) w =
     debounce_reload_worker reload False ks (if burst then reload w else w)"

text \<open>The filter of the notify callback: an event without paths always kicks.\<close>

definition touches_target :: "path \<Rightarrow> path list \<Rightarrow> bool" where
  "touches_target target event_paths \<longleftrightarrow>
     (target = [] \<or> event_paths = [] \<or> list_ex (\<lambda>q. q \<noteq> [] \<and> last q = last target) event_paths)"

section \<open>The microphone cell\<close>

definition mic_settings_cell_new :: "mic_catalogue \<Rightarrow> mic_policy \<Rightarrow> mic_settings versioned_swap" where
  "mic_settings_cell_new catalogue initial_policy = vs_new \<lparr>ms_catalogue = catalogue, ms_policy = initial_policy\<rparr>"

definition swap_policy :: "mic_policy \<Rightarrow> 'z config_world_scheme \<Rightarrow> nat \<times> 'z config_world_scheme" where
  "swap_policy policy w =
     (case vs_try_mutate (\<lambda>_. Ok (\<lparr>ms_catalogue = cw_catalogue w, ms_policy = policy\<rparr>, ())) (cw_mic w) :: (mic_error, nat \<times> unit) result \<times> _ of
        (Inr (receipt, _), mic) \<Rightarrow> (receipt, w\<lparr>cw_mic := mic\<rparr>)
      | (Inl _, mic) \<Rightarrow> (0, w\<lparr>cw_mic := mic\<rparr>))"

definition try_set_policy :: "toml_codec \<Rightarrow> mic_policy \<Rightarrow> ('z config_world_scheme, mic_error, nat) prog" where
  "try_set_policy tm policy w =
     (case validate_policy_against_catalogue policy (cw_catalogue w) (cw_path w) of
        Inl e \<Rightarrow> (Err (PolicyRejected e), w)
      | Inr _ \<Rightarrow>
          bind_p (map_err PolicyPersist (mutate_then tm (\<lambda>c. (c\<lparr>cfg_mic := policy\<rparr>, ())) (\<lambda>_. swap_policy policy)))
            (\<lambda>(_, receipt). ret receipt) w)"

definition try_set_policy_no_persist :: "mic_policy \<Rightarrow> ('z config_world_scheme, mic_error, nat) prog" where
  "try_set_policy_no_persist policy w =
     (case validate_policy_against_catalogue policy (cw_catalogue w) (cw_path w) of
        Inl e \<Rightarrow> (Err (PolicyRejected e), w)
      | Inr _ \<Rightarrow> (case swap_policy policy w of (receipt, w') \<Rightarrow> (Ok receipt, w')))"

section \<open>The daemon's callback and the handlers\<close>

definition store_inference :: "inference_cfg \<Rightarrow> 'z config_world_scheme \<Rightarrow> unit \<times> 'z config_world_scheme" where
  "store_inference c w = ((), w\<lparr>cw_inference := c\<rparr>)"

definition reload_callback ::
  "bool \<Rightarrow> config \<Rightarrow> 'z config_world_scheme \<Rightarrow> (config_validation_error, unit) result run \<times> 'z config_world_scheme"
where
  "reload_callback mock_audio cfg w =
     (case (if mock_audio then (Ok 0, w) else try_set_policy_no_persist (cfg_mic cfg) w) of
        (Inl e, w') \<Rightarrow> (Done (Err (CallbackRejected e)), w')
      | (Inr _, w') \<Rightarrow> (Done (Ok ()), snd (store_inference (cfg_inference cfg) w')))"

datatype inference_api_error = ApiBad config_message | ApiConfig config_error

definition post_inference ::
  "toml_codec \<Rightarrow> nat option \<Rightarrow> nat option \<Rightarrow> ('z config_world_scheme, inference_api_error, inference_cfg) prog"
where
  "post_inference tm hop top_k w =
     (let current = cw_inference w;
          pick = (\<lambda>c. \<lparr>ic_hop_samples = (case hop of Some h \<Rightarrow> h | None \<Rightarrow> ic_hop_samples c),
                        ic_top_k = (case top_k of Some k \<Rightarrow> k | None \<Rightarrow> ic_top_k c)\<rparr>)
      in case inference_cfg_validate (pick current) of
        Inl m \<Rightarrow> (Err (ApiBad m), w)
      | Inr _ \<Rightarrow>
          map_err ApiConfig (bind_p open_mutation (\<lambda>guard.
            let next = pick (cfg_inference guard) in
            bind_p (guard_commit tm (guard\<lparr>cfg_inference := next\<rparr>) (\<lambda>c. store_inference (cfg_inference c))) (\<lambda>_.
            ret next))) w)"

text \<open>Boot: the file is loaded or created, the policy checked against the catalogue, the cells made.\<close>

definition boot_config ::
  "toml_codec \<Rightarrow> mic_catalogue \<Rightarrow> path \<Rightarrow> disk \<Rightarrow> (config_error, config_world) result \<times> disk"
where
  "boot_config tm catalogue p d =
     (case load_or_init_config tm p d of
        (Inl e, d') \<Rightarrow> (Err e, d')
      | (Inr cfg, d') \<Rightarrow>
          (case validate_policy_against_catalogue (cfg_mic cfg) catalogue p of
             Inl e \<Rightarrow> (Err e, d')
           | Inr _ \<Rightarrow>
               (Ok \<lparr>dk_fs = dk_fs d', dk_trace = dk_trace d', dk_clock = dk_clock d', dk_fault = dk_fault d', dk_rand = dk_rand d',
                    cw_path = p, cw_inner = cfg, cw_reload_count = 0, cw_in_mutate = False,
                    cw_catalogue = catalogue, cw_mic = mic_settings_cell_new catalogue (cfg_mic cfg),
                    cw_inference = cfg_inference cfg\<rparr>, d')))"

end
