(* ===== verification/Config_Properties.thy ===== *)
theory Config_Properties
  imports Config_Store Staging_Properties "HOL-Library.Code_Target_Nat"
begin

text \<open>
  The configuration store: the snapshot, the live cells and the file agree through every sequence of requests,
  reloads and edits of the file by others; what each operation leaves behind on every path.
\<close>

section \<open>Frames\<close>

lemma config_same:
  assumes "disk.more w' = disk.more (w :: 'z config_world_scheme)"
  shows "cw_path w' = cw_path w" "cw_inner w' = cw_inner w" "cw_reload_count w' = cw_reload_count w"
    "cw_in_mutate w' = cw_in_mutate w" "cw_catalogue w' = cw_catalogue w" "cw_mic w' = cw_mic w"
    "cw_inference w' = cw_inference w"
  using assms by (cases w; cases w'; simp)+

lemma bind_ret: "bind_p (ret x) f = f x"
  by (simp add: bind_p_def ret_def fun_eq_iff)

text \<open>The states of a disk while a configuration is written over \<open>p\<close>.\<close>

definition config_states :: "toml_codec \<Rightarrow> path \<Rightarrow> config \<Rightarrow> fs \<Rightarrow> fs \<Rightarrow> bool" where
  "config_states tm p cfg t s \<longleftrightarrow>
     (\<forall>q. node_at s q = node_at t q \<or>
        q = p \<and> (\<exists>x. tm_to_string_pretty tm cfg = Ok x \<and> node_at s q = Some (FileNode (as_bytes x))) \<or>
        node_at t q = None \<and> (is_temp_in (butlast p) q \<or> prefix q (butlast p) \<and> node_at s q = Some DirNode))"

lemma config_states_refl [simp]: "config_states tm p cfg t t"
  by (simp add: config_states_def)

lemma mkdir_config_states:
  assumes "fs_create_dir_all (butlast p) t = Ok (x, ts)" and "s \<in> set ts"
  shows "config_states tm p cfg t s"
  using assms mkdir_steps_only [of s "prefixes (butlast p)" t]
  by (fastforce simp: config_states_def fs_create_dir_all_def in_set_prefixes split: if_splits)

lemma put_config_states:
  assumes "config_states tm p cfg t u" and "put_states p (as_bytes x) u s" and "tm_to_string_pretty tm cfg = Ok x"
  shows "config_states tm p cfg t s"
  unfolding config_states_def
proof (intro allI)
  fix q
  note u = assms(1) [unfolded config_states_def, rule_format, of q] and s = assms(2) [unfolded put_states_def, rule_format, of q]
  show "node_at s q = node_at t q \<or>
      q = p \<and> (\<exists>x. tm_to_string_pretty tm cfg = Ok x \<and> node_at s q = Some (FileNode (as_bytes x))) \<or>
      node_at t q = None \<and> (is_temp_in (butlast p) q \<or> prefix q (butlast p) \<and> node_at s q = Some DirNode)"
    using u s assms(3) by (elim disjE) auto
qed

lemma write_toml_spec:
  fixes w :: "'z disk_scheme"
  shows "run_ok (config_states tm p cfg (dk_fs w)) (write_toml_atomically tm p cfg) w
     (\<lambda>r w'. disk.more w' = disk.more w \<and>
        (r = Ok () \<longrightarrow> (\<exists>x. tm_to_string_pretty tm cfg = Ok x \<and> node_at (dk_fs w') p = Some (FileNode (as_bytes x)))))"
    (is "run_ok ?I _ w ?Q")
proof (cases "tm_to_string_pretty tm cfg")
  case (Inl e)
  then show ?thesis by (simp add: write_toml_atomically_def run_ok_fail)
next
  case (Inr x)
  let ?put = "map_err file_to_config_err (put_atomic p (as_bytes x)) :: ('z disk_scheme, config_error, unit) prog"
  have put: "run_ok ?I ?put v ?Q" if v: "disk.more v = disk.more w" "?I (dk_fs v)" for v
    by (rule run_ok_map_err, rule run_ok_weaken [OF put_atomic_spec])
      (use v Inr put_config_states [OF v(2) _ Inr] in \<open>auto split: sum.splits\<close>)
  have mk: "run_ok ?I (bind_p (map_err (ConfigWrite (butlast p)) (fs_call (fs_create_dir_all (butlast p)))) (\<lambda>_. ?put)) v ?Q"
    if v: "unchanged w v" for v
  proof (rule run_ok_seq_err)
    show "run_ok ?I (fs_call (fs_create_dir_all (butlast p))) v (\<lambda>r u. disk.more u = disk.more w \<and> ?I (dk_fs u))"
    proof (rule run_ok_weaken [OF call_spec])
      show "\<forall>s \<in> set ts. ?I s" if "fs_create_dir_all (butlast p) (dk_fs v) = Ok (y, ts)" for y ts
        using that v mkdir_config_states by (auto simp: unchanged_def)
      fix r u assume "passes ?I v u" "call_post (fs_create_dir_all (butlast p)) v r u"
      moreover have "?I (dk_fs v)" using v by (simp add: unchanged_def)
      ultimately show "disk.more u = disk.more w \<and> ?I (dk_fs u)"
        using v passes_final [of ?I v u] by (auto simp: call_post_def unchanged_def)
    qed
  qed (use put in auto)
  let ?mk = "\<lambda>b. if b then ret () else map_err (ConfigWrite (butlast p)) (fs_call (fs_create_dir_all (butlast p)))"
  have "run_ok ?I (bind_p (fs_test (fs_exists (butlast p))) (\<lambda>b. bind_p (?mk b) (\<lambda>_. ?put))) w ?Q"
  proof (rule run_ok_test)
    fix b v assume "unchanged w v"
    then show "run_ok ?I (bind_p (?mk b) (\<lambda>_. ?put)) v ?Q"
      using put [of v] mk [of v] by (cases b) (simp_all add: unchanged_def bind_ret)
  qed (use exists_pure in blast)
  then show ?thesis by (simp add: write_toml_atomically_def Inr Let_def)
qed

lemma write_toml_run:
  assumes "write_toml_atomically tm p cfg w = (r, w')"
  shows "disk.more w' = disk.more w" "passes (config_states tm p cfg (dk_fs w)) w w'"
    "r = Ok () \<Longrightarrow> \<exists>x. tm_to_string_pretty tm cfg = Ok x \<and> node_at (dk_fs w') p = Some (FileNode (as_bytes x))"
  using run_okD [OF write_toml_spec assms] by auto

section \<open>One committed mutation\<close>

text \<open>The file on disk as a configuration.\<close>

definition config_on_disk :: "toml_codec \<Rightarrow> path \<Rightarrow> fs \<Rightarrow> config option" where
  "config_on_disk tm p t =
     (case node_at t p of
        Some (FileNode b) \<Rightarrow>
          if utf8_check (bytes_text b) then (case tm_from_str tm (bytes_text b) of Inr c \<Rightarrow> Some c | Inl _ \<Rightarrow> None) else None
      | _ \<Rightarrow> None)"

lemma written_on_disk:
  assumes "toml_ok tm" and "tm_to_string_pretty tm cfg = Ok x" and "node_at t p = Some (FileNode (as_bytes x))"
  shows "config_on_disk tm p t = Some cfg"
  using assms by (auto simp: config_on_disk_def toml_ok_def)

lemma commit_config_run:
  assumes "commit_config tm cfg after w = (r, w')" and "toml_ok tm"
  shows "(\<exists>e. r = Err e \<and> disk.more w' = disk.more w \<and> passes (config_states tm (cw_path w) cfg (dk_fs w)) w w') \<or>
    (\<exists>v x. config_validate cfg = Ok () \<and> disk.more v = disk.more w \<and> passes (config_states tm (cw_path w) cfg (dk_fs w)) w v \<and>
       config_on_disk tm (cw_path w) (dk_fs v) = Some cfg \<and> r = Ok x \<and> after cfg (v\<lparr>cw_inner := cfg\<rparr>) = (x, w'))"
proof (cases "config_validate cfg")
  case (Inl e)
  then show ?thesis using assms(1) by (auto simp: commit_config_def check_config_def bind_p_def lift_result_def)
next
  case (Inr u)
  obtain rw v where write_run: "write_toml_atomically tm (cw_path w) cfg w = (rw, v)" by fastforce
  note facts = write_toml_run [OF write_run]
  show ?thesis
  proof (cases rw)
    case (Inl e)
    then show ?thesis using assms(1) Inr write_run facts
      by (auto simp: commit_config_def check_config_def bind_p_def lift_result_def)
  next
    case (Inr y)
    obtain x v' where after: "after cfg (v\<lparr>cw_inner := cfg\<rparr>) = (x, v')" by fastforce
    have "config_on_disk tm (cw_path w) (dk_fs v) = Some cfg"
      using facts(3) Inr written_on_disk [OF assms(2)] by auto
    then show ?thesis using assms(1) Inr \<open>config_validate cfg = Inr u\<close> write_run facts after
      by (auto simp: commit_config_def check_config_def bind_p_def lift_result_def)
  qed
qed

section \<open>The live cells agree with the snapshot\<close>

definition live_agrees :: "'z config_world_scheme \<Rightarrow> bool" where
  "live_agrees w \<longleftrightarrow>
     \<not> cw_in_mutate w \<and> config_validate (cw_inner w) = Ok () \<and>
     policy_validate_against (cfg_mic (cw_inner w)) (cw_catalogue w) = Ok () \<and>
     vs_snapshot (cw_mic w) = \<lparr>ms_catalogue = cw_catalogue w, ms_policy = cfg_mic (cw_inner w)\<rparr> \<and>
     cw_inference w = cfg_inference (cw_inner w)"

lemma swap_policy_eq:
  "swap_policy policy w =
     (wrapping_add64 (vs_counter (cw_mic w)) 1,
      w\<lparr>cw_mic := \<lparr>vs_inner = \<lparr>vd_version = wrapping_add64 (vs_counter (cw_mic w)) 1,
          vd_content = \<lparr>ms_catalogue = cw_catalogue w, ms_policy = policy\<rparr>\<rparr>,
        vs_counter = wrapping_add64 (vs_counter (cw_mic w)) 1\<rparr>\<rparr>)"
  by (simp add: swap_policy_def vs_try_mutate_def Let_def)

text \<open>What a request leaves behind: on an error memory is as before, on success the three places hold the new value.\<close>

definition memory_kept :: "'z config_world_scheme \<Rightarrow> 'z config_world_scheme \<Rightarrow> bool" where
  "memory_kept w w' \<longleftrightarrow>
     cw_path w' = cw_path w \<and> cw_inner w' = cw_inner w \<and> cw_in_mutate w' = cw_in_mutate w \<and> cw_catalogue w' = cw_catalogue w \<and>
     cw_mic w' = cw_mic w \<and> cw_inference w' = cw_inference w"

lemma memory_kept_refl [simp]: "memory_kept w w"
  by (simp add: memory_kept_def)

lemma memory_kept_more: "disk.more w' = disk.more w \<Longrightarrow> memory_kept w w'"
  using config_same [of w' w] by (simp add: memory_kept_def)

lemma memory_kept_agrees: "memory_kept w w' \<Longrightarrow> live_agrees w \<Longrightarrow> live_agrees w'"
  by (simp add: memory_kept_def live_agrees_def)

lemma passes_flag [simp]:
  "passes I (w\<lparr>cw_in_mutate := b\<rparr>) v \<longleftrightarrow> passes I w v" "passes I w (v\<lparr>cw_in_mutate := b\<rparr>) \<longleftrightarrow> passes I w v"
  "passes I w (v\<lparr>cw_inner := c\<rparr>) \<longleftrightarrow> passes I w v" "passes I w (u\<lparr>cw_mic := m\<rparr>) \<longleftrightarrow> passes I w u"
  "passes I w (u\<lparr>cw_inference := f\<rparr>) \<longleftrightarrow> passes I w u"
  by (simp_all add: passes_def)

definition policy_set :: "toml_codec \<Rightarrow> mic_policy \<Rightarrow> nat \<Rightarrow> 'z config_world_scheme \<Rightarrow> 'z config_world_scheme \<Rightarrow> bool" where
  "policy_set tm policy v w w' \<longleftrightarrow>
     policy_validate_against policy (cw_catalogue w) = Ok () \<and> config_validate (cw_inner w') = Ok () \<and>
     cw_inner w' = (cw_inner w)\<lparr>cfg_mic := policy\<rparr> \<and> cw_inference w' = cw_inference w \<and> cw_catalogue w' = cw_catalogue w \<and>
     cw_path w' = cw_path w \<and> \<not> cw_in_mutate w' \<and>
     vs_snapshot (cw_mic w') = \<lparr>ms_catalogue = cw_catalogue w, ms_policy = policy\<rparr> \<and>
     vs_version (cw_mic w') = v \<and> v = wrapping_add64 (vs_counter (cw_mic w)) 1 \<and>
     config_on_disk tm (cw_path w) (dk_fs w') = Some (cw_inner w')"

lemma mutate_then_free:
  assumes "\<not> cw_in_mutate w" and "mutator (cw_inner w) = (cfg, x)"
    and "commit_config tm cfg after (w\<lparr>cw_in_mutate := True\<rparr>) = (r, v)"
  shows "mutate_then tm mutator after w = (case r of Inl e \<Rightarrow> Err e | Inr y \<Rightarrow> Ok (x, y), v\<lparr>cw_in_mutate := False\<rparr>)"
  using assms by (auto simp: mutate_then_def bind_p_def enter_mutate_def reset_on_drop_def config_snapshot_def ret_def split: sum.splits)

lemma try_set_policy_run:
  fixes w :: "'z config_world_scheme"
  assumes "try_set_policy tm policy w = (r, w')" and "toml_ok tm" and "\<not> cw_in_mutate w"
  shows "((\<exists>e. r = Err e) \<and> memory_kept w w' \<or> (\<exists>v. r = Ok v \<and> policy_set tm policy v w w')) \<and>
    passes (config_states tm (cw_path w) ((cw_inner w)\<lparr>cfg_mic := policy\<rparr>) (dk_fs w)) w w'"
proof (cases "policy_validate_against policy (cw_catalogue w)")
  case (Inl e)
  then show ?thesis using assms(1) by (auto simp: try_set_policy_def validate_policy_against_catalogue_def)
next
  case (Inr u)
  let ?cfg = "(cw_inner w)\<lparr>cfg_mic := policy\<rparr>" and ?w = "w\<lparr>cw_in_mutate := True\<rparr>"
  obtain rc v where commit: "commit_config tm ?cfg (\<lambda>_. swap_policy policy) ?w = (rc, v)" by fastforce
  have w': "r = (case rc of Inl e \<Rightarrow> Err (PolicyPersist e) | Inr y \<Rightarrow> Ok y)" "w' = v\<lparr>cw_in_mutate := False\<rparr>"
    using assms(1) Inr mutate_then_free [OF assms(3) _ commit, of "\<lambda>c. (c\<lparr>cfg_mic := policy\<rparr>, ())" "()"]
    by (auto simp: try_set_policy_def validate_policy_against_catalogue_def bind_p_def map_err_def ret_def split: sum.splits)
  from commit_config_run [OF commit assms(2)] show ?thesis
  proof (elim disjE exE conjE)
    fix e assume "rc = Err e" "disk.more v = disk.more ?w" "passes (config_states tm (cw_path ?w) ?cfg (dk_fs ?w)) ?w v"
    then show ?thesis using w' config_same [of v ?w] assms(3) by (simp add: memory_kept_def)
  next
    fix u x assume a: "config_validate ?cfg = Ok ()" "disk.more u = disk.more ?w" "passes (config_states tm (cw_path ?w) ?cfg (dk_fs ?w)) ?w u"
      "config_on_disk tm (cw_path ?w) (dk_fs u) = Some ?cfg" "rc = Ok x" "swap_policy policy (u\<lparr>cw_inner := ?cfg\<rparr>) = (x, v)"
    then show ?thesis using w' config_same [of u ?w] Inr
      by (auto simp: swap_policy_eq policy_set_def vs_snapshot_def vs_version_def)
  qed
qed

definition inference_set :: "toml_codec \<Rightarrow> inference_cfg \<Rightarrow> 'z config_world_scheme \<Rightarrow> 'z config_world_scheme \<Rightarrow> bool" where
  "inference_set tm next w w' \<longleftrightarrow>
     config_validate (cw_inner w') = Ok () \<and> cw_inner w' = (cw_inner w)\<lparr>cfg_inference := next\<rparr> \<and> cw_inference w' = next \<and>
     cw_mic w' = cw_mic w \<and> cw_catalogue w' = cw_catalogue w \<and> cw_path w' = cw_path w \<and> \<not> cw_in_mutate w' \<and>
     config_on_disk tm (cw_path w) (dk_fs w') = Some (cw_inner w')"

definition merged :: "nat option \<Rightarrow> nat option \<Rightarrow> inference_cfg \<Rightarrow> inference_cfg" where
  "merged hop top_k c =
     \<lparr>ic_hop_samples = (case hop of Some h \<Rightarrow> h | None \<Rightarrow> ic_hop_samples c),
      ic_top_k = (case top_k of Some k \<Rightarrow> k | None \<Rightarrow> ic_top_k c)\<rparr>"

lemma post_inference_run:
  fixes w :: "'z config_world_scheme"
  assumes "post_inference tm hop top_k w = (r, w')" and "toml_ok tm" and "\<not> cw_in_mutate w"
  shows "((\<exists>e. r = Err e) \<and> memory_kept w w' \<or>
      (\<exists>next. r = Ok next \<and> next = merged hop top_k (cfg_inference (cw_inner w)) \<and> inference_set tm next w w')) \<and>
    passes (config_states tm (cw_path w) ((cw_inner w)\<lparr>cfg_inference := merged hop top_k (cfg_inference (cw_inner w))\<rparr>) (dk_fs w)) w w'"
proof (cases "inference_cfg_validate (merged hop top_k (cw_inference w))")
  case (Inl e)
  then show ?thesis using assms(1) by (auto simp: post_inference_def merged_def)
next
  case (Inr u)
  let ?next = "merged hop top_k (cfg_inference (cw_inner w))"
  let ?cfg = "(cw_inner w)\<lparr>cfg_inference := ?next\<rparr>" and ?w = "w\<lparr>cw_in_mutate := True\<rparr>"
  obtain rc v where commit: "commit_config tm ?cfg (\<lambda>c. store_inference (cfg_inference c)) ?w = (rc, v)" by fastforce
  have w': "r = (case rc of Inl e \<Rightarrow> Err (ApiConfig e) | Inr y \<Rightarrow> Ok ?next)" "w' = v\<lparr>cw_in_mutate := False\<rparr>"
    using assms(1,3) Inr commit
    by (auto simp: post_inference_def merged_def [symmetric] open_mutation_def enter_mutate_def guard_commit_def reset_on_drop_def
        config_snapshot_def bind_p_def map_err_def ret_def Let_def split: sum.splits)
  from commit_config_run [OF commit assms(2)] show ?thesis
  proof (elim disjE exE conjE)
    fix e assume "rc = Err e" "disk.more v = disk.more ?w" "passes (config_states tm (cw_path ?w) ?cfg (dk_fs ?w)) ?w v"
    then show ?thesis using w' config_same [of v ?w] assms(3) by (simp add: memory_kept_def)
  next
    fix u x assume a: "config_validate ?cfg = Ok ()" "disk.more u = disk.more ?w" "passes (config_states tm (cw_path ?w) ?cfg (dk_fs ?w)) ?w u"
      "config_on_disk tm (cw_path ?w) (dk_fs u) = Some ?cfg" "rc = Ok x" "store_inference (cfg_inference ?cfg) (u\<lparr>cw_inner := ?cfg\<rparr>) = (x, v)"
    then show ?thesis using w' config_same [of u ?w] by (auto simp: store_inference_def inference_set_def)
  qed
qed

section \<open>Reloading\<close>

lemma read_to_string_run:
  assumes "fs_read_to_string p w = (r, w1)"
  shows "disk.more w1 = disk.more w" "dk_fs w1 = dk_fs w"
    "r = Ok doc \<Longrightarrow> config_on_disk tm p (dk_fs w) = (case tm_from_str tm doc of Inr c \<Rightarrow> Some c | Inl _ \<Rightarrow> None)"
    "\<not> faulty w \<Longrightarrow> config_on_disk tm p (dk_fs w) \<noteq> None \<Longrightarrow> \<exists>doc. r = Ok doc"
proof -
  have run: "run_ok (\<lambda>_. True) (fs_read_to_string p) w (\<lambda>r w1. disk.more w1 = disk.more w \<and> dk_fs w1 = dk_fs w \<and>
      (\<forall>doc. r = Ok doc \<longrightarrow> (\<exists>b. node_at (dk_fs w) p = Some (FileNode b) \<and> doc = bytes_text b \<and> utf8_check doc)) \<and>
      (\<not> faulty w \<longrightarrow> (\<forall>b. node_at (dk_fs w) p = Some (FileNode b) \<longrightarrow> utf8_check (bytes_text b) \<longrightarrow> (\<exists>doc. r = Ok doc))))"
    unfolding fs_read_to_string_def
    by (rule run_ok_seq [OF call_spec])
      (auto simp: call_post_def fs_read_def faulty_def intro!: run_ok_ret run_ok_fail split: option.splits node.splits)
  note facts = run_okD(2) [OF run assms]
  show "disk.more w1 = disk.more w" "dk_fs w1 = dk_fs w" using facts by auto
  show "config_on_disk tm p (dk_fs w) = (case tm_from_str tm doc of Inr c \<Rightarrow> Some c | Inl _ \<Rightarrow> None)" if "r = Ok doc"
    using facts that by (auto simp: config_on_disk_def)
  show "\<exists>doc. r = Ok doc" if "\<not> faulty w" "config_on_disk tm p (dk_fs w) \<noteq> None"
    using facts that by (auto simp: config_on_disk_def split: option.splits node.splits if_splits)
qed

definition reloaded :: "config \<Rightarrow> 'z config_world_scheme \<Rightarrow> 'z config_world_scheme \<Rightarrow> bool" where
  "reloaded cfg w w' \<longleftrightarrow>
     config_validate cfg = Ok () \<and> policy_validate_against (cfg_mic cfg) (cw_catalogue w) = Ok () \<and>
     cw_inner w' = cfg \<and> cw_inference w' = cfg_inference cfg \<and> cw_catalogue w' = cw_catalogue w \<and> cw_path w' = cw_path w \<and>
     cw_in_mutate w' = cw_in_mutate w \<and> vs_snapshot (cw_mic w') = \<lparr>ms_catalogue = cw_catalogue w, ms_policy = cfg_mic cfg\<rparr>"

lemma reload_callback_run:
  "policy_validate_against (cfg_mic cfg) (cw_catalogue w) = Err e \<Longrightarrow>
     \<exists>d. reload_callback False cfg w = (Done (Err d), w)"
  "policy_validate_against (cfg_mic cfg) (cw_catalogue w) = Ok u \<Longrightarrow>
     reload_callback False cfg w = (Done (Ok ()), (snd (swap_policy (cfg_mic cfg) w))\<lparr>cw_inference := cfg_inference cfg\<rparr>)"
  by (simp_all add: reload_callback_def try_set_policy_no_persist_def validate_policy_against_catalogue_def
      swap_policy_eq store_inference_def)

lemma try_reload_run:
  fixes w :: "'z config_world_scheme"
  assumes "w' = try_reload tm (reload_callback False) w"
  shows "dk_fs w' = dk_fs w"
    "memory_kept w w' \<or> (\<exists>cfg. config_on_disk tm (cw_path w) (dk_fs w) = Some cfg \<and> reloaded cfg w w')"
    "\<not> faulty w \<Longrightarrow> live_agrees w \<Longrightarrow> config_on_disk tm (cw_path w) (dk_fs w) = Some cfg \<Longrightarrow> config_validate cfg = Ok () \<Longrightarrow>
       policy_validate_against (cfg_mic cfg) (cw_catalogue w) = Ok () \<Longrightarrow> reloaded cfg w w'"
    "config_on_disk tm (cw_path w) (dk_fs w) = Some cfg \<Longrightarrow> policy_validate_against (cfg_mic cfg) (cw_catalogue w) = Err e \<Longrightarrow>
       memory_kept w w'"
proof -
  obtain r w1 where rd: "fs_read_to_string (cw_path w) w = (r, w1)" by fastforce
  note facts = read_to_string_run [OF rd]
  note same = config_same [OF facts(1)]
  have kept: "memory_kept w w1" using memory_kept_more facts(1) by blast
  let ?P = "\<lambda>c. policy_validate_against (cfg_mic c) (cw_catalogue w)"
  have cases: "dk_fs w' = dk_fs w \<and>
     ((memory_kept w w' \<and> (\<forall>c. r = Ok doc \<and> tm_from_str tm doc = Ok c \<longrightarrow> isl (config_validate c) \<or> isl (?P c) \<or> cw_inner w = c)) \<or>
      (\<exists>c. r = Ok doc \<and> tm_from_str tm doc = Ok c \<and> reloaded c w w'))" if "r = Inl x \<or> r = Ok doc" for x doc
  proof (cases r)
    case (Inl e)
    then show ?thesis using assms rd kept facts(2) by (simp add: try_reload_def)
  next
    case (Inr t)
    with that have t: "t = doc" by auto
    show ?thesis
    proof (cases "tm_from_str tm doc")
      case (Inl e)
      then show ?thesis using assms rd kept facts(2) Inr t by (simp add: try_reload_def)
    next
      case parsed: (Inr c)
      show ?thesis
      proof (cases "isl (config_validate c) \<or> cw_inner w = c")
        case True
        then show ?thesis using assms rd kept facts(2) Inr t parsed same by (auto simp: try_reload_def isl_def split: sum.splits)
      next
        case False
        then have valid: "config_validate c = Ok ()" and new: "cw_inner w \<noteq> c" by (auto simp: isl_def) (metis obj_sumE old.unit.exhaust)
        show ?thesis
        proof (cases "?P c")
          case (Inl e)
          then obtain d where "reload_callback False c w1 = (Done (Err d), w1)" using reload_callback_run(1) same by metis
          then show ?thesis using assms rd kept facts(2) Inr t parsed same valid new Inl by (auto simp: try_reload_def isl_def)
        next
          case accepted: (Inr u)
          then have "reload_callback False c w1 = (Done (Ok ()), (snd (swap_policy (cfg_mic c) w1))\<lparr>cw_inference := cfg_inference c\<rparr>)"
            using reload_callback_run(2) same by metis
          then show ?thesis using assms rd facts(2) Inr t parsed same valid new accepted
            by (auto simp: try_reload_def swap_policy_eq reloaded_def vs_snapshot_def)
        qed
      qed
    qed
  qed
  have some: "\<exists>x doc. r = Inl x \<or> r = Ok doc" by (cases r) auto
  then show "dk_fs w' = dk_fs w" using cases by blast
  show "memory_kept w w' \<or> (\<exists>cfg. config_on_disk tm (cw_path w) (dk_fs w) = Some cfg \<and> reloaded cfg w w')"
  proof -
    obtain x doc where "r = Inl x \<or> r = Ok doc" using some by blast
    from cases [OF this] facts(3) [of doc] show ?thesis by auto
  qed
  show "reloaded cfg w w'" if a: "\<not> faulty w" "live_agrees w" "config_on_disk tm (cw_path w) (dk_fs w) = Some cfg" "config_validate cfg = Ok ()" "?P cfg = Ok ()"
  proof -
    obtain doc where doc: "r = Ok doc" using facts(4) a(1,3) by blast
    then have "tm_from_str tm doc = Ok cfg" using facts(3) a(3) by (auto split: sum.splits)
    then show ?thesis using cases [of undefined doc] doc a by (auto simp: reloaded_def memory_kept_def live_agrees_def)
  qed
  show "memory_kept w w'" if a: "config_on_disk tm (cw_path w) (dk_fs w) = Some cfg" "?P cfg = Err e"
  proof -
    obtain x doc where "r = Inl x \<or> r = Ok doc" using some by blast
    from cases [OF this] facts(3) [of doc] a show ?thesis by (auto simp: reloaded_def)
  qed
qed

lemma reloaded_agrees: "reloaded cfg w w' \<Longrightarrow> \<not> cw_in_mutate w \<Longrightarrow> live_agrees w'"
  by (simp add: reloaded_def live_agrees_def)

section \<open>All histories\<close>

text \<open>
  What can happen to the store while the daemon runs: a request for another policy or cadence, a reload, and
  anything at all on the disk, such as an operator's edit of the file.
\<close>

inductive config_step :: "toml_codec \<Rightarrow> config_world \<Rightarrow> config_world \<Rightarrow> bool" for tm where
  sets_policy: "try_set_policy tm policy w = (r, w') \<Longrightarrow> config_step tm w w'"
| sets_inference: "post_inference tm hop top_k w = (r, w') \<Longrightarrow> config_step tm w w'"
| reloads: "w' = try_reload tm (reload_callback False) w \<Longrightarrow> config_step tm w w'"
| edits: "disk.more w' = disk.more w \<Longrightarrow> config_step tm w w'"

lemma config_step_agrees:
  assumes "config_step tm w w'" and "toml_ok tm" and "live_agrees w"
  shows "live_agrees w' \<and> cw_catalogue w' = cw_catalogue w \<and> cw_path w' = cw_path w"
  using assms(1)
proof cases
  case (sets_policy policy r)
  from try_set_policy_run [OF this assms(2)] assms(3) show ?thesis
    by (auto simp: live_agrees_def memory_kept_def policy_set_def)
next
  case (sets_inference hop top_k r)
  from post_inference_run [OF this assms(2)] assms(3) show ?thesis
    by (auto simp: live_agrees_def memory_kept_def inference_set_def)
next
  case reloads
  from try_reload_run(2) [OF this] assms(3) show ?thesis
    by (auto simp: live_agrees_def memory_kept_def reloaded_def)
next
  case edits
  from config_same [OF this] assms(3) show ?thesis by (simp add: live_agrees_def)
qed

lemma config_steps_agree:
  assumes "(config_step tm)\<^sup>*\<^sup>* w w'" and "toml_ok tm" and "live_agrees w"
  shows "live_agrees w' \<and> cw_catalogue w' = cw_catalogue w \<and> cw_path w' = cw_path w"
  using assms(1)
proof induction
  case base
  then show ?case using assms(3) by simp
next
  case (step y z)
  then show ?case using config_step_agrees [OF _ assms(2), of y z] by simp
qed

lemma default_valid: "config_validate config_default_for = Ok ()"
  by (simp add: config_validate_def config_default_for_def inference_cfg_default_def inference_cfg_validate_def
      min_hop_samples_def max_hop_samples_def max_top_k_def sample_rate_hz_def)

lemma bind_p_OkE:
  assumes "bind_p m f w = (Ok x, w')"
  obtains y v where "m w = (Ok y, v)" "f y v = (Ok x, w')"
  using assms by (auto simp: bind_p_def split: prod.splits sum.splits)

lemma checked_valid: "bind_p (lift_result (check_config p cfg)) f w = (Ok x, w') \<Longrightarrow> config_validate cfg = Ok () \<and> f () w = (Ok x, w')"
  by (auto simp: bind_p_def lift_result_def check_config_def split: sum.splits)

lemma config_load_valid: "config_load tm p d = (Ok cfg, d1) \<Longrightarrow> config_validate cfg = Ok ()"
  unfolding config_load_def by (auto elim!: bind_p_OkE dest!: checked_valid simp: ret_def)

lemma load_or_init_valid: "load_or_init_config tm p d = (Ok cfg, d1) \<Longrightarrow> config_validate cfg = Ok ()"
  unfolding load_or_init_config_def config_from_value_def
  by (elim bind_p_OkE) (auto split: if_splits elim!: bind_p_OkE dest!: checked_valid config_load_valid simp: ret_def)

lemma boot_agrees:
  assumes "boot_config tm catalogue p d = (Ok w, d')"
  shows "live_agrees w \<and> cw_catalogue w = catalogue \<and> cw_path w = p"
proof -
  obtain r d1 where load: "load_or_init_config tm p d = (r, d1)" by fastforce
  then have "\<And>cfg. r = Ok cfg \<Longrightarrow> config_validate cfg = Ok ()" using load_or_init_valid by blast
  then show ?thesis using assms load
    by (auto simp: boot_config_def live_agrees_def validate_policy_against_catalogue_def mic_settings_cell_new_def vs_new_def
        vs_snapshot_def split: sum.splits)
qed

section \<open>A concrete store\<close>

definition demo_config :: config where
  "demo_config = \<lparr>cfg_mic = mic_policy_default, cfg_inference = \<lparr>ic_hop_samples = 22050, ic_top_k = 3\<rparr>\<rparr>"

definition demo_fixed :: mic_policy where
  "demo_fixed = \<lparr>mp_mic = FixedMic (MicId ''a''), mp_channel = AutoChannel\<rparr>"

definition demo_other :: config where
  "demo_other = \<lparr>cfg_mic = \<lparr>mp_mic = FixedMic (MicId ''b''), mp_channel = AutoChannel\<rparr>, cfg_inference = \<lparr>ic_hop_samples = 44100, ic_top_k = 3\<rparr>\<rparr>"

text \<open>A codec that knows three configurations, one text each.\<close>

definition demo_book :: "(config \<times> string) list" where
  "demo_book = [(demo_config, ''0''), (demo_config\<lparr>cfg_mic := demo_fixed\<rparr>, ''1''), (demo_other, ''2'')]"

definition demo_toml :: toml_codec where
  "demo_toml =
     \<lparr>tm_to_string_pretty = (\<lambda>c. case map_of demo_book c of Some s \<Rightarrow> Ok s | None \<Rightarrow> Err ''unknown''),
      tm_from_str = (\<lambda>s. case find (\<lambda>(_, t). t = s) demo_book of Some (c, _) \<Rightarrow> Ok c | None \<Rightarrow> Err ''unknown'')\<rparr>"

definition demo_catalogue :: mic_catalogue where
  "demo_catalogue = \<lparr>cat_candidates = [\<lparr>mc_id = MicId ''a'', mc_source = AlsaSpec ''hw'' 1 2, mc_channels = [0]\<rparr>]\<rparr>"

definition demo_config_disk :: "string \<Rightarrow> (nat \<Rightarrow> bool) \<Rightarrow> disk" where
  "demo_config_disk s bad =
     \<lparr>dk_fs = [([], DirNode), ([''c''], FileNode (as_bytes s))], dk_trace = [], dk_clock = 0,
      dk_fault = (\<lambda>n. if bad n then Some (IoOther 5, 0) else None), dk_rand = (\<lambda>_. ''r'')\<rparr>"

definition demo_store :: "(nat \<Rightarrow> bool) \<Rightarrow> config_world" where
  "demo_store bad = projr (fst (boot_config demo_toml demo_catalogue [''c''] (demo_config_disk ''0'' bad)))"

lemma demo_toml_ok: "toml_ok demo_toml"
proof -
  have "utf8_check s \<and> tm_from_str demo_toml s = Ok c" if "(c, s) \<in> set demo_book" for c s
  proof -
    have "\<forall>(c, s) \<in> set demo_book. utf8_check s \<and> tm_from_str demo_toml s = Ok c" by code_simp
    then show ?thesis using that by blast
  qed
  moreover have "(c, s) \<in> set demo_book" if "tm_to_string_pretty demo_toml c = Ok s" for c s
    using that by (auto simp: demo_toml_def split: option.splits dest: map_of_SomeD)
  ultimately show ?thesis unfolding toml_ok_def by blast
qed

lemma demo_boot: "boot_config demo_toml demo_catalogue [''c''] (demo_config_disk ''0'' (\<lambda>_. False)) =
    (Ok (demo_store (\<lambda>_. False)), snd (boot_config demo_toml demo_catalogue [''c''] (demo_config_disk ''0'' (\<lambda>_. False))))"
proof -
  have "\<not> isl (fst (boot_config demo_toml demo_catalogue [''c''] (demo_config_disk ''0'' (\<lambda>_. False))))" by code_simp
  then show ?thesis by (simp add: demo_store_def prod_eq_iff)
qed

section \<open>Properties\<close>

text \<open>
  C9. From a successful boot, through every sequence of policy and cadence requests, reloads and edits of the file by
  others, with any file-system failures: the snapshot is valid, its policy fits the catalogue, and the two live
  cells hold exactly the policy and the cadence of the snapshot.
\<close>

theorem config_live_agrees:
  assumes "toml_ok tm" and "boot_config tm catalogue p d = (Ok w0, d')" and "(config_step tm)\<^sup>*\<^sup>* w0 w"
  shows "inference_cfg_validate (cfg_inference (config_snapshot w)) = Ok () \<and>
    policy_validate_against (cfg_mic (config_snapshot w)) catalogue = Ok () \<and>
    vs_snapshot (cw_mic w) = \<lparr>ms_catalogue = catalogue, ms_policy = cfg_mic (config_snapshot w)\<rparr> \<and>
    cw_inference w = cfg_inference (config_snapshot w)"
  using config_steps_agree [OF assms(3,1)] boot_agrees [OF assms(2)]
  by (auto simp: live_agrees_def config_snapshot_def config_validate_def split: sum.splits)

theorem config_live_agrees_witness:
  "cw_inference (snd (try_set_policy demo_toml demo_fixed (demo_store (\<lambda>_. False)))) = \<lparr>ic_hop_samples = 22050, ic_top_k = 3\<rparr> \<and>
   vs_snapshot (cw_mic (snd (try_set_policy demo_toml demo_fixed (demo_store (\<lambda>_. False))))) =
     \<lparr>ms_catalogue = demo_catalogue, ms_policy = demo_fixed\<rparr>"
proof -
  let ?w = "demo_store (\<lambda>_. False)" and ?w' = "snd (try_set_policy demo_toml demo_fixed (demo_store (\<lambda>_. False)))"
  have "config_step demo_toml ?w ?w'" by (rule sets_policy [OF surjective_pairing])
  then have "(config_step demo_toml)\<^sup>*\<^sup>* ?w ?w'" by blast
  from config_live_agrees [OF demo_toml_ok demo_boot this]
  have "cw_inference ?w' = cfg_inference (config_snapshot ?w') \<and>
      vs_snapshot (cw_mic ?w') = \<lparr>ms_catalogue = demo_catalogue, ms_policy = cfg_mic (config_snapshot ?w')\<rparr>" by blast
  moreover have "config_snapshot ?w' = demo_config\<lparr>cfg_mic := demo_fixed\<rparr>" by code_simp
  ultimately show ?thesis by (simp add: demo_config_def)
qed

text \<open>
  C17. A policy request: at every state on disk the file holds its old bytes or the complete new configuration and
  nothing else changes but temporary files and missing parent directories; on success the file, the snapshot and
  the live cell hold the new policy under the returned version; on an error memory is unchanged.
\<close>

theorem set_policy_outcome:
  assumes "toml_ok tm" and "boot_config tm catalogue p d = (Ok w0, d')" and "(config_step tm)\<^sup>*\<^sup>* w0 w"
    and "try_set_policy tm policy w = (r, w')"
  shows "(\<exists>ts. dk_trace w' = dk_trace w @ ts \<and> list_all (config_states tm p ((cw_inner w)\<lparr>cfg_mic := policy\<rparr>) (dk_fs w)) ts) \<and>
    (case r of Inl e \<Rightarrow> memory_kept w w' | Inr v \<Rightarrow> policy_set tm policy v w w')"
proof -
  have agree: "\<not> cw_in_mutate w" "cw_path w = p"
    using config_steps_agree [OF assms(3,1)] boot_agrees [OF assms(2)] by (auto simp: live_agrees_def)
  show ?thesis
    using try_set_policy_run [OF assms(4,1) agree(1)] agree(2) by (auto simp: passes_def list_all_iff split: sum.splits)
qed

theorem set_policy_outcome_witness:
  "config_on_disk demo_toml [''c''] (dk_fs (snd (try_set_policy demo_toml demo_fixed (demo_store (\<lambda>_. False))))) =
     Some (demo_config\<lparr>cfg_mic := demo_fixed\<rparr>)"
proof -
  let ?w = "demo_store (\<lambda>_. False)"
  have run: "try_set_policy demo_toml demo_fixed ?w = (Ok 1, snd (try_set_policy demo_toml demo_fixed ?w))"
  proof -
    have "fst (try_set_policy demo_toml demo_fixed ?w) = Ok 1" by code_simp
    then show ?thesis by (metis prod.collapse)
  qed
  from set_policy_outcome [OF demo_toml_ok demo_boot rtranclp.rtrancl_refl run]
  have "policy_set demo_toml demo_fixed 1 ?w (snd (try_set_policy demo_toml demo_fixed ?w))" by simp
  moreover have "cw_inner ?w = demo_config" "cw_path ?w = [''c'']" by code_simp+
  ultimately show ?thesis by (simp add: policy_set_def)
qed

text \<open>
  C18. Whatever happened before, one reload without a failing call brings the snapshot and both live cells to the
  configuration in the file when that is valid and its policy fits the catalogue.
\<close>

theorem reload_converges:
  assumes "toml_ok tm" and "boot_config tm catalogue p d = (Ok w0, d')" and "(config_step tm)\<^sup>*\<^sup>* w0 w" and "\<not> faulty w"
    and "config_on_disk tm p (dk_fs w) = Some cfg" and "config_validate cfg = Ok ()"
    and "policy_validate_against (cfg_mic cfg) catalogue = Ok ()"
    and "w' = debounce_reload_worker (try_reload tm (reload_callback False)) True [QuietWindow] w"
  shows "config_snapshot w' = cfg \<and> cw_inference w' = cfg_inference cfg \<and> ms_policy (vs_snapshot (cw_mic w')) = cfg_mic cfg \<and>
    dk_fs w' = dk_fs w"
proof -
  have agree: "live_agrees w" "cw_path w = p" "cw_catalogue w = catalogue"
    using config_steps_agree [OF assms(3,1)] boot_agrees [OF assms(2)] by auto
  have w': "w' = try_reload tm (reload_callback False) w" using assms(8) by simp
  from try_reload_run(3) [OF w' assms(4) agree(1)] agree assms(5-7) have "reloaded cfg w w'" by simp
  then show ?thesis using try_reload_run(1) [OF w'] by (simp add: reloaded_def config_snapshot_def)
qed

abbreviation demo_edited :: "string \<Rightarrow> config_world" where
  "demo_edited s \<equiv> (demo_store (\<lambda>_. False))\<lparr>dk_fs := [([], DirNode), ([''c''], FileNode (as_bytes s))]\<rparr>"

lemma demo_edit: "(config_step demo_toml)\<^sup>*\<^sup>* (demo_store (\<lambda>_. False)) (demo_edited s)" "\<not> faulty (demo_edited s)"
proof -
  have "config_step demo_toml (demo_store (\<lambda>_. False)) (demo_edited s)" by (rule edits) simp
  then show "(config_step demo_toml)\<^sup>*\<^sup>* (demo_store (\<lambda>_. False)) (demo_edited s)" by blast
  have "dk_fault (demo_store (\<lambda>_. False)) i = None" for i by code_simp
  then show "\<not> faulty (demo_edited s)" by (simp add: faulty_def)
qed

theorem reload_converges_witness:
  "config_snapshot (debounce_reload_worker (try_reload demo_toml (reload_callback False)) True [QuietWindow] (demo_edited ''1'')) =
     demo_config\<lparr>cfg_mic := demo_fixed\<rparr>"
proof -
  let ?c = "demo_config\<lparr>cfg_mic := demo_fixed\<rparr>"
  have "config_on_disk demo_toml [''c''] (dk_fs (demo_edited ''1'')) = Some ?c" "config_validate ?c = Ok ()"
    "policy_validate_against (cfg_mic ?c) demo_catalogue = Ok ()" by code_simp+
  from reload_converges [OF demo_toml_ok demo_boot demo_edit this refl] show ?thesis by blast
qed

text \<open>
  A file whose policy does not fit the catalogue is not applied at all: the cadence in the same file does not
  take effect either.
\<close>

lemma rejected_policy_discards_reload:
  assumes "config_on_disk tm (cw_path w) (dk_fs w) = Some cfg" and "policy_validate_against (cfg_mic cfg) (cw_catalogue w) = Err e"
  shows "memory_kept w (try_reload tm (reload_callback False) w)"
  by (rule try_reload_run(4) [OF refl assms])

text \<open>
  C39. A policy request can answer with an error although the file already holds the new configuration: the sync of the
  directory fails after the rename.  Memory keeps the old policy.
\<close>

theorem failed_policy_request_changes_file:
  "\<exists>w :: config_world. \<exists>e w'. try_set_policy demo_toml demo_fixed w = (Err e, w') \<and> memory_kept w w' \<and>
     config_on_disk demo_toml [''c''] (dk_fs w) = Some demo_config \<and>
     config_on_disk demo_toml [''c''] (dk_fs w') = Some (demo_config\<lparr>cfg_mic := demo_fixed\<rparr>)"
proof -
  let ?w = "demo_store (\<lambda>n. n = 9)"
  let ?run = "try_set_policy demo_toml demo_fixed ?w"
  have "isl (fst ?run)" by code_simp
  then obtain e where run: "?run = (Err e, snd ?run)" by (cases ?run) (auto simp: isl_def)
  have "\<not> cw_in_mutate ?w" by code_simp
  from try_set_policy_run [OF run demo_toml_ok this] have "memory_kept ?w (snd ?run)" by auto
  moreover have "config_on_disk demo_toml [''c''] (dk_fs ?w) = Some demo_config"
    "config_on_disk demo_toml [''c''] (dk_fs (snd ?run)) = Some (demo_config\<lparr>cfg_mic := demo_fixed\<rparr>)" by code_simp+
  ultimately show ?thesis using run by blast
qed

end
