(* ===== verification/Requests.thy ===== *)
theory Requests
  imports Asset_Path Mic_Arbitrator Active_Head
begin

text \<open>
  \<^verbatim>\<open>file_mgr/request_payload.rs\<close>: the bodies of the train and convert requests and their validators.  Floating-point
  fields are \<open>f32\<close> bit patterns.  The JSON encoder is an argument.
\<close>

section \<open>Training\<close>

record training_cfg =
  tc_epochs :: nat
  tc_batch_size :: nat
  tc_learning_rate :: u32
  tc_seed :: "nat option"
  tc_validation_split :: u32

definition min_epochs :: nat where "min_epochs = 1"
definition max_epochs :: nat where "max_epochs = 1000"
definition min_batch_size :: nat where "min_batch_size = 1"
definition max_batch_size :: nat where "max_batch_size = 4096"
definition max_learning_rate :: u32 where "max_learning_rate = f32_one"
definition max_convert_shards :: nat where "max_convert_shards = 64"

datatype validation_error =
    EpochsOutOfRange nat nat nat
  | BatchSizeOutOfRange nat nat nat
  | LearningRateOutOfRange u32 u32
  | ValidationSplitOutOfRange u32
  | NoShards
  | TooManyShards nat nat

definition validation_error_kind :: "validation_error \<Rightarrow> error_kind" where
  "validation_error_kind e = UserInput"

definition validate_training_cfg :: "training_cfg \<Rightarrow> (validation_error, unit) result" where
  "validate_training_cfg cfg =
     (if \<not> (min_epochs \<le> tc_epochs cfg \<and> tc_epochs cfg \<le> max_epochs)
      then Err (EpochsOutOfRange (tc_epochs cfg) min_epochs max_epochs)
      else if \<not> (min_batch_size \<le> tc_batch_size cfg \<and> tc_batch_size cfg \<le> max_batch_size)
      then Err (BatchSizeOutOfRange (tc_batch_size cfg) min_batch_size max_batch_size)
      else if \<not> f32_is_finite (tc_learning_rate cfg) \<or> f32_ge 0 (tc_learning_rate cfg) \<or> f32_gt (tc_learning_rate cfg) max_learning_rate
      then Err (LearningRateOutOfRange (tc_learning_rate cfg) max_learning_rate)
      else if \<not> (f32_ge (tc_validation_split cfg) 0 \<and> f32_gt f32_one (tc_validation_split cfg))
      then Err (ValidationSplitOutOfRange (tc_validation_split cfg))
      else Ok ())"

text \<open>An \<open>expect\<close> that fails is a panic.\<close>

definition canonical_training_cfg_sha256 ::
  "(training_cfg \<Rightarrow> (string, bytes) result) \<Rightarrow> (bytes \<Rightarrow> bytes) \<Rightarrow> training_cfg \<Rightarrow> (validation_error, string) result run"
where
  "canonical_training_cfg_sha256 json digest cfg =
     (case validate_training_cfg cfg of
        Inl e \<Rightarrow> Done (Err e)
      | Inr _ \<Rightarrow> (case json cfg of Inl _ \<Rightarrow> Panic | Inr bs \<Rightarrow> Done (Ok (hex_lowercase (digest bs)))))"

section \<open>Converter paths\<close>

datatype converter_path_error = ConverterEmpty | ConverterInvalid asset_path_error

definition converter_path_error_kind :: "converter_path_error \<Rightarrow> error_kind" where
  "converter_path_error_kind e = UserInput"

datatype converter_path = ConverterPath asset_path

definition converter_path_parse :: "string \<Rightarrow> (converter_path_error, converter_path) result" where
  "converter_path_parse input =
     (let stripped = (case strip_prefix ''/'' input of Some s \<Rightarrow> s | None \<Rightarrow> input) in
      if stripped = [] then Err ConverterEmpty
      else case asset_path_parse (''converters/'' @ stripped) of
          Inl e \<Rightarrow> Err (ConverterInvalid e)
        | Inr p \<Rightarrow> Ok (ConverterPath p))"

fun workspace_path :: "converter_path \<Rightarrow> asset_path" where
  "workspace_path (ConverterPath p) = p"

definition wire_form :: "converter_path \<Rightarrow> string run" where
  "wire_form p =
     (case strip_prefix ''converters/'' (asset_path_as_str (workspace_path p)) of Some s \<Rightarrow> Done s | None \<Rightarrow> Panic)"

datatype labels_format = Lines | TfjsMetadata

record tfjs_convert_params =
  tp_model_json_path :: converter_path
  tp_shards :: "converter_path list"
  tp_labels_path :: converter_path
  tp_labels_format :: labels_format

datatype convert_request = Tfjs tfjs_convert_params

definition validate_tfjs_params :: "tfjs_convert_params \<Rightarrow> (validation_error, unit) result" where
  "validate_tfjs_params params =
     (if tp_shards params = [] then Err NoShards
      else if length (tp_shards params) > max_convert_shards
      then Err (TooManyShards (length (tp_shards params)) max_convert_shards)
      else Ok ())"

fun validate_convert_request :: "convert_request \<Rightarrow> (validation_error, unit) result" where
  "validate_convert_request (Tfjs params) = validate_tfjs_params params"

section \<open>Correctness\<close>

lemma wire_of_parsed:
  assumes "converter_path_parse s = Ok p"
  shows "wire_form p = Done (case strip_prefix ''/'' s of Some t \<Rightarrow> t | None \<Rightarrow> s)"
  using assms
  by (auto simp: converter_path_parse_def wire_form_def strip_prefix_def asset_path_parse_iff Let_def split: if_splits sum.splits)

lemma parsed_not_slash: "converter_path_parse s = Ok p \<Longrightarrow> wire_form p = Done t \<Longrightarrow> strip_prefix ''/'' t = None"
proof (rule ccontr)
  assume p: "converter_path_parse s = Ok p" and t: "wire_form p = Done t" and "strip_prefix ''/'' t \<noteq> None"
  then obtain u where u: "t = ''/'' @ u" by (auto simp: strip_prefix_def prefix_def split: if_splits)
  from p t have "asset_path_parse (''converters/'' @ t) = Ok (workspace_path p)"
    using wire_of_parsed [OF p] by (auto simp: converter_path_parse_def Let_def split: if_splits sum.splits)
  then have "list_all component_ok (split_on (CHR ''/'') (''converters/'' @ ''/'' @ u))" by (simp add: u asset_path_parse_iff)
  moreover have "split_on (CHR ''/'') (''converters/'' @ ''/'' @ u) = ''converters'' # [] # split_on (CHR ''/'') u" by simp
  ultimately show False by (simp add: component_ok_def)
qed

text \<open>
  C30. Every converter path that parses prints without a panic, the printed form parses back to the same path, the legacy form
  with a leading slash means the same, and the path stays below the converters tree of the workspace.
\<close>

theorem converter_path_roundtrip:
  assumes "converter_path_parse s = Ok p"
  shows "\<exists>t. wire_form p = Done t \<and> converter_path_parse t = Ok p \<and> converter_path_parse (''/'' @ t) = Ok p \<and>
     prefix (dir @ [''converters'']) (resolve dir (asset_path_components (workspace_path p)))"
proof -
  let ?t = "case strip_prefix ''/'' s of Some t \<Rightarrow> t | None \<Rightarrow> s"
  note w = wire_of_parsed [OF assms]
  have t: "?t \<noteq> []" "asset_path_parse (''converters/'' @ ?t) = Ok (workspace_path p)"
    using assms by (auto simp: converter_path_parse_def Let_def split: if_splits sum.splits)
  have p: "p = ConverterPath (workspace_path p)" by (cases p) simp
  have "converter_path_parse ?t = Ok p" "converter_path_parse (''/'' @ ?t) = Ok p"
    using t parsed_not_slash [OF assms w] p by (simp_all add: converter_path_parse_def strip_prefix_def)
  moreover have "prefix (dir @ [''converters'']) (resolve dir (asset_path_components (workspace_path p)))"
  proof -
    have ok: "asset_path_as_str (workspace_path p) = ''converters/'' @ ?t"
      "list_all component_ok (split_on (CHR ''/'') (''converters/'' @ ?t))"
      using t(2) by (auto simp: asset_path_parse_iff)
    have "split_on (CHR ''/'') (''converters/'' @ ?t) = ''converters'' # split_on (CHR ''/'') ?t" by simp
    then show ?thesis using ok by (simp add: asset_path_components_def resolve_plain)
  qed
  ultimately show ?thesis using w by blast
qed

theorem converter_path_roundtrip_witness:
  "\<exists>p t. converter_path_parse ''/tfjs/model.json'' = Ok p \<and> wire_form p = Done t \<and> converter_path_parse t = Ok p"
proof -
  have "\<not> isl (converter_path_parse ''/tfjs/model.json'')" by code_simp
  then obtain p where "converter_path_parse ''/tfjs/model.json'' = Ok p" by (cases "converter_path_parse ''/tfjs/model.json''") auto
  with converter_path_roundtrip [OF this, of "[]"] show ?thesis by blast
qed

end
