(* ===== verification/Launch_Config.thy ===== *)
theory Launch_Config
  imports Config_Store Requests Workspaces
begin

text \<open>
  \<^verbatim>\<open>config/domain.rs\<close>, \<^verbatim>\<open>config/launch.rs\<close> and the catalogue of \<^verbatim>\<open>inference/backbone.rs\<close>: the launch file, read
  once at boot, and its validators.  What the kernel answers about the socket path and its parent is an argument.
\<close>

section \<open>The stream listeners\<close>

record transport_policy =
  tr_max_connections_per_stream :: nat
  tr_require_subprotocol :: bool
  tr_allowed_origins :: "string list option"

definition transport_policy_capped :: transport_policy where
  "transport_policy_capped =
     \<lparr>tr_max_connections_per_stream = 32, tr_require_subprotocol = True, tr_allowed_origins = None\<rparr>"

definition default_tcp_policy :: transport_policy where
  "default_tcp_policy = transport_policy_capped"

definition default_uds_policy :: transport_policy where
  "default_uds_policy = transport_policy_capped\<lparr>tr_require_subprotocol := False\<rparr>"

text \<open>A \<open>PathBuf\<close> as the operator writes it: relative or from the root, and its components.\<close>

record os_path =
  op_absolute :: bool
  op_components :: "string list"

definition os_path_empty :: "os_path \<Rightarrow> bool" where
  "os_path_empty p \<longleftrightarrow> \<not> op_absolute p \<and> op_components p = []"

definition os_path_parent :: "os_path \<Rightarrow> os_path option" where
  "os_path_parent p = (if op_components p = [] then None else Some (p\<lparr>op_components := butlast (op_components p)\<rparr>))"

datatype file_type = RegularFile | Directory | Symlink | Socket | Fifo | BlockDevice | CharDevice

fun describe_unix_file_type :: "file_type \<Rightarrow> string" where
  "describe_unix_file_type Fifo = ''fifo''"
| "describe_unix_file_type BlockDevice = ''block device''"
| "describe_unix_file_type CharDevice = ''char device''"
| "describe_unix_file_type _ = ''non-socket file''"

record os_probe =
  pr_lstat :: "os_path \<Rightarrow> (io_error, file_type) result"
  pr_mode :: "os_path \<Rightarrow> nat option"

record stream_cfg =
  sc_uds_path :: os_path
  sc_uds_mode :: nat
  sc_tcp_bind :: string
  sc_broadcast_capacity :: nat
  sc_tcp_policy :: transport_policy
  sc_uds_policy :: transport_policy

definition stream_cfg_default :: stream_cfg where
  "stream_cfg_default =
     \<lparr>sc_uds_path = \<lparr>op_absolute = False, op_components = [''var'', ''run'', ''acoustics_lab.sock'']\<rparr>, sc_uds_mode = 438,
      sc_tcp_bind = ''127.0.0.1:8787'', sc_broadcast_capacity = 64, sc_tcp_policy = default_tcp_policy,
      sc_uds_policy = default_uds_policy\<rparr>"

text \<open>\<open>rsplit_once\<close> on a character, and \<open>str::parse\<close> of an unsigned integer of 16 bits.\<close>

definition rsplit_once :: "char \<Rightarrow> string \<Rightarrow> (string \<times> string) option" where
  "rsplit_once c s =
     (if c \<in> set s
      then let tail = takeWhile (\<lambda>x. x \<noteq> c) (rev s) in Some (take (length s - length tail - 1) s, rev tail)
      else None)"

definition is_digit :: "char \<Rightarrow> bool" where
  "is_digit c \<longleftrightarrow> 48 \<le> (of_char c :: nat) \<and> (of_char c :: nat) \<le> 57"

definition decimal :: "string \<Rightarrow> nat" where
  "decimal s = foldl (\<lambda>n c. 10 * n + (of_char c - 48)) 0 s"

definition parse_u16 :: "string \<Rightarrow> nat option" where
  "parse_u16 s =
     (let ds = (if s \<noteq> [] \<and> hd s = CHR ''+'' then tl s else s) in
      if ds = [] \<or> \<not> list_all is_digit ds then None
      else if decimal ds > 65535 then None else Some (decimal ds))"

definition strip_brackets :: "string \<Rightarrow> string" where
  "strip_brackets s =
     (if s \<noteq> [] \<and> hd s = CHR ''['' \<and> tl s \<noteq> [] \<and> last (tl s) = CHR '']'' then butlast (tl s) else s)"

definition validate_tcp_bind :: "stream_cfg \<Rightarrow> (config_message, unit) result" where
  "validate_tcp_bind c =
     (if sc_tcp_bind c = [] then Err (Message ''stream.tcp_bind must be non-empty'' [])
      else case rsplit_once (CHR '':'') (sc_tcp_bind c) of
          None \<Rightarrow> Err (Message ''stream.tcp_bind must be host:port'' [])
        | Some (host_raw, port) \<Rightarrow>
            if parse_u16 port = None then Err (Message ''stream.tcp_bind port component must parse as u16'' [])
            else if strip_brackets host_raw = [] then Err (Message ''stream.tcp_bind has empty host'' [])
            else Ok ())"

definition has_mode_bit :: "nat \<Rightarrow> nat \<Rightarrow> bool" where
  "has_mode_bit mode b \<longleftrightarrow> odd (mode div b)"

definition validate_uds_path :: "os_probe \<Rightarrow> stream_cfg \<Rightarrow> (config_message, unit) result" where
  "validate_uds_path os c =
     (let p = sc_uds_path c in
      if os_path_empty p then Err (Message ''stream.uds_path must be non-empty'' [])
      else case os_path_parent p of
        None \<Rightarrow> Err (Message ''stream.uds_path has no parent directory'' [])
      | Some parent \<Rightarrow>
          if os_path_empty parent then Err (Message ''stream.uds_path has no parent directory'' [])
          else case pr_lstat os parent of
            Inl IoNotFound \<Rightarrow> Err (Message ''stream.uds_path parent directory does not exist'' [])
          | Inl _ \<Rightarrow> Err (Message ''stream.uds_path stat parent failed'' [])
          | Inr ft \<Rightarrow>
              if ft = Symlink then Err (Message ''stream.uds_path parent is a symlink'' [])
              else if ft \<noteq> Directory then Err (Message ''stream.uds_path parent exists but is not a directory'' [])
              else case
                (case pr_lstat os p of
                   Inr Symlink \<Rightarrow> Err (Message ''stream.uds_path is a symlink'' [])
                 | Inr RegularFile \<Rightarrow> Err (Message ''stream.uds_path is a regular file'' [])
                 | Inr Directory \<Rightarrow> Err (Message ''stream.uds_path is a directory'' [])
                 | Inr t \<Rightarrow> if t \<noteq> Socket then Err (Message (''stream.uds_path is a '' @ describe_unix_file_type t) []) else Ok ()
                 | Inl IoNotFound \<Rightarrow> Ok ()
                 | Inl _ \<Rightarrow> Err (Message ''stream.uds_path stat failed'' [])) of
                Inl e \<Rightarrow> Err e
              | Inr _ \<Rightarrow>
                  (case pr_mode os parent of
                     None \<Rightarrow> Ok ()
                   | Some mode \<Rightarrow>
                       if has_mode_bit mode 2 \<and> \<not> has_mode_bit mode 512
                       then Err (Message ''stream.uds_path parent is world-writable without the sticky bit'' [mode])
                       else Ok ()))"

definition stream_cfg_validate :: "os_probe \<Rightarrow> stream_cfg \<Rightarrow> (config_message, unit) result" where
  "stream_cfg_validate os c =
     and_then (validate_tcp_bind c) (\<lambda>_.
     and_then (validate_uds_path os c) (\<lambda>_.
     if sc_broadcast_capacity c = 0 then Err (Message ''stream.broadcast_capacity must be > 0'' [])
     else if sc_uds_mode c > 4095 then Err (Message ''stream.uds_mode exceeds the 12-bit POSIX mode range'' [sc_uds_mode c])
     else Ok ()))"

section \<open>Training defaults, file caps, default head, backbones\<close>

record training_defaults =
  td_epochs :: nat
  td_batch_size :: nat
  td_learning_rate_e6 :: nat

definition training_defaults_default :: training_defaults where
  "training_defaults_default = \<lparr>td_epochs = 32, td_batch_size = 16, td_learning_rate_e6 = 100\<rparr>"

definition training_defaults_validate :: "training_defaults \<Rightarrow> (config_message, unit) result" where
  "training_defaults_validate d =
     (if td_epochs d = 0 then Err (Message ''training_defaults.epochs must be >= 1'' [])
      else if td_epochs d > 10000 then Err (Message ''training_defaults.epochs exceeds'' [td_epochs d, 10000])
      else if td_batch_size d = 0 then Err (Message ''training_defaults.batch_size must be >= 1'' [])
      else if td_batch_size d > 4096 then Err (Message ''training_defaults.batch_size exceeds'' [td_batch_size d, 4096])
      else if td_learning_rate_e6 d = 0 then Err (Message ''training_defaults.learning_rate_e6 must be >= 1'' [])
      else if td_learning_rate_e6 d > 1000000 then Err (Message ''training_defaults.learning_rate_e6 exceeds'' [td_learning_rate_e6 d, 1000000])
      else Ok ())"

record file_cfg =
  fc_max_upload_bytes :: nat
  fc_max_concurrent_uploads :: nat

definition file_cfg_default :: file_cfg where
  "file_cfg_default = \<lparr>fc_max_upload_bytes = 256 * 1024 * 1024, fc_max_concurrent_uploads = 4\<rparr>"

definition file_cfg_validate :: "file_cfg \<Rightarrow> (config_message, unit) result" where
  "file_cfg_validate c =
     (if fc_max_upload_bytes c = 0 then Err (Message ''file.max_upload_bytes must be > 0'' [])
      else if fc_max_concurrent_uploads c = 0 then Err (Message ''file.max_concurrent_uploads must be > 0'' [])
      else Ok ())"

record default_head_ref =
  dh_path :: os_path
  dh_labels_path :: os_path

definition default_head_ref_validate :: "default_head_ref \<Rightarrow> (config_message, unit) result" where
  "default_head_ref_validate d =
     (if os_path_empty (dh_path d) then Err (Message ''head.default.path must be non-empty'' [])
      else if os_path_empty (dh_labels_path d) then Err (Message ''head.default.labels_path must be non-empty'' [])
      else Ok ())"

record head_launch_config =
  hl_default :: "default_head_ref option"

definition head_launch_config_validate :: "head_launch_config \<Rightarrow> (config_message, unit) result" where
  "head_launch_config_validate h = (case hl_default h of Some d \<Rightarrow> default_head_ref_validate d | None \<Rightarrow> Ok ())"

datatype backbone_kind = Rknn | Burn

record backbone_ref =
  bb_kind :: backbone_kind
  bb_path :: os_path
  bb_hash :: "string option"

definition is_ascii_hexdigit :: "char \<Rightarrow> bool" where
  "is_ascii_hexdigit c \<longleftrightarrow>
     (let n = of_char c :: nat in 48 \<le> n \<and> n \<le> 57 \<or> 65 \<le> n \<and> n \<le> 70 \<or> 97 \<le> n \<and> n \<le> 102)"

text \<open>\<open>str::trim\<close> over the characters of the string; the hash is compared after the same trim.\<close>

function str_chars :: "string \<Rightarrow> string list" where
  "str_chars [] = []"
| "str_chars (c # cs) = take (utf8_width c) (c # cs) # str_chars (drop (utf8_width c) (c # cs))"
  by pat_completeness auto
termination
  by (relation "measure length") (auto simp: utf8_width_def Let_def)

definition str_trim :: "string \<Rightarrow> string" where
  "str_trim s =
     (let ws = (\<lambda>c. is_whitespace (hd (code_points c))) in
      concat (rev (dropWhile ws (rev (dropWhile ws (str_chars s))))))"

definition backbone_ref_validate :: "backbone_ref \<Rightarrow> (config_message, unit) result" where
  "backbone_ref_validate b =
     (if os_path_empty (bb_path b) then Err (Message ''path must not be empty'' [])
      else case bb_hash b of
          None \<Rightarrow> Ok ()
        | Some raw \<Rightarrow>
            let h = str_trim raw in
            if length h \<noteq> 64 \<or> \<not> list_all is_ascii_hexdigit h then Err (Message ''hash must be 64 hex chars'' [length h])
            else Ok ())"

record backbone_catalogue =
  bc_candidates :: "backbone_ref list"

fun validate_backbones :: "nat \<Rightarrow> backbone_ref list \<Rightarrow> (nat \<times> config_message, unit) result" where
  "validate_backbones i [] = Ok ()"
| "validate_backbones i (b # bs) =
     (case backbone_ref_validate b of Inl e \<Rightarrow> Err (i, e) | Inr _ \<Rightarrow> validate_backbones (i + 1) bs)"

definition backbone_catalogue_validate :: "backbone_catalogue \<Rightarrow> (nat \<times> config_message, unit) result" where
  "backbone_catalogue_validate c = validate_backbones 0 (bc_candidates c)"

text \<open>
  Loading a backbone: the candidates in order, the first one that this build supports, that exists, whose hash matches and that
  the runtime accepts.  The runtime's loader is an argument, as is where the working directory puts a path.
\<close>

definition is_supported :: "bool \<Rightarrow> backbone_kind \<Rightarrow> bool" where
  "is_supported rknpu k = (case k of Burn \<Rightarrow> True | Rknn \<Rightarrow> rknpu)"

fun hash_reads :: "bytes list \<Rightarrow> ('z disk_scheme, string, unit) prog" where
  "hash_reads [] = ret ()"
| "hash_reads (_ # cs) = bind_p (map_err (\<lambda>_. ''read for hash'') (fs_call fs_sync)) (\<lambda>_. hash_reads cs)"

definition verify_sha256 :: "(bytes \<Rightarrow> bytes) \<Rightarrow> path \<Rightarrow> string \<Rightarrow> ('z disk_scheme, string, unit) prog" where
  "verify_sha256 digest p expected_hex =
     (let expected = str_trim expected_hex in
      bind_p (map_err (\<lambda>_. ''open for hash'') (fs_call (fs_read p))) (\<lambda>bs.
      bind_p (hash_reads (chunks 65536 bs)) (\<lambda>_.
      if eq_ignore_ascii_case (hex_lowercase (digest bs)) expected then ret () else fail ''sha256 mismatch'')))"

record 'p backbone_env =
  be_rknpu :: bool
  be_digest :: "bytes \<Rightarrow> bytes"
  be_resolve :: "os_path \<Rightarrow> path"
  be_load :: "backbone_kind \<Rightarrow> fs \<Rightarrow> path \<Rightarrow> (string, 'p) result"

definition try_load_candidate :: "'p backbone_env \<Rightarrow> backbone_ref \<Rightarrow> ('z disk_scheme, string, 'p) prog" where
  "try_load_candidate env cand =
     (let p = be_resolve env (bb_path cand) in
      if \<not> is_supported (be_rknpu env) (bb_kind cand) then fail ''kind not supported in this build''
      else bind_p (fs_test (fs_exists p)) (\<lambda>present.
        if \<not> present then fail ''file does not exist''
        else bind_p (case bb_hash cand of None \<Rightarrow> ret () | Some expected \<Rightarrow> verify_sha256 (be_digest env) p expected) (\<lambda>_ w.
          (be_load env (bb_kind cand) (dk_fs w) p, w))))"

fun load_backbones ::
  "'p backbone_env \<Rightarrow> string list \<Rightarrow> backbone_ref list \<Rightarrow> ('z disk_scheme, string list, 'p) prog"
where
  "load_backbones env summaries [] = fail summaries"
| "load_backbones env summaries (cand # cands) =
     bind_p (attempt (try_load_candidate env cand)) (\<lambda>r.
     case r of Inr pipeline \<Rightarrow> ret pipeline | Inl reason \<Rightarrow> load_backbones env (summaries @ [reason]) cands)"

text \<open>\<open>NoUsableCandidate\<close> with the summary of every attempt.\<close>

definition load_first_supported :: "'p backbone_env \<Rightarrow> backbone_catalogue \<Rightarrow> ('z disk_scheme, string list, 'p) prog" where
  "load_first_supported env c = load_backbones env [] (bc_candidates c)"

section \<open>The launch file\<close>

record launch_config =
  lc_mic :: mic_catalogue
  lc_backbone :: backbone_catalogue
  lc_stream :: stream_cfg
  lc_head :: head_launch_config
  lc_training_defaults :: training_defaults
  lc_file :: file_cfg

text \<open>The tone and the gain of the mock candidate are the bit patterns of 1000.0 and 0.25.\<close>

definition launch_config_default_for :: launch_config where
  "launch_config_default_for =
     \<lparr>lc_mic = \<lparr>cat_candidates = [\<lparr>mc_id = MicId ''default-mock'', mc_source = MockSpec [Sine 0x447A0000 0x3E800000] 512 sample_rate_hz,
        mc_channels = [0]\<rparr>]\<rparr>,
      lc_backbone = \<lparr>bc_candidates = []\<rparr>, lc_stream = stream_cfg_default, lc_head = \<lparr>hl_default = None\<rparr>,
      lc_training_defaults = training_defaults_default, lc_file = file_cfg_default\<rparr>"

record launch_codec =
  lt_to_string_pretty :: "launch_config \<Rightarrow> (string, string) result"
  lt_from_str :: "string \<Rightarrow> (string, launch_config) result"

text \<open>The validators in the order the loader runs them; the text of a failure names its section.\<close>

definition launch_check :: "os_probe \<Rightarrow> launch_config \<Rightarrow> (string \<times> config_message, unit) result" where
  "launch_check os cfg =
     and_then (case catalogue_validate (lc_mic cfg) of Inl _ \<Rightarrow> Err (''launch mic catalogue'', Message ''candidate'' []) | Inr _ \<Rightarrow> Ok ()) (\<lambda>_.
     and_then (case backbone_catalogue_validate (lc_backbone cfg) of
         Inl (i, Message m ns) \<Rightarrow> Err (''launch backbone catalogue'', Message m (i # ns)) | Inr _ \<Rightarrow> Ok ()) (\<lambda>_.
     and_then (case stream_cfg_validate os (lc_stream cfg) of Inl m \<Rightarrow> Err (''launch stream'', m) | Inr _ \<Rightarrow> Ok ()) (\<lambda>_.
     and_then (case head_launch_config_validate (lc_head cfg) of Inl m \<Rightarrow> Err (''launch head'', m) | Inr _ \<Rightarrow> Ok ()) (\<lambda>_.
     and_then (case training_defaults_validate (lc_training_defaults cfg) of Inl m \<Rightarrow> Err (''launch training_defaults'', m) | Inr _ \<Rightarrow> Ok ()) (\<lambda>_.
     case file_cfg_validate (lc_file cfg) of Inl m \<Rightarrow> Err (''launch file'', m) | Inr _ \<Rightarrow> Ok ())))))"

definition launch_load :: "launch_codec \<Rightarrow> os_probe \<Rightarrow> path \<Rightarrow> ('z disk_scheme, config_error, launch_config) prog" where
  "launch_load lt os p =
     bind_p (map_err (ConfigRead p) (fs_read_to_string p)) (\<lambda>doc.
     case lt_from_str lt doc of
       Inl e \<Rightarrow> fail (ConfigParse p e)
     | Inr cfg \<Rightarrow>
         (case launch_check os cfg of
            Inl (section, m) \<Rightarrow> fail (ConfigInvalid p (InvalidLaunch section m))
          | Inr _ \<Rightarrow> ret cfg))"

definition write_launch_toml_atomically :: "launch_codec \<Rightarrow> path \<Rightarrow> launch_config \<Rightarrow> ('z disk_scheme, config_error, unit) prog" where
  "write_launch_toml_atomically lt p cfg =
     (case lt_to_string_pretty lt cfg of
        Inl e \<Rightarrow> fail (ConfigSerialize e)
      | Inr doc \<Rightarrow>
          let dir = butlast p in
          bind_p (fs_test (fs_exists dir)) (\<lambda>present.
          bind_p (if present then ret () else map_err (ConfigWrite dir) (fs_call (fs_create_dir_all dir))) (\<lambda>_.
          map_err file_to_config_err (put_atomic p (as_bytes doc)))))"

section \<open>What the validators accept\<close>

lemma rsplit_once_iff: "rsplit_once c s = Some (a, b) \<longleftrightarrow> s = a @ c # b \<and> c \<notin> set b"
proof
  assume "rsplit_once c s = Some (a, b)"
  then have c: "c \<in> set (rev s)" and ab: "a = take (length s - length b - 1) s" "b = rev (takeWhile (\<lambda>x. x \<noteq> c) (rev s))"
    by (auto simp: rsplit_once_def Let_def split: if_splits)
  let ?t = "takeWhile (\<lambda>x. x \<noteq> c) (rev s)" and ?d = "dropWhile (\<lambda>x. x \<noteq> c) (rev s)"
  have "?d \<noteq> []" using c by (simp add: dropWhile_eq_Nil_conv)
  then obtain y ys where d: "?d = y # ys" "y = c" using hd_dropWhile [of "\<lambda>x. x \<noteq> c" "rev s"] by (cases ?d) auto
  have "rev s = ?t @ c # ys" using takeWhile_dropWhile_id [of "\<lambda>x. x \<noteq> c" "rev s"] d by simp
  then have s: "s = rev ys @ c # b" using ab(2) by (metis append_assoc append_Cons append_Nil rev.simps(2) rev_append rev_rev_ident)
  then have "a = rev ys" using ab(1) by simp
  moreover have "c \<notin> set b" using ab(2) by (auto dest: set_takeWhileD)
  ultimately show "s = a @ c # b \<and> c \<notin> set b" using s by simp
next
  assume s: "s = a @ c # b \<and> c \<notin> set b"
  then have "\<And>x. x \<in> set (rev b) \<Longrightarrow> x \<noteq> c" by auto
  then have "takeWhile (\<lambda>x. x \<noteq> c) (rev b @ c # rev a) = rev b" by (subst takeWhile_append2) auto
  then have "takeWhile (\<lambda>x. x \<noteq> c) (rev s) = rev b" using s by simp
  then show "rsplit_once c s = Some (a, b)" using s by (simp add: rsplit_once_def)
qed

text \<open>
  The bind address is accepted exactly when it is a host, a colon and a decimal port of at most 65535, the host
  not being empty and not a pair of empty brackets; the last colon separates, so bracketed IPv6 hosts work.
\<close>

lemma tcp_bind_accepts_iff:
  "validate_tcp_bind c = Ok () \<longleftrightarrow>
     (\<exists>host port. sc_tcp_bind c = host @ '':'' @ port \<and> CHR '':'' \<notin> set port \<and> parse_u16 port \<noteq> None \<and> host \<noteq> [] \<and> host \<noteq> ''[]'')"
proof -
  have brackets: "strip_brackets h = [] \<longleftrightarrow> h = [] \<or> h = ''[]''" for h
    by (cases h; cases "tl h"; auto simp: strip_brackets_def)
  have "validate_tcp_bind c = Ok () \<longleftrightarrow>
      (\<exists>host port. rsplit_once (CHR '':'') (sc_tcp_bind c) = Some (host, port) \<and> parse_u16 port \<noteq> None \<and> strip_brackets host \<noteq> [])"
    by (cases "rsplit_once (CHR '':'') (sc_tcp_bind c)")
      (auto simp: validate_tcp_bind_def split: if_splits, simp add: rsplit_once_def)
  then show ?thesis by (simp add: brackets rsplit_once_iff conj_assoc)
qed

text \<open>
  The training defaults accept values that the request validator refuses for every job: a number of epochs above
  one thousand passes at boot and cannot be used, although the message of the boot check tells operators to override per job.
\<close>

lemma training_defaults_exceed_requests:
  "\<exists>d. training_defaults_validate d = Ok () \<and>
     (\<forall>cfg. tc_epochs cfg = td_epochs d \<longrightarrow> validate_training_cfg cfg = Err (EpochsOutOfRange (td_epochs d) 1 1000))"
proof (intro exI conjI allI impI)
  let ?d = "training_defaults_default\<lparr>td_epochs := 5000\<rparr>"
  show "training_defaults_validate ?d = Ok ()" by (simp add: training_defaults_validate_def training_defaults_default_def)
  show "validate_training_cfg cfg = Err (EpochsOutOfRange (td_epochs ?d) 1 1000)" if "tc_epochs cfg = td_epochs ?d" for cfg
    using that by (simp add: validate_training_cfg_def max_epochs_def min_epochs_def)
qed

text \<open>The loader takes the first usable candidate: it fails only when every candidate does, and reports each reason.\<close>

lemma load_backbones_first:
  assumes "load_backbones env summaries cands w = (Ok pipeline, w')"
  shows "\<exists>i < length cands. \<exists>v. try_load_candidate env (cands ! i) v = (Ok pipeline, w')"
  using assms
proof (induction cands arbitrary: summaries w)
  case (Cons cand cands)
  show ?case
  proof (cases "try_load_candidate env cand w")
    case (Pair r v)
    then show ?thesis
    proof (cases r)
      case (Inl e)
      then have "load_backbones env (summaries @ [e]) cands v = (Ok pipeline, w')"
        using Cons.prems Pair by (simp add: bind_p_def attempt_def)
      from Cons.IH [OF this] obtain i u where "i < length cands" "try_load_candidate env (cands ! i) u = (Ok pipeline, w')" by blast
      then show ?thesis by (metis length_Cons Suc_less_eq nth_Cons_Suc)
    next
      case (Inr x)
      then show ?thesis using Cons.prems Pair by (auto simp: bind_p_def attempt_def ret_def intro!: exI [of _ 0])
    qed
  qed
qed (simp add: fail_def)

lemma load_backbones_fails:
  assumes "load_backbones env summaries cands w = (Err reasons, w')"
  shows "\<exists>es. reasons = summaries @ es \<and> length es = length cands"
  using assms
proof (induction cands arbitrary: summaries w)
  case (Cons cand cands)
  obtain r v where tr: "try_load_candidate env cand w = (r, v)" by fastforce
  show ?case
  proof (cases r)
    case (Inl e)
    with Cons tr obtain es where "reasons = (summaries @ [e]) @ es" "length es = length cands"
      by (fastforce simp: bind_p_def attempt_def)
    then show ?thesis by (intro exI [of _ "e # es"]) simp
  next
    case (Inr x)
    then show ?thesis using Cons.prems tr by (simp add: bind_p_def attempt_def ret_def)
  qed
qed (simp add: fail_def)

end
