(* ===== verification/Streams.thy ===== *)
theory Streams
  imports Launch_Config "HOL-Library.Code_Target_Nat"
begin

text \<open>
  \<^verbatim>\<open>stream_io.rs\<close>: who may open a stream, how many may, what a session sends, and the socket of the local
  listener.  Header values are raw bytes and \<open>to_str\<close> of the HTTP library is an argument; the broadcast channel,
  the clients, the accept calls and the kernel's answers about paths are inputs.
\<close>

section \<open>Admission\<close>

record headers =
  hv_origin :: "string option"
  hv_sec_websocket_protocol :: "string option"

definition ws_subprotocol :: string where "ws_subprotocol = ''acoustics.v1''"

datatype stream_status = BadRequest | Forbidden | TooManyRequests

definition origin_ok :: "transport_policy \<Rightarrow> string option \<Rightarrow> bool" where
  "origin_ok policy supplied =
     (case tr_allowed_origins policy of
        None \<Rightarrow> True
      | Some allowed \<Rightarrow> (case supplied of None \<Rightarrow> True | Some origin \<Rightarrow> list_ex (\<lambda>a. a = origin) allowed))"

definition enforce_subprotocol :: "(string \<Rightarrow> string option) \<Rightarrow> headers \<Rightarrow> transport_policy \<Rightarrow> (stream_status, unit) result" where
  "enforce_subprotocol to_str h policy =
     (if \<not> tr_require_subprotocol policy then Ok ()
      else case hv_sec_websocket_protocol h of
          None \<Rightarrow> Err BadRequest
        | Some raw \<Rightarrow>
            (case to_str raw of
               None \<Rightarrow> Err BadRequest
             | Some s \<Rightarrow>
                 if list_ex (\<lambda>tok. str_trim tok = ws_subprotocol) (split_on (CHR '','') s) then Ok () else Err BadRequest))"

text \<open>The two streams and their subscriber counts and lag counters.\<close>

datatype stream_kind = AudioStream | InferStream

record stream_router =
  sr_subs :: "stream_kind \<Rightarrow> nat"
  sr_lag :: "stream_kind \<Rightarrow> nat"

definition stream_router_new :: stream_router where
  "stream_router_new = \<lparr>sr_subs = (\<lambda>_. 0), sr_lag = (\<lambda>_. 0)\<rparr>"

definition set_subs :: "stream_kind \<Rightarrow> nat \<Rightarrow> stream_router \<Rightarrow> stream_router" where
  "set_subs k n st = st\<lparr>sr_subs := (sr_subs st)(k := n)\<rparr>"

text \<open>The count is read as 32 bits for the comparison.\<close>

definition guard_try_acquire :: "stream_kind \<Rightarrow> nat \<Rightarrow> stream_router \<Rightarrow> bool \<times> stream_router" where
  "guard_try_acquire k max_per_stream st =
     (let c = sr_subs st k; next = set_subs k (saturating_add64 c 1) st in
      if max_per_stream = 0 then (True, next)
      else if c mod 2 ^ 32 < max_per_stream then (True, next) else (False, st))"

definition guard_drop :: "stream_kind \<Rightarrow> stream_router \<Rightarrow> stream_router" where
  "guard_drop k st = set_subs k (saturating_sub (sr_subs st k) 1) st"

definition enforce_admission ::
  "(string \<Rightarrow> string option) \<Rightarrow> headers \<Rightarrow> stream_kind \<Rightarrow> transport_policy \<Rightarrow> stream_router \<Rightarrow> (stream_status, unit) result \<times> stream_router"
where
  "enforce_admission to_str h k policy st =
     (let supplied_origin = Option.bind (hv_origin h) to_str in
      if \<not> origin_ok policy supplied_origin then (Err Forbidden, st)
      else case guard_try_acquire k (tr_max_connections_per_stream policy) st of
          (True, st') \<Rightarrow> (Ok (), st')
        | (False, st') \<Rightarrow> (Err TooManyRequests, st'))"

definition ws_handler ::
  "(string \<Rightarrow> string option) \<Rightarrow> headers \<Rightarrow> stream_kind \<Rightarrow> transport_policy \<Rightarrow> stream_router \<Rightarrow> (stream_status, unit) result \<times> stream_router"
where
  "ws_handler to_str h k policy st =
     (case enforce_subprotocol to_str h policy of
        Inl s \<Rightarrow> (Err s, st)
      | Inr _ \<Rightarrow> enforce_admission to_str h k policy st)"

section \<open>A session\<close>

datatype ws_event =
    Payload bytes bool
  | LaggedBy nat
  | BroadcastClosed
  | ClientNone
  | ClientClose
  | ClientPing bytes
  | ClientData
  | ClientError

datatype ws_message = Binary bytes | CloseFrame nat | Pong bytes

text \<open>
  The select loop over what its arms report in turn, a payload together with whether the socket took it; what the
  client was sent, how many messages were counted as lost, and whether the session is over.
\<close>

fun handle_ws :: "ws_event list \<Rightarrow> ws_message list \<times> nat \<times> bool" where
  "handle_ws [] = ([], 0, False)"
| "handle_ws (Payload b taken # es) =
     (if \<not> taken then ([], 0, True) else case handle_ws es of (ms, lag, over) \<Rightarrow> (Binary b # ms, lag, over))"
| "handle_ws (LaggedBy n # _) = ([CloseFrame 1011], n, True)"
| "handle_ws (BroadcastClosed # _) = ([CloseFrame 1001], 0, True)"
| "handle_ws (ClientNone # _) = ([], 0, True)"
| "handle_ws (ClientClose # _) = ([], 0, True)"
| "handle_ws (ClientPing p # es) = (case handle_ws es of (ms, lag, over) \<Rightarrow> (Pong p # ms, lag, over))"
| "handle_ws (ClientData # es) = handle_ws es"
| "handle_ws (ClientError # _) = ([], 0, True)"

definition end_session :: "stream_kind \<Rightarrow> ws_event list \<Rightarrow> stream_router \<Rightarrow> stream_router" where
  "end_session k es st =
     guard_drop k (st\<lparr>sr_lag := (sr_lag st)(k := wrapping_add64 (sr_lag st k) (fst (snd (handle_ws es))))\<rparr>)"

section \<open>The local listener\<close>

datatype accept_event = ShutdownSeen | Accepted | AcceptFailed nat

text \<open>\<open>EMFILE\<close>, \<open>ENFILE\<close>, \<open>EAGAIN\<close> and \<open>ECONNABORTED\<close> on Linux.\<close>

definition is_transient_accept_error :: "nat \<Rightarrow> bool" where
  "is_transient_accept_error errno \<longleftrightarrow> errno \<in> {24, 23, 11, 103}"

text \<open>The number of connections served and, when the loop ended, how.\<close>

fun serve_uds :: "nat \<Rightarrow> accept_event list \<Rightarrow> nat \<times> (nat, unit) result option" where
  "serve_uds conn_id [] = (conn_id, None)"
| "serve_uds conn_id (ShutdownSeen # _) = (conn_id, Some (Ok ()))"
| "serve_uds conn_id (Accepted # es) = serve_uds (wrapping_add64 conn_id 1) es"
| "serve_uds conn_id (AcceptFailed errno # es) =
     (if is_transient_accept_error errno then serve_uds conn_id es else (conn_id, Some (Err errno)))"

datatype stream_error =
    UdsParentInsecure os_path
  | UdsStat io_error
  | UdsPathNotSocket file_type
  | UdsRemove io_error
  | UdsBind io_error
  | UdsPerms io_error

text \<open>The calls with an effect, in order; what each answers is an input.\<close>

datatype uds_action = RemoveFile os_path | BindSocket os_path | Chmod os_path nat

record uds_env =
  ue_stat :: "os_path \<Rightarrow> (io_error, bool \<times> nat) result"
  ue_lstat :: "os_path \<Rightarrow> (io_error, file_type) result"
  ue_remove :: "(io_error, unit) result"
  ue_bind :: "(io_error, unit) result"
  ue_chmod :: "(io_error, unit) result"

definition validate_parent_dir_confinement :: "uds_env \<Rightarrow> os_path \<Rightarrow> (stream_error, unit) result" where
  "validate_parent_dir_confinement env parent =
     (case ue_stat env parent of
        Inl _ \<Rightarrow> Err (UdsParentInsecure parent)
      | Inr (is_dir, mode) \<Rightarrow>
          if \<not> is_dir then Err (UdsParentInsecure parent)
          else if has_mode_bit mode 2 \<and> \<not> has_mode_bit mode 512 then Err (UdsParentInsecure parent)
          else Ok ())"

definition bind_uds :: "uds_env \<Rightarrow> os_path \<Rightarrow> (stream_error, unit) result \<times> uds_action list" where
  "bind_uds env p =
     (let bind = (\<lambda>done_before. (case ue_bind env of Inl e \<Rightarrow> Err (UdsBind e) | Inr _ \<Rightarrow> Ok (), done_before @ [BindSocket p])) in
      case os_path_parent p of
        None \<Rightarrow> (Err (UdsParentInsecure p), [])
      | Some parent \<Rightarrow>
          if os_path_empty parent then (Err (UdsParentInsecure parent), [])
          else case validate_parent_dir_confinement env parent of
              Inl e \<Rightarrow> (Err e, [])
            | Inr _ \<Rightarrow>
                (case ue_lstat env p of
                   Inl IoNotFound \<Rightarrow> bind []
                 | Inl e \<Rightarrow> (Err (UdsStat e), [])
                 | Inr ft \<Rightarrow>
                     if ft \<noteq> Socket then (Err (UdsPathNotSocket ft), [])
                     else case ue_remove env of
                         Inl e \<Rightarrow> (Err (UdsRemove e), [RemoveFile p])
                       | Inr _ \<Rightarrow> bind [RemoveFile p]))"

definition set_uds_permissions :: "uds_env \<Rightarrow> os_path \<Rightarrow> nat \<Rightarrow> (stream_error, unit) result \<times> uds_action list" where
  "set_uds_permissions env p mode =
     (case ue_lstat env p of
        Inl e \<Rightarrow> (Err (UdsPerms e), [])
      | Inr ft \<Rightarrow>
          if ft \<noteq> Socket then (Err (UdsPathNotSocket ft), [])
          else (case ue_chmod env of Inl e \<Rightarrow> Err (UdsPerms e) | Inr _ \<Rightarrow> Ok (), [Chmod p mode]))"

section \<open>Every history of sessions\<close>

text \<open>The sessions that are open are a list of their streams; \<open>P\<close> holds the policies of the listeners.\<close>

inductive stream_step ::
  "(string \<Rightarrow> string option) \<Rightarrow> transport_policy set \<Rightarrow> stream_router \<times> stream_kind list \<Rightarrow> stream_router \<times> stream_kind list \<Rightarrow> bool"
for to_str P where
  opens: "policy \<in> P \<Longrightarrow> ws_handler to_str h k policy st = (Ok (), st') \<Longrightarrow> stream_step to_str P (st, live) (st', k # live)"
| refuses: "policy \<in> P \<Longrightarrow> ws_handler to_str h k policy st = (Err e, st') \<Longrightarrow> stream_step to_str P (st, live) (st', live)"
| ends: "k \<in> set live \<Longrightarrow> stream_step to_str P (st, live) (end_session k es st, remove1 k live)"

definition counted :: "nat \<Rightarrow> stream_router \<times> stream_kind list \<Rightarrow> bool" where
  "counted m s \<longleftrightarrow> (\<forall>k. sr_subs (fst s) k = count_list (snd s) k \<and> count_list (snd s) k \<le> m)"

lemma ws_handler_Ok:
  assumes "ws_handler to_str h k policy st = (Ok (), st')"
  shows "st' = set_subs k (saturating_add64 (sr_subs st k) 1) st \<and>
    (tr_max_connections_per_stream policy = 0 \<or> sr_subs st k mod 2 ^ 32 < tr_max_connections_per_stream policy)"
  using assms
  by (auto simp: ws_handler_def enforce_admission_def guard_try_acquire_def Let_def split: sum.splits if_splits prod.splits)

lemma ws_handler_Err: "ws_handler to_str h k policy st = (Err e, st') \<Longrightarrow> st' = st"
  by (auto simp: ws_handler_def enforce_admission_def guard_try_acquire_def Let_def split: sum.splits if_splits prod.splits)

lemma count_remove1: "count_list (remove1 k xs) j = (if j = k then count_list xs k - 1 else count_list xs j)"
  by (induction xs) auto

lemma count_list_pos: "k \<in> set xs \<Longrightarrow> 0 < count_list xs k"
  by (metis count_list_0_iff gr0I)

lemma stream_step_counted:
  assumes "stream_step to_str P s s'" and "counted m s"
    and "\<And>policy. policy \<in> P \<Longrightarrow> 0 < tr_max_connections_per_stream policy \<and> tr_max_connections_per_stream policy \<le> m"
    and "m < 2 ^ 32"
  shows "counted m s'"
  using assms(1)
proof cases
  case (opens policy h k st st' live)
  note ok = ws_handler_Ok [OF opens(4)] and cap = assms(3) [OF opens(3)]
  have now: "sr_subs st k = count_list live k" "count_list live k \<le> m" using assms(2) opens(1) by (simp_all add: counted_def)
  then have "count_list live k < 2 ^ 32" using assms(4) by linarith
  then have "count_list live k < m" using ok cap now(1) by simp
  then have "saturating_add64 (count_list live k) 1 = count_list live k + 1"
    using \<open>count_list live k < 2 ^ 32\<close> by (intro saturating_add64_exact) simp
  then show ?thesis
    using assms(2) opens(1,2) ok now \<open>count_list live k < m\<close> by (auto simp: counted_def set_subs_def)
next
  case (refuses policy h k st e st' live)
  then show ?thesis using assms(2) ws_handler_Err [OF refuses(4)] by simp
next
  case (ends k live st es)
  then have "count_list live j \<le> m" for j using assms(2) by (simp add: counted_def)
  then show ?thesis
    using assms(2) ends count_list_pos [of k live] unfolding counted_def
    by (auto intro: le_SucI simp: end_session_def guard_drop_def set_subs_def count_remove1 saturating_sub_def le_diff_conv)
qed

text \<open>
  C20. When every listener has a connection cap of at most \<open>m\<close>, then in every history of admissions, refusals and
  ended sessions the subscriber count of each stream is exactly the number of its open sessions and never exceeds
  \<open>m\<close>, over all listeners together.
\<close>

theorem stream_cap_holds:
  assumes "(stream_step to_str P)\<^sup>*\<^sup>* (stream_router_new, []) (st, live)"
    and "\<forall>policy \<in> P. 0 < tr_max_connections_per_stream policy \<and> tr_max_connections_per_stream policy \<le> m" and "m < 2 ^ 32"
  shows "sr_subs st k = count_list live k \<and> count_list live k \<le> m"
proof -
  have "counted m s" if "(stream_step to_str P)\<^sup>*\<^sup>* (stream_router_new, []) s" for s
    using that
  proof induction
    case base
    show ?case by (simp add: counted_def stream_router_new_def)
  next
    case (step y z)
    then show ?case using stream_step_counted [of to_str P y z m] assms(2,3) by blast
  qed
  from this [OF assms(1)] show ?thesis by (simp add: counted_def)
qed








theorem stream_cap_holds_witness:
  "sr_subs (snd (ws_handler Some \<lparr>hv_origin = None, hv_sec_websocket_protocol = Some ''acoustics.v1''\<rparr> AudioStream
     transport_policy_capped stream_router_new)) AudioStream = 1"
proof -
  let ?h = "\<lparr>hv_origin = None, hv_sec_websocket_protocol = Some ''acoustics.v1''\<rparr>"
  let ?r = "ws_handler Some ?h AudioStream transport_policy_capped stream_router_new"
  have "fst ?r = Ok ()" by code_simp
  then have "?r = (Ok (), snd ?r)" by (metis prod.collapse)
  then have "stream_step Some {transport_policy_capped} (stream_router_new, []) (snd ?r, [AudioStream])"
    by (rule opens [rotated]) simp
  then have "(stream_step Some {transport_policy_capped})\<^sup>*\<^sup>* (stream_router_new, []) (snd ?r, [AudioStream])" by (rule r_into_rtranclp)
  from stream_cap_holds [OF this, of 32 AudioStream] show ?thesis by (simp add: transport_policy_capped_def)
qed

text \<open>
  The origin allow list can be passed with a header that is not visible ASCII: its value is read as missing, and a
  request without an origin is admitted.
\<close>

lemma unreadable_origin_is_admitted:
  assumes "to_str origin = None" and "hv_origin h = Some origin" and "tr_allowed_origins policy = Some allowed"
    and "enforce_subprotocol to_str h policy = Ok ()" and "sr_subs st k mod 2 ^ 32 < tr_max_connections_per_stream policy"
  shows "fst (ws_handler to_str h k policy st) = Ok ()"
  using assms by (simp add: ws_handler_def enforce_admission_def guard_try_acquire_def origin_ok_def Let_def)

definition confined :: "uds_env \<Rightarrow> os_path \<Rightarrow> bool" where
  "confined env parent \<longleftrightarrow>
     (\<exists>mode. ue_stat env parent = Ok (True, mode) \<and> (has_mode_bit mode 2 \<longrightarrow> has_mode_bit mode 512))"

lemma confinement_iff: "validate_parent_dir_confinement env parent = Ok () \<longleftrightarrow> confined env parent"
  by (auto simp: validate_parent_dir_confinement_def confined_def split: sum.splits)

text \<open>
  C37. Binding the local socket removes or binds nothing but the configured path, removes it only when it is a socket, and
  touches it only below a directory that others cannot write to or that is sticky; a path the launch check accepted, seen
  unchanged, is not refused.
\<close>

theorem bind_uds_is_confined:
  assumes "bind_uds env p = (r, acts)"
  shows "set acts \<subseteq> {RemoveFile p, BindSocket p} \<and> (RemoveFile p \<in> set acts \<longrightarrow> ue_lstat env p = Ok Socket) \<and>
    (acts \<noteq> [] \<longrightarrow> (\<exists>parent. os_path_parent p = Some parent \<and> confined env parent)) \<and>
    (validate_uds_path os c = Ok () \<longrightarrow> sc_uds_path c = p \<longrightarrow> ue_lstat env = pr_lstat os \<longrightarrow>
       (\<forall>parent. pr_lstat os parent = Ok Directory \<longrightarrow> (\<exists>mode. pr_mode os parent = Some mode \<and> ue_stat env parent = Ok (True, mode))) \<longrightarrow>
       BindSocket p \<in> set acts \<or> (\<exists>e. r = Err (UdsRemove e)))"
proof -
  have acts: "set acts \<subseteq> {RemoveFile p, BindSocket p} \<and> (RemoveFile p \<in> set acts \<longrightarrow> ue_lstat env p = Ok Socket) \<and>
      (acts \<noteq> [] \<longrightarrow> (\<exists>parent. os_path_parent p = Some parent \<and> confined env parent))"
    using assms by (auto simp: bind_uds_def Let_def confinement_iff [symmetric]
        split: option.splits sum.splits if_splits io_error.splits)
  have "BindSocket p \<in> set acts \<or> (\<exists>e. r = Err (UdsRemove e))"
    if v: "validate_uds_path os c = Ok ()" "sc_uds_path c = p" "ue_lstat env = pr_lstat os"
      "\<forall>parent. pr_lstat os parent = Ok Directory \<longrightarrow> (\<exists>mode. pr_mode os parent = Some mode \<and> ue_stat env parent = Ok (True, mode))"
  proof -
    obtain parent where parent: "os_path_parent p = Some parent" "\<not> os_path_empty parent" "pr_lstat os parent = Ok Directory"
      using v(1,2) by (auto simp: validate_uds_path_def Let_def split: option.splits sum.splits if_splits io_error.splits)
    then obtain mode where mode: "pr_mode os parent = Some mode" "ue_stat env parent = Ok (True, mode)" using v(4) by blast
    have "\<not> (has_mode_bit mode 2 \<and> \<not> has_mode_bit mode 512)"
      "pr_lstat os p = Ok Socket \<or> pr_lstat os p = Err IoNotFound"
      using v(1,2) parent mode
      by (auto simp: validate_uds_path_def Let_def split: sum.splits if_splits io_error.splits file_type.splits)
    then show ?thesis
      using assms parent mode v(3) by (auto simp: bind_uds_def Let_def validate_parent_dir_confinement_def split: sum.splits)
  qed
  then show ?thesis using acts by blast
qed

theorem bind_uds_is_confined_witness:
  "set (snd (bind_uds \<lparr>ue_stat = (\<lambda>_. Ok (True, 493)), ue_lstat = (\<lambda>_. Ok Socket), ue_remove = Ok (), ue_bind = Ok (), ue_chmod = Ok ()\<rparr>
     \<lparr>op_absolute = True, op_components = [''run'', ''a.sock'']\<rparr>)) \<subseteq>
   {RemoveFile \<lparr>op_absolute = True, op_components = [''run'', ''a.sock'']\<rparr>, BindSocket \<lparr>op_absolute = True, op_components = [''run'', ''a.sock'']\<rparr>}"
  using bind_uds_is_confined [OF surjective_pairing] by blast

end
