(* ===== verification/Storage_Reaper.thy ===== *)
theory Storage_Reaper
  imports Recovery_Staging Active_Properties
begin

text \<open>
  \<^verbatim>\<open>file_mgr/storage_reaper.rs\<close>: the periodic sweep of stale temporary entries and old job logs.  The clock
  reading and the modification times of the entries are arguments; log output is left out.
\<close>

section \<open>The sweep\<close>


record sweep_report =
  sp_tmp_orphans_reaped :: nat
  sp_log_files_pruned :: nat
  sp_workspaces_scanned :: nat
  sp_failures :: nat


definition did_work :: "sweep_report \<Rightarrow> bool" where
  "did_work r \<longleftrightarrow> sp_tmp_orphans_reaped r > 0 \<or> sp_log_files_pruned r > 0"

definition count_failure :: "sweep_report \<Rightarrow> sweep_report" where
  "count_failure r = r\<lparr>sp_failures := Suc (sp_failures r)\<rparr>"












section \<open>One step\<close>









lemma count_failure_simps [simp]: "sp_failures (count_failure rep) = Suc (sp_failures rep)"
  by (simp add: count_failure_def)











section \<open>Entries and directories\<close>





section \<open>The whole sweep\<close>






















end
