(* ===== verification/Converter.thy ===== *)
theory Converter
  imports Head_Header Launch_Config Ids "HOL-Library.Code_Target_Nat"
begin

text \<open>
  \<^verbatim>\<open>converter.rs\<close> and \<^verbatim>\<open>converter/source.rs\<close>: reading the head of an uploaded TFJS model.  The manifest is validated
  under resource caps, the kernel and bias are located, their byte ranges are copied out of the shards one shard
  at a time, and the floats are decoded.  The JSON parser is an argument; its values are the library's value type with a
  number given by what \<open>as_u64\<close> answers for it.  Texts of messages are left out, the codes that tell the errors apart are kept.
\<close>

section \<open>Errors and limits\<close>

datatype convert_error =
    ConvertRead string io_error
  | ConvertWrite path io_error
  | ConvertRecord
  | ConvertTensor
  | MetadataSerialize
  | ConvertLabels
  | TfjsParse string
  | TfjsLocator
  | TfjsShortRead nat nat
  | TfjsDtype string string
  | TfjsUnsafePath string
  | TfjsShapeOverflow string "nat list"
  | TfjsBlobLength nat nat
  | LimitExceeded string nat nat
  | TfjsZeroDimension string "nat list"
  | NonFiniteWeight string nat u32
  | BadClassCount nat nat
  | ConvertNotImplemented
  | ConvertBusy

fun convert_error_kind :: "convert_error \<Rightarrow> error_kind" where
  "convert_error_kind (ConvertRead _ _) = Internal"
| "convert_error_kind (ConvertWrite _ _) = Internal"
| "convert_error_kind ConvertRecord = Internal"
| "convert_error_kind ConvertTensor = Internal"
| "convert_error_kind MetadataSerialize = Internal"
| "convert_error_kind ConvertNotImplemented = NotImplemented"
| "convert_error_kind ConvertBusy = Conflict"
| "convert_error_kind _ = UserInput"

record convert_limits =
  cl_max_n_classes :: nat
  cl_max_kernel_bytes :: nat
  cl_max_bias_bytes :: nat
  cl_max_manifest_bytes :: nat
  cl_max_shards :: nat

definition convert_limits_default :: convert_limits where
  "convert_limits_default =
     \<lparr>cl_max_n_classes = 10000, cl_max_kernel_bytes = 80 * 1024 * 1024, cl_max_bias_bytes = 1024 * 1024,
      cl_max_manifest_bytes = 1024 * 1024, cl_max_shards = 64\<rparr>"

definition backbone_feature_dim :: nat where "backbone_feature_dim = 2000"

definition checked_mul64 :: "nat \<Rightarrow> nat \<Rightarrow> nat option" where
  "checked_mul64 a b = (if a * b \<le> u64_max then Some (a * b) else None)"

definition checked_add64 :: "nat \<Rightarrow> nat \<Rightarrow> nat option" where
  "checked_add64 a b = (if a + b \<le> u64_max then Some (a + b) else None)"

section \<open>JSON values\<close>

datatype json =
    JNull
  | JBool bool
  | JNumber "nat option"
  | JString string
  | JArray "json list"
  | JObject "(string \<times> json) list"

fun json_get :: "string \<Rightarrow> json \<Rightarrow> json option" where
  "json_get key (JObject members) = map_of members key"
| "json_get key _ = None"

fun as_array :: "json \<Rightarrow> json list option" where
  "as_array (JArray vs) = Some vs"
| "as_array _ = None"

fun as_str :: "json \<Rightarrow> string option" where
  "as_str (JString s) = Some s"
| "as_str _ = None"

fun as_u64 :: "json \<Rightarrow> nat option" where
  "as_u64 (JNumber n) = n"
| "as_u64 _ = None"

section \<open>Shard paths\<close>

text \<open>\<open>Path::components\<close>: repeated separators and inner dots are dropped, a leading dot is not.\<close>

datatype path_component = RootDir | CurDir | ParentDir | NormalComp string

definition path_components :: "string \<Rightarrow> path_component list" where
  "path_components s =
     (let parts = split_on (CHR ''/'') s; absolute = prefix ''/'' s in
      (if absolute then [RootDir] else if hd parts = ''.'' then [CurDir] else []) @
      map (\<lambda>c. if c = ''..'' then ParentDir else NormalComp c) (filter (\<lambda>c. c \<noteq> '''' \<and> c \<noteq> ''.'') parts))"

definition validate_shard_path :: "string \<Rightarrow> (convert_error, unit) result" where
  "validate_shard_path s =
     (if s = '''' \<or> CHR 0x5C \<in> set s \<or> CHR 0x00 \<in> set s then Err (TfjsUnsafePath s)
      else if prefix ''/'' s then Err (TfjsUnsafePath s)
      else if list_all (\<lambda>c. case c of NormalComp _ \<Rightarrow> True | _ \<Rightarrow> False) (path_components s) then Ok ()
      else Err (TfjsUnsafePath s))"

section \<open>The manifest\<close>

record tfjs_entry =
  te_name :: string
  te_shape :: "nat list"
  te_offset_bytes :: nat
  te_len_bytes :: nat

record tfjs_manifest =
  tm_entries :: "tfjs_entry list"
  tm_shards :: "string list"

fun parse_paths :: "convert_limits \<Rightarrow> json list \<Rightarrow> string list \<Rightarrow> (convert_error, string list) result" where
  "parse_paths limits [] shards = Ok shards"
| "parse_paths limits (p # ps) shards =
     (case as_str p of
        None \<Rightarrow> Err (TfjsParse ''weightsManifest[i].paths[j]'')
      | Some s \<Rightarrow>
          and_then (validate_shard_path s) (\<lambda>_.
          if length shards \<ge> cl_max_shards limits
          then Err (LimitExceeded ''shards'' (saturating_add64 (length shards) 1) (cl_max_shards limits))
          else parse_paths limits ps (shards @ [s])))"

fun parse_shape :: "string \<Rightarrow> json list \<Rightarrow> nat list \<Rightarrow> (convert_error, nat list) result" where
  "parse_shape name [] shape = Ok shape"
| "parse_shape name (d # ds) shape =
     (case as_u64 d of
        None \<Rightarrow> Err (TfjsParse ''weight.shape[]'')
      | Some n \<Rightarrow> if n > u64_max then Err (TfjsShapeOverflow name shape) else parse_shape name ds (shape @ [n]))"

fun shape_count :: "nat list \<Rightarrow> nat \<Rightarrow> nat option" where
  "shape_count [] c = Some c"
| "shape_count (d # ds) c = (case checked_mul64 c d of None \<Rightarrow> None | Some c' \<Rightarrow> shape_count ds c')"

definition parse_weight :: "convert_limits \<Rightarrow> json \<Rightarrow> nat \<Rightarrow> (convert_error, tfjs_entry) result" where
  "parse_weight limits w offset =
     (case Option.bind (json_get ''name'' w) as_str of
        None \<Rightarrow> Err (TfjsParse ''weight.name'')
      | Some name \<Rightarrow>
          let dtype = (case Option.bind (json_get ''dtype'' w) as_str of None \<Rightarrow> ''float32'' | Some d \<Rightarrow> d) in
          if dtype \<noteq> ''float32'' then Err (TfjsDtype name dtype)
          else case Option.bind (json_get ''shape'' w) as_array of
              None \<Rightarrow> Err (TfjsParse ''weight.shape'')
            | Some shape_arr \<Rightarrow>
                and_then (parse_shape name shape_arr []) (\<lambda>shape.
                if 0 \<in> set shape then Err (TfjsZeroDimension name shape)
                else case shape_count shape 1 of
                    None \<Rightarrow> Err (TfjsShapeOverflow name shape)
                  | Some cnt \<Rightarrow>
                      (case checked_mul64 cnt 4 of
                         None \<Rightarrow> Err (TfjsShapeOverflow name shape)
                       | Some len_bytes \<Rightarrow>
                           if length shape = 2 \<and> shape ! 0 = backbone_feature_dim \<and> shape ! 1 > cl_max_n_classes limits
                           then Err (LimitExceeded ''n_classes'' (shape ! 1) (cl_max_n_classes limits))
                           else if length shape = 1 \<and> shape ! 0 > cl_max_n_classes limits
                           then Err (LimitExceeded ''n_classes'' (shape ! 0) (cl_max_n_classes limits))
                           else if len_bytes > cl_max_kernel_bytes limits
                           then Err (LimitExceeded ''tensor_bytes'' len_bytes (cl_max_kernel_bytes limits))
                           else Ok \<lparr>te_name = name, te_shape = shape, te_offset_bytes = offset, te_len_bytes = len_bytes\<rparr>)))"

fun parse_weights :: "convert_limits \<Rightarrow> json list \<Rightarrow> tfjs_entry list \<Rightarrow> nat \<Rightarrow> (convert_error, tfjs_entry list \<times> nat) result" where
  "parse_weights limits [] entries offset = Ok (entries, offset)"
| "parse_weights limits (w # ws) entries offset =
     and_then (parse_weight limits w offset) (\<lambda>entry.
     case checked_add64 offset (te_len_bytes entry) of
       None \<Rightarrow> Err (TfjsShapeOverflow ''<cumulative offset>'' [])
     | Some offset' \<Rightarrow> parse_weights limits ws (entries @ [entry]) offset')"

fun parse_groups ::
  "convert_limits \<Rightarrow> json list \<Rightarrow> tfjs_entry list \<Rightarrow> string list \<Rightarrow> nat \<Rightarrow> (convert_error, tfjs_manifest) result"
where
  "parse_groups limits [] entries shards offset = Ok \<lparr>tm_entries = entries, tm_shards = shards\<rparr>"
| "parse_groups limits (grp # groups) entries shards offset =
     (case Option.bind (json_get ''paths'' grp) as_array of
        None \<Rightarrow> Err (TfjsParse ''weightsManifest[i].paths'')
      | Some paths \<Rightarrow>
          and_then (parse_paths limits paths shards) (\<lambda>shards'.
          case Option.bind (json_get ''weights'' grp) as_array of
            None \<Rightarrow> Err (TfjsParse ''weightsManifest[i].weights'')
          | Some weights \<Rightarrow>
              and_then (parse_weights limits weights entries offset) (\<lambda>(entries', offset').
              parse_groups limits groups entries' shards' offset')))"

definition parse_tfjs_manifest_with_limits ::
  "(bytes \<Rightarrow> json option) \<Rightarrow> convert_limits \<Rightarrow> bytes \<Rightarrow> (convert_error, tfjs_manifest) result"
where
  "parse_tfjs_manifest_with_limits parse_json limits model_json_bytes =
     (if length model_json_bytes > cl_max_manifest_bytes limits
      then Err (LimitExceeded ''manifest_bytes'' (length model_json_bytes) (cl_max_manifest_bytes limits))
      else case parse_json model_json_bytes of
          None \<Rightarrow> Err (TfjsParse ''model.json'')
        | Some v \<Rightarrow>
            (case Option.bind (json_get ''weightsManifest'' v) as_array of
               None \<Rightarrow> Err (TfjsParse ''weightsManifest'')
             | Some manifest \<Rightarrow>
                 if manifest = [] then Err (TfjsParse ''weightsManifest'')
                 else and_then (parse_groups limits manifest [] [] 0) (\<lambda>m.
                   if tm_entries m = [] then Err (TfjsParse ''weightsManifest'')
                   else if tm_shards m = [] then Err (TfjsParse ''weightsManifest'')
                   else Ok m)))"

definition list_tfjs_shard_paths :: "(bytes \<Rightarrow> json option) \<Rightarrow> bytes \<Rightarrow> (convert_error, string list) result" where
  "list_tfjs_shard_paths parse_json model_json_bytes =
     map_sum id tm_shards (parse_tfjs_manifest_with_limits parse_json convert_limits_default model_json_bytes)"

text \<open>The head by its conventional name, or by the only shape that fits.\<close>

definition pick_tfjs_head_entries :: "tfjs_manifest \<Rightarrow> (convert_error, tfjs_entry \<times> tfjs_entry) result" where
  "pick_tfjs_head_entries manifest =
     (let entries = tm_entries manifest;
          kernel = find (\<lambda>e. ends_with ''NewHeadDense/kernel'' (te_name e)) entries;
          bias = find (\<lambda>e. ends_with ''NewHeadDense/bias'' (te_name e)) entries in
      case (kernel, bias) of
        (Some k, Some b) \<Rightarrow> Ok (k, b)
      | _ \<Rightarrow>
          (case filter (\<lambda>e. length (te_shape e) = 2 \<and> te_shape e ! 0 = backbone_feature_dim) entries of
             [k] \<Rightarrow>
               (case filter (\<lambda>e. te_shape e = [te_shape k ! 1]) entries of
                  [b] \<Rightarrow> Ok (k, b)
                | _ \<Rightarrow> Err TfjsLocator)
           | _ \<Rightarrow> Err TfjsLocator))"

section \<open>Reading the head\<close>

text \<open>The part of a shard that overlaps an entry is copied into the entry's buffer; slices out of range panic.\<close>

definition copy_overlap :: "nat \<Rightarrow> bytes \<Rightarrow> tfjs_entry \<Rightarrow> bytes \<Rightarrow> bytes run" where
  "copy_overlap shard_start bs entry out =
     (let shard_end = shard_start + length bs;
          entry_end = saturating_add64 (te_offset_bytes entry) (te_len_bytes entry);
          overlap_start = max (te_offset_bytes entry) shard_start;
          overlap_end = min entry_end shard_end in
      if overlap_start \<ge> overlap_end then Done out
      else let in_shard = overlap_start - shard_start;
               in_buffer = overlap_start - te_offset_bytes entry;
               copy_len = overlap_end - overlap_start in
        if in_buffer + copy_len \<le> length out \<and> in_shard + copy_len \<le> length bs
        then Done (take in_buffer out @ slice in_shard (in_shard + copy_len) bs @ drop (in_buffer + copy_len) out)
        else Panic)"

type_synonym shard_reader = "string \<Rightarrow> (io_error, bytes) result"

text \<open>
  The loop over the shards, with the two buffers, the bytes fed to the hasher when there is one, and the number of
  bytes seen.
\<close>

fun stream_shards ::
  "shard_reader \<Rightarrow> tfjs_entry \<Rightarrow> tfjs_entry \<Rightarrow> string list \<Rightarrow> bytes \<Rightarrow> bytes \<Rightarrow> bytes option \<Rightarrow> nat \<Rightarrow>
   (convert_error, bytes \<times> bytes \<times> bytes option \<times> nat) result run"
where
  "stream_shards read k b [] kbuf bias hashed cumulative = Done (Ok (kbuf, bias, hashed, cumulative))"
| "stream_shards read k b (shard # shards) kbuf bias hashed cumulative =
     (case read shard of
        Inl e \<Rightarrow> Done (Err (ConvertRead shard e))
      | Inr bs \<Rightarrow>
          (case checked_add64 cumulative (length bs) of
             None \<Rightarrow> Done (Err (TfjsShapeOverflow ''<cumulative shard offset>'' []))
           | Some shard_end \<Rightarrow>
               run_bind (copy_overlap cumulative bs k kbuf) (\<lambda>kbuf'.
               run_bind (copy_overlap cumulative bs b bias) (\<lambda>bias'.
               stream_shards read k b shards kbuf' bias' (map_option (\<lambda>h. h @ bs) hashed) shard_end))))"

definition read_head_bytes_streaming ::
  "shard_reader \<Rightarrow> tfjs_manifest \<Rightarrow> tfjs_entry \<Rightarrow> tfjs_entry \<Rightarrow> bytes option \<Rightarrow>
   (convert_error, bytes \<times> bytes \<times> bytes option) result run"
where
  "read_head_bytes_streaming read manifest k b hasher =
     (let declared_total = foldl (\<lambda>n e. wrapping_add64 n (te_len_bytes e)) 0 (tm_entries manifest) in
      run_bind (stream_shards read k b (tm_shards manifest) (replicate (te_len_bytes k) 0) (replicate (te_len_bytes b) 0) hasher 0) (\<lambda>r.
      Done (and_then r (\<lambda>(kernel, bias, hashed, cumulative).
        if cumulative \<noteq> declared_total then Err (TfjsBlobLength cumulative declared_total) else Ok (kernel, bias, hashed)))))"

record head_weights =
  hw_kernel :: "u32 list"
  hw_bias :: "u32 list"
  hw_n_classes :: nat
  hw_in_dim :: nat

definition validate_head_class_count :: "nat \<Rightarrow> convert_limits \<Rightarrow> (convert_error, unit) result" where
  "validate_head_class_count n limits =
     (if n = 0 \<or> n > cl_max_n_classes limits then Err (BadClassCount n (cl_max_n_classes limits)) else Ok ())"

text \<open>The floats are kept as their bit patterns.\<close>

fun decode_finite :: "string \<Rightarrow> nat \<Rightarrow> bytes list \<Rightarrow> (convert_error, u32 list) result" where
  "decode_finite tensor i [] = Ok []"
| "decode_finite tensor i (c # cs) =
     (let v = u32_from_le_bytes c in
      if \<not> f32_is_finite v then Err (NonFiniteWeight tensor i v)
      else map_sum id (Cons v) (decode_finite tensor (Suc i) cs))"

definition read_f32_at_checked :: "bytes \<Rightarrow> nat \<Rightarrow> nat \<Rightarrow> string \<Rightarrow> (convert_error, u32 list) result run" where
  "read_f32_at_checked bs offset cnt tensor =
     (let end' = wrapping_add64 offset (cnt * 4 mod 2 ^ 64) in
      if offset \<le> end' \<and> end' \<le> length bs then Done (decode_finite tensor 0 (chunks 4 (slice offset end' bs))) else Panic)"

definition head_shape :: "tfjs_entry \<Rightarrow> tfjs_entry \<Rightarrow> (convert_error, nat) result" where
  "head_shape k b =
     (if length (te_shape k) \<noteq> 2 \<or> te_shape k ! 0 \<noteq> backbone_feature_dim then Err TfjsLocator
      else if te_shape b \<noteq> [te_shape k ! 1] then Err TfjsLocator
      else Ok (te_shape k ! 1))"

definition decode_head :: "tfjs_entry \<Rightarrow> tfjs_entry \<Rightarrow> bytes \<Rightarrow> nat \<Rightarrow> bytes \<Rightarrow> nat \<Rightarrow> nat \<Rightarrow> (convert_error, head_weights) result run" where
  "decode_head k b kbs koff bbs boff n =
     run_bind (read_f32_at_checked kbs koff (backbone_feature_dim * n) (te_name k)) (\<lambda>r.
     case r of
       Inl e \<Rightarrow> Done (Err e)
     | Inr kweights \<Rightarrow>
         run_bind (read_f32_at_checked bbs boff n (te_name b)) (\<lambda>bias.
         Done (and_then bias (\<lambda>bias.
           Ok \<lparr>hw_kernel = kweights, hw_bias = bias, hw_n_classes = n, hw_in_dim = backbone_feature_dim\<rparr>))))"

definition head_weights_from_head_byte_ranges ::
  "tfjs_entry \<Rightarrow> tfjs_entry \<Rightarrow> bytes \<Rightarrow> bytes \<Rightarrow> (convert_error, head_weights) result run"
where
  "head_weights_from_head_byte_ranges k b kernel_bytes bias_bytes =
     (let limits = convert_limits_default in
      case head_shape k b of
        Inl e \<Rightarrow> Done (Err e)
      | Inr n \<Rightarrow>
          (case validate_head_class_count n limits of
             Inl e \<Rightarrow> Done (Err e)
           | Inr _ \<Rightarrow>
               (case Option.bind (checked_mul64 backbone_feature_dim n) (\<lambda>c. checked_mul64 c 4) of
                  None \<Rightarrow> Done (Err (TfjsShapeOverflow (te_name k) (te_shape k)))
                | Some kernel_need \<Rightarrow>
                    if kernel_need > cl_max_kernel_bytes limits
                    then Done (Err (LimitExceeded ''kernel_bytes'' kernel_need (cl_max_kernel_bytes limits)))
                    else if length kernel_bytes \<noteq> kernel_need then Done (Err (TfjsShortRead (length kernel_bytes) kernel_need))
                    else case checked_mul64 n 4 of
                        None \<Rightarrow> Done (Err (TfjsShapeOverflow (te_name b) (te_shape b)))
                      | Some bias_need \<Rightarrow>
                          if bias_need > cl_max_bias_bytes limits
                          then Done (Err (LimitExceeded ''bias_bytes'' bias_need (cl_max_bias_bytes limits)))
                          else if length bias_bytes \<noteq> bias_need then Done (Err (TfjsShortRead (length bias_bytes) bias_need))
                          else decode_head k b kernel_bytes 0 bias_bytes 0 n)))"

definition extract_head_from_tfjs_buffers :: "tfjs_manifest \<Rightarrow> bytes \<Rightarrow> (convert_error, head_weights) result run" where
  "extract_head_from_tfjs_buffers manifest blob =
     (let declared = (if tm_entries manifest = [] then 0
            else wrapping_add64 (te_offset_bytes (last (tm_entries manifest))) (te_len_bytes (last (tm_entries manifest)))) in
      if length blob \<noteq> declared then Done (Err (TfjsBlobLength (length blob) declared))
      else case pick_tfjs_head_entries manifest of
          Inl e \<Rightarrow> Done (Err e)
        | Inr (k, b) \<Rightarrow>
            (case head_shape k b of
               Inl e \<Rightarrow> Done (Err e)
             | Inr n \<Rightarrow>
                 (case validate_head_class_count n convert_limits_default of
                    Inl e \<Rightarrow> Done (Err e)
                  | Inr _ \<Rightarrow>
                      let need = max (saturating_add64 (te_offset_bytes k) (te_len_bytes k)) (saturating_add64 (te_offset_bytes b) (te_len_bytes b)) in
                      if length blob < need then Done (Err (TfjsShortRead (length blob) need))
                      else case checked_mul64 backbone_feature_dim n of
                          None \<Rightarrow> Done (Err (TfjsShapeOverflow (te_name k) (te_shape k)))
                        | Some _ \<Rightarrow> decode_head k b blob (te_offset_bytes k) blob (te_offset_bytes b) n)))"

text \<open>A model directory: its manifest and shards are read with \<open>read\<close>; \<open>digest\<close> is SHA-256.\<close>

record loaded_source =
  ls_weights :: head_weights
  ls_source_sha256 :: string

definition load_tfjs_head ::
  "(bytes \<Rightarrow> json option) \<Rightarrow> convert_limits \<Rightarrow> shard_reader \<Rightarrow> bool \<Rightarrow> (convert_error, head_weights \<times> bytes option) result run"
where
  "load_tfjs_head parse_json limits read hashing =
     (case read ''model.json'' of
        Inl e \<Rightarrow> Done (Err (ConvertRead ''model.json'' e))
      | Inr json_bytes \<Rightarrow>
          (case parse_tfjs_manifest_with_limits parse_json limits json_bytes of
             Inl e \<Rightarrow> Done (Err e)
           | Inr manifest \<Rightarrow>
               (case pick_tfjs_head_entries manifest of
                  Inl e \<Rightarrow> Done (Err e)
                | Inr (k, b) \<Rightarrow>
                    run_bind (read_head_bytes_streaming read manifest k b (if hashing then Some json_bytes else None)) (\<lambda>r.
                    case r of
                      Inl e \<Rightarrow> Done (Err e)
                    | Inr (kernel_bytes, bias_bytes, hashed) \<Rightarrow>
                        run_bind (head_weights_from_head_byte_ranges k b kernel_bytes bias_bytes) (\<lambda>w.
                        Done (map_sum id (\<lambda>w. (w, hashed)) w))))))"

definition extract_head_from_tfjs_dir :: "(bytes \<Rightarrow> json option) \<Rightarrow> shard_reader \<Rightarrow> (convert_error, head_weights) result run" where
  "extract_head_from_tfjs_dir parse_json read =
     run_bind (load_tfjs_head parse_json convert_limits_default read False) (\<lambda>r. Done (map_sum id fst r))"

definition tfjs_source_load ::
  "(bytes \<Rightarrow> json option) \<Rightarrow> (bytes \<Rightarrow> bytes) \<Rightarrow> convert_limits \<Rightarrow> shard_reader \<Rightarrow> (convert_error, loaded_source) result run"
where
  "tfjs_source_load parse_json digest limits read =
     run_bind (load_tfjs_head parse_json limits read True) (\<lambda>r.
     Done (map_sum id (\<lambda>(w, hashed). \<lparr>ls_weights = w, ls_source_sha256 = hex_lowercase (digest (case hashed of None \<Rightarrow> [] | Some h \<Rightarrow> h))\<rparr>) r))"

definition extract_head_from_tfjs ::
  "(bytes \<Rightarrow> json option) \<Rightarrow> (io_error, bytes) result \<Rightarrow> (io_error, bytes) result \<Rightarrow> (convert_error, head_weights) result run"
where
  "extract_head_from_tfjs parse_json model_json weights_bin =
     (case model_json of
        Inl e \<Rightarrow> Done (Err (ConvertRead ''model.json'' e))
      | Inr json_bytes \<Rightarrow>
          (case parse_tfjs_manifest_with_limits parse_json convert_limits_default json_bytes of
             Inl e \<Rightarrow> Done (Err e)
           | Inr manifest \<Rightarrow>
               if length (tm_shards manifest) \<noteq> 1 then Done (Err (TfjsParse ''weightsManifest''))
               else case weights_bin of
                   Inl e \<Rightarrow> Done (Err (ConvertRead ''weights.bin'' e))
                 | Inr blob \<Rightarrow> extract_head_from_tfjs_buffers manifest blob))"

section \<open>Labels\<close>

fun label_strings :: "json list \<Rightarrow> (convert_error, string list) result" where
  "label_strings [] = Ok []"
| "label_strings (e # es) =
     (case as_str e of None \<Rightarrow> Err ConvertLabels | Some s \<Rightarrow> map_sum id (Cons s) (label_strings es))"

definition read_tfjs_labels :: "(bytes \<Rightarrow> json option) \<Rightarrow> string \<Rightarrow> (io_error, bytes) result \<Rightarrow> (convert_error, string list) result" where
  "read_tfjs_labels parse_json metadata_json contents =
     (case contents of
        Inl e \<Rightarrow> Err (ConvertRead metadata_json e)
      | Inr bs \<Rightarrow>
          (case parse_json bs of
             None \<Rightarrow> Err ConvertLabels
           | Some v \<Rightarrow>
               (case (Option.bind (json_get ''wordLabels'' v) as_array, Option.bind (json_get ''words'' v) as_array) of
                  (None, None) \<Rightarrow> Err ConvertLabels
                | (Some arr, _) \<Rightarrow> and_then (label_strings arr) (\<lambda>out. if out = [] then Err ConvertLabels else Ok out)
                | (None, Some arr) \<Rightarrow> and_then (label_strings arr) (\<lambda>out. if out = [] then Err ConvertLabels else Ok out))))"

definition read_labels_from_path ::
  "(bytes \<Rightarrow> json option) \<Rightarrow> string \<Rightarrow> (io_error, bytes) result \<Rightarrow> labels_format \<Rightarrow> nat \<Rightarrow> (convert_error, string list) result"
where
  "read_labels_from_path parse_json labels_path contents format expected_n_classes =
     and_then
       (case format of
          Lines \<Rightarrow>
            (case contents of
               Inl e \<Rightarrow> Err (ConvertRead labels_path e)
             | Inr bs \<Rightarrow>
                 if \<not> utf8_check (bytes_text bs) then Err (ConvertRead labels_path IoInvalidData)
                 else Ok (filter (\<lambda>s. s \<noteq> []) (map str_trim (str_lines (bytes_text bs)))))
        | TfjsMetadata \<Rightarrow> read_tfjs_labels parse_json labels_path contents)
       (\<lambda>labels. if length labels \<noteq> expected_n_classes then Err ConvertLabels else Ok labels)"

text \<open>The artifact: header and recorded payload; the recorder is an argument.\<close>

definition build_head_mpk_blob :: "(head_weights \<Rightarrow> bytes option) \<Rightarrow> head_weights \<Rightarrow> (convert_error, bytes) result" where
  "build_head_mpk_blob record_head weights =
     and_then (validate_head_class_count (hw_n_classes weights) convert_limits_default) (\<lambda>_.
     if hw_in_dim weights \<noteq> backbone_feature_dim then Err ConvertTensor
     else case record_head weights of
         None \<Rightarrow> Err ConvertRecord
       | Some payload \<Rightarrow>
           Ok (serialize_header (word_of_nat (hw_in_dim weights)) (word_of_nat (hw_n_classes weights)) (word_of_nat (length payload)) @ payload))"

end
