(* ===== verification/Converter_Properties.thy ===== *)
theory Converter_Properties
  imports Converter
begin

text \<open>
  What a converted head is: the manifest that passes the parser is bounded and lays its tensors out without gaps,
  the shard-by-shard reader equals slicing the concatenation of the shards, and the decoded weights are the uploaded bytes.
\<close>

section \<open>Accepted manifests\<close>

definition entry_fits :: "convert_limits \<Rightarrow> tfjs_entry \<Rightarrow> bool" where
  "entry_fits limits e \<longleftrightarrow>
     0 \<notin> set (te_shape e) \<and> te_len_bytes e = 4 * prod_list (te_shape e) \<and> te_len_bytes e \<le> cl_max_kernel_bytes limits \<and>
     (length (te_shape e) = 1 \<longrightarrow> te_shape e ! 0 \<le> cl_max_n_classes limits) \<and>
     (length (te_shape e) = 2 \<and> te_shape e ! 0 = backbone_feature_dim \<longrightarrow> te_shape e ! 1 \<le> cl_max_n_classes limits)"

fun contiguous :: "nat \<Rightarrow> tfjs_entry list \<Rightarrow> bool" where
  "contiguous offset [] = True"
| "contiguous offset (e # es) = (te_offset_bytes e = offset \<and> contiguous (offset + te_len_bytes e) es)"

abbreviation total_bytes :: "tfjs_entry list \<Rightarrow> nat" where
  "total_bytes es \<equiv> sum_list (map te_len_bytes es)"

lemma contiguous_append:
  "contiguous offset (es @ fs) \<longleftrightarrow> contiguous offset es \<and> contiguous (offset + total_bytes es) fs"
  by (induction es arbitrary: offset) (auto simp: add.assoc)

lemma contiguous_inside:
  "contiguous offset es \<Longrightarrow> e \<in> set es \<Longrightarrow> offset \<le> te_offset_bytes e \<and> te_offset_bytes e + te_len_bytes e \<le> offset + total_bytes es"
  by (induction es arbitrary: offset) (fastforce simp: add.assoc)+

lemma contiguous_last:
  "contiguous offset es \<Longrightarrow> es \<noteq> [] \<Longrightarrow> te_offset_bytes (last es) + te_len_bytes (last es) = offset + total_bytes es"
  by (induction es arbitrary: offset) (auto simp: add.assoc)

lemma shape_count_Some: "shape_count ds c = Some m \<Longrightarrow> m = c * prod_list ds"
  by (induction ds arbitrary: c) (fastforce simp: checked_mul64_def mult.assoc split: if_splits)+

lemma parse_weight_Ok:
  assumes "parse_weight limits w offset = Ok e"
  shows "entry_fits limits e \<and> te_offset_bytes e = offset"
proof -
  obtain name shape_arr shape cnt where *: "0 \<notin> set shape" "shape_count shape 1 = Some cnt" "cnt * 4 \<le> cl_max_kernel_bytes limits"
    "e = \<lparr>te_name = name, te_shape = shape, te_offset_bytes = offset, te_len_bytes = cnt * 4\<rparr>"
    "length shape = 2 \<and> shape ! 0 = backbone_feature_dim \<longrightarrow> shape ! 1 \<le> cl_max_n_classes limits"
    "length shape = 1 \<longrightarrow> shape ! 0 \<le> cl_max_n_classes limits"
    using assms unfolding parse_weight_def
    by (auto simp: and_then_def checked_mul64_def Let_def split: option.splits if_splits sum.splits)
  then show ?thesis using shape_count_Some [OF *(2)] by (auto simp: entry_fits_def)
qed

definition layout_ok :: "convert_limits \<Rightarrow> tfjs_entry list \<Rightarrow> nat \<Rightarrow> bool" where
  "layout_ok limits es offset \<longleftrightarrow>
     contiguous 0 es \<and> offset = total_bytes es \<and> offset \<le> u64_max \<and> (\<forall>e \<in> set es. entry_fits limits e)"

lemma parse_weights_Ok:
  assumes "parse_weights limits ws entries offset = Ok (entries', offset')" and "layout_ok limits entries offset"
  shows "layout_ok limits entries' offset'"
  using assms
proof (induction limits ws entries offset rule: parse_weights.induct)
  case (2 limits w ws entries offset)
  then obtain e o2 where e: "parse_weight limits w offset = Ok e" "checked_add64 offset (te_len_bytes e) = Some o2"
    "parse_weights limits ws (entries @ [e]) o2 = Ok (entries', offset')"
    by (auto simp: and_then_def split: sum.splits option.splits)
  have "layout_ok limits (entries @ [e]) o2"
    using parse_weight_Ok [OF e(1)] e(2) 2(3) by (auto simp: layout_ok_def contiguous_append checked_add64_def split: if_splits)
  then show ?case using "2.IH" [OF e(2,3)] by blast
qed simp

lemma parse_paths_Ok:
  assumes "parse_paths limits ps shards = Ok shards'" and "length shards \<le> cl_max_shards limits" and "\<forall>s \<in> set shards. validate_shard_path s = Ok ()"
  shows "length shards' \<le> cl_max_shards limits \<and> (\<forall>s \<in> set shards'. validate_shard_path s = Ok ())"
  using assms
  by (induction limits ps shards rule: parse_paths.induct) (auto simp: and_then_def split: option.splits sum.splits if_splits)

definition manifest_fits :: "convert_limits \<Rightarrow> tfjs_manifest \<Rightarrow> bool" where
  "manifest_fits limits m \<longleftrightarrow>
     layout_ok limits (tm_entries m) (total_bytes (tm_entries m)) \<and> length (tm_shards m) \<le> cl_max_shards limits \<and>
     (\<forall>s \<in> set (tm_shards m). validate_shard_path s = Ok ())"

lemma parse_groups_Ok:
  assumes "parse_groups limits gs entries shards offset = Ok m" and "layout_ok limits entries offset"
    and "length shards \<le> cl_max_shards limits" and "\<forall>s \<in> set shards. validate_shard_path s = Ok ()"
  shows "manifest_fits limits m"
  using assms
proof (induction limits gs entries shards offset rule: parse_groups.induct)
  case (1 limits entries shards offset)
  then show ?case by (auto simp: manifest_fits_def layout_ok_def)
next
  case (2 limits g gs entries shards offset)
  from 2(2) obtain paths weights shards' es' o' where p: "Option.bind (json_get ''paths'' g) as_array = Some paths" "parse_paths limits paths shards = Ok shards'"
    "Option.bind (json_get ''weights'' g) as_array = Some weights" "parse_weights limits weights entries offset = Ok (es', o')"
    "parse_groups limits gs es' shards' o' = Ok m"
    by (auto simp: and_then_def split: option.splits sum.splits)
  show ?case
    using "2.IH" [OF p(1,3,5) parse_weights_Ok [OF p(4) 2(3)]] parse_paths_Ok [OF p(2) 2(4,5)] by blast
qed

lemma parse_manifest_Ok:
  assumes "parse_tfjs_manifest_with_limits parse_json limits bs = Ok m"
  shows "manifest_fits limits m" "tm_entries m \<noteq> []" "tm_shards m \<noteq> []" "length bs \<le> cl_max_manifest_bytes limits"
  using assms parse_groups_Ok [of limits _ "[]" "[]" 0 m]
  by (auto simp: parse_tfjs_manifest_with_limits_def and_then_def layout_ok_def split: if_splits option.splits sum.splits)

lemma split_on_first: "split_on c s ! 0 = takeWhile (\<lambda>x. x \<noteq> c) s"
  by (induction s) (auto split: list.splits)

lemma shard_path_normal:
  assumes "validate_shard_path s = Ok ()"
  shows "\<exists>cs. cs \<noteq> [] \<and> path_components s = map NormalComp cs \<and> (\<forall>c \<in> set cs. c \<notin> {'''', ''.'', ''..''} \<and> CHR ''/'' \<notin> set c)"
proof -
  let ?parts = "filter (\<lambda>c. c \<noteq> '''' \<and> c \<noteq> ''.'') (split_on (CHR ''/'') s)"
  have v: "s \<noteq> ''''" "\<not> prefix ''/'' s" "list_all (\<lambda>c. case c of NormalComp _ \<Rightarrow> True | _ \<Rightarrow> False) (path_components s)"
    using assms by (auto simp: validate_shard_path_def split: if_splits)
  have lead: "hd (split_on (CHR ''/'') s) \<noteq> ''.''" and dd: "''..'' \<notin> set ?parts"
    using v(2,3) by (auto simp: path_components_def Let_def list_all_iff split: if_splits)
  then have comps: "path_components s = map NormalComp ?parts" using v(2) by (auto simp: path_components_def Let_def)
  have hd0: "hd (split_on (CHR ''/'') s) = takeWhile (\<lambda>x. x \<noteq> CHR ''/'') s" using split_on_first [of "CHR ''/''" s] by (simp add: hd_conv_nth)
  have "takeWhile (\<lambda>x. x \<noteq> CHR ''/'') s \<noteq> []" using v(1,2) by (cases s) auto
  then have "hd (split_on (CHR ''/'') s) \<in> set ?parts" using lead hd0 hd_in_set [OF split_on_not_Nil, of "CHR ''/''" s] by simp
  then have "?parts \<noteq> []" by force
  moreover have "CHR ''/'' \<notin> set c" if "c \<in> set ?parts" for c using that split_on_no_sep by fastforce
  ultimately show ?thesis using comps dd by (intro exI [of _ ?parts]) auto
qed

section \<open>Shard by shard\<close>

text \<open>The buffer of an entry after the bytes \<open>C\<close> of the shards so far.\<close>

definition seen :: "tfjs_entry \<Rightarrow> bytes \<Rightarrow> bytes" where
  "seen e C = map (\<lambda>i. if te_offset_bytes e + i < length C then C ! (te_offset_bytes e + i) else 0) [0 ..< te_len_bytes e]"

lemma seen_simps [simp]:
  "length (seen e C) = te_len_bytes e"
  "i < te_len_bytes e \<Longrightarrow> seen e C ! i = (if te_offset_bytes e + i < length C then C ! (te_offset_bytes e + i) else 0)"
  by (simp_all add: seen_def)

lemma seen_nothing: "seen e [] = replicate (te_len_bytes e) 0"
  by (rule nth_equalityI) simp_all

lemma seen_all:
  assumes "te_offset_bytes e + te_len_bytes e \<le> length C"
  shows "seen e C = slice (te_offset_bytes e) (te_offset_bytes e + te_len_bytes e) C"
  using assms by (intro nth_equalityI) (auto simp: nth_slice)

lemma nth_splice:
  assumes "a + n \<le> length xs" and "length ys = n" and "i < length xs"
  shows "(take a xs @ ys @ drop (a + n) xs) ! i = (if i < a then xs ! i else if i < a + n then ys ! (i - a) else xs ! i)"
  using assms by (auto simp: nth_append)

lemma copy_overlap_seen:
  assumes "te_offset_bytes e + te_len_bytes e \<le> u64_max"
  shows "copy_overlap (length C) bs e (seen e C) = Done (seen e (C @ bs))"
proof -
  let ?o = "te_offset_bytes e" and ?l = "te_len_bytes e"
  let ?s = "max ?o (length C)" and ?e = "min (?o + ?l) (length C + length bs)"
  have sat: "saturating_add64 ?o ?l = ?o + ?l" using assms by (intro saturating_add64_exact) simp
  show ?thesis
  proof (cases "?s \<ge> ?e")
    case True
    then have "seen e C = seen e (C @ bs)" by (intro nth_equalityI) (auto simp: nth_append)
    then show ?thesis using True by (simp add: copy_overlap_def sat Let_def)
  next
    case False
    define a b n where abn: "a = ?s - ?o" "b = ?s - length C" "n = ?e - ?s"
    have fits: "a + n \<le> ?l" "b + n \<le> length bs" using False abn by linarith+
    let ?out = "take a (seen e C) @ slice b (b + n) bs @ drop (a + n) (seen e C)"
    have len: "length ?out = ?l" using fits by simp
    have "?out = seen e (C @ bs)"
    proof (rule nth_equalityI)
      fix i assume "i < length ?out"
      then have i: "i < ?l" using len by simp
      have "?out ! i = (if i < a then seen e C ! i else if i < a + n then slice b (b + n) bs ! (i - a) else seen e C ! i)"
        by (rule nth_splice) (use fits i in simp_all)
      also have "\<dots> = seen e (C @ bs) ! i"
      proof -
        consider "i < a" | "\<not> i < a" "i < a + n" | "\<not> i < a + n" by linarith
        then show ?thesis
        proof cases
          case 1
          then have "?o + i < length C" using abn by linarith
          then show ?thesis using 1 i by (simp add: nth_append)
        next
          case 2
          then have "\<not> ?o + i < length C" "?o + i < length C + length bs" "b + (i - a) = ?o + i - length C" "b + (i - a) < b + n"
            using False abn by linarith+
          then show ?thesis using 2 i fits by (simp add: nth_append nth_slice)
        next
          case 3
          then have "\<not> ?o + i < length C" "\<not> ?o + i < length C + length bs" "\<not> i < a" using i False abn by linarith+
          then show ?thesis using 3 i by simp
        qed
      qed
      finally show "?out ! i = seen e (C @ bs) ! i" .
    qed (use len in simp)
    then show ?thesis using False fits by (simp add: copy_overlap_def sat Let_def abn [symmetric])
  qed
qed

definition shard_bytes :: "shard_reader \<Rightarrow> string \<Rightarrow> bytes" where
  "shard_bytes read s = (case read s of Inl _ \<Rightarrow> [] | Inr bs \<Rightarrow> bs)"

text \<open>All shards in manifest order.\<close>

abbreviation blob_of :: "shard_reader \<Rightarrow> string list \<Rightarrow> bytes" where
  "blob_of read shards \<equiv> concat (map (shard_bytes read) shards)"

definition all_readable :: "shard_reader \<Rightarrow> string list \<Rightarrow> bool" where
  "all_readable read shards \<longleftrightarrow> (\<forall>s \<in> set shards. \<exists>bs. read s = Ok bs)"

lemma stream_shards_spec:
  assumes "te_offset_bytes k + te_len_bytes k \<le> u64_max" and "te_offset_bytes b + te_len_bytes b \<le> u64_max"
  shows "if all_readable read shards \<and> length (C @ blob_of read shards) \<le> u64_max
     then stream_shards read k b shards (seen k C) (seen b C) hashed (length C) =
       Done (Ok (seen k (C @ blob_of read shards), seen b (C @ blob_of read shards),
         map_option (\<lambda>h. h @ blob_of read shards) hashed, length (C @ blob_of read shards)))
     else length C \<le> u64_max \<longrightarrow> (\<exists>e. stream_shards read k b shards (seen k C) (seen b C) hashed (length C) = Done (Err e))"
proof (induction shards arbitrary: C hashed)
  case Nil
  then show ?case by (cases hashed) (auto simp: all_readable_def)
next
  case (Cons s shards)
  show ?case
  proof (cases "read s")
    case (Inl e)
    then show ?thesis by (auto simp: all_readable_def)
  next
    case (Inr bs)
    have step: "stream_shards read k b (s # shards) (seen k C) (seen b C) hashed (length C) =
        (if length (C @ bs) \<le> u64_max
         then stream_shards read k b shards (seen k (C @ bs)) (seen b (C @ bs)) (map_option (\<lambda>h. h @ bs) hashed) (length (C @ bs))
         else Done (Err (TfjsShapeOverflow ''<cumulative shard offset>'' [])))"
      using Inr copy_overlap_seen [OF assms(1), of C bs] copy_overlap_seen [OF assms(2), of C bs] by (simp add: checked_add64_def)
    have sb: "shard_bytes read s = bs" "all_readable read (s # shards) = all_readable read shards"
      using Inr by (simp_all add: shard_bytes_def all_readable_def)
    have mo: "map_option (\<lambda>h. h @ blob_of read shards) (map_option (\<lambda>h. h @ bs) hashed) = map_option (\<lambda>h. h @ bs @ blob_of read shards) hashed"
      by (cases hashed) auto
    show ?thesis using Cons.IH [of "C @ bs" "map_option (\<lambda>h. h @ bs) hashed"] unfolding step sb
      by (auto simp: sb mo split: if_splits)
  qed
qed

lemma filter_single: "filter P xs = [x] \<Longrightarrow> x \<in> set xs"
  using filter_is_subset [of P xs] by simp

lemma pick_in_entries: "pick_tfjs_head_entries m = Ok (k, b) \<Longrightarrow> k \<in> set (tm_entries m) \<and> b \<in> set (tm_entries m)"
  unfolding pick_tfjs_head_entries_def Let_def
  by (auto simp: find_Some_iff dest: filter_single split: option.splits list.splits)

lemma wrapping_total: "n + total_bytes es \<le> u64_max \<Longrightarrow> foldl (\<lambda>n e. wrapping_add64 n (te_len_bytes e)) n es = n + total_bytes es"
  by (induction es arbitrary: n) (auto simp: wrapping_add64_def)

lemma entry_bounds:
  assumes "manifest_fits limits m" and "e \<in> set (tm_entries m)"
  shows "te_offset_bytes e + te_len_bytes e \<le> total_bytes (tm_entries m)" "total_bytes (tm_entries m) \<le> u64_max"
    "te_len_bytes e = 4 * prod_list (te_shape e)" "te_offset_bytes e + te_len_bytes e \<le> u64_max"
  using assms contiguous_inside [of 0 "tm_entries m" e] by (auto simp: manifest_fits_def layout_ok_def entry_fits_def)

lemma streaming_spec:
  fixes read :: shard_reader
  assumes "manifest_fits limits m" and "pick_tfjs_head_entries m = Ok (k, b)"
  defines "blob \<equiv> blob_of read (tm_shards m)"
  shows "if all_readable read (tm_shards m) \<and> length blob \<le> u64_max
     then read_head_bytes_streaming read m k b hasher =
       Done (if length blob \<noteq> total_bytes (tm_entries m) then Err (TfjsBlobLength (length blob) (total_bytes (tm_entries m)))
         else Ok (slice (te_offset_bytes k) (te_offset_bytes k + te_len_bytes k) blob,
                  slice (te_offset_bytes b) (te_offset_bytes b + te_len_bytes b) blob, map_option (\<lambda>h. h @ blob) hasher))
     else \<exists>e. read_head_bytes_streaming read m k b hasher = Done (Err e)"
proof -
  have kb: "k \<in> set (tm_entries m)" "b \<in> set (tm_entries m)" using pick_in_entries [OF assms(2)] by auto
  note ek = entry_bounds [OF assms(1) kb(1)] and eb = entry_bounds [OF assms(1) kb(2)]
  have tot: "foldl (\<lambda>n e. wrapping_add64 n (te_len_bytes e)) 0 (tm_entries m) = total_bytes (tm_entries m)"
    using wrapping_total [of 0 "tm_entries m"] ek(2) by simp
  note st = stream_shards_spec [OF ek(4) eb(4), of read "tm_shards m" "[]" hasher, unfolded seen_nothing, simplified, folded blob_def]
  show ?thesis
  proof (cases "all_readable read (tm_shards m) \<and> length blob \<le> u64_max")
    case True
    then have "read_head_bytes_streaming read m k b hasher =
       Done (if length blob \<noteq> total_bytes (tm_entries m) then Err (TfjsBlobLength (length blob) (total_bytes (tm_entries m)))
         else Ok (seen k blob, seen b blob, map_option (\<lambda>h. h @ blob) hasher))"
      using st by (auto simp: read_head_bytes_streaming_def tot)
    then show ?thesis using True ek(1) eb(1) by (auto simp: seen_all)
  next
    case False
    then show ?thesis using st by (auto simp: read_head_bytes_streaming_def tot split: if_splits)
  qed
qed

section \<open>Decoding\<close>

lemma u32_le_bytes_back: "length c = 4 \<Longrightarrow> u32_to_le_bytes (u32_from_le_bytes c) = c"
proof -
  assume "length c = 4"
  then obtain x y z u where c: "c = [x, y, z, u]"
    by (auto simp: numeral_eq_Suc length_Suc_conv)
  let ?w = "ucast x OR push_bit 8 (ucast y) OR push_bit 16 (ucast z) OR push_bit 24 (ucast u) :: u32"
  have hi: "\<not> bit v m" if "8 \<le> m" for v :: u8 and m using that bit_imp_le_length [of v m] by auto
  have "ucast ?w = x" "ucast (drop_bit 8 ?w) = y" "ucast (drop_bit 16 ?w) = z" "ucast (drop_bit 24 ?w) = u"
    by (rule bit_word_eqI; simp add: bit_ucast_iff bit_drop_bit_eq bit_or_iff bit_push_bit_iff hi)+
  then show ?thesis by (simp add: c u32_to_le_bytes_def u32_from_le_bytes_def)
qed

definition weight_bytes :: "u32 list \<Rightarrow> bytes" where
  "weight_bytes vs = concat (map u32_to_le_bytes vs)"

lemma chunks_exact: "length xs = 4 * n \<Longrightarrow> length (chunks 4 xs) = n \<and> (\<forall>c \<in> set (chunks 4 xs). length c = 4)"
proof (induction n arbitrary: xs)
  case (Suc n)
  then obtain x ys where xs: "xs = x # ys" "length ys = 4 * n + 3" by (cases xs) auto
  have "length (drop 3 ys) = 4 * n" using xs(2) unfolding length_drop by linarith
  note IH = Suc.IH [OF this]
  have eq: "chunks 4 xs = (x # take 3 ys) # chunks 4 (drop 3 ys)" by (simp add: xs(1))
  have four: "length (x # take 3 ys) = 4" using xs(2) unfolding length_Cons length_take by linarith
  show ?case unfolding eq using IH [THEN conjunct1] IH [THEN conjunct2] four by (simp only: list.set length_Cons ball_simps simp_thms)
qed simp

lemma map_sum_Ok: "map_sum id f r = Ok y \<longleftrightarrow> (\<exists>x. r = Ok x \<and> y = f x)"
  by (cases r) auto

lemma decode_finite_Ok:
  "decode_finite tensor i cs = Ok vs \<Longrightarrow> vs = map u32_from_le_bytes cs \<and> (\<forall>v \<in> set vs. f32_is_finite v)"
  by (induction cs arbitrary: i vs) (auto simp: Let_def map_sum_Ok split: if_splits)

lemma decode_verbatim:
  assumes "length xs = 4 * n" and "decode_finite tensor i (chunks 4 xs) = Ok vs"
  shows "length vs = n" "weight_bytes vs = xs" "\<forall>v \<in> set vs. f32_is_finite v"
proof -
  note d = decode_finite_Ok [OF assms(2)] and c = chunks_exact [OF assms(1)]
  show "length vs = n" using d c by simp
  have "map (u32_to_le_bytes \<circ> u32_from_le_bytes) (chunks 4 xs) = chunks 4 xs"
    by (rule map_idI) (use c u32_le_bytes_back in auto)
  then show "weight_bytes vs = xs" using d concat_chunks [of 4 xs] by (simp add: weight_bytes_def)
  show "\<forall>v \<in> set vs. f32_is_finite v" using d by blast
qed

lemma read_f32_spec:
  assumes "offset + 4 * cnt \<le> length bs" and "offset + 4 * cnt \<le> u64_max"
  shows "read_f32_at_checked bs offset cnt tensor = Done (decode_finite tensor 0 (chunks 4 (slice offset (offset + 4 * cnt) bs)))"
proof -
  have "wrapping_add64 offset (cnt * 4 mod 2 ^ 64) = offset + 4 * cnt" using assms(2) by (simp add: wrapping_add64_def mult.commute)
  then show ?thesis using assms(1) by (simp add: read_f32_at_checked_def)
qed

lemma slice_whole: "i \<le> j \<Longrightarrow> j \<le> length bs \<Longrightarrow> slice 0 (j - i) (slice i j bs) = slice i j bs"
  by (simp add: slice_def)

lemma head_shape_Ok:
  assumes "head_shape k b = Ok n"
  shows "te_shape k = [backbone_feature_dim, n]" "te_shape b = [n]"
proof -
  have *: "length (te_shape k) = 2" "te_shape k ! 0 = backbone_feature_dim" "te_shape b = [n]" "n = te_shape k ! 1"
    using assms by (auto simp: head_shape_def split: if_splits)
  then obtain x y where "te_shape k = [x, y]" by (auto simp: numeral_eq_Suc length_Suc_conv)
  then show "te_shape k = [backbone_feature_dim, n]" "te_shape b = [n]" using * by auto
qed

lemma class_count_Ok: "validate_head_class_count n convert_limits_default = Ok u \<longleftrightarrow> 1 \<le> n \<and> n \<le> 10000"
  by (auto simp: validate_head_class_count_def convert_limits_default_def)

text \<open>Under the class limit the byte caps of the kernel and the bias never apply.\<close>

lemma byte_caps_idle:
  assumes "head_shape k b = Ok n" and "1 \<le> n" "n \<le> 10000" and "length kbs = 8000 * n" "length bbs = 4 * n"
  shows "head_weights_from_head_byte_ranges k b kbs bbs = decode_head k b kbs 0 bbs 0 n"
  using assms class_count_Ok [of n "()"]
  by (simp add: head_weights_from_head_byte_ranges_def Let_def convert_limits_default_def checked_mul64_def backbone_feature_dim_def)

lemma decode_head_slices:
  assumes "koff + 8000 * n \<le> length blob" "boff + 4 * n \<le> length blob" "length blob \<le> u64_max"
  shows "decode_head k b (slice koff (koff + 8000 * n) blob) 0 (slice boff (boff + 4 * n) blob) 0 n = decode_head k b blob koff blob boff n"
proof -
  have "read_f32_at_checked (slice koff (koff + 8000 * n) blob) 0 (2000 * n) t = read_f32_at_checked blob koff (2000 * n) t" for t
    using read_f32_spec [of koff "2000 * n" blob t] read_f32_spec [of 0 "2000 * n" "slice koff (koff + 4 * (2000 * n)) blob" t]
      slice_whole [of koff "koff + 4 * (2000 * n)" blob] assms by simp
  moreover have "read_f32_at_checked (slice boff (boff + 4 * n) blob) 0 n t = read_f32_at_checked blob boff n t" for t
    using read_f32_spec [of boff n blob t] read_f32_spec [of 0 n "slice boff (boff + 4 * n) blob" t]
      slice_whole [of boff "boff + 4 * n" blob] assms by simp
  ultimately show ?thesis unfolding decode_head_def backbone_feature_dim_def by (simp only:)
qed

section \<open>Results\<close>

lemma parsed_total:
  assumes "manifest_fits limits m" and "tm_entries m \<noteq> []"
  shows "wrapping_add64 (te_offset_bytes (last (tm_entries m))) (te_len_bytes (last (tm_entries m))) = total_bytes (tm_entries m)"
  using contiguous_last [of 0 "tm_entries m"] assms by (auto simp: manifest_fits_def layout_ok_def wrapping_add64_def)

lemma need_inside:
  assumes "manifest_fits limits m" and "k \<in> set (tm_entries m)" "b \<in> set (tm_entries m)"
  shows "max (saturating_add64 (te_offset_bytes k) (te_len_bytes k)) (saturating_add64 (te_offset_bytes b) (te_len_bytes b)) \<le> total_bytes (tm_entries m)"
  using entry_bounds [OF assms(1,2)] entry_bounds [OF assms(1,3)] by (simp add: saturating_add64_def)

text \<open>What is left of both readers once the bytes are there.\<close>

lemma ranges_equal_blob:
  assumes fits: "manifest_fits limits m" and ne: "tm_entries m \<noteq> []" and pick: "pick_tfjs_head_entries m = Ok (k, b)"
    and len: "length blob = total_bytes (tm_entries m)"
  shows "head_weights_from_head_byte_ranges k b (slice (te_offset_bytes k) (te_offset_bytes k + te_len_bytes k) blob)
       (slice (te_offset_bytes b) (te_offset_bytes b + te_len_bytes b) blob) = extract_head_from_tfjs_buffers m blob"
proof -
  have kb: "k \<in> set (tm_entries m)" "b \<in> set (tm_entries m)" using pick_in_entries [OF pick] by auto
  note ek = entry_bounds [OF fits kb(1)] and eb = entry_bounds [OF fits kb(2)]
  show ?thesis
  proof (cases "head_shape k b")
    case (Inl e)
    then show ?thesis using parsed_total [OF fits ne] ne pick len
      by (simp add: extract_head_from_tfjs_buffers_def head_weights_from_head_byte_ranges_def Let_def)
  next
    case (Inr n)
    note sh = head_shape_Ok [OF Inr]
    show ?thesis
    proof (cases "1 \<le> n \<and> n \<le> 10000")
      case True
      have lens: "te_len_bytes k = 8000 * n" "te_len_bytes b = 4 * n"
        using ek(3) eb(3) sh by (simp_all add: backbone_feature_dim_def)
      have "validate_head_class_count n convert_limits_default = Ok ()" using True class_count_Ok by blast
      moreover have "checked_mul64 backbone_feature_dim n = Some (2000 * n)" using True by (simp add: checked_mul64_def backbone_feature_dim_def)
      moreover have "\<not> length blob < max (saturating_add64 (te_offset_bytes k) (te_len_bytes k)) (saturating_add64 (te_offset_bytes b) (te_len_bytes b))"
        using need_inside [OF fits kb] len by linarith
      ultimately have "extract_head_from_tfjs_buffers m blob = decode_head k b blob (te_offset_bytes k) blob (te_offset_bytes b) n"
        using parsed_total [OF fits ne] ne pick len Inr by (simp add: extract_head_from_tfjs_buffers_def Let_def)
      moreover have "decode_head k b (slice (te_offset_bytes k) (te_offset_bytes k + 8000 * n) blob) 0
          (slice (te_offset_bytes b) (te_offset_bytes b + 4 * n) blob) 0 n = decode_head k b blob (te_offset_bytes k) blob (te_offset_bytes b) n"
        by (rule decode_head_slices) (use ek eb lens len in linarith)+
      moreover have "head_weights_from_head_byte_ranges k b (slice (te_offset_bytes k) (te_offset_bytes k + 8000 * n) blob)
          (slice (te_offset_bytes b) (te_offset_bytes b + 4 * n) blob) =
          decode_head k b (slice (te_offset_bytes k) (te_offset_bytes k + 8000 * n) blob) 0 (slice (te_offset_bytes b) (te_offset_bytes b + 4 * n) blob) 0 n"
        by (rule byte_caps_idle [OF Inr]) (use True ek eb lens len in simp_all)
      ultimately show ?thesis by (simp add: lens)
    next
      case False
      then have "validate_head_class_count n convert_limits_default = Err (BadClassCount n 10000)"
        by (auto simp: validate_head_class_count_def convert_limits_default_def)
      then show ?thesis using Inr parsed_total [OF fits ne] ne pick len
        by (simp add: extract_head_from_tfjs_buffers_def head_weights_from_head_byte_ranges_def Let_def)
    qed
  qed
qed

lemma load_by_buffers:
  assumes "read ''model.json'' = Ok json_bytes" and "parse_tfjs_manifest_with_limits parse_json limits json_bytes = Ok m"
    and "\<forall>s \<in> set (tm_shards m). \<exists>bs. read s = Ok bs" and "length (blob_of read (tm_shards m)) \<le> u64_max"
  shows "load_tfjs_head parse_json limits read hashing =
     (case pick_tfjs_head_entries m of
        Inl e \<Rightarrow> Done (Err e)
      | Inr _ \<Rightarrow> run_bind (extract_head_from_tfjs_buffers m (blob_of read (tm_shards m))) (\<lambda>r.
          Done (map_sum id (\<lambda>w. (w, if hashing then Some (json_bytes @ blob_of read (tm_shards m)) else None)) r)))"
proof (cases "pick_tfjs_head_entries m")
  case (Inl e)
  then show ?thesis using assms by (simp add: load_tfjs_head_def)
next
  case (Inr kb)
  obtain k b where kb: "kb = (k, b)" by (cases kb)
  let ?blob = "blob_of read (tm_shards m)"
  note fits = parse_manifest_Ok [OF assms(2)] and pick = Inr [unfolded kb]
  have ready: "all_readable read (tm_shards m)" using assms(3) by (simp add: all_readable_def)
  show ?thesis
  proof (cases "length ?blob = total_bytes (tm_entries m)")
    case True
    have "read_head_bytes_streaming read m k b (if hashing then Some json_bytes else None) =
       Done (Ok (slice (te_offset_bytes k) (te_offset_bytes k + te_len_bytes k) ?blob,
                  slice (te_offset_bytes b) (te_offset_bytes b + te_len_bytes b) ?blob, if hashing then Some (json_bytes @ ?blob) else None))"
      using streaming_spec [OF fits(1) pick, of read "if hashing then Some json_bytes else None"] ready assms(4) True by simp
    then show ?thesis using ranges_equal_blob [OF fits(1,2) pick True] assms(1,2) pick by (simp add: load_tfjs_head_def)
  next
    case False
    have "read_head_bytes_streaming read m k b (if hashing then Some json_bytes else None) = Done (Err (TfjsBlobLength (length ?blob) (total_bytes (tm_entries m))))"
      using streaming_spec [OF fits(1) pick, of read "if hashing then Some json_bytes else None"] ready assms(4) False by simp
    moreover have "extract_head_from_tfjs_buffers m ?blob = Done (Err (TfjsBlobLength (length ?blob) (total_bytes (tm_entries m))))"
      using False parsed_total [OF fits(1,2)] fits(2) by (simp add: extract_head_from_tfjs_buffers_def Let_def)
    ultimately show ?thesis using assms(1,2) pick by (simp add: load_tfjs_head_def)
  qed
qed

text \<open>
  C12. Reading the head shard by shard equals reading it out of the concatenation of all shards: for every manifest the parser
  accepts and readable shards, the loader gives exactly what the single-buffer extractor gives on the concatenated bytes,
  errors included, once the head is located; and the hasher has then seen the manifest followed by all the shards.
\<close>

theorem streaming_equals_buffers:
  assumes "read ''model.json'' = Ok json_bytes" and "parse_tfjs_manifest_with_limits parse_json limits json_bytes = Ok m"
    and "\<forall>s \<in> set (tm_shards m). \<exists>bs. read s = Ok bs" and "length (blob_of read (tm_shards m)) \<le> u64_max"
  shows "load_tfjs_head parse_json limits read True =
     (case pick_tfjs_head_entries m of
        Inl e \<Rightarrow> Done (Err e)
      | Inr _ \<Rightarrow> run_bind (extract_head_from_tfjs_buffers m (blob_of read (tm_shards m))) (\<lambda>r.
          Done (map_sum id (\<lambda>w. (w, Some (json_bytes @ blob_of read (tm_shards m)))) r)))"
  using load_by_buffers [OF assms, of True] by simp

text \<open>A decoded head holds the bytes it was decoded from.\<close>

lemma decode_head_verbatim:
  assumes "koff + 8000 * n \<le> length blob" "boff + 4 * n \<le> length blob" "length blob \<le> u64_max"
  shows "\<exists>r. decode_head k b blob koff blob boff n = Done r \<and>
     (\<forall>w. r = Ok w \<longrightarrow> hw_n_classes w = n \<and> hw_in_dim w = backbone_feature_dim \<and>
        weight_bytes (hw_kernel w) = slice koff (koff + 8000 * n) blob \<and> weight_bytes (hw_bias w) = slice boff (boff + 4 * n) blob \<and>
        length (hw_kernel w) = 2000 * n \<and> length (hw_bias w) = n \<and> (\<forall>v \<in> set (hw_kernel w) \<union> set (hw_bias w). f32_is_finite v))"
proof -
  let ?ks = "slice koff (koff + 8000 * n) blob" and ?bs = "slice boff (boff + 4 * n) blob"
  have kl: "length ?ks = 4 * (2000 * n)" and bl: "length ?bs = 4 * n" using assms by simp_all
  have rk: "read_f32_at_checked blob koff (backbone_feature_dim * n) t = Done (decode_finite t 0 (chunks 4 ?ks))" for t
    using read_f32_spec [of koff "2000 * n" blob t] assms by (simp add: backbone_feature_dim_def)
  have rb: "read_f32_at_checked blob boff n t = Done (decode_finite t 0 (chunks 4 ?bs))" for t
    using read_f32_spec [of boff n blob t] assms by simp
  show ?thesis
  proof (cases "decode_finite (te_name k) 0 (chunks 4 ?ks)")
    case (Inl e)
    then show ?thesis by (simp add: decode_head_def rk)
  next
    case (Inr ws)
    note k = decode_verbatim [OF kl Inr]
    show ?thesis
    proof (cases "decode_finite (te_name b) 0 (chunks 4 ?bs)")
      case (Inl e)
      then show ?thesis using Inr by (simp add: decode_head_def rk rb)
    next
      case (Inr us)
      note b = decode_verbatim [OF bl Inr]
      show ?thesis using k b Inr \<open>decode_finite (te_name k) 0 (chunks 4 ?ks) = Ok ws\<close> by (auto simp: decode_head_def rk rb)
    qed
  qed
qed

lemma extract_verbatim:
  assumes fits: "manifest_fits limits m" and ne: "tm_entries m \<noteq> []"
  shows "\<exists>r. extract_head_from_tfjs_buffers m blob = Done r \<and>
     (\<forall>w. r = Ok w \<longrightarrow> (\<exists>k b. pick_tfjs_head_entries m = Ok (k, b) \<and> length blob = total_bytes (tm_entries m) \<and>
        te_shape k = [backbone_feature_dim, hw_n_classes w] \<and> te_shape b = [hw_n_classes w] \<and>
        1 \<le> hw_n_classes w \<and> hw_n_classes w \<le> 10000 \<and>
        weight_bytes (hw_kernel w) = slice (te_offset_bytes k) (te_offset_bytes k + te_len_bytes k) blob \<and>
        weight_bytes (hw_bias w) = slice (te_offset_bytes b) (te_offset_bytes b + te_len_bytes b) blob \<and>
        (\<forall>v \<in> set (hw_kernel w) \<union> set (hw_bias w). f32_is_finite v)))"
proof (cases "pick_tfjs_head_entries m")
  case (Inl e)
  then show ?thesis by (simp add: extract_head_from_tfjs_buffers_def Let_def)
next
  case (Inr kb)
  obtain k b where kb: "kb = (k, b)" by (cases kb)
  have mem: "k \<in> set (tm_entries m)" "b \<in> set (tm_entries m)" using pick_in_entries Inr kb by auto
  note ek = entry_bounds [OF fits mem(1)] and eb = entry_bounds [OF fits mem(2)] and tot = parsed_total [OF fits ne]
  show ?thesis
  proof (cases "length blob = total_bytes (tm_entries m) \<and> (\<exists>n. head_shape k b = Ok n \<and> 1 \<le> n \<and> n \<le> 10000)")
    case False
    have "validate_head_class_count n convert_limits_default = Err (BadClassCount n 10000)" if "\<not> (1 \<le> n \<and> n \<le> 10000)" for n
      using that by (auto simp: validate_head_class_count_def convert_limits_default_def)
    then show ?thesis using False Inr kb ne tot
      by (cases "head_shape k b") (auto simp: extract_head_from_tfjs_buffers_def Let_def)
  next
    case True
    then obtain n where n: "length blob = total_bytes (tm_entries m)" "head_shape k b = Ok n" "1 \<le> n" "n \<le> 10000" by blast
    note sh = head_shape_Ok [OF n(2)]
    have lens: "te_len_bytes k = 8000 * n" "te_len_bytes b = 4 * n" using ek(3) eb(3) sh by (simp_all add: backbone_feature_dim_def)
    have "extract_head_from_tfjs_buffers m blob = decode_head k b blob (te_offset_bytes k) blob (te_offset_bytes b) n"
    proof -
      have "validate_head_class_count n convert_limits_default = Ok ()" using n class_count_Ok by blast
      moreover have "checked_mul64 backbone_feature_dim n = Some (2000 * n)" using n by (simp add: checked_mul64_def backbone_feature_dim_def)
      moreover have "\<not> length blob < max (saturating_add64 (te_offset_bytes k) (te_len_bytes k)) (saturating_add64 (te_offset_bytes b) (te_len_bytes b))"
        using need_inside [OF fits mem] n(1) by linarith
      ultimately show ?thesis using tot ne Inr kb n by (simp add: extract_head_from_tfjs_buffers_def Let_def)
    qed
    moreover have "te_offset_bytes k + 8000 * n \<le> length blob" "te_offset_bytes b + 4 * n \<le> length blob" "length blob \<le> u64_max"
      using ek eb lens n(1) by linarith+
    from decode_head_verbatim [OF this, of k b] Inr kb n sh lens calculation show ?thesis by auto
  qed
qed

text \<open>
  C13. Whatever the reads of the shards answer, loading an uploaded model never panics, and weights that come out are the
  uploaded bytes: kernel and bias are, float by float, the bytes the manifest declares for them in the concatenated
  shards, all finite, with between 1 and 10000 classes and the shapes to match.
\<close>

theorem converted_weights_are_verbatim:
  "\<exists>r. load_tfjs_head parse_json limits read hashing = Done r \<and>
     (\<forall>w h. r = Ok (w, h) \<longrightarrow>
        (\<exists>j m k b. read ''model.json'' = Ok j \<and> parse_tfjs_manifest_with_limits parse_json limits j = Ok m \<and>
           pick_tfjs_head_entries m = Ok (k, b) \<and> te_shape k = [backbone_feature_dim, hw_n_classes w] \<and> te_shape b = [hw_n_classes w] \<and>
           1 \<le> hw_n_classes w \<and> hw_n_classes w \<le> 10000 \<and>
           weight_bytes (hw_kernel w) = slice (te_offset_bytes k) (te_offset_bytes k + te_len_bytes k) (blob_of read (tm_shards m)) \<and>
           weight_bytes (hw_bias w) = slice (te_offset_bytes b) (te_offset_bytes b + te_len_bytes b) (blob_of read (tm_shards m)) \<and>
           (\<forall>v \<in> set (hw_kernel w) \<union> set (hw_bias w). f32_is_finite v)))"
proof (cases "read ''model.json''")
  case (Inl e)
  then show ?thesis by (simp add: load_tfjs_head_def)
next
  case (Inr j)
  note json = this
  show ?thesis
  proof (cases "parse_tfjs_manifest_with_limits parse_json limits j")
    case (Inl e)
    then show ?thesis using json by (simp add: load_tfjs_head_def)
  next
    case (Inr m)
    note parsed = this and fits = parse_manifest_Ok [OF this]
    show ?thesis
    proof (cases "pick_tfjs_head_entries m")
      case (Inl e)
      then show ?thesis using json parsed by (simp add: load_tfjs_head_def)
    next
      case (Inr kb)
      obtain k b where kb: "kb = (k, b)" by (cases kb)
      let ?blob = "blob_of read (tm_shards m)" and ?h = "if hashing then Some j else None"
      note pick = Inr [unfolded kb] and st = streaming_spec [OF fits(1) Inr [unfolded kb], of read ?h]
      show ?thesis
      proof (cases "all_readable read (tm_shards m) \<and> length ?blob \<le> u64_max \<and> length ?blob = total_bytes (tm_entries m)")
        case True
        obtain r where r: "extract_head_from_tfjs_buffers m ?blob = Done r"
          "\<And>w. r = Ok w \<Longrightarrow> \<exists>k b. pick_tfjs_head_entries m = Ok (k, b) \<and>
             te_shape k = [backbone_feature_dim, hw_n_classes w] \<and> te_shape b = [hw_n_classes w] \<and>
             1 \<le> hw_n_classes w \<and> hw_n_classes w \<le> 10000 \<and>
             weight_bytes (hw_kernel w) = slice (te_offset_bytes k) (te_offset_bytes k + te_len_bytes k) ?blob \<and>
             weight_bytes (hw_bias w) = slice (te_offset_bytes b) (te_offset_bytes b + te_len_bytes b) ?blob \<and>
             (\<forall>v \<in> set (hw_kernel w) \<union> set (hw_bias w). f32_is_finite v)"
          using extract_verbatim [OF fits(1,2), of ?blob] by blast
        obtain h' where "load_tfjs_head parse_json limits read hashing = Done (map_sum id (\<lambda>w. (w, h')) r)"
          using load_by_buffers [of read j parse_json limits m hashing] json parsed True r(1) pick by (auto simp: all_readable_def)
        then show ?thesis using r(2) json parsed by (simp add: map_sum_Ok)
      next
        case False
        then obtain e where "read_head_bytes_streaming read m k b ?h = Done (Err e)" using st by (auto split: if_splits)
        then have "load_tfjs_head parse_json limits read hashing = Done (Err e)" using json parsed pick by (simp add: load_tfjs_head_def)
        then show ?thesis by auto
      qed
    qed
  qed
qed

text \<open>
  C15. A manifest that passes the parser is safe to act on: no more shards and no larger tensors than the limits allow, no empty
  dimension, every length the product of its shape, the tensors laid out one after the other without a 64-bit overflow, and
  every shard path a non-empty sequence of plain names below the model directory.
\<close>

theorem accepted_manifest_is_bounded:
  assumes "parse_tfjs_manifest_with_limits parse_json limits json_bytes = Ok m"
  shows "length json_bytes \<le> cl_max_manifest_bytes limits \<and> tm_entries m \<noteq> [] \<and> tm_shards m \<noteq> [] \<and>
    length (tm_shards m) \<le> cl_max_shards limits \<and> (\<forall>e \<in> set (tm_entries m). entry_fits limits e) \<and>
    contiguous 0 (tm_entries m) \<and> total_bytes (tm_entries m) < 2 ^ 64 \<and>
    (\<forall>s \<in> set (tm_shards m). \<exists>cs. cs \<noteq> [] \<and> path_components s = map NormalComp cs \<and>
       (\<forall>c \<in> set cs. c \<notin> {'''', ''.'', ''..''} \<and> CHR ''/'' \<notin> set c))"
  using parse_manifest_Ok [OF assms] shard_path_normal by (auto simp: manifest_fits_def layout_ok_def)

definition demo_model :: json where
  "demo_model = JObject [(''weightsManifest'', JArray [JObject
     [(''paths'', JArray [JString ''group1-shard1of2'', JString ''group1-shard2of2'']),
      (''weights'', JArray
        [JObject [(''name'', JString ''NewHeadDense/kernel''), (''shape'', JArray [JNumber (Some 2000), JNumber (Some 2)])],
         JObject [(''name'', JString ''NewHeadDense/bias''), (''shape'', JArray [JNumber (Some 2)])]])]])]"

definition demo_manifest_tfjs :: tfjs_manifest where
  "demo_manifest_tfjs =
     \<lparr>tm_entries = [\<lparr>te_name = ''NewHeadDense/kernel'', te_shape = [2000, 2], te_offset_bytes = 0, te_len_bytes = 16000\<rparr>,
        \<lparr>te_name = ''NewHeadDense/bias'', te_shape = [2], te_offset_bytes = 16000, te_len_bytes = 8\<rparr>],
      tm_shards = [''group1-shard1of2'', ''group1-shard2of2'']\<rparr>"

lemma demo_parsed: "parse_tfjs_manifest_with_limits (\<lambda>_. Some demo_model) convert_limits_default [123] = Ok demo_manifest_tfjs"
  by code_simp

theorem accepted_manifest_is_bounded_witness: "contiguous 0 (tm_entries demo_manifest_tfjs)"
  using accepted_manifest_is_bounded [OF demo_parsed] by blast

theorem streaming_equals_buffers_witness:
  "load_tfjs_head (\<lambda>_. Some demo_model) convert_limits_default
     (\<lambda>s. if s = ''model.json'' then Ok [123] else if s = ''group1-shard1of2'' then Ok (replicate 9000 0) else Ok (replicate 7008 1)) True =
   run_bind (extract_head_from_tfjs_buffers demo_manifest_tfjs (replicate 9000 0 @ replicate 7008 1)) (\<lambda>r.
     Done (map_sum id (\<lambda>w. (w, Some ([123] @ replicate 9000 0 @ replicate 7008 1))) r))"
proof -
  let ?read = "\<lambda>s. if s = ''model.json'' then Ok [123] else if s = ''group1-shard1of2'' then Ok (replicate 9000 0) else Ok (replicate 7008 1) :: (io_error, bytes) result"
  have blob: "blob_of ?read (tm_shards demo_manifest_tfjs) = replicate 9000 0 @ replicate 7008 1"
    by (simp add: demo_manifest_tfjs_def shard_bytes_def)
  have pick: "pick_tfjs_head_entries demo_manifest_tfjs = Ok (hd (tm_entries demo_manifest_tfjs), last (tm_entries demo_manifest_tfjs))"
    by code_simp
  show ?thesis
    using streaming_equals_buffers [of ?read "[123]" "\<lambda>_. Some demo_model" convert_limits_default, OF _ demo_parsed]
    unfolding blob pick by simp
qed

lemma decode_zeros: "decode_finite tensor i (chunks 4 (replicate (4 * n) 0)) = Ok (replicate n 0)"
proof (induction n arbitrary: i)
  case (Suc n)
  have "chunks 4 (replicate (4 * Suc n) (0 :: u8)) = [0, 0, 0, 0] # chunks 4 (replicate (4 * n) 0)"
    by (simp add: numeral_eq_Suc)
  then show ?case using Suc.IH by (simp add: u32_from_le_bytes_def f32_is_finite_def del: replicate.simps) simp
qed simp

theorem converted_weights_are_verbatim_witness:
  "\<exists>w. load_tfjs_head (\<lambda>_. Some demo_model) convert_limits_default
     (\<lambda>s. if s = ''model.json'' then Ok [123] else if s = ''group1-shard1of2'' then Ok (replicate 9000 0) else Ok (replicate 7008 0)) False =
       Done (Ok (w, None)) \<and> hw_n_classes w \<le> 10000 \<and> (\<forall>v \<in> set (hw_kernel w) \<union> set (hw_bias w). f32_is_finite v)"
proof -
  let ?read = "\<lambda>s. if s = ''model.json'' then Ok [123] else if s = ''group1-shard1of2'' then Ok (replicate 9000 0) else Ok (replicate 7008 0) :: (io_error, bytes) result"
  let ?k = "hd (tm_entries demo_manifest_tfjs)" and ?b = "last (tm_entries demo_manifest_tfjs)"
  have blob: "blob_of ?read (tm_shards demo_manifest_tfjs) = replicate 16008 0"
    by (simp add: demo_manifest_tfjs_def shard_bytes_def flip: replicate_add)
  have pick: "pick_tfjs_head_entries demo_manifest_tfjs = Ok (?k, ?b)" by code_simp
  have "decode_head ?k ?b (replicate 16008 0) 0 (replicate 16008 0) 16000 2 =
      Done (Ok \<lparr>hw_kernel = replicate 4000 0, hw_bias = replicate 2 0, hw_n_classes = 2, hw_in_dim = backbone_feature_dim\<rparr>)"
    using read_f32_spec [of 0 4000 "replicate 16008 0"] read_f32_spec [of 16000 2 "replicate 16008 0"]
      decode_zeros [of _ _ 4000] decode_zeros [of _ _ 2]
    by (simp add: decode_head_def backbone_feature_dim_def slice_def)
  then have "extract_head_from_tfjs_buffers demo_manifest_tfjs (replicate 16008 0) =
      Done (Ok \<lparr>hw_kernel = replicate 4000 0, hw_bias = replicate 2 0, hw_n_classes = 2, hw_in_dim = backbone_feature_dim\<rparr>)"
    using pick by (simp add: extract_head_from_tfjs_buffers_def demo_manifest_tfjs_def wrapping_add64_def head_shape_def backbone_feature_dim_def
        validate_head_class_count_def convert_limits_default_def saturating_add64_def checked_mul64_def)
  then obtain w where w: "load_tfjs_head (\<lambda>_. Some demo_model) convert_limits_default ?read False = Done (Ok (w, None))"
    using load_by_buffers [of ?read "[123]" "\<lambda>_. Some demo_model" convert_limits_default, OF _ demo_parsed, of False]
    unfolding blob pick by simp
  then show ?thesis using converted_weights_are_verbatim [of "\<lambda>_. Some demo_model" convert_limits_default ?read False] by auto
qed

end
