(* ===== verification/Convert_Staging.thy ===== *)
theory Convert_Staging
  imports Converter_Properties
begin

text \<open>
  The staging step of a convert job (\<^verbatim>\<open>run_convert_job_inner\<close> in \<^verbatim>\<open>converter.rs\<close>): each uploaded shard is
  hard-linked under the name the manifest declares, or copied where a link is refused.  Since links make two names share
  one file, names and contents are kept apart: a name refers to a file number, a file number to bytes.  How each file system
  call ends is an input, call by call: a link may be refused with any error, a copy may fail before it touches its target or
  after it has written any prefix of the source.
\<close>

section \<open>Names and files\<close>

record link_store =
  nk_names :: "path \<Rightarrow> nat option"
  nk_data :: "nat \<Rightarrow> bytes"
  nk_next :: nat

definition file_bytes :: "link_store \<Rightarrow> path \<Rightarrow> bytes option" where
  "file_bytes s p = map_option (nk_data s) (nk_names s p)"

text \<open>A link fails with the given error, if there is one, and else as the names are.\<close>

definition hard_link :: "io_error option \<Rightarrow> path \<Rightarrow> path \<Rightarrow> link_store \<Rightarrow> (io_error, unit) result \<times> link_store" where
  "hard_link fault src dst s =
     (case fault of
        Some e \<Rightarrow> (Err e, s)
      | None \<Rightarrow>
          (case nk_names s src of
             None \<Rightarrow> (Err IoNotFound, s)
           | Some i \<Rightarrow>
               if nk_names s dst \<noteq> None then (Err IoAlreadyExists, s)
               else (Ok (), s\<lparr>nk_names := (nk_names s)(dst := Some i)\<rparr>)))"

text \<open>
  \<open>std::fs::copy\<close>: the source is opened, then the target is opened with truncation, and only then the bytes move, so a file
  copied onto itself is emptied.  A copy completes, fails before it has opened the target, or fails with the first \<open>k\<close> bytes
  written.
\<close>

datatype copy_outcome = CopyCompletes | CopyUnopened io_error | CopyStops nat io_error

definition write_copy :: "nat \<Rightarrow> path \<Rightarrow> (bytes \<Rightarrow> bytes) \<Rightarrow> link_store \<Rightarrow> link_store" where
  "write_copy i dst part s =
     (case nk_names s dst of
        Some j \<Rightarrow> s\<lparr>nk_data := (nk_data s)(j := part (if i = j then [] else nk_data s i))\<rparr>
      | None \<Rightarrow>
          s\<lparr>nk_names := (nk_names s)(dst := Some (nk_next s)), nk_data := (nk_data s)(nk_next s := part (nk_data s i)),
            nk_next := Suc (nk_next s)\<rparr>)"

definition fs_copy :: "copy_outcome \<Rightarrow> path \<Rightarrow> path \<Rightarrow> link_store \<Rightarrow> (io_error, unit) result \<times> link_store" where
  "fs_copy outcome src dst s =
     (case nk_names s src of
        None \<Rightarrow> (Err IoNotFound, s)
      | Some i \<Rightarrow>
          (case outcome of
             CopyCompletes \<Rightarrow> (Ok (), write_copy i dst (\<lambda>bs. bs) s)
           | CopyUnopened e \<Rightarrow> (Err e, s)
           | CopyStops k e \<Rightarrow> (Err e, write_copy i dst (take k) s)))"

fun component_name :: "path_component \<Rightarrow> string list" where
  "component_name (NormalComp c) = [c]"
| "component_name _ = []"

text \<open>\<open>join\<close> of a validated shard path.\<close>

definition shard_dst :: "path \<Rightarrow> string \<Rightarrow> path" where
  "shard_dst staging_dir declared = staging_dir @ concat (map component_name (path_components declared))"

text \<open>How the calls for the \<open>k\<close>-th shard end.\<close>

record staging_env =
  se_mkdir :: "nat \<Rightarrow> (io_error, unit) result"
  se_link :: "nat \<Rightarrow> io_error option"
  se_copy :: "nat \<Rightarrow> copy_outcome"

fun stage_shards ::
  "staging_env \<Rightarrow> path \<Rightarrow> nat \<Rightarrow> (string \<times> path) list \<Rightarrow> link_store \<Rightarrow> (convert_error, unit) result \<times> link_store"
where
  "stage_shards env staging_dir k [] s = (Ok (), s)"
| "stage_shards env staging_dir k ((declared, src) # rest) s =
     (let dst = shard_dst staging_dir declared in
      case se_mkdir env k of
        Inl e \<Rightarrow> (Err (ConvertWrite (butlast dst) e), s)
      | Inr _ \<Rightarrow>
          (case hard_link (se_link env k) src dst s of
             (Inr _, s1) \<Rightarrow> stage_shards env staging_dir (Suc k) rest s1
           | (Inl e, s1) \<Rightarrow>
               if e = IoNotFound then (Err (ConvertRead (join_with (CHR ''/'') src) e), s1)
               else (case fs_copy (se_copy env k) src dst s1 of
                   (Inl source, s2) \<Rightarrow> (Err (ConvertRead (join_with (CHR ''/'') src) source), s2)
                 | (Inr _, s2) \<Rightarrow> stage_shards env staging_dir (Suc k) rest s2)))"

definition stage_shard_set ::
  "staging_env \<Rightarrow> path \<Rightarrow> tfjs_manifest \<Rightarrow> path list \<Rightarrow> link_store \<Rightarrow> (convert_error, unit) result \<times> link_store"
where
  "stage_shard_set env staging_dir manifest shard_paths s =
     (if length (tm_shards manifest) \<noteq> length shard_paths then (Err (TfjsParse ''shards''), s)
      else stage_shards env staging_dir 0 (zip (tm_shards manifest) shard_paths) s)"

section \<open>Distinct names\<close>

definition links_wf :: "link_store \<Rightarrow> bool" where
  "links_wf s \<longleftrightarrow> (\<forall>p i. nk_names s p = Some i \<longrightarrow> i < nk_next s)"

text \<open>One shard under a fresh name: every other name keeps its bytes, and the new one has the bytes of the upload if the step went well.\<close>

definition kept :: "path \<Rightarrow> link_store \<Rightarrow> link_store \<Rightarrow> bool" where
  "kept dst s s' \<longleftrightarrow> links_wf s' \<and> (\<forall>p. p \<noteq> dst \<longrightarrow> nk_names s' p = nk_names s p \<and> file_bytes s' p = file_bytes s p)"

lemma kept_refl: "links_wf s \<Longrightarrow> kept dst s s"
  by (simp add: kept_def)

lemma write_copy_kept:
  assumes "links_wf s" and "nk_names s dst = None" and "nk_names s src = Some i"
  shows "kept dst s (write_copy i dst part s)" and "file_bytes (write_copy i dst part s) dst = map_option part (file_bytes s src)"
proof -
  have "j \<noteq> nk_next s" if "nk_names s p = Some j" for p j using assms(1) that by (auto simp: links_wf_def)
  then have "map_option ((nk_data s)(nk_next s := v)) (nk_names s p) = map_option (nk_data s) (nk_names s p)" for p v
    by (cases "nk_names s p") auto
  then show "kept dst s (write_copy i dst part s)" "file_bytes (write_copy i dst part s) dst = map_option part (file_bytes s src)"
    using assms by (auto simp: kept_def write_copy_def links_wf_def file_bytes_def less_SucI)
qed

lemma link_kept:
  assumes "links_wf s" and "nk_names s dst = None" and "hard_link fault src dst s = (q, s1)"
  shows "kept dst s s1" and "q = Ok () \<Longrightarrow> file_bytes s src \<noteq> None \<and> file_bytes s1 dst = file_bytes s src" and "q \<noteq> Ok () \<Longrightarrow> s1 = s"
  using assms by (auto simp: hard_link_def kept_def links_wf_def file_bytes_def split: option.splits if_splits)

lemma copy_kept:
  assumes "links_wf s" and "nk_names s dst = None" and "fs_copy outcome src dst s = (q, s1)"
  shows "kept dst s s1" and "q = Ok () \<Longrightarrow> file_bytes s src \<noteq> None \<and> file_bytes s1 dst = file_bytes s src"
proof -
  have "kept dst s s1 \<and> (q = Ok () \<longrightarrow> file_bytes s src \<noteq> None \<and> file_bytes s1 dst = file_bytes s src)"
  proof (cases "nk_names s src")
    case None
    then show ?thesis using assms(3) kept_refl [OF assms(1)] by (auto simp: fs_copy_def)
  next
    case (Some i)
    have "file_bytes s src \<noteq> None" by (simp add: file_bytes_def Some)
    then show ?thesis
      using assms(3) Some kept_refl [OF assms(1)] write_copy_kept [OF assms(1,2) Some]
      by (auto simp: fs_copy_def option.map_ident split: copy_outcome.splits)
  qed
  then show "kept dst s s1" "q = Ok () \<Longrightarrow> file_bytes s src \<noteq> None \<and> file_bytes s1 dst = file_bytes s src" by simp_all
qed

lemma stage_shards_spec:
  fixes d xs
  defines "dsts \<equiv> (\<lambda>x. shard_dst d (fst x)) ` set xs"
  assumes "links_wf s" and "distinct (map (\<lambda>x. shard_dst d (fst x)) xs)" and "\<forall>q \<in> dsts. nk_names s q = None"
    and "\<forall>x \<in> set xs. snd x \<notin> dsts" and "stage_shards env d k xs s = (r, s')"
  shows "(\<forall>p. p \<notin> dsts \<longrightarrow> file_bytes s' p = file_bytes s p) \<and>
     (r = Ok () \<longrightarrow> (\<forall>x \<in> set xs. file_bytes s (snd x) \<noteq> None \<and> file_bytes s' (shard_dst d (fst x)) = file_bytes s (snd x)))"
  using assms(2-) unfolding dsts_def
proof (induction xs arbitrary: s k)
  case (Cons x xs)
  obtain declared src where x: "x = (declared, src)" by (cases x)
  let ?dst = "shard_dst d declared" and ?rest = "(\<lambda>x. shard_dst d (fst x)) ` set xs"
  have fresh: "nk_names s ?dst = None" using Cons.prems(3) x by simp
  have stop: ?case if "kept ?dst s s'" "r \<noteq> Ok ()" using that x by (auto simp: kept_def)
  have go: ?case if s1: "kept ?dst s s1" "file_bytes s src \<noteq> None \<and> file_bytes s1 ?dst = file_bytes s src"
    and run: "stage_shards env d (Suc k) xs s1 = (r, s')" for s1
  proof -
    have other: "?dst \<notin> ?rest" "distinct (map (\<lambda>x. shard_dst d (fst x)) xs)" using Cons.prems(2) x by auto
    have free: "nk_names s1 q = None" if "q \<in> ?rest" for q
    proof -
      have "q \<noteq> ?dst" using other(1) that by blast
      then show ?thesis using Cons.prems(3) s1(1) that by (auto simp: kept_def)
    qed
    have "\<forall>x \<in> set xs. snd x \<notin> ?rest" "links_wf s1" using Cons.prems(4) s1(1) by (simp_all add: kept_def)
    note IH = Cons.IH [OF this(2) other(2) ballI [OF free] this(1) run]
    have srcs: "file_bytes s1 (snd y) = file_bytes s (snd y)" if "y \<in> set xs" for y
      using Cons.prems(4) that x s1(1) by (auto simp: kept_def)
    have "file_bytes s' ?dst = file_bytes s src" using IH other(1) s1(2) by auto
    moreover have "file_bytes s' p = file_bytes s p" if "p \<notin> insert ?dst ?rest" for p using that IH s1(1) by (auto simp: kept_def)
    ultimately show ?thesis using IH srcs s1(2) x by auto
  qed
  show ?case
  proof (cases "se_mkdir env k")
    case (Inl e)
    then show ?thesis using Cons.prems(5) x stop kept_refl [OF Cons.prems(1)] by (auto simp: Let_def)
  next
    case (Inr u)
    obtain q s1 where link: "hard_link (se_link env k) src ?dst s = (q, s1)" by fastforce
    note l = link_kept [OF Cons.prems(1) fresh link]
    obtain q2 s2 where copy: "fs_copy (se_copy env k) src ?dst s = (q2, s2)" by fastforce
    note c = copy_kept [OF Cons.prems(1) fresh copy]
    show ?thesis
    proof (cases q)
      case (Inr y)
      then show ?thesis using go [OF l(1) l(2)] Cons.prems(5) x link \<open>se_mkdir env k = Inr u\<close> by (simp add: Let_def)
    next
      case (Inl e)
      then have same: "s1 = s" using l(3) by simp
      show ?thesis
      proof (cases "e = IoNotFound")
        case True
        then show ?thesis
          using Cons.prems(5) x link Inl same stop kept_refl [OF Cons.prems(1)] \<open>se_mkdir env k = Inr u\<close> by (auto simp: Let_def)
      next
        case False
        then show ?thesis
          using Cons.prems(5) x link Inl same copy stop go [OF c(1) c(2)] c(1) \<open>se_mkdir env k = Inr u\<close>
          by (cases q2) (auto simp: Let_def)
      qed
    qed
  qed
qed auto

text \<open>
  C14. Staging a set of shards whose declared names are distinct, into a directory that holds none of them: whichever
  directory, link and copy calls fail, a copy that stops half-way included, every file there was keeps its bytes, the uploads
  above all; and on success each staged name has the bytes of its upload.
\<close>

theorem staging_keeps_uploads:
  assumes "links_wf s" and "distinct (map (shard_dst d) (tm_shards m))"
    and "\<forall>n \<in> set (tm_shards m). nk_names s (shard_dst d n) = None" and "\<forall>p \<in> set shard_paths. \<not> prefix d p"
    and "stage_shard_set env d m shard_paths s = (r, s')"
  shows "(\<forall>p bs. file_bytes s p = Some bs \<longrightarrow> file_bytes s' p = Some bs) \<and>
    (r = Ok () \<longrightarrow> map (file_bytes s' \<circ> shard_dst d) (tm_shards m) = map (file_bytes s) shard_paths \<and> None \<notin> set (map (file_bytes s) shard_paths))"
proof (cases "length (tm_shards m) = length shard_paths")
  case False
  then show ?thesis using assms(5) by (auto simp: stage_shard_set_def)
next
  case True
  let ?xs = "zip (tm_shards m) shard_paths"
  have dm: "map (\<lambda>x. shard_dst d (fst x)) ?xs = map (shard_dst d) (tm_shards m)"
    using True by (intro nth_equalityI) simp_all
  have dsts: "(\<lambda>x. shard_dst d (fst x)) ` set ?xs = shard_dst d ` set (tm_shards m)"
    using arg_cong [OF dm, of set] by simp
  have out: "\<forall>x \<in> set ?xs. snd x \<notin> shard_dst d ` set (tm_shards m)"
    using assms(4) by (auto simp: shard_dst_def dest!: set_zip_rightD)
  note spec = stage_shards_spec [of s d ?xs env 0 r s', unfolded dsts dm, OF assms(1,2) _ out]
  have "stage_shards env d 0 ?xs s = (r, s')" using assms(5) True by (simp add: stage_shard_set_def)
  note spec = spec [OF _ this]
  have spec: "(\<forall>p. p \<notin> shard_dst d ` set (tm_shards m) \<longrightarrow> file_bytes s' p = file_bytes s p) \<and>
     (r = Ok () \<longrightarrow> (\<forall>x \<in> set ?xs. file_bytes s (snd x) \<noteq> None \<and> file_bytes s' (shard_dst d (fst x)) = file_bytes s (snd x)))"
    by (rule spec) (use assms(3) in auto)
  have keep: "file_bytes s' p = Some bs" if "file_bytes s p = Some bs" for p bs
  proof -
    have "p \<notin> shard_dst d ` set (tm_shards m)" using that assms(3) by (auto simp: file_bytes_def)
    then show ?thesis using spec that by auto
  qed
  have "file_bytes s' (shard_dst d (tm_shards m ! i)) = file_bytes s (shard_paths ! i) \<and> file_bytes s (shard_paths ! i) \<noteq> None"
    if "r = Ok ()" "i < length shard_paths" for i
  proof -
    have "(tm_shards m ! i, shard_paths ! i) \<in> set ?xs" using that(2) True by (auto simp: set_zip)
    then show ?thesis using spec that(1) by fastforce
  qed
  then have "map (file_bytes s' \<circ> shard_dst d) (tm_shards m) = map (file_bytes s) shard_paths \<and> None \<notin> set (map (file_bytes s) shard_paths)"
    if "r = Ok ()" using that True by (auto simp: in_set_conv_nth intro!: nth_equalityI) (metis option.distinct(1))
  then show ?thesis using keep by blast
qed

section \<open>A name declared twice\<close>

text \<open>
  C38. The parser accepts a manifest that declares one shard name twice, and staging then destroys an upload: the second link is
  refused, the copy that replaces it writes through the first link, and the first uploaded file ends up with the bytes of the
  second one, or empty when both are the same file.
\<close>

theorem duplicate_shard_overwrites_upload:
  assumes "tm_shards m = [n, n]" and "\<forall>k. se_mkdir env k = Ok () \<and> se_link env k = None \<and> se_copy env k = CopyCompletes"
    and "nk_names s (shard_dst d n) = None" and "nk_names s x = Some i" and "nk_names s y = Some j"
  shows "\<exists>s'. stage_shard_set env d m [x, y] s = (Ok (), s') \<and> nk_names s' x = Some i \<and>
    file_bytes s' x = Some (if i = j then [] else nk_data s j)"
proof -
  have "x \<noteq> shard_dst d n" "y \<noteq> shard_dst d n" using assms(3-5) by auto
  then show ?thesis
    using assms by (auto simp: stage_shard_set_def Let_def hard_link_def fs_copy_def write_copy_def file_bytes_def)
qed

definition demo_twice :: json where
  "demo_twice = JObject [(''weightsManifest'', JArray [JObject
     [(''paths'', JArray [JString ''weights.bin'', JString ''weights.bin'']),
      (''weights'', JArray [JObject [(''name'', JString ''w''), (''shape'', JArray [JNumber (Some 3)])]])]])]"

definition demo_twice_manifest :: tfjs_manifest where
  "demo_twice_manifest =
     \<lparr>tm_entries = [\<lparr>te_name = ''w'', te_shape = [3], te_offset_bytes = 0, te_len_bytes = 12\<rparr>], tm_shards = [''weights.bin'', ''weights.bin'']\<rparr>"

definition demo_links :: link_store where
  "demo_links = \<lparr>nk_names = [[''converters'', ''a''] \<mapsto> 0, [''converters'', ''b''] \<mapsto> 1], nk_data = (\<lambda>i. if i = 0 then [7, 8] else [9]), nk_next = 2\<rparr>"

definition demo_staging_env :: staging_env where
  "demo_staging_env = \<lparr>se_mkdir = (\<lambda>_. Ok ()), se_link = (\<lambda>_. None), se_copy = (\<lambda>_. CopyCompletes)\<rparr>"

text \<open>The first link is refused and copied, the second one too, but its copy stops after one byte.\<close>

definition demo_full_disk :: staging_env where
  "demo_full_disk = \<lparr>se_mkdir = (\<lambda>_. Ok ()), se_link = (\<lambda>_. Some (IoOther 18)),
     se_copy = (\<lambda>k. if k = 0 then CopyCompletes else CopyStops 1 (IoOther 28))\<rparr>"

theorem duplicate_shard_overwrites_upload_witness:
  "parse_tfjs_manifest_with_limits (\<lambda>_. Some demo_twice) convert_limits_default [123] = Ok demo_twice_manifest \<and>
   file_bytes demo_links [''converters'', ''a''] = Some [7, 8] \<and>
   (\<exists>s'. stage_shard_set demo_staging_env [''.tmp''] demo_twice_manifest [[''converters'', ''a''], [''converters'', ''b'']] demo_links = (Ok (), s') \<and>
      file_bytes s' [''converters'', ''a''] = Some [9])"
proof (intro conjI)
  show "parse_tfjs_manifest_with_limits (\<lambda>_. Some demo_twice) convert_limits_default [123] = Ok demo_twice_manifest" by code_simp
  show "file_bytes demo_links [''converters'', ''a''] = Some [7, 8]" by code_simp
  have "nk_names demo_links (shard_dst [''.tmp''] ''weights.bin'') = None" by code_simp
  then show "\<exists>s'. stage_shard_set demo_staging_env [''.tmp''] demo_twice_manifest [[''converters'', ''a''], [''converters'', ''b'']] demo_links = (Ok (), s') \<and>
      file_bytes s' [''converters'', ''a''] = Some [9]"
    using duplicate_shard_overwrites_upload [of demo_twice_manifest "''weights.bin''" demo_staging_env demo_links "[''.tmp'']" "[''converters'', ''a'']" 0 "[''converters'', ''b'']" 1]
    by (auto simp: demo_twice_manifest_def demo_staging_env_def demo_links_def)
qed

theorem staging_keeps_uploads_witness:
  "(\<exists>e s'. stage_shard_set demo_full_disk [''.tmp''] demo_manifest_tfjs [[''converters'', ''b''], [''converters'', ''a'']] demo_links = (Err e, s') \<and>
      file_bytes s' (shard_dst [''.tmp''] (tm_shards demo_manifest_tfjs ! 1)) = Some [7] \<and>
      file_bytes s' [''converters'', ''a''] = Some [7, 8]) \<and>
   (\<exists>s'. stage_shard_set demo_staging_env [''.tmp''] demo_manifest_tfjs [[''converters'', ''a''], [''converters'', ''b'']] demo_links = (Ok (), s') \<and>
      map (file_bytes s' \<circ> shard_dst [''.tmp'']) (tm_shards demo_manifest_tfjs) = [Some [7, 8], Some [9]])"
proof -
  let ?bad = "stage_shard_set demo_full_disk [''.tmp''] demo_manifest_tfjs [[''converters'', ''b''], [''converters'', ''a'']] demo_links"
  let ?good = "stage_shard_set demo_staging_env [''.tmp''] demo_manifest_tfjs [[''converters'', ''a''], [''converters'', ''b'']] demo_links"
  have wf: "links_wf demo_links" by (auto simp: links_wf_def demo_links_def split: if_splits)
  have dist: "distinct (map (shard_dst [''.tmp'']) (tm_shards demo_manifest_tfjs))" by code_simp
  have fresh: "\<forall>n \<in> set (tm_shards demo_manifest_tfjs). nk_names demo_links (shard_dst [''.tmp''] n) = None" by code_simp
  have off: "\<forall>p \<in> set [[''converters'', ''a''], [''converters'', ''b'']]. \<not> prefix [''.tmp''] p"
    "\<forall>p \<in> set [[''converters'', ''b''], [''converters'', ''a'']]. \<not> prefix [''.tmp''] p" by simp_all
  have bytes: "file_bytes demo_links [''converters'', ''a''] = Some [7, 8]" "file_bytes demo_links [''converters'', ''b''] = Some [9]" by code_simp+
  have ends: "isl (fst ?bad)" "file_bytes (snd ?bad) (shard_dst [''.tmp''] (tm_shards demo_manifest_tfjs ! 1)) = Some [7]"
    "fst ?good = Ok ()" by code_simp+
  have "file_bytes (snd ?bad) [''converters'', ''a''] = Some [7, 8]"
    using staging_keeps_uploads [OF wf dist fresh off(2) surjective_pairing [of ?bad]] bytes(1) by blast
  moreover have "map (file_bytes (snd ?good) \<circ> shard_dst [''.tmp'']) (tm_shards demo_manifest_tfjs) = [Some [7, 8], Some [9]]"
    using staging_keeps_uploads [OF wf dist fresh off(1) surjective_pairing [of ?good]] bytes ends(3) by simp
  ultimately show ?thesis using ends by (metis (no_types, lifting) prod.collapse sum.collapse(1))
qed

end
