(* ===== verification/Spec2Isabelle.thy ===== *)
theory Spec2Isabelle
  imports Seqlock Registry_Properties Head_Header Versioned_Swap Clock Framing Log_Truncate Rotation_Properties
    Active_Properties Mic_Properties Asset_Properties Config_Properties Streams Storage_Reaper Convert_Staging
begin

text \<open>
  A verification library for the acoustics daemon, a Rust service (\<^verbatim>\<open>src/modules\<close>) that captures audio from one
  of several microphones, classifies it with a replaceable \<^emph>\<open>head\<close> on top of a fixed backbone, and lets operators
  train, publish, activate and delete heads per workspace over HTTP.

  \<^bold>\<open>The program and its parts.\<close>  The capture thread (\<^verbatim>\<open>audio_io/mic_arbitrator.rs\<close>) picks a source
  (\<^verbatim>\<open>audio_io/source.rs\<close>), demultiplexes each period, picks the loudest channel, resamples it
  (\<^verbatim>\<open>dsp/resample.rs\<close>) and pushes the samples into a lock-free ring (\<^verbatim>\<open>audio_buffer.rs\<close>) whose readers feed
  inference and the audio streams; after each push it publishes a timing anchor (\<^verbatim>\<open>common/time.rs\<close>).  Frames leave
  the daemon length-prefixed (\<^verbatim>\<open>proto/framing.rs\<close>, \<^verbatim>\<open>stream_io/framing.rs\<close>).  The file manager
  (\<^verbatim>\<open>file_mgr\<close>) keeps workspaces on disk: every metadata file is replaced atomically (\<^verbatim>\<open>fs_atomic.rs\<close>), heads
  rotate through a two-slot index (\<^verbatim>\<open>head_rotation.rs\<close>), the deployed head is a content-addressed generation
  directory named by \<open>current.json\<close> (\<^verbatim>\<open>active_head_writer.rs\<close>), uploads bump the workspace revision before the bytes move
  (\<^verbatim>\<open>dataset.rs\<close>), deletes are announced by a tombstone, renamed aside and drained (\<^verbatim>\<open>staging.rs\<close>, \<^verbatim>\<open>registry.rs\<close>), a boot
  sweep finishes what a crash left (\<^verbatim>\<open>recovery.rs\<close>), a periodic one reaps stale temporary files (\<^verbatim>\<open>storage_reaper.rs\<close>), and a
  registry admits long jobs and leases so that a workspace delete runs alone (\<^verbatim>\<open>job_registry.rs\<close>).  The hot-swap cell of
  \<^verbatim>\<open>common/version.rs\<close> publishes the runtime head and the microphone settings to their readers.  The configuration file is
  edited through the API and watched for foreign edits (\<^verbatim>\<open>config.rs\<close>, \<^verbatim>\<open>config/watcher.rs\<close>).  An uploaded model is
  converted to a head (\<^verbatim>\<open>converter.rs\<close>), and WebSocket and local-socket clients subscribe to the streams
  (\<^verbatim>\<open>stream_io.rs\<close>).

  \<^bold>\<open>Which theory models which part.\<close>
  \<^item> \<open>Prelude\<close>: machine types, Rust's \<open>Result\<close> as a sum, \<open>run\<close> for code that may panic, shared list lemmas.
  \<^item> \<open>Errors\<close>, \<open>Ids\<close>, \<open>Asset_Path\<close>, \<open>Workspace_Types\<close>: \<^verbatim>\<open>common/error.rs\<close>, \<^verbatim>\<open>ids.rs\<close>, \<^verbatim>\<open>hex.rs\<close>, \<^verbatim>\<open>asset_path.rs\<close>,
    \<^verbatim>\<open>workspace.rs\<close>.  The locale \<open>validated_text\<close> is the contract of every validated newtype and is
    interpreted for asset ids, microphone ids and asset paths.
  \<^item> \<open>Head_Header\<close>, \<open>Versioned_Swap\<close>, \<open>Clock\<close>, \<open>Log_Truncate\<close>: the remaining parts of \<^verbatim>\<open>common\<close>.  The locale
    \<open>hot_cell\<close> is what the readers and writers of a hot-swap cell rely on.
  \<^item> \<open>Framing\<close>: encoder, reader and envelopes; the locale \<open>frame_codec\<close> gives the stream theorems.
  \<^item> \<open>Audio_Buffer\<close>: the ring with its assertions as panics and the refinement to the stream of all pushed samples
    (locale \<open>sample_source\<close>).  \<open>Seqlock\<close>: the same push and peek taken apart into single memory accesses, as an
    inductive step relation.
  \<^item> \<open>Mic_Types\<close>, \<open>Mic_Source\<close>, \<open>Resample\<close>, \<open>Mic_Arbitrator\<close>, \<open>Mic_Properties\<close>: the capture path.
  \<^item> \<open>Job_Registry\<close>, \<open>Registry_Invariants\<close>, \<open>Registry_Properties\<close>: the registry, its invariant over the step relation
    of all its operations, and what its clients rely on (locale \<open>workspace_gate\<close>).
  \<^item> \<open>Disk\<close>, \<open>Disk_Logic\<close>, \<open>Disk_Wf\<close>: the file system as far as the sources use \<^verbatim>\<open>std::fs\<close>, a logic for programs over
    it, and that every call keeps the tree a tree.
    \<open>Fs_Atomic\<close>, \<open>Schema\<close>, \<open>Head_Rotation\<close>, \<open>Rotation_Properties\<close>, \<open>Active_Head\<close>, \<open>Active_Staging\<close>,
    \<open>Active_Properties\<close>: the file manager on top of it.
  \<^item> \<open>Staging\<close>, \<open>Staging_Properties\<close>, \<open>Staging_Crash\<close>: deletes and their states on disk.  \<open>Recovery\<close>,
    \<open>Recovery_Staging\<close>: the boot sweeps.  \<open>Assets\<close>, \<open>Workspaces\<close>: \<^verbatim>\<open>dataset.rs\<close> and \<^verbatim>\<open>registry.rs\<close>.
    \<open>Delete_Properties\<close>, \<open>Asset_Properties\<close>: what a delete and an upload leave when they are cut off.  \<open>Storage_Reaper\<close>:
    the periodic sweep.
  \<^item> \<open>Config_Store\<close>, \<open>Config_Properties\<close>: the configuration file, its watcher, the two requests that edit it and the live
    cells behind it.  \<open>Requests\<close>: \<^verbatim>\<open>request_payload.rs\<close>.  \<open>Launch_Config\<close>: \<^verbatim>\<open>config/launch.rs\<close>, \<^verbatim>\<open>config/domain.rs\<close> and the
    backbone catalogue.
  \<^item> \<open>Streams\<close>: admission, sessions and the local socket of \<^verbatim>\<open>stream_io.rs\<close>.
  \<^item> \<open>Converter\<close>, \<open>Converter_Properties\<close>: the manifest parser and the head extractors of \<^verbatim>\<open>converter.rs\<close> and
    \<^verbatim>\<open>converter/source.rs\<close>.  \<open>Convert_Staging\<close>: the hard-link staging of a convert job on a store in which names share files.

  \<^bold>\<open>State and effects.\<close>  A Rust struct is a record, an enum a datatype, a \<open>Result\<close> a sum with the error on the
  left, a panic the value \<open>Panic\<close> of \<open>run\<close>.  Unsigned machine integers are \<open>nat\<close> with the
  bound or the wrap-around written where the code reaches it, and words where the code works bitwise.  The disk is a
  record of a tree, a list of faults and a trace: every file-system call consumes one entry of the fault list and
  may fail there with any error, and the trace lists every tree the disk has gone through, also between the
  writes of a partly finished call, so a statement about all the states of the trace is a statement about a crash
  at any point.  Clock readings, the choice of fresh temporary names and the answers of devices are inputs.

  \<^bold>\<open>Parameters.\<close>  Code outside the repository is an argument of the definitions that use it: the JSON codec
  (\<open>serde\<close>, with the round trip as its named hypothesis), SHA-256 (a function, no hypothesis), the UUID parser,
  protobuf message codecs, the rubato chunk resampler (\<open>fixed_input\<close>: a positive constant input length, no failure on a
  full chunk; \<open>accepts_positive\<close>: construction is refused for a rate of zero at most), the ALSA device (any answer at each call), floating-point arithmetic (\<open>fpu\<close>: any functions on bit
  patterns; only comparison is fixed), the TOML and tombstone codecs (with their round trips), Unicode lower-casing, the
  text view of HTTP header values, the runtime loader of backbones, the recorder of head tensors, the parser of
  uploaded JSON, and modification times.  The broadcast channel of the streams appears as the events it delivers.  Each theorem with such a hypothesis has a witness at a concrete instance.

  \<^bold>\<open>What is shown.\<close>
  \<^item> Durability: at every crash point \<open>heads.json\<close> lists only heads whose files are complete, \<open>current.json\<close> names only
    complete generations, a metadata file holds its old or its new content; a successful publish puts the head first.
  \<^item> Deletes and uploads: a workspace delete killed at any step, its drain and its last removals included, is finished by the next
    boot; draining ends; no state of an
    upload shows new bytes under an old revision; the reaper removes nothing but aged temporary entries and logs.
  \<^item> Configuration: file, snapshot and live cells agree through every history of requests, reloads and foreign edits.
  \<^item> Conversion: reading shard by shard equals reading the concatenation, the weights are the uploaded bytes, accepted
    manifests are bounded, and staging keeps the uploads, whichever links and copies fail, unless a manifest names a shard
    twice.
  \<^item> Concurrency: in every interleaving of writer and reader accesses a peek reported ready holds
    exactly the pushed samples; the registry never exceeds its caps, runs a workspace delete alone and keeps leases.
  \<^item> Capture: the thread never aborts while devices negotiate a positive rate and a period within the ring margin (a rate
    of zero, which nothing refuses, aborts it: \<open>zero_rate_aborts\<close>); it keeps to its policy, paces switches and warnings, and
    finishes a fail-over, though possibly on the microphone that was silent; the resampler's output does not depend on how
    its input is split.
  \<^item> Protocols and formats: framing and artifact round trips, prefix delivery of cut streams, corruption detection,
    CRC equivalence, validators characterised exactly.

  \<^bold>\<open>Bounds and termination.\<close>  Loops are structural recursion over lists wherever the source iterates over a
  collection.  The resampler loop is a partial function whose return is proved under the resampler's contract.
  The frame receive loop takes as fuel the number of frames and is proved to end within the length of the
  input.  The capture loop runs over a finite list of iterations, one environment each, and the theorems quantify
  over every such list.  Draining a staged payload runs in batches of 256 entries, at most a million of them at boot as in the
  source; the unbounded drain of a request is a partial function that is proved to return on every disk.

  \<^bold>\<open>Limits of the model.\<close>  Memory accesses interleave sequentially consistently: reorderings of weakly ordered
  hardware are outside the model (the writer has no release fence between its head store and the cell
  stores of the next push).  The disk applies calls in program order: a power loss that reorders
  writes not yet synced is outside the model.  Concurrent threads on the disk are modelled as whole operations in
  sequence, which the per-workspace lock of the code enforces.

  \<^bold>\<open>Not modelled.\<close>  Neural-network arithmetic and the accelerator bindings (\<^verbatim>\<open>inference\<close>, \<^verbatim>\<open>rknn_runtime\<close>,
  \<^verbatim>\<open>training/finetune.rs\<close>, \<^verbatim>\<open>preproc.rs\<close>) are floating-point kernels and foreign calls, the Opus encoder
  (\<^verbatim>\<open>opus_stream.rs\<close>) likewise; the HTTP routing layer (\<^verbatim>\<open>api\<close>) is input and output around the
  modelled operations, except for the active-head and inference requests, which are modelled; process start-up and
  shutdown (\<^verbatim>\<open>daemon\<close>) wires the parts together, of which the reload callback and the boot of the configuration are
  modelled.  Of the convert job only the staging and the extraction are modelled, not its log and its final publish, which
  is the publish of \<open>Head_Rotation\<close>.
\<close>

end
